(* ===== verification/Prelude.thy ===== *)
theory Prelude
  imports Main "HOL-Library.Code_Target_Numeral" "HOL-Library.Word" "HOL-Library.AList" "HOL-Library.Multiset"
begin

section \<open>What the components share\<close>

text \<open>
  The types and lemmas every component of the model uses: Go's errors, its 64-bit integers,
  results that are an error or a value, string headers, and a few facts on lists.

  A Go string is a sequence of bytes, so it is a HOL \<open>string\<close>: a \<open>char\<close> is one
  byte. An \<open>int64\<close> or \<open>int\<close> is an \<open>int\<close> whose arithmetic is followed
  by \<open>i64\<close> wherever the code may overflow.
\<close>

unbundle bit_operations_syntax

named_theorems go_defs \<open>definitions of operations that a whole component unfolds\<close>
named_theorems frame \<open>what an operation leaves as it was\<close>

subsection \<open>Errors and results\<close>

text \<open>
  A Go error as the code looks at it: its text, the status code and body it has when it is
  an \<open>HTTPError\<close> (\<open>errors.As\<close>), and whether it is a \<open>net.Error\<close> that
  timed out.
\<close>

record go_error =
  err_msg :: string
  err_http :: "(int \<times> string) option"
  err_timeout :: bool

definition new_error :: "string \<Rightarrow> go_error" where
  "new_error m = \<lparr>err_msg = m, err_http = None, err_timeout = False\<rparr>"

type_synonym 'a res = "go_error + 'a"

definition is_ok :: "'a res \<Rightarrow> bool" where
  "is_ok r = (case r of Inl _ \<Rightarrow> False | Inr _ \<Rightarrow> True)"

lemma is_ok_simps [simp]: "is_ok (Inr x)" "\<not> is_ok (Inl e)"
  by (simp_all add: is_ok_def)

lemma is_okE: "is_ok r \<Longrightarrow> (\<And>x. r = Inr x \<Longrightarrow> P) \<Longrightarrow> P"
  by (cases r) simp_all

subsection \<open>64-bit integers\<close>

definition i64 :: "int \<Rightarrow> int" where
  "i64 x = (x + 2 ^ 63) mod 2 ^ 64 - 2 ^ 63"

definition MaxInt64 :: int where
  "MaxInt64 = 9223372036854775807"

definition in_i64 :: "int \<Rightarrow> bool" where
  "in_i64 x \<longleftrightarrow> - (2 ^ 63) \<le> x \<and> x < 2 ^ 63"

lemma i64_id [simp]: "in_i64 x \<Longrightarrow> i64 x = x"
  by (simp add: in_i64_def i64_def)

lemma in_i64_i64 [simp]: "in_i64 (i64 x)"
  by (simp add: in_i64_def i64_def)

lemma in_i64_nonneg: "0 \<le> x \<Longrightarrow> x \<le> MaxInt64 \<Longrightarrow> in_i64 x"
  by (simp add: in_i64_def MaxInt64_def)

lemma in_i64_MaxInt64 [simp]: "in_i64 x \<Longrightarrow> x \<le> MaxInt64"
  by (simp add: in_i64_def MaxInt64_def)

lemma i64_i64 [simp]: "i64 (i64 x) = i64 x"
  by simp

lemma i64_0 [simp]: "i64 0 = 0"
  by (simp add: in_i64_def)

lemma i64_add [simp]: "i64 (i64 x + y) = i64 (x + y)"
proof -
  have "i64 x + y + 2 ^ 63 = (x + 2 ^ 63) mod 2 ^ 64 + y" by (simp add: i64_def)
  then show ?thesis by (simp only: i64_def [of "i64 x + y"] i64_def [of "x + y"] mod_add_left_eq) (simp add: ac_simps)
qed

lemma i64_add2 [simp]: "i64 (y + i64 x) = i64 (y + x)"
  using i64_add [of x y] by (simp add: add.commute)

lemma i64_diff [simp]: "i64 (i64 x - y) = i64 (x - y)"
  using i64_add [of x "- y"] by simp

subsection \<open>Strings\<close>

fun has_prefix :: "string \<Rightarrow> string \<Rightarrow> bool" where
  "has_prefix [] s = True"
| "has_prefix (p # ps) [] = False"
| "has_prefix (p # ps) (c # cs) = (p = c \<and> has_prefix ps cs)"

lemma has_prefix_iff: "has_prefix p s \<longleftrightarrow> (\<exists>t. s = p @ t)"
  by (induction p s rule: has_prefix.induct) auto

lemma has_prefix_append [simp]: "has_prefix p (p @ s)"
  by (induction p) auto

definition has_suffix :: "string \<Rightarrow> string \<Rightarrow> bool" where
  "has_suffix p s = has_prefix (rev p) (rev s)"

lemma has_suffix_iff: "has_suffix p s \<longleftrightarrow> (\<exists>t. s = t @ p)"
  unfolding has_suffix_def has_prefix_iff by (metis rev_append rev_rev_ident)

text \<open>\<open>strings.Split\<close> with a one-byte separator: always at least one part.\<close>

fun split_on :: "char \<Rightarrow> string \<Rightarrow> string list" where
  "split_on d [] = [[]]"
| "split_on d (c # cs) =
     (if c = d then [] # split_on d cs
      else (case split_on d cs of [] \<Rightarrow> [[c]] | p # ps \<Rightarrow> (c # p) # ps))"

lemma split_on_ne [simp]: "split_on d s \<noteq> []"
  by (induction s) (auto split: list.splits)

lemma split_on_no_sep [simp]: "d \<notin> set s \<Longrightarrow> split_on d s = [s]"
  by (induction s) auto

lemma split_on_append [simp]: "d \<notin> set p \<Longrightarrow> split_on d (p @ d # s) = p # split_on d s"
  by (induction p) auto

lemma split_on_parts: "p \<in> set (split_on d s) \<Longrightarrow> d \<notin> set p"
proof (induction s arbitrary: p)
  case Nil
  then show ?case by simp
next
  case (Cons c cs)
  then show ?case
    by (cases "split_on d cs") (auto split: if_splits)
qed

text \<open>\<open>strings.Join\<close> with a one-byte separator.\<close>

fun join_with :: "char \<Rightarrow> string list \<Rightarrow> string" where
  "join_with d [] = []"
| "join_with d [p] = p"
| "join_with d (p # ps) = p @ d # join_with d ps"

lemma join_with_Cons [simp]: "ps \<noteq> [] \<Longrightarrow> join_with d (p # ps) = p @ d # join_with d ps"
  by (cases ps) auto

lemma split_join:
  "ps \<noteq> [] \<Longrightarrow> (\<And>p. p \<in> set ps \<Longrightarrow> d \<notin> set p) \<Longrightarrow> split_on d (join_with d ps) = ps"
proof (induction ps)
  case Nil
  then show ?case by simp
next
  case (Cons p ps)
  then show ?case by (cases "ps = []") auto
qed

lemma join_split [simp]: "join_with d (split_on d s) = s"
proof (induction s)
  case Nil
  then show ?case by simp
next
  case (Cons c cs)
  then show ?case
    by (cases "split_on d cs"; cases "tl (split_on d cs)") (auto simp: split_on_ne)
qed

subsection \<open>Headers of requests and responses\<close>

text \<open>
  \<open>http.Header\<close> maps a name to its values; \<open>Get\<close> is the first value or the empty
  string, \<open>Set\<close> replaces, \<open>Add\<close> appends.
\<close>

type_synonym header = "string \<Rightarrow> string list"

definition hget :: "header \<Rightarrow> string \<Rightarrow> string" where
  "hget h k = (case h k of [] \<Rightarrow> [] | v # _ \<Rightarrow> v)"

definition hset :: "string \<Rightarrow> string \<Rightarrow> header \<Rightarrow> header" where
  "hset k v h = h(k := [v])"

definition hadd :: "string \<Rightarrow> string \<Rightarrow> header \<Rightarrow> header" where
  "hadd k v h = h(k := h k @ [v])"

lemma hget_hset: "hget (hset k v h) k' = (if k' = k then v else hget h k')"
  by (simp add: hget_def hset_def)

lemma hget_hadd_other: "k' \<noteq> k \<Longrightarrow> hget (hadd k v h) k' = hget h k'"
  by (simp add: hget_def hadd_def)

lemma hget_hadd: "hget (hadd k v h) k = (if h k = [] then v else hget h k)"
  by (cases "h k") (simp_all add: hget_def hadd_def)

end
