(* ===== verification/GoStr.thy ===== *)
theory GoStr
  imports Prelude
begin

section \<open>The parts of Go's strings and strconv the code uses\<close>

text \<open>
  \<open>strconv.FormatInt\<close> and \<open>strconv.ParseInt\<close> in base 10 for 64-bit integers (and
  \<open>strconv.Atoi\<close>, which is the same function on a 64-bit machine), \<open>strings.TrimSpace\<close>,
  \<open>unicode/utf8.DecodeRune\<close>, and a leftmost search, which is what the package's regular
  expressions without an anchor do.
\<close>

subsection \<open>Decimal numbers\<close>

definition digit_char :: "nat \<Rightarrow> char" where
  "digit_char n = char_of (48 + n)"

definition digit_val :: "char \<Rightarrow> nat option" where
  "digit_val c = (let n = of_char c :: nat in if 48 \<le> n \<and> n \<le> 57 then Some (n - 48) else None)"

lemma digit_val_char [simp]: "n < 10 \<Longrightarrow> digit_val (digit_char n) = Some n"
  by (simp add: digit_val_def digit_char_def Let_def)

lemma digit_char_val: "digit_val c = Some n \<Longrightarrow> digit_char n = c"
  by (auto simp: digit_val_def digit_char_def Let_def split: if_splits)

lemma digit_val_less: "digit_val c = Some n \<Longrightarrow> n < 10"
  by (auto simp: digit_val_def Let_def split: if_splits)

fun nat_digits :: "nat \<Rightarrow> string" where
  "nat_digits n = (if n < 10 then [digit_char n] else nat_digits (n div 10) @ [digit_char (n mod 10)])"

declare nat_digits.simps [simp del]

fun parse_digits :: "nat \<Rightarrow> string \<Rightarrow> nat option" where
  "parse_digits acc [] = Some acc"
| "parse_digits acc (c # cs) =
     (case digit_val c of None \<Rightarrow> None | Some d \<Rightarrow> parse_digits (10 * acc + d) cs)"

lemma parse_digits_append:
  "parse_digits acc (xs @ ys) = Option.bind (parse_digits acc xs) (\<lambda>a. parse_digits a ys)"
  by (induction acc xs rule: parse_digits.induct) (auto split: option.splits)

lemma parse_nat_digits: "parse_digits 0 (nat_digits n) = Some n"
proof (induction n rule: nat_digits.induct)
  case (1 n)
  then show ?case
    by (subst nat_digits.simps) (simp add: parse_digits_append)
qed

lemma nat_digits_ne [simp]: "nat_digits n \<noteq> []"
  by (subst nat_digits.simps) simp

lemma nat_digits_hd: "digit_val (hd (nat_digits n)) \<noteq> None"
proof (induction n rule: nat_digits.induct)
  case (1 n)
  then show ?case
    by (subst nat_digits.simps) simp
qed

definition FormatInt :: "int \<Rightarrow> string" where
  "FormatInt n = (if n < 0 then CHR ''-'' # nat_digits (nat (- n)) else nat_digits (nat n))"

text \<open>\<open>ParseInt(s, 10, 64)\<close>: \<open>None\<close> is the syntax or the range error.\<close>

definition ParseInt :: "string \<Rightarrow> int option" where
  "ParseInt s =
     (let neg = (s \<noteq> [] \<and> hd s = CHR ''-'');
          ds = (if s \<noteq> [] \<and> (hd s = CHR ''-'' \<or> hd s = CHR ''+'') then tl s else s)
      in if ds = [] then None
         else case parse_digits 0 ds of
                None \<Rightarrow> None
              | Some n \<Rightarrow>
                  (if neg then (if int n \<le> 2 ^ 63 then Some (- int n) else None)
                   else (if int n < 2 ^ 63 then Some (int n) else None)))"

lemma ParseInt_range: "ParseInt s = Some n \<Longrightarrow> in_i64 n"
  by (auto simp: ParseInt_def Let_def in_i64_def split: option.splits if_splits)

lemma ParseInt_le_Max: "ParseInt s = Some n \<Longrightarrow> n \<le> MaxInt64"
  by (drule ParseInt_range) simp

lemma digit_val_sign [simp]: "digit_val (CHR ''-'') = None" "digit_val (CHR ''+'') = None"
  by (simp_all add: digit_val_def)

lemma ParseInt_FormatInt: "in_i64 n \<Longrightarrow> ParseInt (FormatInt n) = Some n"
proof (cases "n < 0")
  case True
  assume "in_i64 n"
  with True show ?thesis
    by (simp add: ParseInt_def FormatInt_def parse_nat_digits in_i64_def)
next
  case False
  assume r: "in_i64 n"
  have "hd (nat_digits (nat n)) \<noteq> CHR ''-''" "hd (nat_digits (nat n)) \<noteq> CHR ''+''"
    using nat_digits_hd [of "nat n"] by auto
  with False r show ?thesis
    by (simp add: ParseInt_def FormatInt_def parse_nat_digits in_i64_def)
qed

lemma FormatInt_ne [simp]: "FormatInt n \<noteq> []"
  by (simp add: FormatInt_def)

subsection \<open>Runes\<close>

text \<open>
  \<open>utf8.DecodeRune\<close>: the first rune of a byte string and the bytes after it. An invalid
  encoding is the rune U+FFFD of width one.
\<close>

definition RuneError :: nat where "RuneError = 65533"

definition cont_byte :: "nat \<Rightarrow> bool" where
  "cont_byte b \<longleftrightarrow> 128 \<le> b \<and> b \<le> 191"

definition rune2 :: "nat \<Rightarrow> nat list \<Rightarrow> nat option" where
  "rune2 b0 bs = (case bs of b1 # _ \<Rightarrow>
     if 194 \<le> b0 \<and> b0 \<le> 223 \<and> cont_byte b1 then Some ((b0 - 192) * 64 + (b1 - 128)) else None
   | _ \<Rightarrow> None)"

definition rune3 :: "nat \<Rightarrow> nat list \<Rightarrow> nat option" where
  "rune3 b0 bs = (case bs of b1 # b2 # _ \<Rightarrow>
     if 224 \<le> b0 \<and> b0 \<le> 239 \<and> cont_byte b1 \<and> cont_byte b2
        \<and> (b0 = 224 \<longrightarrow> 160 \<le> b1) \<and> (b0 = 237 \<longrightarrow> b1 \<le> 159)
     then Some ((b0 - 224) * 4096 + (b1 - 128) * 64 + (b2 - 128)) else None
   | _ \<Rightarrow> None)"

definition rune4 :: "nat \<Rightarrow> nat list \<Rightarrow> nat option" where
  "rune4 b0 bs = (case bs of b1 # b2 # b3 # _ \<Rightarrow>
     if 240 \<le> b0 \<and> b0 \<le> 244 \<and> cont_byte b1 \<and> cont_byte b2 \<and> cont_byte b3
        \<and> (b0 = 240 \<longrightarrow> 144 \<le> b1) \<and> (b0 = 244 \<longrightarrow> b1 \<le> 143)
     then Some ((b0 - 240) * 262144 + (b1 - 128) * 4096 + (b2 - 128) * 64 + (b3 - 128)) else None
   | _ \<Rightarrow> None)"

fun decode_rune :: "string \<Rightarrow> (nat \<times> nat) option" where
  "decode_rune [] = None"
| "decode_rune (c # cs) =
     (let b0 = of_char c; bs = map of_char (take 3 cs) in
      if b0 < 128 then Some (b0, 1)
      else case rune2 b0 bs of Some r \<Rightarrow> Some (r, 2)
      | None \<Rightarrow> (case rune3 b0 bs of Some r \<Rightarrow> Some (r, 3)
      | None \<Rightarrow> (case rune4 b0 bs of Some r \<Rightarrow> Some (r, 4)
      | None \<Rightarrow> Some (RuneError, 1))))"

lemma decode_rune_width: "decode_rune s = Some (r, w) \<Longrightarrow> 0 < w \<and> 0 < length s"
  by (cases s) (auto simp: Let_def split: if_splits option.splits)

text \<open>What \<open>for _, r := range s\<close> sees: the runes of a string, in order.\<close>

function runes :: "string \<Rightarrow> nat list" where
  "runes s = (case decode_rune s of None \<Rightarrow> [] | Some (r, w) \<Rightarrow> r # runes (drop w s))"
  by pat_completeness auto
termination
  by (relation "measure length") (auto dest!: decode_rune_width)

declare runes.simps [simp del]

lemma runes_Nil [simp]: "runes [] = []"
  by (simp add: runes.simps)

lemma runes_ascii: "\<forall>c \<in> set s. of_char c < (128::nat) \<Longrightarrow> runes s = map of_char s"
  by (induction s) (simp_all add: runes.simps [of "_ # _"] Let_def)

text \<open>\<open>utf8.EncodeRune\<close>: the bytes of a rune.\<close>

definition utf8_encode :: "nat \<Rightarrow> string" where
  "utf8_encode r =
     (if r < 128 then [char_of r]
      else if r < 2048 then [char_of (192 + r div 64), char_of (128 + r mod 64)]
      else if r < 65536 then
        [char_of (224 + r div 4096), char_of (128 + r div 64 mod 64), char_of (128 + r mod 64)]
      else [char_of (240 + r div 262144), char_of (128 + r div 4096 mod 64),
        char_of (128 + r div 64 mod 64), char_of (128 + r mod 64)])"

subsection \<open>White space\<close>

text \<open>
  The encodings of the runes for which \<open>unicode.IsSpace\<close> holds: six ASCII characters,
  U+0085, U+00A0, U+1680, U+2000 to U+200A, U+2028, U+2029, U+202F, U+205F and U+3000.
\<close>

definition space_codes :: "nat list list" where
  "space_codes = [[9], [10], [11], [12], [13], [32], [194, 133], [194, 160], [225, 154, 128],
     [226, 128, 128], [226, 128, 129], [226, 128, 130], [226, 128, 131], [226, 128, 132],
     [226, 128, 133], [226, 128, 134], [226, 128, 135], [226, 128, 136], [226, 128, 137],
     [226, 128, 138], [226, 128, 168], [226, 128, 169], [226, 128, 175], [226, 129, 159],
     [227, 128, 128]]"

definition space_seqs :: "string list" where
  "space_seqs = map (map char_of) space_codes"

text \<open>Strip the sequences of a list from the front of a string for as long as one is there.\<close>

function strip :: "string list \<Rightarrow> string \<Rightarrow> string" where
  "strip ws s = (case find (\<lambda>w. w \<noteq> [] \<and> has_prefix w s) ws of
     None \<Rightarrow> s | Some w \<Rightarrow> strip ws (drop (length w) s))"
  by pat_completeness auto
termination
  by (relation "measure (\<lambda>(ws, s). length s)")
     (auto simp: find_Some_iff has_prefix_iff)

declare strip.simps [simp del]

definition TrimLeft :: "string \<Rightarrow> string" where
  "TrimLeft s = strip space_seqs s"

definition TrimRight :: "string \<Rightarrow> string" where
  "TrimRight s = rev (strip (map rev space_seqs) (rev s))"

definition TrimSpace :: "string \<Rightarrow> string" where
  "TrimSpace s = TrimRight (TrimLeft s)"

definition starts_space :: "string list \<Rightarrow> string \<Rightarrow> bool" where
  "starts_space ws s \<longleftrightarrow> (\<exists>w \<in> set ws. w \<noteq> [] \<and> has_prefix w s)"

lemma strip_step: "starts_space ws s \<Longrightarrow> \<exists>w. w \<in> set ws \<and> w \<noteq> [] \<and> has_prefix w s
    \<and> strip ws s = strip ws (drop (length w) s)"
proof -
  assume "starts_space ws s"
  then obtain w where f: "find (\<lambda>w. w \<noteq> [] \<and> has_prefix w s) ws = Some w"
    unfolding starts_space_def by (metis (mono_tags, lifting) find_None_iff option.exhaust)
  then have "w \<in> set ws \<and> w \<noteq> [] \<and> has_prefix w s"
    by (auto simp: find_Some_iff)
  with f show ?thesis by (auto simp: strip.simps [of ws s])
qed

lemma strip_done: "\<not> starts_space ws s \<Longrightarrow> strip ws s = s"
proof -
  assume "\<not> starts_space ws s"
  then have "find (\<lambda>w. w \<noteq> [] \<and> has_prefix w s) ws = None"
    by (auto simp: starts_space_def find_None_iff)
  then show ?thesis by (simp add: strip.simps [of ws s])
qed

lemma strip_clean: "\<not> starts_space ws (strip ws s)"
proof (induction s rule: length_induct)
  case (1 s)
  show ?case
  proof (cases "starts_space ws s")
    case True
    then obtain w where w: "w \<noteq> []" "has_prefix w s" "strip ws s = strip ws (drop (length w) s)"
      using strip_step by blast
    then have "length (drop (length w) s) < length s"
      by (auto simp: has_prefix_iff)
    with 1 w show ?thesis by auto
  next
    case False
    then show ?thesis by (simp add: strip_done)
  qed
qed

lemma strip_suffix: "\<exists>p. s = p @ strip ws s"
proof (induction s rule: length_induct)
  case (1 s)
  show ?case
  proof (cases "starts_space ws s")
    case True
    then obtain w where w: "w \<noteq> []" "has_prefix w s" "strip ws s = strip ws (drop (length w) s)"
      using strip_step by blast
    then obtain t where t: "s = w @ t" by (auto simp: has_prefix_iff)
    with 1 w obtain p where "t = p @ strip ws t" by fastforce
    with t w show ?thesis by (intro exI [of _ "w @ p"]) simp
  next
    case False
    then show ?thesis by (simp add: strip_done)
  qed
qed

definition starts_clean :: "string \<Rightarrow> bool" where
  "starts_clean s \<longleftrightarrow> \<not> starts_space space_seqs s"

definition ends_clean :: "string \<Rightarrow> bool" where
  "ends_clean s \<longleftrightarrow> \<not> starts_space (map rev space_seqs) (rev s)"

lemma TrimSpace_clean [simp]: "starts_clean s \<Longrightarrow> ends_clean s \<Longrightarrow> TrimSpace s = s"
  by (simp add: TrimSpace_def TrimLeft_def TrimRight_def starts_clean_def ends_clean_def strip_done)

lemma ends_clean_TrimSpace: "ends_clean (TrimSpace s)"
  by (simp add: TrimSpace_def TrimRight_def ends_clean_def strip_clean)

lemma TrimRight_prefix: "\<exists>q. s = TrimRight s @ q"
proof -
  obtain p where "rev s = p @ strip (map rev space_seqs) (rev s)"
    using strip_suffix by blast
  then have "s = rev (strip (map rev space_seqs) (rev s)) @ rev p"
    by (metis rev_append rev_rev_ident)
  then show ?thesis by (auto simp: TrimRight_def)
qed

lemma starts_clean_prefix: "starts_clean (p @ q) \<Longrightarrow> starts_clean p"
  by (auto simp: starts_clean_def starts_space_def has_prefix_iff)

lemma starts_clean_TrimSpace: "starts_clean (TrimSpace s)"
proof -
  obtain q where "TrimLeft s = TrimRight (TrimLeft s) @ q" using TrimRight_prefix by blast
  moreover have "starts_clean (TrimLeft s)"
    by (simp add: TrimLeft_def starts_clean_def strip_clean)
  ultimately show ?thesis
    unfolding TrimSpace_def by (metis starts_clean_prefix)
qed

lemma TrimSpace_idem [simp]: "TrimSpace (TrimSpace s) = TrimSpace s"
  by (simp add: starts_clean_TrimSpace ends_clean_TrimSpace)

subsection \<open>Leftmost search\<close>

text \<open>
  \<open>FindStringSubmatch\<close> of an unanchored expression: the leftmost position at which the
  matcher succeeds, and the group it returns.
\<close>

fun search :: "(string \<Rightarrow> 'a option) \<Rightarrow> string \<Rightarrow> 'a option" where
  "search m [] = m []"
| "search m (c # cs) = (case m (c # cs) of Some r \<Rightarrow> Some r | None \<Rightarrow> search m cs)"

end
