(* ===== verification/Codec.thy ===== *)
theory Codec
  imports GoStr
begin

section \<open>The text encodings the code uses\<close>

text \<open>
  \<open>encoding/base64\<close> with padding (standard and URL alphabets), \<open>encoding/hex\<close> and
  \<open>url.QueryEscape\<close> with \<open>url.QueryUnescape\<close>, each with its round trip. Decoders
  return \<open>None\<close> for Go's error.
\<close>

abbreviation byte_of :: "char \<Rightarrow> nat" where
  "byte_of c \<equiv> of_char c"

lemma byte_of_less [simp]: "byte_of c < 256"
  using of_char_of [of "of_char c :: nat"] by (metis char_of_char of_char_of mod_less_divisor zero_less_numeral)

subsection \<open>Numbers as digits and as bytes\<close>

text \<open>\<open>k\<close> digits of a number to a base, the most significant first.\<close>

primrec to_digits :: "nat \<Rightarrow> nat \<Rightarrow> nat \<Rightarrow> nat list" where
  "to_digits b 0 n = []"
| "to_digits b (Suc k) n = to_digits b k (n div b) @ [n mod b]"

definition from_digits :: "nat \<Rightarrow> nat list \<Rightarrow> nat" where
  "from_digits b ds = foldl (\<lambda>n d. b * n + d) 0 ds"

lemma from_digits_simps [simp]:
  "from_digits b [] = 0" "from_digits b (ds @ [d]) = b * from_digits b ds + d"
  by (simp_all add: from_digits_def)

lemma length_to_digits [simp]: "length (to_digits b k n) = k"
  by (induction k arbitrary: n) simp_all

lemma to_digits_less: "0 < b \<Longrightarrow> d \<in> set (to_digits b k n) \<Longrightarrow> d < b"
  by (induction k arbitrary: n) auto

lemma from_to_digits: "n < b ^ k \<Longrightarrow> from_digits b (to_digits b k n) = n"
proof (induction k arbitrary: n)
  case 0
  then show ?case by simp
next
  case (Suc k)
  then have "n div b < b ^ k" by (simp add: less_mult_imp_div_less mult.commute)
  with Suc.IH show ?case by simp
qed

lemma from_digits_less: "\<forall>d \<in> set ds. d < b \<Longrightarrow> from_digits b ds < b ^ length ds"
proof (induction ds rule: rev_induct)
  case Nil
  then show ?case by simp
next
  case (snoc d ds)
  then have "Suc (from_digits b ds) \<le> b ^ length ds" and d: "d < b" by simp_all
  then have "b * Suc (from_digits b ds) \<le> b * b ^ length ds" by (intro mult_le_mono2)
  with d show ?case by simp
qed

lemma to_from_digits: "\<forall>d \<in> set ds. d < b \<Longrightarrow> to_digits b (length ds) (from_digits b ds) = ds"
  by (induction ds rule: rev_induct) simp_all

definition be_bytes :: "nat \<Rightarrow> nat \<Rightarrow> string" where
  "be_bytes k n = map char_of (to_digits 256 k n)"

definition nat_of_bytes :: "string \<Rightarrow> nat" where
  "nat_of_bytes s = from_digits 256 (map of_char s)"

lemma length_be_bytes [simp]: "length (be_bytes k n) = k"
  by (simp add: be_bytes_def)

lemma nat_of_bytes_less: "nat_of_bytes s < 256 ^ length s"
  using from_digits_less [of "map of_char s" 256] by (auto simp: nat_of_bytes_def)

lemma be_nat_of_bytes [simp]: "be_bytes (length s) (nat_of_bytes s) = s"
  using to_from_digits [of "map of_char s" 256] by (simp add: be_bytes_def nat_of_bytes_def map_idI)

lemma nat_of_be_bytes: "n < 256 ^ k \<Longrightarrow> nat_of_bytes (be_bytes k n) = n"
proof -
  have "map (\<lambda>d. of_char (char_of d :: char)) (to_digits 256 k n) = to_digits 256 k n"
    using to_digits_less [of 256] by (intro map_idI) simp
  then show "n < 256 ^ k \<Longrightarrow> nat_of_bytes (be_bytes k n) = n"
    by (simp add: be_bytes_def nat_of_bytes_def comp_def from_to_digits)
qed

subsection \<open>Alphabets\<close>

definition b64_std :: string where
  "b64_std = ''ABCDEFGHIJKLMNOPQRSTUVWXYZabcdefghijklmnopqrstuvwxyz0123456789+/''"

definition b64_url :: string where
  "b64_url = ''ABCDEFGHIJKLMNOPQRSTUVWXYZabcdefghijklmnopqrstuvwxyz0123456789-_''"

fun index_of :: "char \<Rightarrow> string \<Rightarrow> nat option" where
  "index_of c [] = None"
| "index_of c (a # as) = (if a = c then Some 0 else map_option Suc (index_of c as))"

lemma index_of_nth: "distinct as \<Longrightarrow> n < length as \<Longrightarrow> index_of (as ! n) as = Some n"
proof (induction as arbitrary: n)
  case Nil
  then show ?case by simp
next
  case (Cons a as)
  then show ?case by (cases n) auto
qed

lemma index_of_notin: "c \<notin> set as \<Longrightarrow> index_of c as = None"
  by (induction as) auto

text \<open>What an alphabet must be for the encoding to be one.\<close>

definition b64_alphabet :: "string \<Rightarrow> bool" where
  "b64_alphabet a \<longleftrightarrow> length a = 64 \<and> distinct a \<and> CHR ''='' \<notin> set a
     \<and> CHR 0x0A \<notin> set a \<and> CHR 0x0D \<notin> set a"

lemma b64_alphabet_std [simp]: "b64_alphabet b64_std"
  unfolding b64_alphabet_def b64_std_def by simp

lemma b64_alphabet_url [simp]: "b64_alphabet b64_url"
  unfolding b64_alphabet_def b64_url_def by simp

subsection \<open>base64\<close>

text \<open>The four six-bit groups of three bytes.\<close>

definition sextet0 :: "nat \<Rightarrow> nat" where "sextet0 x = x div 4"
definition sextet1 :: "nat \<Rightarrow> nat \<Rightarrow> nat" where "sextet1 x y = x mod 4 * 16 + y div 16"
definition sextet2 :: "nat \<Rightarrow> nat \<Rightarrow> nat" where "sextet2 y z = y mod 16 * 4 + z div 64"
definition sextet3 :: "nat \<Rightarrow> nat" where "sextet3 z = z mod 64"

definition octet0 :: "nat \<Rightarrow> nat \<Rightarrow> char" where "octet0 i0 i1 = char_of (i0 * 4 + i1 div 16)"
definition octet1 :: "nat \<Rightarrow> nat \<Rightarrow> char" where "octet1 i1 i2 = char_of (i1 mod 16 * 16 + i2 div 4)"
definition octet2 :: "nat \<Rightarrow> nat \<Rightarrow> char" where "octet2 i2 i3 = char_of (i2 mod 4 * 64 + i3)"

fun b64_encode :: "string \<Rightarrow> string \<Rightarrow> string" where
  "b64_encode a [] = []"
| "b64_encode a [x] =
     [a ! sextet0 (byte_of x), a ! sextet1 (byte_of x) 0, CHR ''='', CHR ''='']"
| "b64_encode a [x, y] =
     [a ! sextet0 (byte_of x), a ! sextet1 (byte_of x) (byte_of y), a ! sextet2 (byte_of y) 0,
      CHR ''='']"
| "b64_encode a (x # y # z # rest) =
     a ! sextet0 (byte_of x) # a ! sextet1 (byte_of x) (byte_of y)
     # a ! sextet2 (byte_of y) (byte_of z) # a ! sextet3 (byte_of z) # b64_encode a rest"

fun b64_quanta :: "string \<Rightarrow> string \<Rightarrow> string option" where
  "b64_quanta a [] = Some []"
| "b64_quanta a (c0 # c1 # c2 # c3 # rest) =
     (case (index_of c0 a, index_of c1 a) of
        (Some i0, Some i1) \<Rightarrow>
          (if c2 = CHR ''='' then
             (if c3 = CHR ''='' \<and> rest = [] then Some [octet0 i0 i1] else None)
           else case index_of c2 a of None \<Rightarrow> None
           | Some i2 \<Rightarrow>
             (if c3 = CHR ''='' then
                (if rest = [] then Some [octet0 i0 i1, octet1 i1 i2] else None)
              else case index_of c3 a of None \<Rightarrow> None
              | Some i3 \<Rightarrow>
                  map_option (\<lambda>s. octet0 i0 i1 # octet1 i1 i2 # octet2 i2 i3 # s)
                    (b64_quanta a rest)))
      | _ \<Rightarrow> None)"
| "b64_quanta a s = None"

text \<open>The decoder skips carriage returns and line feeds wherever they stand.\<close>

definition b64_decode :: "string \<Rightarrow> string \<Rightarrow> string option" where
  "b64_decode a s = b64_quanta a (filter (\<lambda>c. c \<noteq> CHR 0x0A \<and> c \<noteq> CHR 0x0D) s)"

lemma b64_nth_mem: "b64_alphabet a \<Longrightarrow> n < 64 \<Longrightarrow> a ! n \<in> set a"
  by (simp add: b64_alphabet_def)

lemma b64_char_facts:
  assumes "b64_alphabet a" "n < 64"
  shows "index_of (a ! n) a = Some n" "a ! n \<noteq> CHR ''=''"
    "a ! n \<noteq> CHR 0x0A" "a ! n \<noteq> CHR 0x0D"
proof -
  from assms have m: "a ! n \<in> set a" by (simp add: b64_alphabet_def)
  from assms show "index_of (a ! n) a = Some n"
    by (simp add: b64_alphabet_def index_of_nth)
  from assms(1) m show "a ! n \<noteq> CHR ''=''" "a ! n \<noteq> CHR 0x0A" "a ! n \<noteq> CHR 0x0D"
    unfolding b64_alphabet_def by metis+
qed

lemma sextet_less [simp]:
  "sextet0 (byte_of x) < 64" "sextet1 n (byte_of y) < 64" "sextet1 n 0 < 64"
  "sextet2 n (byte_of z) < 64" "sextet2 n 0 < 64" "sextet3 n < 64"
proof -
  have "byte_of x div 4 < 64" "byte_of y div 16 < 16" "byte_of z div 64 < 4"
    using byte_of_less [of x] byte_of_less [of y] byte_of_less [of z]
    by (simp_all add: less_mult_imp_div_less)
  moreover have "n mod 4 < 4" "n mod 16 < 16" by simp_all
  ultimately show "sextet0 (byte_of x) < 64" "sextet1 n (byte_of y) < 64" "sextet1 n 0 < 64"
    "sextet2 n (byte_of z) < 64" "sextet2 n 0 < 64" "sextet3 n < 64"
    unfolding sextet0_def sextet1_def sextet2_def sextet3_def by linarith+
qed

lemma sextet1_split:
  assumes "(y::nat) < 256"
  shows "sextet1 n y div 16 = n mod 4" "sextet1 n y mod 16 = y div 16"
proof -
  have "y div 16 < 16" using assms by (simp add: less_mult_imp_div_less)
  then show "sextet1 n y div 16 = n mod 4" "sextet1 n y mod 16 = y div 16"
    by (simp_all add: sextet1_def)
qed

lemma sextet2_split:
  assumes "(z::nat) < 256"
  shows "sextet2 n z div 4 = n mod 16" "sextet2 n z mod 4 = z div 64"
proof -
  have "z div 64 < 4" using assms by (simp add: less_mult_imp_div_less)
  then show "sextet2 n z div 4 = n mod 16" "sextet2 n z mod 4 = z div 64"
    by (simp_all add: sextet2_def)
qed

lemma octet_sextet [simp]:
  "octet0 (sextet0 (byte_of x)) (sextet1 (byte_of x) (byte_of y)) = x"
  "octet0 (sextet0 (byte_of x)) (sextet1 (byte_of x) 0) = x"
  "octet1 (sextet1 n (byte_of y)) (sextet2 (byte_of y) (byte_of z)) = y"
  "octet1 (sextet1 n (byte_of y)) (sextet2 (byte_of y) 0) = y"
  "octet2 (sextet2 n (byte_of z)) (sextet3 (byte_of z)) = z"
  by (simp_all add: octet0_def octet1_def octet2_def sextet1_split sextet2_split
      sextet0_def sextet3_def)

lemma b64_quanta_encode:
  "b64_alphabet a \<Longrightarrow> b64_quanta a (b64_encode a s) = Some s"
  by (induction a s rule: b64_encode.induct) (simp_all add: b64_char_facts)

lemma b64_encode_set: "b64_alphabet a \<Longrightarrow> c \<in> set (b64_encode a s) \<Longrightarrow> c \<in> set a \<or> c = CHR ''=''"
proof (induction a s rule: b64_encode.induct)
  case (4 a x y z rest)
  then show ?case by (auto simp: b64_nth_mem)
qed (auto simp: b64_nth_mem)

lemma b64_roundtrip [simp]:
  assumes a: "b64_alphabet a"
  shows "b64_decode a (b64_encode a s) = Some s"
proof -
  have "filter (\<lambda>c. c \<noteq> CHR 0x0A \<and> c \<noteq> CHR 0x0D) (b64_encode a s) = b64_encode a s"
    using a b64_encode_set [OF a] by (intro filter_True) (auto simp: b64_alphabet_def)
  then show ?thesis
    using a by (simp add: b64_decode_def b64_quanta_encode)
qed

lemma b64_encode_eq_Nil [simp]: "b64_encode a s = [] \<longleftrightarrow> s = []"
  by (cases "(a, s)" rule: b64_encode.cases) auto

subsection \<open>base32\<close>

text \<open>
  \<open>encoding/base32\<close> with padding: groups of five bytes as eight digits, a last group of
  \<open>m\<close> bytes as \<open>8 m / 5\<close> digits, rounded up, and equal signs.
\<close>

definition b32_std :: string where
  "b32_std = ''ABCDEFGHIJKLMNOPQRSTUVWXYZ234567''"

definition b32_digits :: "nat \<Rightarrow> nat" where
  "b32_digits m = (8 * m + 4) div 5"

definition b32_group :: "string \<Rightarrow> string" where
  "b32_group s = (let m = length s; k = b32_digits m in
     map (\<lambda>d. b32_std ! d) (to_digits 32 k (nat_of_bytes s * 2 ^ (5 * k - 8 * m)))
     @ replicate (8 - k) (CHR ''=''))"

fun b32_encode :: "string \<Rightarrow> string" where
  "b32_encode [] = []"
| "b32_encode (a # b # c # d # e # rest) = b32_group [a, b, c, d, e] @ b32_encode rest"
| "b32_encode s = b32_group s"

definition b32_pack :: "nat list \<Rightarrow> string" where
  "b32_pack vs = (let j = length vs; m = 5 * j div 8 in
     be_bytes m (from_digits 32 vs div 2 ^ (5 * j - 8 * m)))"

primrec b32_values :: "string \<Rightarrow> nat list option" where
  "b32_values [] = Some []"
| "b32_values (c # cs) = (case index_of c b32_std of None \<Rightarrow> None
     | Some v \<Rightarrow> map_option (\<lambda>vs. v # vs) (b32_values cs))"

text \<open>
  A quantum of eight characters, or the last one with its padding: padding counts as such from
  the third character on and when fewer than eight characters follow it; it is 6, 4, 3 or 1 long.
\<close>

function b32_quanta :: "string \<Rightarrow> string option" where
  "b32_quanta s =
     (if s = [] then Some []
      else if length s < 8 then None
      else let q = take 8 s; ds = takeWhile (\<lambda>c. c \<noteq> CHR ''='') q; j = length ds in
        (case b32_values ds of None \<Rightarrow> None
         | Some vs \<Rightarrow>
             (if j = 8 then map_option (\<lambda>r. b32_pack vs @ r) (b32_quanta (drop 8 s))
              else if 2 \<le> j \<and> length s - j - 1 < 8 \<and> list_all (\<lambda>c. c = CHR ''='') (drop j q)
                \<and> j \<noteq> 3 \<and> j \<noteq> 6 then Some (b32_pack vs)
              else None)))"
  by pat_completeness auto
termination by (relation "measure length") auto

declare b32_quanta.simps [simp del]

definition b32_decode :: "string \<Rightarrow> string option" where
  "b32_decode s = b32_quanta (filter (\<lambda>c. c \<noteq> CHR 0x0A \<and> c \<noteq> CHR 0x0D) s)"

lemma b32_alphabet: "length b32_std = 32" "distinct b32_std" "CHR ''='' \<notin> set b32_std"
  "CHR 0x0A \<notin> set b32_std" "CHR 0x0D \<notin> set b32_std"
  by (simp_all add: b32_std_def)

lemma b32_values_digits [simp]: "\<forall>d \<in> set ds. d < 32 \<Longrightarrow> b32_values (map (\<lambda>d. b32_std ! d) ds) = Some ds"
  by (induction ds) (simp_all add: b32_alphabet index_of_nth)

lemma upto5_cases: "(n::nat) \<le> 5 \<Longrightarrow> n = 0 \<or> n = 1 \<or> n = 2 \<or> n = 3 \<or> n = 4 \<or> n = 5"
  by arith

lemma b32_pack_group:
  assumes "length s \<le> 5"
  shows "b32_pack (to_digits 32 (b32_digits (length s)) (nat_of_bytes s * 2 ^ (5 * b32_digits (length s) - 8 * length s))) = s"
proof -
  let ?m = "length s" and ?k = "b32_digits (length s)"
  let ?e = "5 * ?k - 8 * ?m"
  have k: "5 * ?k div 8 = ?m" "8 * ?m + ?e = 5 * ?k"
    using upto5_cases [OF assms] by (elim disjE; simp add: b32_digits_def)+
  have "nat_of_bytes s * 2 ^ ?e < 256 ^ ?m * 2 ^ ?e" using nat_of_bytes_less [of s] by simp
  also have "\<dots> = 2 ^ (8 * ?m + ?e)" by (simp add: power_add power_mult)
  also have "\<dots> = 32 ^ ?k" unfolding k(2) by (simp add: power_mult)
  finally have "from_digits 32 (to_digits 32 ?k (nat_of_bytes s * 2 ^ ?e)) = nat_of_bytes s * 2 ^ ?e"
    by (rule from_to_digits)
  then show ?thesis by (simp add: b32_pack_def Let_def k(1))
qed

lemma b32_group_quantum:
  assumes "s \<noteq> []" "length s \<le> 5" "length s = 5 \<or> t = []"
  shows "b32_quanta (b32_group s @ t) =
    (if length s = 5 then map_option (\<lambda>r. s @ r) (b32_quanta t) else Some s)"
proof -
  let ?k = "b32_digits (length s)"
  let ?vs = "to_digits 32 ?k (nat_of_bytes s * 2 ^ (5 * ?k - 8 * length s))"
  let ?ds = "map (\<lambda>d. b32_std ! d) ?vs"
  have n: "length s = 1 \<or> length s = 2 \<or> length s = 3 \<or> length s = 4 \<or> length s = 5"
    using assms(1) upto5_cases [OF assms(2)] by simp
  then have k: "?k \<le> 8" "2 \<le> ?k" "?k \<noteq> 3" "?k \<noteq> 6" "?k = 8 \<longleftrightarrow> length s = 5" by (auto simp: b32_digits_def)
  have "d < 32" if "d \<in> set ?vs" for d by (rule to_digits_less [OF _ that]) simp
  then have v: "\<forall>d \<in> set ?vs. d < 32" ..
  then have d: "\<forall>c \<in> set ?ds. c \<noteq> CHR ''=''" using b32_alphabet(1,3) by (auto simp: in_set_conv_nth)
  have g: "b32_group s = ?ds @ replicate (8 - ?k) (CHR ''='')" by (simp add: b32_group_def Let_def)
  have tw: "takeWhile (\<lambda>c. c \<noteq> CHR ''='') (b32_group s) = ?ds"
    unfolding g using d by (subst takeWhile_append2) (blast, cases "8 - ?k", simp_all)
  have l: "length (b32_group s) = 8" using k(1) by (simp add: g)
  have p: "list_all (\<lambda>c. c = CHR ''='') (drop ?k (b32_group s))" by (simp add: g list_all_iff)
  show ?thesis
    using l k p assms(3) b32_pack_group [OF assms(2)] b32_values_digits [OF v]
    by (subst b32_quanta.simps) (auto simp: Let_def tw)
qed

lemma b32_roundtrip [simp]: "b32_decode (b32_encode s) = Some s"
proof -
  have q: "b32_quanta (b32_encode s) = Some s"
  proof (induction s rule: b32_encode.induct)
    case 1
    then show ?case by (simp add: b32_quanta.simps)
  next
    case (2 a b c d e rest)
    then show ?case by (simp add: b32_group_quantum)
  qed (use b32_group_quantum [where t = "[]"] in simp_all)
  have g: "c \<in> set b32_std \<or> c = CHR ''=''" if "c \<in> set (b32_group s)" for c s
    using that to_digits_less [of 32] b32_alphabet(1) by (auto simp: b32_group_def Let_def)
  have "c \<in> set b32_std \<or> c = CHR ''=''" if "c \<in> set (b32_encode s)" for c
    using that by (induction s rule: b32_encode.induct) (auto dest: g)
  then have "filter (\<lambda>c. c \<noteq> CHR 0x0A \<and> c \<noteq> CHR 0x0D) (b32_encode s) = b32_encode s"
    using b32_alphabet by (intro filter_True) auto
  then show ?thesis by (simp add: b32_decode_def q)
qed

subsection \<open>Hexadecimal digits\<close>

definition hex_lower :: string where "hex_lower = ''0123456789abcdef''"
definition hex_upper :: string where "hex_upper = ''0123456789ABCDEF''"

text \<open>A number in lower-case hexadecimal, padded to a width.\<close>

fun hex_pad :: "nat \<Rightarrow> nat \<Rightarrow> string" where
  "hex_pad 0 n = []"
| "hex_pad (Suc k) n = hex_pad k (n div 16) @ [hex_lower ! (n mod 16)]"

definition unhex :: "char \<Rightarrow> nat option" where
  "unhex c = (case index_of c hex_lower of Some n \<Rightarrow> Some n | None \<Rightarrow> index_of c hex_upper)"

fun hex_encode :: "string \<Rightarrow> string" where
  "hex_encode [] = []"
| "hex_encode (c # cs) = hex_lower ! (byte_of c div 16) # hex_lower ! (byte_of c mod 16) # hex_encode cs"

fun hex_decode :: "string \<Rightarrow> string option" where
  "hex_decode [] = Some []"
| "hex_decode (a # b # cs) =
     (case (unhex a, unhex b) of
        (Some x, Some y) \<Rightarrow> map_option (\<lambda>s. char_of (16 * x + y) # s) (hex_decode cs)
      | _ \<Rightarrow> None)"
| "hex_decode _ = None"

lemma all_less_list_all: "(\<forall>n < k. P n) \<longleftrightarrow> list_all P [0..<k]"
  by (auto simp: list_all_iff)

lemma unhex_lower [simp]: "n < 16 \<Longrightarrow> unhex (hex_lower ! n) = Some n"
proof -
  have "\<forall>n < 16. unhex (hex_lower ! n) = Some n"
    unfolding all_less_list_all by code_simp
  then show "n < 16 \<Longrightarrow> unhex (hex_lower ! n) = Some n" by blast
qed

lemma unhex_upper [simp]: "n < 16 \<Longrightarrow> unhex (hex_upper ! n) = Some n"
proof -
  have "\<forall>n < 16. unhex (hex_upper ! n) = Some n"
    unfolding all_less_list_all by code_simp
  then show "n < 16 \<Longrightarrow> unhex (hex_upper ! n) = Some n" by blast
qed

lemma nibble_less [simp]: "byte_of c div 16 < 16"
  by (simp add: less_mult_imp_div_less)

lemma nibbles [simp]: "char_of (16 * (byte_of c div 16) + byte_of c mod 16) = c"
  by (simp add: mult.commute [of 16])

lemma hex_roundtrip [simp]: "hex_decode (hex_encode s) = Some s"
  by (induction s) simp_all

subsection \<open>Query escaping\<close>

definition unreserved :: "char \<Rightarrow> bool" where
  "unreserved c \<longleftrightarrow> (let n = byte_of c in
     (65 \<le> n \<and> n \<le> 90) \<or> (97 \<le> n \<and> n \<le> 122) \<or> (48 \<le> n \<and> n \<le> 57)
     \<or> c = CHR ''-'' \<or> c = CHR ''_'' \<or> c = CHR ''.'' \<or> c = CHR ''~'')"

fun QueryEscape :: "string \<Rightarrow> string" where
  "QueryEscape [] = []"
| "QueryEscape (c # cs) =
     (if unreserved c then c # QueryEscape cs
      else if c = CHR '' '' then CHR ''+'' # QueryEscape cs
      else CHR ''%'' # hex_upper ! (byte_of c div 16) # hex_upper ! (byte_of c mod 16)
             # QueryEscape cs)"

fun QueryUnescape :: "string \<Rightarrow> string option" where
  "QueryUnescape [] = Some []"
| "QueryUnescape (c # cs) =
     (if c = CHR ''%'' then
        (case cs of
           a # b # rest \<Rightarrow>
             (case (unhex a, unhex b) of
                (Some x, Some y) \<Rightarrow> map_option (\<lambda>s. char_of (16 * x + y) # s) (QueryUnescape rest)
              | _ \<Rightarrow> None)
         | _ \<Rightarrow> None)
      else if c = CHR ''+'' then map_option (\<lambda>s. CHR '' '' # s) (QueryUnescape cs)
      else map_option (\<lambda>s. c # s) (QueryUnescape cs))"

lemma unreserved_not_special: "unreserved c \<Longrightarrow> c \<noteq> CHR ''%'' \<and> c \<noteq> CHR ''+''"
  by (auto simp: unreserved_def)

lemma query_roundtrip [simp]: "QueryUnescape (QueryEscape s) = Some s"
proof (induction s)
  case Nil
  then show ?case by simp
next
  case (Cons c cs)
  show ?case
  proof (cases "unreserved c")
    case True
    with Cons unreserved_not_special [OF True] show ?thesis by simp
  next
    case False
    with Cons show ?thesis by (cases "c = CHR '' ''") simp_all
  qed
qed

lemma QueryEscape_eq_Nil [simp]: "QueryEscape s = [] \<longleftrightarrow> s = []"
  by (cases s) auto

text \<open>\<open>DecodeURIComponent\<close> of the ciphers: the text itself where it cannot be unescaped.\<close>

definition DecodeURIComponent :: "string \<Rightarrow> string" where
  "DecodeURIComponent s = (case QueryUnescape s of None \<Rightarrow> s | Some q \<Rightarrow> q)"

lemma DecodeURIComponent_Escape [simp]: "DecodeURIComponent (QueryEscape s) = s"
  by (simp add: DecodeURIComponent_def)

end
