(* ===== verification/Tus_Base.thy ===== *)
theory Tus_Base
  imports Codec
begin

section \<open>tus: errors, uploads, requests, readers, metrics\<close>

text \<open>
  The data of package \<open>tus\<close> (\<open>errors.go\<close>, \<open>datastore.go\<close>, \<open>hooks.go\<close>,
  \<open>http.go\<close>), the body reader (\<open>body_reader.go\<close>) with the copy loop of the standard
  library that reads from it, the usage metrics (\<open>metrics.go\<close>) and the log line
  (\<open>log.go\<close>).
\<close>

subsection \<open>HTTP errors\<close>

definition NewHTTPError :: "go_error \<Rightarrow> int \<Rightarrow> go_error" where
  "NewHTTPError e code = \<lparr>err_msg = err_msg e, err_http = Some (code, err_msg e), err_timeout = False\<rparr>"

definition tus_error :: "string \<Rightarrow> int \<Rightarrow> go_error" where
  "tus_error m code = NewHTTPError (new_error m) code"

definition ErrUnsupportedVersion :: go_error where
  "ErrUnsupportedVersion = tus_error ''unsupported version'' 412"
definition ErrMaxSizeExceeded :: go_error where
  "ErrMaxSizeExceeded = tus_error ''maximum size exceeded'' 413"
definition ErrInvalidContentType :: go_error where
  "ErrInvalidContentType = tus_error ''missing or invalid Content-Type header'' 400"
definition ErrInvalidUploadLength :: go_error where
  "ErrInvalidUploadLength = tus_error ''missing or invalid Upload-Length header'' 400"
definition ErrInvalidOffset :: go_error where
  "ErrInvalidOffset = tus_error ''missing or invalid Upload-Offset header'' 400"
definition ErrNotFound :: go_error where
  "ErrNotFound = tus_error ''upload not found'' 404"
definition ErrFileLocked :: go_error where
  "ErrFileLocked = tus_error ''file currently locked'' 423"
definition ErrMismatchOffset :: go_error where
  "ErrMismatchOffset = tus_error ''mismatched offset'' 409"
definition ErrSizeExceeded :: go_error where
  "ErrSizeExceeded = tus_error ''resource's size exceeded'' 413"
definition ErrNotImplemented :: go_error where
  "ErrNotImplemented = tus_error ''feature not implemented'' 501"
definition ErrUploadNotFinished :: go_error where
  "ErrUploadNotFinished = tus_error ''one of the partial uploads is not finished'' 400"
definition ErrInvalidConcat :: go_error where
  "ErrInvalidConcat = tus_error ''invalid Upload-Concat header'' 400"
definition ErrModifyFinal :: go_error where
  "ErrModifyFinal = tus_error ''modifying a final upload is not allowed'' 403"
definition ErrUploadLengthAndUploadDeferLength :: go_error where
  "ErrUploadLengthAndUploadDeferLength =
  tus_error ''provided both Upload-Length and Upload-Defer-Length'' 400"
definition ErrInvalidUploadDeferLength :: go_error where
  "ErrInvalidUploadDeferLength = tus_error ''invalid Upload-Defer-Length header'' 400"
definition ErrUploadStoppedByServer :: go_error where
  "ErrUploadStoppedByServer = tus_error ''upload has been stopped by server'' 400"
definition errReadTimeout :: go_error where
  "errReadTimeout = new_error ''read tcp: i/o timeout''"
definition errConnectionReset :: go_error where
  "errConnectionReset = new_error ''read tcp: connection reset by peer''"

lemmas tus_errors = ErrUnsupportedVersion_def ErrMaxSizeExceeded_def ErrInvalidContentType_def
  ErrInvalidUploadLength_def ErrInvalidOffset_def ErrNotFound_def ErrFileLocked_def
  ErrMismatchOffset_def ErrSizeExceeded_def ErrNotImplemented_def ErrUploadNotFinished_def
  ErrInvalidConcat_def ErrModifyFinal_def ErrUploadLengthAndUploadDeferLength_def
  ErrInvalidUploadDeferLength_def ErrUploadStoppedByServer_def errReadTimeout_def
  errConnectionReset_def tus_error_def NewHTTPError_def new_error_def

text \<open>
  A method call on a nil interface panics, and the web framework turns the panic into an
  error of its own. The handlers guard every such call; this value marks the branch.
\<close>

definition nil_deref :: go_error where
  "nil_deref = new_error ''runtime error: invalid memory address or nil pointer dereference''"

subsection \<open>Uploads, requests and events\<close>

text \<open>
  \<open>FileInfo\<close>. A Go \<open>map[string]string\<close> is an association list with distinct keys: its
  order is one order in which Go may iterate over the map.
\<close>

type_synonym MetaData = "(string \<times> string) list"

record FileInfo =
  ID :: string
  Size :: int
  SizeIsDeferred :: bool
  Offset :: int
  MetaData :: MetaData
  IsPartial :: bool
  IsFinal :: bool
  PartialUploads :: "string list"
  Storage :: "(string \<times> string) list"

text \<open>
  The body of a request as the sequence of results its \<open>Read\<close> gives: some bytes and
  possibly an error, where the end of the list is the end of the body.
\<close>

datatype rd_err = EOF | RdErr go_error

type_synonym body = "(string \<times> rd_err option) list"

text \<open>
  What the handlers read of a request. \<open>stopped\<close> says whether the application calls the
  upload's \<open>StopUpload\<close> while its chunk is being written; \<open>Body\<close> is \<open>None\<close> for a nil
  body, \<open>ticks\<close> are the byte counts the progress reporter sees while the chunk is read, and \<open>ContentLength\<close> is \<open>-1\<close> when it is unknown.
\<close>

record request =
  Method :: string
  URL_Path :: string
  RequestURI :: string
  RemoteAddr :: string
  Host :: string
  TLS :: bool
  Header :: header
  ContentLength :: int
  Body :: "body option"
  stopped :: bool
  ticks :: "int list"

record HookEvent =
  ev_Upload :: FileInfo
  ev_Method :: string
  ev_URI :: string
  ev_RemoteAddr :: string
  ev_Header :: header

definition newHookEvent :: "FileInfo \<Rightarrow> request \<Rightarrow> HookEvent" where
  "newHookEvent info r = \<lparr>ev_Upload = info, ev_Method = Method r, ev_URI = RequestURI r,
     ev_RemoteAddr = RemoteAddr r, ev_Header = Header r\<rparr>"

subsection \<open>The body reader\<close>

text \<open>
  \<open>body_read n b\<close> is one \<open>Read\<close> of the body into a buffer of \<open>n\<close> bytes: a chunk that
  does not fit is delivered in parts, its error with the last of them.
\<close>

fun body_read :: "nat \<Rightarrow> body \<Rightarrow> (string \<times> rd_err option) \<times> body" where
  "body_read n [] = (([], Some EOF), [])"
| "body_read n ((d, e) # rest) =
     (if length d \<le> n then ((d, e), rest) else ((take n d, None), (drop n d, e) # rest))"

text \<open>\<open>bodyReader\<close> over \<open>io.LimitReader(body, rd_limit)\<close>.\<close>

record bodyReader =
  rd_body :: body
  rd_limit :: int
  rd_err :: "rd_err option"
  rd_count :: int

definition newBodyReader :: "body \<Rightarrow> int \<Rightarrow> bodyReader" where
  "newBodyReader b n = \<lparr>rd_body = b, rd_limit = n, rd_err = None, rd_count = 0\<rparr>"

definition limit_read :: "nat \<Rightarrow> bodyReader \<Rightarrow> (string \<times> rd_err option) \<times> bodyReader" where
  "limit_read cap r =
     (if rd_limit r \<le> 0 then (([], Some EOF), r)
      else let n = (if int cap > rd_limit r then nat (rd_limit r) else cap);
               ((d, e), b) = body_read n (rd_body r)
           in ((d, e), r\<lparr>rd_body := b, rd_limit := rd_limit r - int (length d)\<rparr>))"

definition bodyReader_Read :: "nat \<Rightarrow> bodyReader \<Rightarrow> (string \<times> rd_err option) \<times> bodyReader" where
  "bodyReader_Read cap r =
     (if rd_err r \<noteq> None then (([], Some EOF), r)
      else let ((d, e), r1) = limit_read cap r;
               r2 = r1\<lparr>rd_count := rd_count r1 + int (length d), rd_err := e\<rparr>
           in ((d, if e = Some EOF then Some EOF else None), r2))"

definition hasError :: "bodyReader \<Rightarrow> go_error option" where
  "hasError r = (case rd_err r of Some (RdErr e) \<Rightarrow> Some e | _ \<Rightarrow> None)"

definition bytesRead :: "bodyReader \<Rightarrow> int" where
  "bytesRead r = rd_count r"

text \<open>
  \<open>io.Copy\<close> to a writer: read a buffer of 32 KiB, write it, stop at the first write error
  or at the reader's end. The loop ends because every round takes something off the body or
  sets the reader's error.
\<close>

definition copy_buf :: nat where "copy_buf = 32768"

definition rd_measure :: "bodyReader \<Rightarrow> nat" where
  "rd_measure r = (if rd_err r = None then 1 + sum_list (map (\<lambda>(d, e). Suc (length d)) (rd_body r)) else 0)"

definition ErrShortWrite :: go_error where "ErrShortWrite = new_error ''short write''"

lemma body_read_measure:
  "body_read n b = ((d, e), b') \<Longrightarrow> 0 < n \<Longrightarrow> e \<noteq> Some EOF \<Longrightarrow>
   sum_list (map (\<lambda>(d, e). Suc (length d)) b') < sum_list (map (\<lambda>(d, e). Suc (length d)) b)"
  by (cases b) (auto split: if_splits)

lemma Read_measure:
  "bodyReader_Read copy_buf r = ((d, None), r') \<Longrightarrow> rd_measure r' < rd_measure r"
  by (auto simp: bodyReader_Read_def limit_read_def rd_measure_def copy_buf_def Let_def
      dest!: body_read_measure split: prod.splits if_splits)

function io_copy :: "('w \<Rightarrow> string \<Rightarrow> (nat \<times> go_error option) \<times> 'w) \<Rightarrow> 'w \<Rightarrow> bodyReader
    \<Rightarrow> (int \<times> go_error option) \<times> 'w \<times> bodyReader" where
  "io_copy wr w r =
     (case bodyReader_Read copy_buf r of ((d, e), r') \<Rightarrow>
        let ((nw, ew), w') = (if d = [] then ((0, None), w) else wr w d) in
        if ew \<noteq> None then ((int nw, ew), w', r')
        else if nw \<noteq> length d then ((int nw, Some ErrShortWrite), w', r')
        else (case e of Some _ \<Rightarrow> ((int nw, None), w', r')
              | None \<Rightarrow> (case io_copy wr w' r' of ((n, er), w'', r'') \<Rightarrow>
                            ((int nw + n, er), w'', r''))))"
  by pat_completeness auto
termination
  by (relation "measure (\<lambda>(wr, w, r). rd_measure r)") (auto dest: Read_measure [OF sym])

declare io_copy.simps [simp del]
text \<open>
  The bytes a reader still has to give: the body up to its first error, cut at the limit.
\<close>

fun body_data :: "body \<Rightarrow> string" where
  "body_data [] = []"
| "body_data ((d, e) # rest) = (if e = None then d @ body_data rest else d)"

definition reader_data :: "bodyReader \<Rightarrow> string" where
  "reader_data r = (if rd_err r = None then take (nat (rd_limit r)) (body_data (rd_body r)) else [])"

lemma reader_data_new [simp]: "reader_data (newBodyReader b n) = take (nat n) (body_data b)"
  by (simp add: reader_data_def newBodyReader_def)

lemma body_read_data:
  "body_read n b = ((d, e), b') \<Longrightarrow>
   length d \<le> n \<and> body_data b = d @ (if e = None then body_data b' else [])"
  by (cases "(n, b)" rule: body_read.cases) (auto split: if_splits)

lemma limit_read_data:
  assumes "limit_read cap r = ((d, e), r')" "rd_err r = None"
  shows "take (nat (rd_limit r)) (body_data (rd_body r))
           = d @ (if e = None then take (nat (rd_limit r')) (body_data (rd_body r')) else [])
         \<and> rd_count r' = rd_count r \<and> rd_err r' = None"
proof (cases "rd_limit r \<le> 0")
  case True
  with assms show ?thesis by (auto simp: limit_read_def)
next
  case False
  let ?n = "if int cap > rd_limit r then nat (rd_limit r) else cap"
  obtain b where b: "body_read ?n (rd_body r) = ((d, e), b)"
    and r': "r' = r\<lparr>rd_body := b, rd_limit := rd_limit r - int (length d)\<rparr>"
    using assms False by (auto simp: limit_read_def Let_def split: prod.splits)
  from body_read_data [OF b]
  have l: "length d \<le> ?n" and d: "body_data (rd_body r) = d @ (if e = None then body_data b else [])"
    by auto
  from l False have "length d \<le> nat (rd_limit r)" by (auto split: if_splits)
  moreover have "nat (rd_limit r - int (length d)) = nat (rd_limit r) - length d" by simp
  ultimately show ?thesis using d r' assms(2) by simp
qed

lemma Read_data:
  assumes "bodyReader_Read cap r = ((d, e), r')"
  shows "reader_data r = d @ reader_data r' \<and> (e \<noteq> None \<longrightarrow> reader_data r' = [])
         \<and> rd_count r' = rd_count r + int (length d)"
proof (cases "rd_err r")
  case (Some x)
  with assms show ?thesis by (auto simp: bodyReader_Read_def reader_data_def)
next
  case None
  obtain e0 r1 where l: "limit_read cap r = ((d, e0), r1)"
    and r': "r' = r1\<lparr>rd_count := rd_count r1 + int (length d), rd_err := e0\<rparr>"
    and e: "e = (if e0 = Some EOF then Some EOF else None)"
    using assms None by (auto simp: bodyReader_Read_def Let_def split: prod.splits)
  from limit_read_data [OF l None] r' e None show ?thesis
    by (auto simp: reader_data_def)
qed

text \<open>
  A writer as \<open>io.Copy\<close> sees it: it appends a prefix of what it is given to its contents
  and says how long the prefix is.
\<close>

locale io_writer =
  fixes wr :: "'w \<Rightarrow> string \<Rightarrow> (nat \<times> go_error option) \<times> 'w"
    and contents :: "'w \<Rightarrow> string"
    and winv :: "'w \<Rightarrow> bool"
  assumes wr_prefix: "winv w \<Longrightarrow> wr w d = ((k, e), w') \<Longrightarrow>
      k \<le> length d \<and> contents w' = contents w @ take k d \<and> winv w'"
begin

lemma io_copy_prefix:
  "winv w \<Longrightarrow> io_copy wr w r = ((n, er), w', r') \<Longrightarrow>
    winv w' \<and> (\<exists>s t. contents w' = contents w @ s \<and> n = int (length s) \<and> reader_data r = s @ t
      \<and> (er = None \<longrightarrow> t = [] \<and> rd_count r' = rd_count r + n))"
proof (induction "rd_measure r" arbitrary: w r n er w' r' rule: less_induct)
  case (less r)
  obtain d e r1 where rd: "bodyReader_Read copy_buf r = ((d, e), r1)"
    by (metis surj_pair)
  obtain nw ew w1 where wr: "(if d = [] then ((0, None), w) else wr w d) = ((nw, ew), w1)"
    by (metis surj_pair)
  have w1: "nw \<le> length d \<and> contents w1 = contents w @ take nw d \<and> winv w1"
  proof (cases "d = []")
    case True
    with wr less.prems(1) show ?thesis by simp
  next
    case False
    with wr have "wr w d = ((nw, ew), w1)" by simp
    from wr_prefix [OF less.prems(1) this] show ?thesis .
  qed
  note data = Read_data [OF rd]
  have step: "io_copy wr w r = (if ew \<noteq> None then ((int nw, ew), w1, r1)
        else if nw \<noteq> length d then ((int nw, Some ErrShortWrite), w1, r1)
        else (case e of Some _ \<Rightarrow> ((int nw, None), w1, r1)
              | None \<Rightarrow> (case io_copy wr w1 r1 of ((n, er), w'', r'') \<Rightarrow> ((int nw + n, er), w'', r''))))"
    by (simp add: io_copy.simps [of wr w r] rd wr)
  consider (stop) "ew \<noteq> None \<or> nw \<noteq> length d"
    | (last) "ew = None" "nw = length d" "e \<noteq> None"
    | (more) "ew = None" "nw = length d" "e = None" by blast
  then show ?case
  proof cases
    case stop
    then have "w' = w1" "n = int nw" "er \<noteq> None"
      using less.prems(2) step by (auto split: if_splits)
    with w1 data show ?thesis
      by (intro conjI exI [of _ "take nw d"] exI [of _ "drop nw d @ reader_data r1"]) auto
  next
    case last
    then have "w' = w1" "n = int nw" "r' = r1"
      using less.prems(2) step by auto
    with w1 data last show ?thesis by auto
  next
    case more
    obtain n1 where n1: "io_copy wr w1 r1 = ((n1, er), w', r')" "n = int nw + n1"
      using less.prems(2) step more by (auto split: prod.splits)
    have "winv w' \<and> (\<exists>s t. contents w' = contents w1 @ s \<and> n1 = int (length s) \<and> reader_data r1 = s @ t
        \<and> (er = None \<longrightarrow> t = [] \<and> rd_count r' = rd_count r1 + n1))"
      using less.hyps [OF _ _ n1(1)] Read_measure more(3) rd w1 by blast
    then obtain s t where st: "winv w'" "contents w' = contents w1 @ s" "n1 = int (length s)"
      "reader_data r1 = s @ t" "er = None \<longrightarrow> t = [] \<and> rd_count r' = rd_count r1 + n1" by blast
    with w1 data more n1(2) show ?thesis
      by (intro conjI exI [of _ "d @ s"] exI [of _ t]) auto
  qed
qed

end

subsection \<open>Metrics\<close>

text \<open>
  \<open>Metrics\<close>: counters are \<open>uint64\<close>. The map of request counters holds the methods
  \<open>newMetrics\<close> lists and no other; the map of error counters grows by the errors sent.
\<close>

type_synonym u64 = "64 word"
type_synonym simpleHTTPError = "string \<times> int"

record Metrics =
  RequestsTotal :: "string \<rightharpoonup> u64"
  ErrorsTotal :: "simpleHTTPError \<rightharpoonup> u64"
  BytesReceived :: u64
  UploadsFinished :: u64
  UploadsCreated :: u64
  UploadsTerminated :: u64

definition newMetrics :: Metrics where
  "newMetrics = \<lparr>RequestsTotal = [''GET'' \<mapsto> 0, ''HEAD'' \<mapsto> 0, ''POST'' \<mapsto> 0, ''PATCH'' \<mapsto> 0,
       ''DELETE'' \<mapsto> 0, ''OPTIONS'' \<mapsto> 0],
     ErrorsTotal = Map.empty, BytesReceived = 0, UploadsFinished = 0, UploadsCreated = 0,
     UploadsTerminated = 0\<rparr>"

definition incRequestsTotal :: "string \<Rightarrow> Metrics \<Rightarrow> Metrics" where
  "incRequestsTotal m ms = (case RequestsTotal ms m of
     Some n \<Rightarrow> ms\<lparr>RequestsTotal := (RequestsTotal ms)(m \<mapsto> n + 1)\<rparr>
   | None \<Rightarrow> ms)"

text \<open>\<open>simplifyHTTPError\<close> of an error that is an \<open>HTTPError\<close>.\<close>

definition simplifyHTTPError :: "go_error \<Rightarrow> simpleHTTPError" where
  "simplifyHTTPError e = (err_msg e, case err_http e of Some (c, _) \<Rightarrow> c | None \<Rightarrow> 500)"

definition retrievePointerFor :: "simpleHTTPError \<Rightarrow> Metrics \<Rightarrow> Metrics" where
  "retrievePointerFor serr ms = (case ErrorsTotal ms serr of
     Some _ \<Rightarrow> ms | None \<Rightarrow> ms\<lparr>ErrorsTotal := (ErrorsTotal ms)(serr \<mapsto> 0)\<rparr>)"

definition incErrorsTotal :: "go_error \<Rightarrow> Metrics \<Rightarrow> Metrics" where
  "incErrorsTotal e ms =
     (let serr = simplifyHTTPError e; ms' = retrievePointerFor serr ms in
      case ErrorsTotal ms' serr of
        Some n \<Rightarrow> ms'\<lparr>ErrorsTotal := (ErrorsTotal ms')(serr \<mapsto> n + 1)\<rparr> | None \<Rightarrow> ms')"

definition incBytesReceived :: "int \<Rightarrow> Metrics \<Rightarrow> Metrics" where
  "incBytesReceived delta ms = ms\<lparr>BytesReceived := BytesReceived ms + word_of_int delta\<rparr>"

definition incUploadsFinished :: "Metrics \<Rightarrow> Metrics" where
  "incUploadsFinished ms = ms\<lparr>UploadsFinished := UploadsFinished ms + 1\<rparr>"

definition incUploadsCreated :: "Metrics \<Rightarrow> Metrics" where
  "incUploadsCreated ms = ms\<lparr>UploadsCreated := UploadsCreated ms + 1\<rparr>"

definition incUploadsTerminated :: "Metrics \<Rightarrow> Metrics" where
  "incUploadsTerminated ms = ms\<lparr>UploadsTerminated := UploadsTerminated ms + 1\<rparr>"

lemmas metrics_defs [go_defs] = incRequestsTotal_def incBytesReceived_def incUploadsFinished_def
  incUploadsCreated_def incUploadsTerminated_def

text \<open>The map of request counters never gains or loses a method.\<close>

lemma incRequestsTotal_dom [frame]: "dom (RequestsTotal (incRequestsTotal m ms)) = dom (RequestsTotal ms)"
  by (auto simp: incRequestsTotal_def split: option.splits)

lemma incErrorsTotal_counts:
  "ErrorsTotal (incErrorsTotal e ms) =
     (ErrorsTotal ms)(simplifyHTTPError e \<mapsto>
        (case ErrorsTotal ms (simplifyHTTPError e) of Some n \<Rightarrow> n + 1 | None \<Rightarrow> 1))"
  by (auto simp: incErrorsTotal_def retrievePointerFor_def Let_def split: option.splits)

lemma incErrorsTotal_frame [frame]:
  "RequestsTotal (incErrorsTotal e ms) = RequestsTotal ms"
  "BytesReceived (incErrorsTotal e ms) = BytesReceived ms"
  "UploadsFinished (incErrorsTotal e ms) = UploadsFinished ms"
  "UploadsCreated (incErrorsTotal e ms) = UploadsCreated ms"
  "UploadsTerminated (incErrorsTotal e ms) = UploadsTerminated ms"
  by (auto simp: incErrorsTotal_def retrievePointerFor_def Let_def split: option.splits)

text \<open>
  \<open>Load\<close> rebuilds an \<open>HTTPError\<close> for every counted message and status.
\<close>

definition Load_error :: "simpleHTTPError \<Rightarrow> go_error" where
  "Load_error s = NewHTTPError (new_error (fst s)) (snd s)"

lemma simplify_Load [simp]: "simplifyHTTPError (Load_error s) = s"
  by (cases s) (simp add: Load_error_def simplifyHTTPError_def NewHTTPError_def new_error_def)

subsection \<open>Log lines\<close>

text \<open>
  \<open>LogEvent\<close>: the details are name and value pairs; an odd number of them panics
  (\<open>None\<close>), because the loop reads the value of the last name.
\<close>

fun log_details :: "string list \<Rightarrow> string option" where
  "log_details [] = Some []"
| "log_details [k] = None"
| "log_details (k # v # ds) = map_option (\<lambda>s. k @ ''=\"'' @ v @ ''\" '' @ s) (log_details ds)"

definition LogEvent :: "string \<Rightarrow> string list \<Rightarrow> string option" where
  "LogEvent eventName details =
     map_option (\<lambda>s. ''event=\"'' @ eventName @ ''\" '' @ s @ [CHR 0x0A]) (log_details details)"

lemma LogEvent_total: "LogEvent n ds \<noteq> None \<longleftrightarrow> even (length ds)"
  by (induction ds rule: log_details.induct) (auto simp: LogEvent_def)

end
