(* ===== verification/Tus_Common.thy ===== *)
theory Tus_Common
  imports Tus_Base
begin

section \<open>tus: headers of the protocol\<close>

text \<open>
  \<open>pkg/tus/common.go\<close>: the Upload-Metadata and Upload-Concat headers, the identifier at
  the end of a path, the host and protocol of a request, and the content type of a download.
  The regular expressions of the source are the matchers of this theory.
\<close>

definition UploadLengthDeferred :: string where
  "UploadLengthDeferred = ''1''"

subsection \<open>Metadata\<close>

definition parse_element :: "string \<Rightarrow> (string \<times> string) option" where
  "parse_element element =
     (let parts = split_on CHR '' '' (TrimSpace element) in
      if length parts > 2 then None
      else let key = hd parts in
        if key = [] then None
        else if length parts = 2
        then (case b64_decode b64_std (parts ! 1) of
                None \<Rightarrow> None
              | Some dec \<Rightarrow> Some (key, dec))
        else Some (key, []))"

definition store_element :: "string \<Rightarrow> MetaData \<Rightarrow> MetaData" where
  "store_element element meta = (case parse_element element of
     None \<Rightarrow> meta | Some (key, value) \<Rightarrow> AList.update key value meta)"

definition ParseMetadataHeader :: "string \<Rightarrow> MetaData" where
  "ParseMetadataHeader header = fold store_element (split_on CHR '','' header) []"

definition serialize_entry :: "string \<times> string \<Rightarrow> string" where
  "serialize_entry e = fst e @ CHR '' '' # b64_encode b64_std (snd e)"

definition SerializeMetadataHeader :: "MetaData \<Rightarrow> string" where
  "SerializeMetadataHeader meta =
     (let header = concat (map (\<lambda>e. serialize_entry e @ '','') meta) in
      if header \<noteq> [] then butlast header else header)"

subsection \<open>Identifiers\<close>

text \<open>\<open>([^/]+)\/?$\<close>: the last segment of the path, one final slash allowed.\<close>

definition last_segment :: "string \<Rightarrow> string" where
  "last_segment url =
     (let s = (if url \<noteq> [] \<and> last url = CHR ''/'' then butlast url else url)
      in rev (takeWhile (\<lambda>c. c \<noteq> CHR ''/'') (rev s)))"

definition extractIDFromPath :: "string \<Rightarrow> string res" where
  "extractIDFromPath url =
     (if last_segment url = [] then Inl ErrNotFound else Inr (last_segment url))"

fun concat_ids :: "string list \<Rightarrow> string list res" where
  "concat_ids [] = Inr []"
| "concat_ids (value # rest) =
     (let value = TrimSpace value in
      if value = [] then concat_ids rest
      else case extractIDFromPath value of
             Inl e \<Rightarrow> Inl e
           | Inr i \<Rightarrow> (case concat_ids rest of Inl e \<Rightarrow> Inl e | Inr ids \<Rightarrow> Inr (i # ids)))"

text \<open>\<open>parseConcat\<close>: whether the upload is partial, whether it is final, and of what.\<close>

definition parseConcat :: "string \<Rightarrow> (bool \<times> bool \<times> string list) res" where
  "parseConcat header =
     (if header = [] then Inr (False, False, [])
      else if header = ''partial'' then Inr (True, False, [])
      else if has_prefix ''final;'' header \<and> length header > length ''final;'' then
        (case concat_ids (split_on CHR '' '' (drop (length ''final;'') header)) of
           Inl e \<Rightarrow> Inl e
         | Inr ids \<Rightarrow> if ids = [] then Inl ErrInvalidConcat else Inr (False, True, ids))
      else Inl ErrInvalidConcat)"

subsection \<open>Requests\<close>

text \<open>
  \<open>getRequestId\<close>: the first 36 bytes of the header, or the identifier \<open>ctxId\<close> the
  framework gave the request.
\<close>

definition getRequestId :: "string \<Rightarrow> request \<Rightarrow> string" where
  "getRequestId ctxId r =
     (let reqId = hget (Header r) ''X-Request-ID'' in
      if reqId = [] then ctxId else if length reqId > 36 then take 36 reqId else reqId)"

text \<open>\<open>host=([^;]+)\<close> and \<open>proto=(https?)\<close>, tried at one position.\<close>

definition match_host :: "string \<Rightarrow> string option" where
  "match_host s =
     (if has_prefix ''host='' s
      then let g = takeWhile (\<lambda>c. c \<noteq> CHR '';'') (drop 5 s) in if g = [] then None else Some g
      else None)"

definition match_proto :: "string \<Rightarrow> string option" where
  "match_proto s =
     (if has_prefix ''proto=https'' s then Some ''https''
      else if has_prefix ''proto=http'' s then Some ''http'' else None)"

definition getHostAndProtocol :: "request \<Rightarrow> bool \<Rightarrow> string \<times> string" where
  "getHostAndProtocol r allowForwarded =
     (let proto = (if TLS r then ''https'' else ''http''); host = Host r in
      if \<not> allowForwarded then (host, proto)
      else
        let h = hget (Header r) ''X-Forwarded-Host'';
            host = (if h \<noteq> [] then h else host);
            p = hget (Header r) ''X-Forwarded-Proto'';
            proto = (if p = ''http'' \<or> p = ''https'' then p else proto);
            f = hget (Header r) ''Forwarded''
        in if f = [] then (host, proto)
           else (case search match_host f of Some g \<Rightarrow> g | None \<Rightarrow> host,
                 case search match_proto f of Some g \<Rightarrow> g | None \<Rightarrow> proto))"

subsection \<open>Content types\<close>

definition mimeInlineBrowserWhitelist :: "string list" where
  "mimeInlineBrowserWhitelist = [''text/plain'', ''image/png'', ''image/jpeg'', ''image/gif'',
     ''image/bmp'', ''image/webp'', ''audio/wave'', ''audio/wav'', ''audio/x-wav'',
     ''audio/x-pn-wav'', ''audio/webm'', ''video/webm'', ''audio/ogg'', ''video/ogg'',
     ''application/ogg'']"

definition lower_az :: "char \<Rightarrow> bool" where
  "lower_az c \<longleftrightarrow> 97 \<le> byte_of c \<and> byte_of c \<le> 122"

definition mime_sub :: "char \<Rightarrow> bool" where
  "mime_sub c \<longleftrightarrow> lower_az c \<or> (48 \<le> byte_of c \<and> byte_of c \<le> 57) \<or> c \<in> set ''-+.''"

text \<open>\<open>^[a-z]+\/[a-z0-9\-\+\.]+$\<close>\<close>

definition reMimeType :: "string \<Rightarrow> bool" where
  "reMimeType s =
     (let t = takeWhile lower_az s; rest = dropWhile lower_az s in
      t \<noteq> [] \<and> (case rest of [] \<Rightarrow> False
                 | c # sub \<Rightarrow> c = CHR ''/'' \<and> sub \<noteq> [] \<and> list_all mime_sub sub))"

text \<open>
  \<open>strconv.Quote\<close>. \<open>isPrint\<close> is Go's table of printable characters beyond ASCII.
\<close>

definition escape_rune :: "(nat \<Rightarrow> bool) \<Rightarrow> string \<Rightarrow> nat \<Rightarrow> string" where
  "escape_rune isPrint raw r =
     (if r = 34 \<or> r = 92 then CHR 0x5C # raw
      else if (if r < 128 then 32 \<le> r \<and> r < 127 else isPrint r) then raw
      else if r = 7 then [CHR 0x5C, CHR ''a'']
      else if r = 8 then [CHR 0x5C, CHR ''b'']
      else if r = 12 then [CHR 0x5C, CHR ''f'']
      else if r = 10 then [CHR 0x5C, CHR ''n'']
      else if r = 13 then [CHR 0x5C, CHR ''r'']
      else if r = 9 then [CHR 0x5C, CHR ''t'']
      else if r = 11 then [CHR 0x5C, CHR ''v'']
      else if r < 32 \<or> r = 127 then CHR 0x5C # CHR ''x'' # hex_pad 2 r
      else if r < 65536 then CHR 0x5C # CHR ''u'' # hex_pad 4 r
      else CHR 0x5C # CHR ''U'' # hex_pad 8 r)"

function quote_runes :: "(nat \<Rightarrow> bool) \<Rightarrow> string \<Rightarrow> string" where
  "quote_runes isPrint s = (case decode_rune s of
     None \<Rightarrow> []
   | Some (r, w) \<Rightarrow>
       (if w = 1 \<and> r = RuneError then CHR 0x5C # CHR ''x'' # hex_pad 2 (byte_of (hd s))
        else escape_rune isPrint (take w s) r) @ quote_runes isPrint (drop w s))"
  by pat_completeness auto
termination
  by (relation "measure (\<lambda>(p, s). length s)") (auto dest!: decode_rune_width)

declare quote_runes.simps [simp del]

definition Quote :: "(nat \<Rightarrow> bool) \<Rightarrow> string \<Rightarrow> string" where
  "Quote isPrint s = CHR 0x22 # quote_runes isPrint s @ [CHR 0x22]"

definition meta_get :: "MetaData \<Rightarrow> string \<Rightarrow> string" where
  "meta_get m k = (case map_of m k of None \<Rightarrow> [] | Some v \<Rightarrow> v)"

definition filterContentType :: "(nat \<Rightarrow> bool) \<Rightarrow> FileInfo \<Rightarrow> string \<times> string" where
  "filterContentType isPrint info =
     (let filetype = meta_get (MetaData info) ''filetype'';
          (contentType, contentDisposition) =
            (if reMimeType filetype
             then (filetype, if filetype \<in> set mimeInlineBrowserWhitelist then ''inline''
                             else ''attachment'')
             else (''application/octet-stream'', ''attachment''))
      in (contentType,
          case map_of (MetaData info) ''filename'' of
            Some filename \<Rightarrow> contentDisposition @ '';filename='' @ Quote isPrint filename
          | None \<Rightarrow> contentDisposition))"

subsection \<open>The metadata header survives a round trip\<close>

lemma space_code_bytes:
  "w \<in> set space_seqs \<Longrightarrow> w \<noteq> [] \<and> byte_of (last w) \<in> {9,10,11,12,13,32,133,160,128,129,130,131,132,134,135,136,137,138,168,169,175,159}
     \<and> (CHR '' '' \<in> set w \<longrightarrow> w = '' '')"
proof -
  have "list_all (\<lambda>w. w \<noteq> [] \<and> byte_of (last w) \<in> set [9,10,11,12,13,32,133,160,128,129,130,131,132,134,135,136,137,138,168,169,175,159]
     \<and> (CHR '' '' \<in> set w \<longrightarrow> w = '' '')) space_seqs"
    by code_simp
  then show "w \<in> set space_seqs \<Longrightarrow> ?thesis" by (simp add: list_all_iff)
qed

lemma starts_clean_space:
  assumes "starts_clean k" "k \<noteq> []"
  shows "starts_clean (k @ CHR '' '' # r)"
proof (rule ccontr)
  assume "\<not> ?thesis"
  then obtain w t where w: "w \<in> set space_seqs" "k @ CHR '' '' # r = w @ t"
    by (auto simp: starts_clean_def starts_space_def has_prefix_iff)
  from w(2) have "(\<exists>u. k = w @ u) \<or> (\<exists>u. w = k @ CHR '' '' # u)"
    by (auto simp: append_eq_append_conv2 Cons_eq_append_conv)
  then show False
  proof
    assume "\<exists>u. k = w @ u"
    with assms w(1) space_code_bytes show False
      by (auto simp: starts_clean_def starts_space_def)
  next
    assume "\<exists>u. w = k @ CHR '' '' # u"
    then obtain u where u: "w = k @ CHR '' '' # u" ..
    with space_code_bytes [OF w(1)] have "k @ CHR '' '' # u = '' ''" by simp
    with assms(2) show False by (cases k) auto
  qed
qed

lemma ends_clean_last:
  assumes "s \<noteq> []" "byte_of (last s) \<notin> {9,10,11,12,13,32,133,160,128,129,130,131,132,134,135,136,137,138,168,169,175,159}"
  shows "ends_clean s"
proof (rule ccontr)
  assume "\<not> ends_clean s"
  then obtain w t where w: "w \<in> set space_seqs" "rev s = rev w @ t"
    by (auto simp: ends_clean_def starts_space_def has_prefix_iff)
  then have "s = rev t @ w" by (metis rev_append rev_rev_ident)
  with space_code_bytes [OF w(1)] assms show False by auto
qed

lemma space_member: "'' '' \<in> set space_seqs" "[CHR 0x0A] \<in> set space_seqs" "[CHR 0x0D] \<in> set space_seqs"
  by code_simp+

lemma ends_clean_not_space:
  assumes "c = CHR '' '' \<or> c = CHR 0x0A \<or> c = CHR 0x0D"
  shows "\<not> ends_clean (s @ [c])"
proof -
  have "[c] \<in> set space_seqs" using assms space_member by auto
  then show ?thesis
    by (force simp: ends_clean_def starts_space_def)
qed

lemma TrimRight_space:
  assumes "ends_clean k"
  shows "TrimRight (k @ '' '') = k"
proof -
  have "starts_space (map rev space_seqs) (CHR '' '' # rev k)"
    unfolding starts_space_def using space_member by force
  then obtain w where w: "w \<in> set (map rev space_seqs)" "w \<noteq> []" "has_prefix w (CHR '' '' # rev k)"
    "strip (map rev space_seqs) (CHR '' '' # rev k) = strip (map rev space_seqs) (drop (length w) (CHR '' '' # rev k))"
    using strip_step by blast
  then obtain v where v: "v \<in> set space_seqs" "w = rev v" by auto
  from w(2,3) have "CHR '' '' \<in> set v"
    using v by (metis has_prefix.simps(3) list.exhaust list.set_intros(1) set_rev)
  with space_code_bytes [OF v(1)] v have "w = '' ''" by simp
  with w(4) assms show ?thesis
    by (simp add: TrimRight_def ends_clean_def strip_done)
qed

text \<open>What the parser makes sure of for every entry it stores.\<close>

definition good_entry :: "string \<times> string \<Rightarrow> bool" where
  "good_entry e \<longleftrightarrow> fst e \<noteq> [] \<and> CHR '' '' \<notin> set (fst e) \<and> CHR '','' \<notin> set (fst e)
     \<and> starts_clean (fst e) \<and> (snd e = [] \<longrightarrow> ends_clean (fst e))"

lemma b64_std_byte: "c \<in> set b64_std \<or> c = CHR ''='' \<Longrightarrow>
    c \<noteq> CHR '' '' \<and> c \<noteq> CHR '','' \<and> 43 \<le> byte_of c \<and> byte_of c \<le> 122"
proof -
  have "list_all (\<lambda>c. c \<noteq> CHR '' '' \<and> c \<noteq> CHR '','' \<and> 43 \<le> byte_of c \<and> byte_of c \<le> 122) (CHR ''='' # b64_std)"
    by code_simp
  then have "\<forall>c \<in> set (CHR ''='' # b64_std). c \<noteq> CHR '' '' \<and> c \<noteq> CHR '','' \<and> 43 \<le> byte_of c \<and> byte_of c \<le> 122"
    by (simp only: list_all_iff)
  then show "c \<in> set b64_std \<or> c = CHR ''='' \<Longrightarrow> ?thesis" by (metis list.set_intros)
qed

lemma b64_std_set: "c \<in> set (b64_encode b64_std v) \<Longrightarrow>
    c \<noteq> CHR '' '' \<and> c \<noteq> CHR '','' \<and> 43 \<le> byte_of c \<and> byte_of c \<le> 122"
  using b64_encode_set [of b64_std c v] b64_std_byte [of c] by simp

lemma parse_serialized:
  assumes g: "good_entry e"
  shows "parse_element (serialize_entry e) = Some e"
proof -
  obtain k v where e: "e = (k, v)" by (cases e)
  let ?b = "b64_encode b64_std v"
  from g e have k: "k \<noteq> []" "CHR '' '' \<notin> set k" "starts_clean k" by (auto simp: good_entry_def)
  show ?thesis
  proof (cases "v = []")
    case True
    with g e have "TrimSpace (k @ '' '') = k"
      using TrimRight_space [of k] starts_clean_space [of k "[]"] k
      by (simp add: TrimSpace_def TrimLeft_def strip_done starts_clean_def good_entry_def)
    with True e k show ?thesis
      by (simp add: parse_element_def serialize_entry_def)
  next
    case False
    then have "?b \<noteq> []" by simp
    then have "last ?b \<in> set ?b" by (rule last_in_set)
    then have "43 \<le> byte_of (last ?b)" "byte_of (last ?b) \<le> 122" using b64_std_set by blast+
    then have "ends_clean (k @ CHR '' '' # ?b)"
      using False by (intro ends_clean_last) auto
    moreover have "starts_clean (k @ CHR '' '' # ?b)" using k by (simp add: starts_clean_space)
    moreover have "CHR '' '' \<notin> set ?b" using b64_std_set by blast
    ultimately show ?thesis
      using e k by (simp add: parse_element_def serialize_entry_def)
  qed
qed

lemma b64_quanta_Nil: "b64_quanta a s = Some [] \<Longrightarrow> s = []"
  by (induction a s rule: b64_quanta.induct) (auto split: option.splits if_splits)

lemma b64_decode_Nil:
  assumes "b64_decode a s = Some []" and "s \<noteq> []"
  shows "last s = CHR 0x0A \<or> last s = CHR 0x0D"
proof -
  from assms(1) have "filter (\<lambda>c. c \<noteq> CHR 0x0A \<and> c \<noteq> CHR 0x0D) s = []"
    unfolding b64_decode_def by (rule b64_quanta_Nil)
  with assms(2) show ?thesis by (auto simp: filter_empty_conv)
qed

lemma TrimSpace_subset: "set (TrimSpace el) \<subseteq> set el"
proof -
  obtain q p where "TrimLeft el = TrimSpace el @ q" "el = p @ TrimLeft el"
    using TrimRight_prefix [of "TrimLeft el"] strip_suffix [of el space_seqs]
    unfolding TrimSpace_def TrimLeft_def by blast
  then show ?thesis by (metis Un_upper1 Un_upper2 order_trans set_append)
qed

text \<open>The two shapes of an element the parser accepts.\<close>

lemma parse_element_shapes:
  assumes "parse_element el = Some e"
  obtains "snd e = []" "TrimSpace el = fst e" "fst e \<noteq> []" "CHR '' '' \<notin> set (fst e)"
  | b where "TrimSpace el = fst e @ CHR '' '' # b" "b64_decode b64_std b = Some (snd e)"
      "fst e \<noteq> []" "CHR '' '' \<notin> set (fst e)"
proof (cases "split_on CHR '' '' (TrimSpace el)")
  case Nil
  then show thesis by simp
next
  case (Cons k r)
  then have k: "CHR '' '' \<notin> set k" using split_on_parts [of k "CHR '' ''" "TrimSpace el"] by simp
  have j: "TrimSpace el = join_with CHR '' '' (k # r)"
    using join_split [of "CHR '' ''" "TrimSpace el"] Cons by simp
  show thesis
  proof (cases r)
    case Nil
    then show thesis using that(1) assms Cons k j
      by (auto simp: parse_element_def Let_def split: if_splits)
  next
    case r: (Cons b r')
    then show thesis using that(2) [of b] assms Cons k j
      by (cases r') (auto simp: parse_element_def Let_def split: if_splits option.splits)
  qed
qed

lemma parse_element_good:
  assumes p: "parse_element el = Some e" and c: "CHR '','' \<notin> set el"
  shows "good_entry e"
  using p
proof (cases rule: parse_element_shapes)
  case 1
  then show ?thesis using c TrimSpace_subset [of el] starts_clean_TrimSpace [of el] ends_clean_TrimSpace [of el]
    by (auto simp: good_entry_def)
next
  case (2 b)
  have clean: "starts_clean (fst e)"
    using starts_clean_prefix starts_clean_TrimSpace [of el] 2(1) by metis
  have "snd e \<noteq> []"
  proof
    assume "snd e = []"
    then have "b = [] \<or> last b = CHR 0x0A \<or> last b = CHR 0x0D"
      using b64_decode_Nil 2(2) by auto
    then obtain s d where "TrimSpace el = s @ [d]" "d = CHR '' '' \<or> d = CHR 0x0A \<or> d = CHR 0x0D"
      using 2(1) by (cases "b = []") (metis append_Cons append_assoc append_butlast_last_id)+
    then show False using ends_clean_TrimSpace [of el] ends_clean_not_space by metis
  qed
  then show ?thesis using 2 clean c TrimSpace_subset [of el] by (auto simp: good_entry_def)
qed

lemma store_element_simps [simp]:
  "parse_element el = None \<Longrightarrow> store_element el m = m"
  "parse_element el = Some e \<Longrightarrow> store_element el m = AList.update (fst e) (snd e) m"
  by (simp_all add: store_element_def split: prod.splits)

text \<open>Every entry the parser stores is one it can read again.\<close>

lemma good_fold:
  "(\<forall>el \<in> set els. CHR '','' \<notin> set el) \<Longrightarrow> \<forall>e \<in> set m. good_entry e \<Longrightarrow> distinct (map fst m) \<Longrightarrow>
     (\<forall>e \<in> set (fold store_element els m). good_entry e) \<and> distinct (map fst (fold store_element els m))"
proof (induction els arbitrary: m)
  case Nil
  then show ?case by simp
next
  case (Cons el els)
  show ?case
  proof (cases "parse_element el")
    case None
    with Cons show ?thesis by simp
  next
    case (Some e)
    then have g: "good_entry e" using parse_element_good Cons.prems(1) by simp
    have "set (AList.update (fst e) (snd e) m) \<subseteq> insert e (set m)"
      by (induction m) auto
    with g Cons.prems(2) have "\<forall>e' \<in> set (AList.update (fst e) (snd e) m). good_entry e'" by blast
    moreover have "distinct (map fst (AList.update (fst e) (snd e) m))"
      using Cons.prems(3) by (rule distinct_update)
    ultimately show ?thesis using Cons.IH [of "AList.update (fst e) (snd e) m"] Cons.prems(1) Some
      by simp
  qed
qed

lemma ParseMetadataHeader_good:
  "(\<forall>e \<in> set (ParseMetadataHeader h). good_entry e) \<and> distinct (map fst (ParseMetadataHeader h))"
  unfolding ParseMetadataHeader_def by (rule good_fold) (auto dest: split_on_parts)

lemma SerializeMetadataHeader_join:
  "SerializeMetadataHeader xs = join_with CHR '','' (map serialize_entry xs)"
proof -
  have "xs \<noteq> [] \<Longrightarrow> concat (map (\<lambda>e. serialize_entry e @ '','') xs) = join_with CHR '','' (map serialize_entry xs) @ '',''"
    by (induction xs rule: list_nonempty_induct) simp_all
  then show ?thesis
    by (cases "xs = []") (simp_all add: SerializeMetadataHeader_def butlast_append)
qed

lemma serialize_no_comma: "good_entry e \<Longrightarrow> CHR '','' \<notin> set (serialize_entry e)"
  using b64_std_set by (auto simp: serialize_entry_def good_entry_def)

lemma fold_serialized:
  "\<forall>e \<in> set xs. good_entry e \<Longrightarrow>
     fold store_element (map serialize_entry xs) m = fold (\<lambda>e. AList.update (fst e) (snd e)) xs m"
  by (induction xs arbitrary: m) (simp_all add: parse_serialized)

lemma map_of_fold_update:
  "distinct (map fst xs) \<Longrightarrow> map_of (fold (\<lambda>e. AList.update (fst e) (snd e)) xs m) = map_of m ++ map_of xs"
proof (induction xs arbitrary: m)
  case Nil
  then show ?case by simp
next
  case (Cons e xs)
  then have "map_of xs (fst e) = None" by (simp add: map_of_eq_None_iff)
  then have "(map_of m)(fst e \<mapsto> snd e) ++ map_of xs = map_of m ++ map_of (e # xs)"
    by (auto simp: fun_eq_iff map_add_def split: option.splits)
  moreover have "map_of (AList.update (fst e) (snd e) m) = (map_of m)(fst e \<mapsto> snd e)"
    by (rule update_conv')
  moreover have "map_of (fold (\<lambda>e. AList.update (fst e) (snd e)) (e # xs) m)
      = map_of (AList.update (fst e) (snd e) m) ++ map_of xs"
    using Cons by simp
  ultimately show ?case by metis
qed

lemma serialize_parse:
  assumes "\<forall>e \<in> set xs. good_entry e" "distinct (map fst xs)"
  shows "map_of (ParseMetadataHeader (SerializeMetadataHeader xs)) = map_of xs"
proof (cases "xs = []")
  case True
  then show ?thesis
    by (simp add: ParseMetadataHeader_def SerializeMetadataHeader_def store_element_def parse_element_def
        TrimSpace_def) code_simp
next
  case False
  then have "split_on CHR '','' (SerializeMetadataHeader xs) = map serialize_entry xs"
    unfolding SerializeMetadataHeader_join using assms serialize_no_comma by (intro split_join) auto
  then show ?thesis
    using assms by (simp add: ParseMetadataHeader_def fold_serialized map_of_fold_update)
qed

lemma good_entries_map_of:
  assumes "map_of xs = map_of ys" "distinct (map fst xs)" "\<forall>e \<in> set ys. good_entry e"
  shows "\<forall>e \<in> set xs. good_entry e"
proof
  fix e assume "e \<in> set xs"
  then have "map_of xs (fst e) = Some (snd e)" using assms(2) by simp
  then have "(fst e, snd e) \<in> set ys" using assms(1) by (metis map_of_SomeD)
  then show "good_entry e" using assms(3) by auto
qed

text \<open>
  C10. The metadata a client sends survives a round trip: whatever the header, every map equal
  to the one parsed from it (Go may list its entries in any order) is serialised to a header
  that parses to the same map.
\<close>

theorem metadata_roundtrip:
  assumes "distinct (map fst xs)" and "map_of xs = map_of (ParseMetadataHeader h)"
  shows "map_of (ParseMetadataHeader (SerializeMetadataHeader xs)) = map_of xs"
proof -
  have "\<forall>e \<in> set xs. good_entry e"
    by (rule good_entries_map_of [OF assms(2,1)]) (simp add: ParseMetadataHeader_good)
  then show ?thesis using assms(1) by (rule serialize_parse)
qed

theorem metadata_roundtrip_witness:
  "map_of (ParseMetadataHeader (SerializeMetadataHeader [(''b'', []), (''a'', ''hi'')]))
     = map_of [(''b'', []), (''a'', ''hi'')]"
proof (rule metadata_roundtrip [of _ "''a aGk=,b,c !''"])
  have "ParseMetadataHeader ''a aGk=,b,c !'' = [(''a'', ''hi''), (''b'', [])]" by code_simp
  then show "map_of [(''b'', []), (''a'', ''hi'')] = map_of (ParseMetadataHeader ''a aGk=,b,c !'')"
    by (auto simp: fun_eq_iff)
qed simp

lemma last_segment_spec:
  assumes "CHR ''/'' \<notin> set i" "p = [] \<or> last p = CHR ''/''"
  shows "rev (takeWhile (\<lambda>c. c \<noteq> CHR ''/'') (rev (p @ i))) = i"
proof -
  have "takeWhile (\<lambda>c. c \<noteq> CHR ''/'') (rev p) = []" using assms(2)
    by (cases p rule: rev_cases) auto
  moreover have "takeWhile (\<lambda>c. c \<noteq> CHR ''/'') (rev i @ rev p) = rev i @ takeWhile (\<lambda>c. c \<noteq> CHR ''/'') (rev p)"
    using assms(1) by (intro takeWhile_append2) auto
  ultimately show ?thesis by simp
qed

lemma segment_split:
  obtains p where "s = p @ rev (takeWhile (\<lambda>c. c \<noteq> CHR ''/'') (rev s))" "p = [] \<or> last p = CHR ''/''"
proof
  let ?d = "dropWhile (\<lambda>c. c \<noteq> CHR ''/'') (rev s)"
  show "s = rev ?d @ rev (takeWhile (\<lambda>c. c \<noteq> CHR ''/'') (rev s))"
    by (metis rev_append rev_rev_ident takeWhile_dropWhile_id)
  show "rev ?d = [] \<or> last (rev ?d) = CHR ''/''"
    using hd_dropWhile [of "\<lambda>c. c \<noteq> CHR ''/''" "rev s"] by (auto simp: last_rev)
qed

text \<open>
  The identifier of a path is its last segment: what is extracted has no slash, is not
  empty, ends the path up to one final slash and follows a slash or starts the path; and every
  path that ends so gives exactly this identifier.
\<close>

theorem extract_id_iff:
  "extractIDFromPath url = Inr i \<longleftrightarrow>
     i \<noteq> [] \<and> CHR ''/'' \<notin> set i \<and> (\<exists>p. (p = [] \<or> last p = CHR ''/'') \<and> url \<in> {p @ i, p @ i @ ''/''})"
  (is "?L \<longleftrightarrow> ?R")
proof
  assume ?L
  then have i: "i \<noteq> []" "last_segment url = i" by (auto simp: extractIDFromPath_def split: if_splits)
  then have ns: "CHR ''/'' \<notin> set i" by (auto simp: last_segment_def Let_def dest: set_takeWhileD)
  show ?R
  proof (cases "url \<noteq> [] \<and> last url = CHR ''/''")
    case True
    then have "i = rev (takeWhile (\<lambda>c. c \<noteq> CHR ''/'') (rev (butlast url)))" using i(2) by (simp add: last_segment_def)
    then obtain p where p: "butlast url = p @ i" "p = [] \<or> last p = CHR ''/''"
      using segment_split [of "butlast url"] by metis
    have "url = butlast url @ ''/''" using True append_butlast_last_id by metis
    then have "url = p @ i @ ''/''" using p(1) by simp
    then show ?thesis using i(1) ns p(2) by blast
  next
    case False
    then have "i = rev (takeWhile (\<lambda>c. c \<noteq> CHR ''/'') (rev url))" using i(2) by (auto simp: last_segment_def)
    then obtain p where "url = p @ i" "p = [] \<or> last p = CHR ''/''" using segment_split [of url] by metis
    then show ?thesis using i(1) ns by blast
  qed
next
  assume ?R
  then obtain p where r: "i \<noteq> []" "CHR ''/'' \<notin> set i" "p = [] \<or> last p = CHR ''/''" "url = p @ i \<or> url = (p @ i) @ ''/''"
    by auto
  have "last (p @ i) \<noteq> CHR ''/''" using r(1,2) by (metis last_appendR last_in_set)
  then have "last_segment url = i"
    using r last_segment_spec [OF r(2,3)] by (auto simp: last_segment_def butlast_append)
  then show ?L using r(1) by (simp add: extractIDFromPath_def)
qed

subsection \<open>What a download is served as\<close>

text \<open>A string in which every quote is escaped and no escape is cut off.\<close>

fun well_escaped :: "string \<Rightarrow> bool" where
  "well_escaped [] = True"
| "well_escaped (c # cs) =
     (if c = CHR 0x5C then (case cs of [] \<Rightarrow> False | _ # rest \<Rightarrow> well_escaped rest)
      else c \<noteq> CHR 0x22 \<and> well_escaped cs)"

definition header_safe :: "string \<Rightarrow> bool" where
  "header_safe s \<longleftrightarrow> (\<forall>c \<in> set s. 32 \<le> byte_of c \<and> byte_of c \<noteq> 127)"

lemma well_escaped_append: "well_escaped x \<Longrightarrow> well_escaped (x @ y) = well_escaped y"
proof (induction x rule: well_escaped.induct)
  case 1
  then show ?case by simp
next
  case (2 c cs)
  show ?case
  proof (cases "c = CHR 0x5C")
    case True
    then obtain d rest where "cs = d # rest" "well_escaped rest" using 2(3) by (cases cs) auto
    then show ?thesis using 2(1) True by simp
  next
    case False
    then show ?thesis using 2 by simp
  qed
qed

lemma plain_escaped: "\<forall>c \<in> set x. c \<noteq> CHR 0x5C \<and> c \<noteq> CHR 0x22 \<Longrightarrow> well_escaped x"
  by (induction x) auto

lemma hex_pad_set: "set (hex_pad k n) \<subseteq> set hex_lower"
proof (induction k n rule: hex_pad.induct)
  case (1 n)
  then show ?case by simp
next
  case (2 k n)
  have "n mod 16 < length hex_lower" by (simp add: hex_lower_def)
  then have "hex_lower ! (n mod 16) \<in> set hex_lower" by (rule nth_mem)
  then show ?case using 2 by simp
qed

lemma hex_lower_plain: "c \<in> set hex_lower \<Longrightarrow> c \<noteq> CHR 0x5C \<and> c \<noteq> CHR 0x22 \<and> 32 \<le> byte_of c \<and> byte_of c \<noteq> 127"
proof -
  have "list_all (\<lambda>c. c \<noteq> CHR 0x5C \<and> c \<noteq> CHR 0x22 \<and> 32 \<le> byte_of c \<and> byte_of c \<noteq> 127) hex_lower" by code_simp
  then show "c \<in> set hex_lower \<Longrightarrow> ?thesis" unfolding list_all_iff by blast
qed

lemma hex_pad_plain: "well_escaped (hex_pad k n) \<and> header_safe (hex_pad k n)"
  using hex_pad_set [of k n] hex_lower_plain by (auto simp: header_safe_def intro!: plain_escaped)

lemma decode_rune_raw:
  assumes "decode_rune s = Some (r, w)"
  shows "(w = 1 \<and> r < 128 \<and> take w s = [char_of r]) \<or> (w = 1 \<and> r = RuneError)
    \<or> (128 \<le> r \<and> (\<forall>c \<in> set (take w s). 128 \<le> byte_of c))"
proof (cases s)
  case Nil
  then show ?thesis using assms by simp
next
  case (Cons c cs)
  let ?b = "byte_of c" and ?bs = "map byte_of (take 3 cs)"
  show ?thesis
  proof (cases "?b < 128")
    case True
    then show ?thesis using assms Cons by (auto simp: Let_def)
  next
    case hi: False
    consider (two) "rune2 ?b ?bs = Some r" "w = 2" | (three) "rune3 ?b ?bs = Some r" "w = 3"
      | (four) "rune4 ?b ?bs = Some r" "w = 4" | (bad) "r = RuneError" "w = 1"
      using assms Cons hi by (auto simp: Let_def split: option.splits)
    then show ?thesis
    proof cases
      case two
      then show ?thesis using Cons hi by (cases cs) (auto simp: rune2_def cont_byte_def split: if_splits)
    next
      case three
      then show ?thesis using Cons hi
        by (cases cs; cases "tl cs") (auto simp: rune3_def cont_byte_def split: if_splits)
    next
      case four
      then show ?thesis using Cons hi
        by (cases cs; cases "tl cs"; cases "tl (tl cs)") (auto simp: rune4_def cont_byte_def split: if_splits)
    next
      case bad
      then show ?thesis by simp
    qed
  qed
qed

lemma header_safe_append [simp]: "header_safe (x @ y) \<longleftrightarrow> header_safe x \<and> header_safe y"
  by (auto simp: header_safe_def)

lemma escape_rune_ok:
  assumes "(r < 128 \<and> raw = [char_of r]) \<or> (128 \<le> r \<and> (\<forall>c \<in> set raw. 128 \<le> byte_of c))"
  shows "well_escaped (escape_rune isPrint raw r) \<and> header_safe (escape_rune isPrint raw r)"
proof (cases "r < 128")
  case True
  then have raw: "raw = [char_of r]" using assms by simp
  have "list_all (\<lambda>r. well_escaped (escape_rune (\<lambda>_. False) [char_of r] r) \<and> header_safe (escape_rune (\<lambda>_. False) [char_of r] r)) [0..<128]"
    unfolding header_safe_def by code_simp
  then have "well_escaped (escape_rune (\<lambda>_. False) [char_of r] r) \<and> header_safe (escape_rune (\<lambda>_. False) [char_of r] r)"
    using True by (simp add: list_all_iff)
  moreover have "escape_rune isPrint raw r = escape_rune (\<lambda>_. False) [char_of r] r"
    using True raw by (simp add: escape_rune_def)
  ultimately show ?thesis by simp
next
  case False
  then have hi: "\<forall>c \<in> set raw. 128 \<le> byte_of c" using assms by simp
  have "c \<noteq> CHR 0x5C \<and> c \<noteq> CHR 0x22" if "128 \<le> byte_of c" for c using that by auto
  then have "well_escaped raw" "header_safe raw"
    using hi by (auto simp: header_safe_def intro!: plain_escaped)
  moreover have "escape_rune isPrint raw r \<in> {raw, CHR 0x5C # CHR ''u'' # hex_pad 4 r, CHR 0x5C # CHR ''U'' # hex_pad 8 r}"
    using False by (auto simp: escape_rune_def)
  ultimately show ?thesis using hex_pad_plain [of 4 r] hex_pad_plain [of 8 r] by (auto simp: header_safe_def)
qed

lemma quote_runes_ok: "well_escaped (quote_runes isPrint s) \<and> header_safe (quote_runes isPrint s)"
proof (induction isPrint s rule: quote_runes.induct)
  case (1 isPrint s)
  show ?case
  proof (cases "decode_rune s")
    case None
    then show ?thesis by (simp add: quote_runes.simps [of isPrint s] header_safe_def)
  next
    case (Some rw)
    obtain r w where rw: "rw = (r, w)" by (metis surj_pair)
    let ?x = "if w = 1 \<and> r = RuneError then CHR 0x5C # CHR ''x'' # hex_pad 2 (byte_of (hd s)) else escape_rune isPrint (take w s) r"
    have q: "quote_runes isPrint s = ?x @ quote_runes isPrint (drop w s)"
      using Some rw by (simp add: quote_runes.simps [of isPrint s])
    have "well_escaped ?x \<and> header_safe ?x"
    proof (cases "w = 1 \<and> r = RuneError")
      case True
      then show ?thesis using hex_pad_plain [of 2 "byte_of (hd s)"] by (simp add: header_safe_def)
    next
      case False
      then have "(r < 128 \<and> take w s = [char_of r]) \<or> (128 \<le> r \<and> (\<forall>c \<in> set (take w s). 128 \<le> byte_of c))"
        using decode_rune_raw Some rw by blast
      then show ?thesis using False escape_rune_ok by auto
    qed
    then show ?thesis using 1 [OF Some rw [symmetric]] by (simp add: q well_escaped_append)
  qed
qed

text \<open>
  C11. A download is shown in the browser only when its type is on the whitelist; and whatever
  the metadata, the two headers carry no control character, and the file name is one quoted
  string that the name itself cannot leave.
\<close>

theorem download_headers_safe:
  "has_prefix ''inline'' (snd (filterContentType isPrint info))
       = (fst (filterContentType isPrint info) \<in> set mimeInlineBrowserWhitelist)
   \<and> header_safe (fst (filterContentType isPrint info)) \<and> header_safe (snd (filterContentType isPrint info))
   \<and> (\<exists>d. d \<in> {''inline'', ''attachment''} \<and> (snd (filterContentType isPrint info) = d
        \<or> (\<exists>q. well_escaped q \<and> snd (filterContentType isPrint info) = d @ '';filename='' @ CHR 0x22 # q @ [CHR 0x22])))"
proof -
  let ?ft = "meta_get (MetaData info) ''filetype''"
  let ?ct = "if reMimeType ?ft then ?ft else ''application/octet-stream''"
  let ?cd = "if reMimeType ?ft \<and> ?ft \<in> set mimeInlineBrowserWhitelist then ''inline'' else ''attachment''"
  let ?name = "case map_of (MetaData info) ''filename'' of None \<Rightarrow> [] | Some f \<Rightarrow> '';filename='' @ Quote isPrint f"
  have f: "filterContentType isPrint info = (?ct, ?cd @ ?name)"
    by (simp add: filterContentType_def Let_def split: option.splits)
  have oct: "''application/octet-stream'' \<notin> set mimeInlineBrowserWhitelist" by (simp add: mimeInlineBrowserWhitelist_def)
  have pre: "has_prefix ''inline'' (''inline'' @ x)" "\<not> has_prefix ''inline'' (''attachment'' @ x)" for x by simp_all
  have lit: "header_safe ''application/octet-stream''" "header_safe ''inline''" "header_safe ''attachment''"
    "header_safe '';filename=''" unfolding header_safe_def by code_simp+
  have mime: "header_safe s" if "reMimeType s" for s
  proof -
    have chars: "32 \<le> byte_of c \<and> byte_of c \<noteq> 127" if "lower_az c \<or> mime_sub c \<or> c = CHR ''/''" for c
      using that by (auto simp: lower_az_def mime_sub_def)
    have "s = takeWhile lower_az s @ dropWhile lower_az s" by simp
    moreover have "\<forall>c \<in> set (takeWhile lower_az s). lower_az c" by (auto dest: set_takeWhileD)
    moreover have "\<forall>c \<in> set (dropWhile lower_az s). mime_sub c \<or> c = CHR ''/''"
      using \<open>reMimeType s\<close> by (auto simp: reMimeType_def Let_def list_all_iff split: list.splits)
    ultimately have "\<forall>c \<in> set s. lower_az c \<or> mime_sub c \<or> c = CHR ''/''" by (metis Un_iff set_append)
    then show ?thesis using chars by (auto simp: header_safe_def)
  qed
  have quote: "header_safe (Quote isPrint x)" for x
    using quote_runes_ok [of isPrint x] by (simp add: Quote_def header_safe_def)
  have "header_safe ?name"
    using quote lit by (cases "map_of (MetaData info) ''filename''") (simp_all add: header_safe_def)
  then have "header_safe ?ct" "header_safe (?cd @ ?name)" using mime lit by simp_all
  moreover have "has_prefix ''inline'' (?cd @ ?name) = (?ct \<in> set mimeInlineBrowserWhitelist)"
    using oct pre by auto
  moreover have "\<exists>d. d \<in> {''inline'', ''attachment''} \<and> (?cd @ ?name = d
      \<or> (\<exists>q. well_escaped q \<and> ?cd @ ?name = d @ '';filename='' @ CHR 0x22 # q @ [CHR 0x22]))"
    using quote_runes_ok [of isPrint] by (intro exI [of _ ?cd]) (auto simp: Quote_def split: option.splits)
  ultimately show ?thesis unfolding f fst_conv snd_conv by blast
qed

end
