(* ===== verification/Tus_Store.thy ===== *)
theory Tus_Store
  imports Tus_Common
begin

section \<open>tus: the interfaces of the stores and the configuration\<close>

text \<open>
  The Go interfaces of \<open>datastore.go\<close> as records of functions over a store state
  \<open>'s\<close>, an upload handle \<open>'u\<close>, a lock state \<open>'l\<close> and a lock \<open>'k\<close>; the
  \<open>StoreComposer\<close> of \<open>composer.go\<close>; \<open>Config\<close> and its \<open>validate\<close>; and
  \<open>NewTus\<close>. The two locales state what the handlers rely on.
\<close>

subsection \<open>Interfaces\<close>

text \<open>
  \<open>DataStore\<close> and \<open>Upload\<close>. A handle is a pointer the store may update, so an operation
  that does returns it. \<open>GetReader\<close> gives the bytes the reader delivers.
\<close>

record ('s, 'u) DataStore =
  NewUpload :: "FileInfo \<Rightarrow> 's \<Rightarrow> 'u res \<times> 's"
  GetUpload :: "string \<Rightarrow> 's \<Rightarrow> 'u res"
  GetInfo :: "'u \<Rightarrow> 's \<Rightarrow> FileInfo res"
  WriteChunk :: "'u \<Rightarrow> int \<Rightarrow> bodyReader \<Rightarrow> 's \<Rightarrow> (int \<times> go_error option) \<times> bodyReader \<times> 'u \<times> 's"
  GetReader :: "'u \<Rightarrow> 's \<Rightarrow> string res"
  FinishUpload :: "'u \<Rightarrow> 's \<Rightarrow> go_error option \<times> 's"

type_synonym ('s, 'u) Terminater = "'u \<Rightarrow> 's \<Rightarrow> go_error option \<times> 's"
type_synonym ('s, 'u) Concater = "'u \<Rightarrow> 'u list \<Rightarrow> 's \<Rightarrow> go_error option \<times> 's"
type_synonym ('s, 'u) LengthDeferrer = "'u \<Rightarrow> int \<Rightarrow> 's \<Rightarrow> go_error option \<times> 'u \<times> 's"

record ('l, 'k) Locker =
  NewLock :: "string \<Rightarrow> 'k res"
  Lock :: "'k \<Rightarrow> 'l \<Rightarrow> go_error option \<times> 'l"
  Unlock :: "'k \<Rightarrow> 'l \<Rightarrow> go_error option \<times> 'l"

subsection \<open>The composer\<close>

record ('s, 'u, 'l, 'k) StoreComposer =
  Core :: "('s, 'u) DataStore option"
  UsesTerminater :: bool
  Terminater :: "('s, 'u) Terminater option"
  UsesLocker :: bool
  CLocker :: "('l, 'k) Locker option"
  UsesConcater :: bool
  Concater :: "('s, 'u) Concater option"
  UsesLengthDeferrer :: bool
  LengthDeferrer :: "('s, 'u) LengthDeferrer option"

definition NewStoreComposer :: "('s, 'u, 'l, 'k) StoreComposer" where
  "NewStoreComposer = \<lparr>Core = None, UsesTerminater = False, Terminater = None,
     UsesLocker = False, CLocker = None, UsesConcater = False, Concater = None,
     UsesLengthDeferrer = False, LengthDeferrer = None\<rparr>"

text \<open>The two marks are the bytes of U+2713 and U+2717.\<close>

definition mark :: "bool \<Rightarrow> string" where
  "mark b = (if b then [CHR 0xE2, CHR 0x9C, CHR 0x93] else [CHR 0xE2, CHR 0x9C, CHR 0x97])"

definition Capabilities :: "('s, 'u, 'l, 'k) StoreComposer \<Rightarrow> string" where
  "Capabilities c = ''Core: '' @ mark (Core c \<noteq> None) @ '' Terminater: '' @ mark (UsesTerminater c)
     @ '' Locker: '' @ mark (UsesLocker c) @ '' Concater: '' @ mark (UsesConcater c)
     @ '' LengthDeferrer: '' @ mark (UsesLengthDeferrer c)"

definition UseCore :: "('s, 'u) DataStore option \<Rightarrow> ('s, 'u, 'l, 'k) StoreComposer
    \<Rightarrow> ('s, 'u, 'l, 'k) StoreComposer" where
  "UseCore core c = c\<lparr>Core := core\<rparr>"

definition UseTerminater :: "('s, 'u) Terminater option \<Rightarrow> ('s, 'u, 'l, 'k) StoreComposer
    \<Rightarrow> ('s, 'u, 'l, 'k) StoreComposer" where
  "UseTerminater ext c = c\<lparr>UsesTerminater := ext \<noteq> None, Terminater := ext\<rparr>"

definition UseLocker :: "('l, 'k) Locker option \<Rightarrow> ('s, 'u, 'l, 'k) StoreComposer
    \<Rightarrow> ('s, 'u, 'l, 'k) StoreComposer" where
  "UseLocker ext c = c\<lparr>UsesLocker := ext \<noteq> None, CLocker := ext\<rparr>"

definition UseConcater :: "('s, 'u) Concater option \<Rightarrow> ('s, 'u, 'l, 'k) StoreComposer
    \<Rightarrow> ('s, 'u, 'l, 'k) StoreComposer" where
  "UseConcater ext c = c\<lparr>UsesConcater := ext \<noteq> None, Concater := ext\<rparr>"

definition UseLengthDeferrer :: "('s, 'u) LengthDeferrer option \<Rightarrow> ('s, 'u, 'l, 'k) StoreComposer
    \<Rightarrow> ('s, 'u, 'l, 'k) StoreComposer" where
  "UseLengthDeferrer ext c = c\<lparr>UsesLengthDeferrer := ext \<noteq> None, LengthDeferrer := ext\<rparr>"

lemmas composer_defs = NewStoreComposer_def UseCore_def UseTerminater_def UseLocker_def
  UseConcater_def UseLengthDeferrer_def

text \<open>What the handlers rely on when they use an extension its flag announces.\<close>

definition composed :: "('s, 'u, 'l, 'k) StoreComposer \<Rightarrow> bool" where
  "composed c \<longleftrightarrow> UsesTerminater c = (Terminater c \<noteq> None) \<and> UsesLocker c = (CLocker c \<noteq> None)
     \<and> UsesConcater c = (Concater c \<noteq> None) \<and> UsesLengthDeferrer c = (LengthDeferrer c \<noteq> None)"

lemma composed_Use [simp, intro]:
  "composed NewStoreComposer"
  "composed c \<Longrightarrow> composed (UseCore core c)"
  "composed c \<Longrightarrow> composed (UseTerminater t c)"
  "composed c \<Longrightarrow> composed (UseLocker l c)"
  "composed c \<Longrightarrow> composed (UseConcater cc c)"
  "composed c \<Longrightarrow> composed (UseLengthDeferrer d c)"
  by (auto simp: composed_def composer_defs)

subsection \<open>Parsing the base path\<close>

text \<open>
  The part of \<open>net/url\<close> that \<open>validate\<close> uses: whether \<open>url.Parse\<close> accepts the base path
  and whether the URL has a scheme. The text of the error is left out of the model.
\<close>

definition url_error :: go_error where
  "url_error = new_error ''parse error''"

definition is_letter :: "char \<Rightarrow> bool" where
  "is_letter c \<longleftrightarrow> lower_az c \<or> (65 \<le> byte_of c \<and> byte_of c \<le> 90)"

definition is_digit :: "char \<Rightarrow> bool" where
  "is_digit c \<longleftrightarrow> 48 \<le> byte_of c \<and> byte_of c \<le> 57"

definition is_hex :: "char \<Rightarrow> bool" where
  "is_hex c \<longleftrightarrow> is_digit c \<or> (97 \<le> byte_of c \<and> byte_of c \<le> 102) \<or> (65 \<le> byte_of c \<and> byte_of c \<le> 70)"

text \<open>\<open>getScheme\<close>: the scheme and the rest; \<open>i\<close> is how many characters were read.\<close>

fun get_scheme :: "string \<Rightarrow> string \<Rightarrow> string \<Rightarrow> (string \<times> string) res" where
  "get_scheme raw acc [] = Inr ([], raw)"
| "get_scheme raw acc (c # cs) =
     (if is_letter c then get_scheme raw (acc @ [c]) cs
      else if is_digit c \<or> c \<in> set ''+-.'' then
        (if acc = [] then Inr ([], raw) else get_scheme raw (acc @ [c]) cs)
      else if c = CHR '':'' then (if acc = [] then Inl url_error else Inr (acc, cs))
      else Inr ([], raw))"

fun escapes_ok :: "string \<Rightarrow> bool" where
  "escapes_ok [] = True"
| "escapes_ok (c # cs) =
     (if c = CHR ''%'' then
        (case cs of a # b # rest \<Rightarrow> is_hex a \<and> is_hex b \<and> escapes_ok rest | _ \<Rightarrow> False)
      else escapes_ok cs)"

definition cut :: "char \<Rightarrow> string \<Rightarrow> string \<times> string" where
  "cut d s = (takeWhile (\<lambda>c. c \<noteq> d) s, drop 1 (dropWhile (\<lambda>c. c \<noteq> d) s))"

definition valid_port :: "string \<Rightarrow> bool" where
  "valid_port s \<longleftrightarrow> s = [] \<or> (hd s = CHR '':'' \<and> list_all is_digit (tl s))"

text \<open>The host of an authority: no escapes of ASCII other than \<open>%25\<close>, no odd characters.\<close>

definition host_char :: "char \<Rightarrow> bool" where
  "host_char c \<longleftrightarrow> 128 \<le> byte_of c \<or> is_letter c \<or> is_digit c \<or> c \<in> set ''-_.~!$&*+,;=:[]<>()'' \<or> c = CHR 0x22 \<or> c = CHR 0x27"

fun host_ok :: "string \<Rightarrow> bool" where
  "host_ok [] = True"
| "host_ok (c # cs) =
     (if c = CHR ''%'' then
        (case cs of a # b # rest \<Rightarrow> is_hex a \<and> is_hex b
           \<and> ((is_digit a \<longrightarrow> byte_of a \<ge> 56) \<or> (a = CHR ''2'' \<and> b = CHR ''5'')) \<and> host_ok rest
         | _ \<Rightarrow> False)
      else host_char c \<and> host_ok cs)"

definition last_part :: "char \<Rightarrow> string \<Rightarrow> string" where
  "last_part d s = rev (takeWhile (\<lambda>c. c \<noteq> d) (rev s))"

definition userinfo_char :: "char \<Rightarrow> bool" where
  "userinfo_char c \<longleftrightarrow> is_letter c \<or> is_digit c \<or> c \<in> set ''-._:~!$&()*+,;=%@'' \<or> c = CHR 0x27"

definition authority_ok :: "string \<Rightarrow> bool" where
  "authority_ok a =
     (let host = last_part CHR ''@'' a;
          user = take (length a - length host - 1) a;
          port = (if CHR '':'' \<in> set host then CHR '':'' # last_part CHR '':'' host else [])
      in (CHR ''@'' \<in> set a \<longrightarrow> list_all userinfo_char user \<and> escapes_ok user)
         \<and> (if host \<noteq> [] \<and> hd host = CHR ''['' then
              CHR '']'' \<in> set host \<and> valid_port (last_part CHR '']'' host) \<and> host_ok host
            else valid_port port \<and> host_ok host))"

definition url_parse :: "string \<Rightarrow> bool res" where
  "url_parse raw =
     (let (u, frag) = cut CHR ''#'' raw in
      if list_ex (\<lambda>c. byte_of c < 32 \<or> byte_of c = 127) u then Inl url_error
      else if u = ''*'' then (if escapes_ok frag then Inr False else Inl url_error)
      else case get_scheme u [] u of
        Inl e \<Rightarrow> Inl e
      | Inr (scheme, rest0) \<Rightarrow>
          (let rest = fst (cut CHR ''?'' rest0);
               isAbs = scheme \<noteq> [];
               fin = (\<lambda>ok. if ok \<and> escapes_ok frag then Inr isAbs else Inl url_error)
           in if isAbs \<and> \<not> has_prefix ''/'' rest then fin True
              else if \<not> has_prefix ''/'' rest \<and> CHR '':'' \<in> set (fst (cut CHR ''/'' rest)) then Inl url_error
              else if has_prefix ''//'' rest \<and> (isAbs \<or> \<not> has_prefix ''///'' rest) then
                (let authority = takeWhile (\<lambda>c. c \<noteq> CHR ''/'') (drop 2 rest);
                     path = dropWhile (\<lambda>c. c \<noteq> CHR ''/'') (drop 2 rest)
                 in fin (authority_ok authority \<and> escapes_ok path))
              else fin (escapes_ok rest)))"

subsection \<open>The configuration\<close>

text \<open>
  The fields of \<open>Config\<close> the program reads. \<open>StoreComposer\<close> is \<open>None\<close> for a nil pointer, a
  callback is \<open>None\<close> when it is not set.
\<close>

record ('s, 'u, 'l, 'k) Config =
  CStoreComposer :: "('s, 'u, 'l, 'k) StoreComposer option"
  MaxSize :: int
  BasePath :: string
  IsAbs :: bool
  DisableDownload :: bool
  DisableTermination :: bool
  NotifyCompleteUploads :: bool
  NotifyTerminatedUploads :: bool
  NotifyUploadProgress :: bool
  NotifyCreatedUploads :: bool
  RespectForwardedHeaders :: bool
  PreUploadCreateCallback :: "(HookEvent \<Rightarrow> go_error option) option"
  PreFinishResponseCallback :: "(HookEvent \<Rightarrow> go_error option) option"

definition slash_path :: "string \<Rightarrow> bool \<Rightarrow> string" where
  "slash_path base isAbs =
     (let base = (if base \<noteq> [] \<and> last base \<noteq> CHR ''/'' then base @ ''/'' else base)
      in if \<not> isAbs \<and> length base > 0 \<and> hd base \<noteq> CHR ''/'' then CHR ''/'' # base else base)"

definition validate :: "('s, 'u, 'l, 'k) Config \<Rightarrow> ('s, 'u, 'l, 'k) Config res" where
  "validate cfg = (case url_parse (BasePath cfg) of
     Inl e \<Rightarrow> Inl e
   | Inr isAbs \<Rightarrow>
       (let cfg = cfg\<lparr>BasePath := slash_path (BasePath cfg) isAbs, IsAbs := isAbs\<rparr> in
        case CStoreComposer cfg of
          None \<Rightarrow> Inl (new_error ''tus: StoreComposer must no be nil'')
        | Some c \<Rightarrow>
            if Core c = None
            then Inl (new_error ''tus: StoreComposer in Config needs to contain a non-nil core'')
            else Inr cfg))"

text \<open>
  \<open>Uploader\<close>: the metrics and the event channels are part of the state the handlers work
  on, not of this record.
\<close>

record ('s, 'u, 'l, 'k) Uploader =
  config :: "('s, 'u, 'l, 'k) Config"
  composer :: "('s, 'u, 'l, 'k) StoreComposer"
  core :: "('s, 'u) DataStore"
  isBasePathAbs :: bool
  basePath :: string
  extensions :: string

definition tus_extensions :: "('s, 'u, 'l, 'k) StoreComposer \<Rightarrow> string" where
  "tus_extensions c = ''creation,creation-with-upload''
     @ (if UsesTerminater c then '',termination'' else [])
     @ (if UsesConcater c then '',concatenation'' else [])
     @ (if UsesLengthDeferrer c then '',creation-defer-length'' else [])"

definition NewTus :: "('s, 'u, 'l, 'k) Config \<Rightarrow> ('s, 'u, 'l, 'k) Uploader res" where
  "NewTus config0 = (case validate config0 of
     Inl e \<Rightarrow> Inl e
   | Inr cfg \<Rightarrow>
       (case CStoreComposer cfg of
          None \<Rightarrow> Inl nil_deref
        | Some c \<Rightarrow>
          (case Core c of
             None \<Rightarrow> Inl nil_deref
           | Some co \<Rightarrow> Inr \<lparr>config = cfg, composer = c, core = co, isBasePathAbs = IsAbs cfg,
                basePath = BasePath cfg, extensions = tus_extensions c\<rparr>)))"

lemma slash_path_last: "slash_path b isAbs \<noteq> [] \<Longrightarrow> last (slash_path b isAbs) = CHR ''/''"
  by (auto simp: slash_path_def Let_def)

lemma slash_path_hd: "slash_path b False \<noteq> [] \<Longrightarrow> hd (slash_path b False) = CHR ''/''"
  by (auto simp: slash_path_def Let_def split: if_splits)

lemma extension_names: "\<forall>t c d. set (split_on CHR '','' (''creation,creation-with-upload''
     @ (if t then '',termination'' else []) @ (if c then '',concatenation'' else [])
     @ (if d then '',creation-defer-length'' else []))) = {''creation'', ''creation-with-upload''}
        \<union> (if t then {''termination''} else {}) \<union> (if c then {''concatenation''} else {})
        \<union> (if d then {''creation-defer-length''} else {})"
  by code_simp

text \<open>
  An uploader that \<open>NewTus\<close> returns has a core store, a base path that is empty or ends
  with a slash, and starts with one unless it has a scheme, and it announces exactly the
  extensions its composer uses.
\<close>

theorem new_tus_ready:
  assumes "NewTus cfg = Inr u"
  shows "Core (composer u) = Some (core u) \<and> (basePath u = [] \<or> last (basePath u) = CHR ''/'')
    \<and> (basePath u = [] \<or> isBasePathAbs u \<or> hd (basePath u) = CHR ''/'')
    \<and> set (split_on CHR '','' (extensions u)) = {''creation'', ''creation-with-upload''}
        \<union> (if UsesTerminater (composer u) then {''termination''} else {})
        \<union> (if UsesConcater (composer u) then {''concatenation''} else {})
        \<union> (if UsesLengthDeferrer (composer u) then {''creation-defer-length''} else {})"
proof -
  obtain c isAbs where c: "Core c = Some (core u)" "composer u = c" "extensions u = tus_extensions c"
    "isBasePathAbs u = isAbs" "basePath u = slash_path (BasePath cfg) isAbs"
    using assms by (auto simp: NewTus_def validate_def Let_def split: sum.splits option.splits if_splits)
  have "set (split_on CHR '','' (tus_extensions c)) = {''creation'', ''creation-with-upload''}
        \<union> (if UsesTerminater c then {''termination''} else {})
        \<union> (if UsesConcater c then {''concatenation''} else {})
        \<union> (if UsesLengthDeferrer c then {''creation-defer-length''} else {})"
    using extension_names unfolding tus_extensions_def by blast
  moreover have "hd (slash_path b isAbs) = CHR ''/''" if "slash_path b isAbs \<noteq> []" "\<not> isAbs" for b
    using slash_path_hd [of b] that by simp
  moreover note slash_path_last [of "BasePath cfg" isAbs]
  ultimately show ?thesis unfolding c(2-5) using c(1) by blast
qed

definition demo_store :: "(nat, nat) DataStore" where
  "demo_store = \<lparr>NewUpload = (\<lambda>info s. (Inr s, Suc s)), GetUpload = (\<lambda>i s. Inl ErrNotFound),
     GetInfo = (\<lambda>u s. Inl ErrNotFound), WriteChunk = (\<lambda>u off r s. ((0, None), r, u, s)),
     GetReader = (\<lambda>u s. Inr []), FinishUpload = (\<lambda>u s. (None, s))\<rparr>"

definition demo_cfg :: "string \<Rightarrow> (nat, nat, nat, nat) Config" where
  "demo_cfg base = \<lparr>CStoreComposer = Some (UseTerminater (Some (\<lambda>u s. (None, s))) (UseCore (Some demo_store) NewStoreComposer)),
     MaxSize = 0, BasePath = base, IsAbs = False, DisableDownload = False, DisableTermination = False,
     NotifyCompleteUploads = False, NotifyTerminatedUploads = False, NotifyUploadProgress = False,
     NotifyCreatedUploads = False, RespectForwardedHeaders = False, PreUploadCreateCallback = None,
     PreFinishResponseCallback = None\<rparr>"

theorem new_tus_ready_witness:
  "\<exists>u. NewTus (demo_cfg ''files'') = Inr u \<and> hd (basePath u) = CHR ''/''"
proof (cases "NewTus (demo_cfg ''files'')")
  case (Inl e)
  have "is_ok (NewTus (demo_cfg ''files''))" by code_simp
  with Inl show ?thesis by simp
next
  case (Inr u)
  have "basePath (projr (NewTus (demo_cfg ''files''))) \<noteq> []" "\<not> isBasePathAbs (projr (NewTus (demo_cfg ''files'')))"
    by code_simp+
  then show ?thesis using new_tus_ready [OF Inr] Inr by auto
qed

subsection \<open>What the handlers rely on\<close>

text \<open>
  A locker promises mutual exclusion: \<open>Lock\<close> succeeds only on an upload that is not held,
  refuses a held one with \<open>ErrFileLocked\<close> and changes nothing when it fails; \<open>Unlock\<close>
  releases the one upload.
\<close>

locale locker =
  fixes lk :: "('l, 'k) Locker"
    and held :: "'l \<Rightarrow> string set"
  assumes lock_ok: "NewLock lk i = Inr k \<Longrightarrow> Lock lk k l = (None, l') \<Longrightarrow>
      i \<notin> held l \<and> held l' = insert i (held l)"
    and lock_err: "NewLock lk i = Inr k \<Longrightarrow> Lock lk k l = (Some e, l') \<Longrightarrow> held l' = held l"
    and lock_held: "NewLock lk i = Inr k \<Longrightarrow> i \<in> held l \<Longrightarrow> fst (Lock lk k l) = Some ErrFileLocked"
    and unlock_ok: "NewLock lk i = Inr k \<Longrightarrow> held (snd (Unlock lk k l)) = held l - {i}"
begin

text \<open>A lock that was got and is given back leaves the locks as they were.\<close>

lemma lock_unlock:
  assumes "NewLock lk i = Inr k" "Lock lk k l = (None, l')" "held l'' = held l'"
  shows "held (snd (Unlock lk k l'')) = held l"
  using lock_ok [OF assms(1,2)] unlock_ok [OF assms(1), of l''] assms(3) by auto

lemma lock_again:
  assumes "NewLock lk i = Inr k" "Lock lk k l = (None, l')"
  shows "fst (Lock lk k l') = Some ErrFileLocked"
  using lock_ok [OF assms] lock_held [OF assms(1), of l'] by simp

end

text \<open>
  A store, seen from outside, is a map from identifiers to uploads: the size if it is
  declared, the kind, and the bytes stored so far.
\<close>

record upload_abs =
  u_size :: "int option"
  u_partial :: bool
  u_final :: bool
  u_data :: string

definition info_abs :: "FileInfo \<Rightarrow> string \<Rightarrow> upload_abs" where
  "info_abs info c = \<lparr>u_size = (if SizeIsDeferred info then None else Some (Size info)),
     u_partial = IsPartial info, u_final = IsFinal info, u_data = c\<rparr>"

lemma info_abs_Offset [simp]: "info_abs (info\<lparr>Offset := n\<rparr>) c = info_abs info c"
  by (simp add: info_abs_def)

lemma info_abs_data [simp]: "(info_abs info c)\<lparr>u_data := d\<rparr> = info_abs info d"
  by (simp add: info_abs_def)

lemma info_abs_sel [simp]:
  "u_size (info_abs info c) = (if SizeIsDeferred info then None else Some (Size info))"
  "u_partial (info_abs info c) = IsPartial info"
  "u_final (info_abs info c) = IsFinal info"
  "u_data (info_abs info c) = c"
  by (simp_all add: info_abs_def)

locale data_store =
  fixes cs :: "('s, 'u) DataStore"
    and sinv :: "'s \<Rightarrow> bool"
    and fresh :: "'s \<Rightarrow> bool"
    and view :: "'s \<Rightarrow> string \<Rightarrow> upload_abs option"
    and handle :: "'s \<Rightarrow> string \<Rightarrow> 'u \<Rightarrow> bool"
  assumes get_upload: "sinv s \<Longrightarrow> CHR ''/'' \<notin> set i \<Longrightarrow> GetUpload cs i s = Inr u \<Longrightarrow> handle s i u"
    and handle_view: "handle s i u \<Longrightarrow> GetInfo cs u s = Inr info \<Longrightarrow>
        \<exists>c. view s i = Some (info_abs info c) \<and> Offset info = int (length c)"
    and handle_cong: "handle s i u \<Longrightarrow> view s' i = view s i \<Longrightarrow> handle s' i u"
    and handle_some: "handle s i u \<Longrightarrow> view s i \<noteq> None"
    and new_upload: "sinv s \<Longrightarrow> fresh s \<Longrightarrow> Offset info = 0 \<Longrightarrow> NewUpload cs info s = (Inr u, s') \<Longrightarrow>
        sinv s' \<and> (\<exists>i. view s i = None \<and> handle s' i u \<and> view s' = (view s)(i \<mapsto> info_abs info [])
          \<and> (\<forall>info'. GetInfo cs u s' = Inr info' \<longrightarrow> ID info' = i))"
    and new_upload_err: "sinv s \<Longrightarrow> fresh s \<Longrightarrow> Offset info = 0 \<Longrightarrow> NewUpload cs info s = (Inl er, s') \<Longrightarrow> sinv s' \<and> view s' = view s"
    and write_chunk: "sinv s \<Longrightarrow> handle s i u \<Longrightarrow> view s i = Some a \<Longrightarrow>
        WriteChunk cs u off r s = ((n, e), r', u', s') \<Longrightarrow>
        sinv s' \<and> handle s' i u' \<and> (\<exists>d t. reader_data r = d @ t \<and> n = int (length d)
          \<and> (e = None \<longrightarrow> t = []) \<and> view s' = (view s)(i \<mapsto> a\<lparr>u_data := u_data a @ d\<rparr>))"
    and view_len: "sinv s \<Longrightarrow> view s i = Some a \<Longrightarrow> int (length (u_data a)) \<le> MaxInt64"
    and get_reader: "handle s i u \<Longrightarrow> GetReader cs u s = Inr c \<Longrightarrow> map_option u_data (view s i) = Some c"
    and finish_upload: "sinv s \<Longrightarrow> FinishUpload cs u s = (e, s') \<Longrightarrow> sinv s' \<and> view s' = view s"
begin

text \<open>What a read of an upload tells about it.\<close>

lemma read_info:
  assumes "sinv s" "CHR ''/'' \<notin> set i" "GetUpload cs i s = Inr u" "GetInfo cs u s = Inr info"
  obtains c where "handle s i u" "view s i = Some (info_abs info c)" "Offset info = int (length c)"
  using assms get_upload handle_view by blast

lemma no_upload:
  assumes "sinv s" "CHR ''/'' \<notin> set i" "view s i = None"
  obtains e where "GetUpload cs i s = Inl e"
  using assms get_upload handle_some by (cases "GetUpload cs i s") blast+

end

text \<open>The extensions of a store.\<close>

locale full_store = data_store +
  fixes te :: "('s, 'u) Terminater"
    and cc :: "('s, 'u) Concater"
    and ld :: "('s, 'u) LengthDeferrer"
  assumes terminate: "sinv s \<Longrightarrow> handle s i u \<Longrightarrow> te u s = (e, s') \<Longrightarrow>
      sinv s' \<and> (if e = None then view s' = (view s)(i := None)
                 else view s' = view s \<or> view s' = (view s)(i := None))"
    and concat_uploads: "sinv s \<Longrightarrow> handle s i u \<Longrightarrow> view s i = Some a \<Longrightarrow> list_all2 (handle s) is us \<Longrightarrow>
      i \<notin> set is \<Longrightarrow> cc u us s = (e, s') \<Longrightarrow>
      sinv s' \<and> (\<exists>d t. concat (map (\<lambda>j. u_data (the (view s j))) is) = d @ t \<and> (e = None \<longrightarrow> t = [])
        \<and> view s' = (view s)(i \<mapsto> a\<lparr>u_data := u_data a @ d\<rparr>))"
    and declare_length: "sinv s \<Longrightarrow> handle s i u \<Longrightarrow> view s i = Some a \<Longrightarrow> ld u n s = (e, u', s') \<Longrightarrow>
      sinv s' \<and> (if e = None then view s' = (view s)(i \<mapsto> a\<lparr>u_size := Some n\<rparr>) \<and> handle s' i u'
                 else view s' = view s \<or> view s' = (view s)(i := None))"
begin

lemma terminated_gone:
  assumes "sinv s" "handle s i u" "te u s = (None, s')" "CHR ''/'' \<notin> set i"
  obtains e where "GetUpload cs i s' = Inl e"
proof -
  have "sinv s'" "view s' i = None" using terminate [OF assms(1-3)] by auto
  then show thesis using no_upload assms(4) that by blast
qed

end

end
