(* ===== verification/Tus_Handlers.thy ===== *)
theory Tus_Handlers
  imports Tus_Store
begin

section \<open>tus: the handlers\<close>

text \<open>
  \<open>tus.go\<close>, \<open>api.go\<close>, \<open>response.go\<close> and \<open>middleware.go\<close>: every handler is a function from
  a request and the state of the world to the next state. The state has the store, the
  locks, the metrics, the events sent to the four channels so far, and the response that
  is being built. Printing of log lines is not part of the state.
\<close>

subsection \<open>The state\<close>

text \<open>
  What is written to the response: bytes, or the nil list of contents \<open>sendResp\<close> passes on.
\<close>

datatype written = WBytes string | WNil

record response =
  r_header :: header
  r_status :: "int option"
  r_out :: "written list"

record ('s, 'l) world =
  st :: 's
  locks :: 'l
  metrics :: Metrics
  CompleteUploads :: "HookEvent list"
  TerminatedUploads :: "HookEvent list"
  UploadProgress :: "HookEvent list"
  CreatedUploads :: "HookEvent list"
  resp :: response

definition set_header :: "string \<Rightarrow> string \<Rightarrow> ('s, 'l) world \<Rightarrow> ('s, 'l) world" where
  "set_header k v w = w\<lparr>resp := (resp w)\<lparr>r_header := hset k v (r_header (resp w))\<rparr>\<rparr>"

definition add_header :: "string \<Rightarrow> string \<Rightarrow> ('s, 'l) world \<Rightarrow> ('s, 'l) world" where
  "add_header k v w = w\<lparr>resp := (resp w)\<lparr>r_header := hadd k v (r_header (resp w))\<rparr>\<rparr>"

definition WriteStatus :: "int \<Rightarrow> written \<Rightarrow> ('s, 'l) world \<Rightarrow> ('s, 'l) world" where
  "WriteStatus code c w = w\<lparr>resp := (resp w)\<lparr>r_status := Some code, r_out := r_out (resp w) @ [c]\<rparr>\<rparr>"

definition write_out :: "string \<Rightarrow> ('s, 'l) world \<Rightarrow> ('s, 'l) world" where
  "write_out d w = w\<lparr>resp := (resp w)\<lparr>r_out := r_out (resp w) @ [WBytes d]\<rparr>\<rparr>"

subsection \<open>Responses\<close>

text \<open>The error \<open>sendError\<close> reports: timeouts and resets lose their details.\<close>

definition plain_error :: "go_error \<Rightarrow> go_error" where
  "plain_error err =
     (let err = (if err_timeout err then errReadTimeout else err)
      in if has_suffix ''read: connection reset by peer'' (err_msg err) then errConnectionReset else err)"

definition status_error :: "go_error \<Rightarrow> go_error" where
  "status_error err = (case err_http err of Some _ \<Rightarrow> err | None \<Rightarrow> NewHTTPError err 500)"

definition StatusCode :: "go_error \<Rightarrow> int" where
  "StatusCode e = (case err_http e of Some (c, _) \<Rightarrow> c | None \<Rightarrow> 500)"

definition ErrBody :: "go_error \<Rightarrow> string" where
  "ErrBody e = (case err_http e of Some (_, b) \<Rightarrow> b | None \<Rightarrow> err_msg e)"

definition sendError :: "request \<Rightarrow> go_error \<Rightarrow> ('s, 'l) world \<Rightarrow> ('s, 'l) world" where
  "sendError r err w =
     (let statusErr = status_error (plain_error err);
          reason = (if Method r = ''HEAD'' then [] else ErrBody statusErr @ [CHR 0x0A]);
          w = set_header ''Content-Type'' ''text/plain; charset=utf-8'' w;
          w = set_header ''Content-Length'' (FormatInt (int (length reason))) w;
          w = WriteStatus (StatusCode statusErr) (WBytes reason) w
      in w\<lparr>metrics := incErrorsTotal statusErr (metrics w)\<rparr>)"

definition sendResp :: "request \<Rightarrow> int \<Rightarrow> ('s, 'l) world \<Rightarrow> ('s, 'l) world" where
  "sendResp r status w = WriteStatus status WNil w"

subsection \<open>Finishing and terminating\<close>

definition finishUploadIfComplete :: "('s, 'u, 'l, 'k) Uploader \<Rightarrow> 'u \<Rightarrow> FileInfo \<Rightarrow> request
    \<Rightarrow> ('s, 'l) world \<Rightarrow> go_error option \<times> ('s, 'l) world" where
  "finishUploadIfComplete u upload info r w =
     (if \<not> SizeIsDeferred info \<and> Offset info = Size info
      then (case FinishUpload (core u) upload (st w) of
              (Some e, s) \<Rightarrow> (Some e, w\<lparr>st := s\<rparr>)
            | (None, s) \<Rightarrow>
                (let w = w\<lparr>st := s\<rparr> in
                 case (case PreFinishResponseCallback (config u) of None \<Rightarrow> None | Some f \<Rightarrow> f (newHookEvent info r)) of
                   Some e \<Rightarrow> (Some e, w)
                 | None \<Rightarrow>
                     (let w = w\<lparr>metrics := incUploadsFinished (metrics w)\<rparr>
                      in (None, if NotifyCompleteUploads (config u)
                                then w\<lparr>CompleteUploads := CompleteUploads w @ [newHookEvent info r]\<rparr> else w))))
      else (None, w))"

definition terminateUpload :: "('s, 'u, 'l, 'k) Uploader \<Rightarrow> 'u \<Rightarrow> FileInfo \<Rightarrow> request
    \<Rightarrow> ('s, 'l) world \<Rightarrow> go_error option \<times> ('s, 'l) world" where
  "terminateUpload u upload info r w = (case Terminater (composer u) of
     None \<Rightarrow> (Some nil_deref, w)
   | Some te \<Rightarrow>
       (case te upload (st w) of
          (Some e, s) \<Rightarrow> (Some e, w\<lparr>st := s\<rparr>)
        | (None, s) \<Rightarrow>
            (let w = w\<lparr>st := s\<rparr>;
                 w = (if NotifyTerminatedUploads (config u)
                      then w\<lparr>TerminatedUploads := TerminatedUploads w @ [newHookEvent info r]\<rparr> else w)
             in (None, w\<lparr>metrics := incUploadsTerminated (metrics w)\<rparr>))))"

subsection \<open>Progress events\<close>

text \<open>
  \<open>sendProgressMessages\<close>: \<open>counts\<close> are the bytes read at every tick of the clock and once
  more when the upload is over; an event goes out when the offset is not the previous one.
\<close>

fun progress_offsets :: "int \<Rightarrow> int \<Rightarrow> int list \<Rightarrow> int list" where
  "progress_offsets original previous [] = []"
| "progress_offsets original previous (n # ns) =
     (let off = i64 (original + n) in
      if off \<noteq> previous then off # progress_offsets original off ns
      else progress_offsets original previous ns)"

definition sendProgressMessages :: "HookEvent \<Rightarrow> int list \<Rightarrow> HookEvent list" where
  "sendProgressMessages hook counts =
     map (\<lambda>off. hook\<lparr>ev_Upload := (ev_Upload hook)\<lparr>Offset := off\<rparr>\<rparr>)
       (progress_offsets (Offset (ev_Upload hook)) 0 counts)"

subsection \<open>Writing a chunk\<close>

definition chunk_limit :: "('s, 'u, 'l, 'k) Config \<Rightarrow> FileInfo \<Rightarrow> int \<Rightarrow> int" where
  "chunk_limit cfg info len =
     (let maxSize = i64 (Size info - Offset info);
          maxSize = (if SizeIsDeferred info
                     then (if MaxSize cfg > 0 then i64 (MaxSize cfg - Offset info) else MaxInt64)
                     else maxSize)
      in if len > 0 then len else maxSize)"

text \<open>
  The part of \<open>writeChunk\<close> that reads the body, when there is one and the limit allows a
  byte: bytes written, error, handle.
\<close>

definition write_body :: "('s, 'u, 'l, 'k) Uploader \<Rightarrow> 'u \<Rightarrow> FileInfo \<Rightarrow> request \<Rightarrow> body \<Rightarrow> int
    \<Rightarrow> ('s, 'l) world \<Rightarrow> (int \<times> go_error option \<times> 'u) \<times> ('s, 'l) world" where
  "write_body u upload info r b maxSize w =
     (case WriteChunk (core u) upload (Offset info) (newBodyReader b maxSize) (st w) of
        ((n, err), reader, upload, s) \<Rightarrow>
          let w = w\<lparr>st := s\<rparr>;
              w = (if NotifyUploadProgress (config u)
                   then w\<lparr>UploadProgress := UploadProgress w
                     @ sendProgressMessages (newHookEvent info r) (ticks r @ [bytesRead reader])\<rparr>
                   else w);
              w = (if stopped r \<and> UsesTerminater (composer u)
                   then snd (terminateUpload u upload info r w) else w);
              err = (if err = None then hasError reader else err);
              err = (if stopped r then Some ErrUploadStoppedByServer else err)
          in ((n, err, upload), w))"

definition writeChunk :: "('s, 'u, 'l, 'k) Uploader \<Rightarrow> 'u \<Rightarrow> FileInfo \<Rightarrow> request
    \<Rightarrow> ('s, 'l) world \<Rightarrow> go_error option \<times> ('s, 'l) world" where
  "writeChunk u upload info r w =
     (let len = ContentLength r; offset = Offset info in
      if \<not> SizeIsDeferred info \<and> i64 (offset + len) > Size info then (Some ErrSizeExceeded, w)
      else
        let maxSize = chunk_limit (config u) info len in
        case (case Body r of
                None \<Rightarrow> ((0, None, upload), w)
              | Some b \<Rightarrow> if maxSize > 0 then write_body u upload info r b maxSize w
                          else ((0, None, upload), w)) of
          ((bytesWritten, err, upload), w) \<Rightarrow>
            (case err of
               Some e \<Rightarrow> (Some e, w)
             | None \<Rightarrow>
                 (let newOffset = i64 (offset + bytesWritten);
                      w = set_header ''Upload-Offset'' (FormatInt newOffset) w;
                      w = w\<lparr>metrics := incBytesReceived bytesWritten (metrics w)\<rparr>
                  in finishUploadIfComplete u upload (info\<lparr>Offset := newOffset\<rparr>) r w)))"

subsection \<open>Sizes, locks and locations\<close>

fun sizeOfUploads :: "('s, 'u, 'l, 'k) Uploader \<Rightarrow> string list \<Rightarrow> 's \<Rightarrow> ('u list \<times> int) res" where
  "sizeOfUploads u [] s = Inr ([], 0)"
| "sizeOfUploads u (i # ids) s =
     (case GetUpload (core u) i s of
        Inl e \<Rightarrow> Inl e
      | Inr upload \<Rightarrow>
          (case GetInfo (core u) upload s of
             Inl e \<Rightarrow> Inl e
           | Inr info \<Rightarrow>
               if SizeIsDeferred info \<or> Offset info \<noteq> Size info then Inl ErrUploadNotFinished
               else (case sizeOfUploads u ids s of
                       Inl e \<Rightarrow> Inl e
                     | Inr (us, n) \<Rightarrow> Inr (upload # us, i64 (Size info + n)))))"

definition validateNewUploadLengthHeaders :: "bool \<Rightarrow> string \<Rightarrow> string \<Rightarrow> (int \<times> bool) res" where
  "validateNewUploadLengthHeaders usesLengthDeferrer uploadLengthHeader uploadDeferLengthHeader =
     (let haveBothLengthHeaders = uploadLengthHeader \<noteq> [] \<and> uploadDeferLengthHeader \<noteq> [];
          haveInvalidDeferHeader = uploadDeferLengthHeader \<noteq> [] \<and> uploadDeferLengthHeader \<noteq> UploadLengthDeferred;
          lengthIsDeferred = uploadDeferLengthHeader = UploadLengthDeferred
      in if lengthIsDeferred \<and> \<not> usesLengthDeferrer then Inl ErrNotImplemented
         else if haveBothLengthHeaders then Inl ErrUploadLengthAndUploadDeferLength
         else if haveInvalidDeferHeader then Inl ErrInvalidUploadDeferLength
         else if lengthIsDeferred then Inr (0, True)
         else (case ParseInt uploadLengthHeader of
                 None \<Rightarrow> Inl ErrInvalidUploadLength
               | Some n \<Rightarrow> if n < 0 then Inl ErrInvalidUploadLength else Inr (n, False)))"

definition lockUpload :: "('s, 'u, 'l, 'k) Uploader \<Rightarrow> string \<Rightarrow> ('s, 'l) world \<Rightarrow> 'k res \<times> ('s, 'l) world" where
  "lockUpload u i w = (case CLocker (composer u) of
     None \<Rightarrow> (Inl nil_deref, w)
   | Some lk \<Rightarrow>
       (case NewLock lk i of
          Inl e \<Rightarrow> (Inl e, w)
        | Inr lock \<Rightarrow>
            (case Lock lk lock (locks w) of
               (Some e, l) \<Rightarrow> (Inl e, w\<lparr>locks := l\<rparr>)
             | (None, l) \<Rightarrow> (Inr lock, w\<lparr>locks := l\<rparr>))))"

definition unlock :: "('s, 'u, 'l, 'k) Uploader \<Rightarrow> 'k \<Rightarrow> ('s, 'l) world \<Rightarrow> ('s, 'l) world" where
  "unlock u lock w = (case CLocker (composer u) of
     None \<Rightarrow> w | Some lk \<Rightarrow> w\<lparr>locks := snd (Unlock lk lock (locks w))\<rparr>)"

text \<open>
  The guard the handlers share: lock the upload if a locker is used, answer with the error
  of a lock that is not got, and unlock (the deferred call) after the rest has run.
\<close>

definition with_lock :: "('s, 'u, 'l, 'k) Uploader \<Rightarrow> request \<Rightarrow> string
    \<Rightarrow> (('s, 'l) world \<Rightarrow> ('s, 'l) world) \<Rightarrow> ('s, 'l) world \<Rightarrow> ('s, 'l) world" where
  "with_lock u r i rest w =
     (if UsesLocker (composer u)
      then (case lockUpload u i w of
              (Inl e, w') \<Rightarrow> sendError r e w'
            | (Inr lock, w') \<Rightarrow> unlock u lock (rest w'))
      else rest w)"

definition absFileURL :: "('s, 'u, 'l, 'k) Uploader \<Rightarrow> request \<Rightarrow> string \<Rightarrow> string" where
  "absFileURL u r i =
     (if isBasePathAbs u then basePath u @ i
      else let (host, proto) = getHostAndProtocol r (RespectForwardedHeaders (config u))
           in proto @ ''://'' @ host @ basePath u @ i)"

end
