(* ===== verification/Tus_Api.thy ===== *)
theory Tus_Api
  imports Tus_Handlers
begin

section \<open>tus: the HTTP methods and the middleware\<close>

text \<open>
  \<open>api.go\<close> (\<open>PostFile\<close>, \<open>HeadFile\<close>, \<open>PatchFile\<close>, \<open>GetFile\<close>, \<open>DelFile\<close>) and
  \<open>middleware.go\<close>. An early return of the source is the branch that ends with \<open>sendError\<close>.
\<close>

text \<open>The answer to an error, or the rest of the handler on the value.\<close>

definition or_error :: "request \<Rightarrow> 'a res \<Rightarrow> ('s, 'l) world \<Rightarrow> ('a \<Rightarrow> ('s, 'l) world) \<Rightarrow> ('s, 'l) world" where
  "or_error r x w rest = (case x of Inl e \<Rightarrow> sendError r e w | Inr v \<Rightarrow> rest v)"

text \<open>\<open>GetUpload\<close> and \<open>GetInfo\<close>, which four of the handlers call in a row.\<close>

definition open_upload :: "('s, 'u, 'l, 'k) Uploader \<Rightarrow> string \<Rightarrow> 's \<Rightarrow> ('u \<times> FileInfo) res" where
  "open_upload u i s = (case GetUpload (core u) i s of
     Inl e \<Rightarrow> Inl e
   | Inr upload \<Rightarrow> (case GetInfo (core u) upload s of Inl e \<Rightarrow> Inl e | Inr info \<Rightarrow> Inr (upload, info)))"

definition chunk_type :: string where
  "chunk_type = ''application/offset+octet-stream''"

subsection \<open>POST\<close>

text \<open>The size of the new upload and, for a final one, the uploads it is made of.\<close>

definition post_size :: "('s, 'u, 'l, 'k) Uploader \<Rightarrow> request \<Rightarrow> bool \<Rightarrow> string list \<Rightarrow> bool \<Rightarrow> 's
    \<Rightarrow> ('u list \<times> int \<times> bool) res" where
  "post_size u r isFinal partialUploadIDs containsChunk s =
     (if isFinal then
        (if containsChunk then Inl ErrModifyFinal
         else case sizeOfUploads u partialUploadIDs s of
                Inl e \<Rightarrow> Inl e | Inr (us, len) \<Rightarrow> Inr (us, len, False))
      else (case validateNewUploadLengthHeaders (UsesLengthDeferrer (composer u))
                   (hget (Header r) ''Upload-Length'') (hget (Header r) ''Upload-Defer-Length'') of
              Inl e \<Rightarrow> Inl e | Inr (len, deferred) \<Rightarrow> Inr ([], len, deferred)))"

text \<open>\<open>ConcatUploads\<close> and the event of a final upload.\<close>

definition post_concat :: "('s, 'u, 'l, 'k) Uploader \<Rightarrow> 'u \<Rightarrow> 'u list \<Rightarrow> int \<Rightarrow> FileInfo \<Rightarrow> request
    \<Rightarrow> ('s, 'l) world \<Rightarrow> FileInfo res \<times> ('s, 'l) world" where
  "post_concat u upload partialUploads fsize info r w = (case Concater (composer u) of
     None \<Rightarrow> (Inl nil_deref, w)
   | Some cc \<Rightarrow>
       (case cc upload partialUploads (st w) of
          (Some e, s) \<Rightarrow> (Inl e, w\<lparr>st := s\<rparr>)
        | (None, s) \<Rightarrow>
            (let info = info\<lparr>Offset := fsize\<rparr>; w = w\<lparr>st := s\<rparr> in
             (Inr info, if NotifyCompleteUploads (config u)
                        then w\<lparr>CompleteUploads := CompleteUploads w @ [newHookEvent info r]\<rparr> else w))))"

text \<open>The end of the handler: the chunk of the request, or the finish of an empty upload.\<close>

definition post_rest :: "('s, 'u, 'l, 'k) Uploader \<Rightarrow> 'u \<Rightarrow> FileInfo \<Rightarrow> bool \<Rightarrow> bool \<Rightarrow> int \<Rightarrow> request
    \<Rightarrow> ('s, 'l) world \<Rightarrow> ('s, 'l) world" where
  "post_rest u upload info containsChunk sizeIsDeferred fsize r w =
     (if containsChunk then
        with_lock u r (ID info) (\<lambda>w. case writeChunk u upload info r w of
            (Some e, w) \<Rightarrow> sendError r e w | (None, w) \<Rightarrow> sendResp r 201 w) w
      else if \<not> sizeIsDeferred \<and> fsize = 0 then
        (case finishUploadIfComplete u upload info r w of
           (Some e, w) \<Rightarrow> sendError r e w | (None, w) \<Rightarrow> sendResp r 201 w)
      else sendResp r 201 w)"

text \<open>From the creation in the store on; the location is known as soon as the upload is.\<close>

definition post_create :: "('s, 'u, 'l, 'k) Uploader \<Rightarrow> FileInfo \<Rightarrow> 'u list \<Rightarrow> bool \<Rightarrow> request
    \<Rightarrow> ('s, 'l) world \<Rightarrow> ('s, 'l) world" where
  "post_create u info0 partialUploads containsChunk r w =
     (let fsize = Size info0; sizeIsDeferred = SizeIsDeferred info0; isFinal = IsFinal info0 in
      case NewUpload (core u) info0 (st w) of
        (Inl e, s) \<Rightarrow> sendError r e (w\<lparr>st := s\<rparr>)
      | (Inr upload, s) \<Rightarrow>
          (let w = w\<lparr>st := s\<rparr> in
           or_error r (GetInfo (core u) upload s) w (\<lambda>info.
             let w = set_header ''Location'' (absFileURL u r (ID info)) w;
                 w = w\<lparr>metrics := incUploadsCreated (metrics w)\<rparr>;
                 w = (if NotifyCreatedUploads (config u)
                      then w\<lparr>CreatedUploads := CreatedUploads w @ [newHookEvent info r]\<rparr> else w)
             in if isFinal then
                  (case post_concat u upload partialUploads fsize info r w of
                     (Inl e, w) \<Rightarrow> sendError r e w
                   | (Inr info, w) \<Rightarrow> post_rest u upload info containsChunk sizeIsDeferred fsize r w)
                else post_rest u upload info containsChunk sizeIsDeferred fsize r w)))"

text \<open>What the handler reads off the request.\<close>

definition post_info :: "request \<Rightarrow> bool \<Rightarrow> bool \<Rightarrow> string list \<Rightarrow> int \<Rightarrow> bool \<Rightarrow> FileInfo" where
  "post_info r isPartial isFinal ids n deferred = \<lparr>ID = [], Size = n, SizeIsDeferred = deferred, Offset = 0,
     MetaData = ParseMetadataHeader (hget (Header r) ''Upload-Metadata''),
     IsPartial = isPartial, IsFinal = isFinal, PartialUploads = ids, Storage = []\<rparr>"

definition concat_header :: "('s, 'u, 'l, 'k) Uploader \<Rightarrow> request \<Rightarrow> string" where
  "concat_header u r = (if UsesConcater (composer u) then hget (Header r) ''Upload-Concat'' else [])"

definition has_chunk :: "request \<Rightarrow> bool" where
  "has_chunk r \<longleftrightarrow> hget (Header r) ''Content-Type'' = chunk_type"

definition PostFile :: "('s, 'u, 'l, 'k) Uploader \<Rightarrow> request \<Rightarrow> ('s, 'l) world \<Rightarrow> ('s, 'l) world" where
  "PostFile u r w =
     or_error r (parseConcat (concat_header u r)) w (\<lambda>(isPartial, isFinal, partialUploadIDs).
       or_error r (post_size u r isFinal partialUploadIDs (has_chunk r) (st w)) w
         (\<lambda>(partialUploads, fsize, sizeIsDeferred).
           if MaxSize (config u) > 0 \<and> fsize > MaxSize (config u) then sendError r ErrMaxSizeExceeded w
           else
             let info = post_info r isPartial isFinal partialUploadIDs fsize sizeIsDeferred
             in case (case PreUploadCreateCallback (config u) of None \<Rightarrow> None | Some f \<Rightarrow> f (newHookEvent info r)) of
                  Some e \<Rightarrow> sendError r e w
                | None \<Rightarrow> post_create u info partialUploads (has_chunk r) r w))"

subsection \<open>HEAD\<close>

definition final_header :: "('s, 'u, 'l, 'k) Uploader \<Rightarrow> request \<Rightarrow> string list \<Rightarrow> string" where
  "final_header u r ids = butlast (''final;'' @ concat (map (\<lambda>i. absFileURL u r i @ '' '') ids))"

definition head_headers :: "('s, 'u, 'l, 'k) Uploader \<Rightarrow> request \<Rightarrow> FileInfo \<Rightarrow> ('s, 'l) world \<Rightarrow> ('s, 'l) world" where
  "head_headers u r info w =
     (let w = (if IsPartial info then set_header ''Upload-Concat'' ''partial'' w else w);
          w = (if IsFinal info then set_header ''Upload-Concat'' (final_header u r (PartialUploads info)) w else w);
          w = (if MetaData info \<noteq> [] then set_header ''Upload-Metadata'' (SerializeMetadataHeader (MetaData info)) w else w);
          w = (if SizeIsDeferred info then set_header ''Upload-Defer-Length'' UploadLengthDeferred w
               else set_header ''Content-Length'' (FormatInt (Size info))
                      (set_header ''Upload-Length'' (FormatInt (Size info)) w));
          w = set_header ''Cache-Control'' ''no-store'' w
      in set_header ''Upload-Offset'' (FormatInt (Offset info)) w)"

definition HeadFile :: "('s, 'u, 'l, 'k) Uploader \<Rightarrow> request \<Rightarrow> ('s, 'l) world \<Rightarrow> ('s, 'l) world" where
  "HeadFile u r w =
     or_error r (extractIDFromPath (URL_Path r)) w (\<lambda>i.
       with_lock u r i (\<lambda>w. or_error r (open_upload u i (st w)) w (\<lambda>(upload, info).
         sendResp r 200 (head_headers u r info w))) w)"

subsection \<open>PATCH\<close>

text \<open>The length a client may declare for an upload that was created without one.\<close>

definition declared_length :: "('s, 'u, 'l, 'k) Uploader \<Rightarrow> request \<Rightarrow> FileInfo \<Rightarrow> int res" where
  "declared_length u r info =
     (if \<not> UsesLengthDeferrer (composer u) then Inl ErrNotImplemented
      else if \<not> SizeIsDeferred info then Inl ErrInvalidUploadLength
      else (case ParseInt (hget (Header r) ''Upload-Length'') of
              None \<Rightarrow> Inl ErrInvalidUploadLength
            | Some n \<Rightarrow>
                if n < 0 \<or> n < Offset info \<or> (MaxSize (config u) > 0 \<and> n > MaxSize (config u))
                then Inl ErrInvalidUploadLength else Inr n))"

definition declare_length :: "('s, 'u, 'l, 'k) Uploader \<Rightarrow> request \<Rightarrow> 'u \<Rightarrow> FileInfo
    \<Rightarrow> ('s, 'l) world \<Rightarrow> ('u \<times> FileInfo) res \<times> ('s, 'l) world" where
  "declare_length u r upload info w =
     (if hget (Header r) ''Upload-Length'' = [] then (Inr (upload, info), w)
      else case declared_length u r info of
        Inl e \<Rightarrow> (Inl e, w)
      | Inr n \<Rightarrow>
          (case LengthDeferrer (composer u) of
             None \<Rightarrow> (Inl nil_deref, w)
           | Some ld \<Rightarrow>
               (case ld upload n (st w) of
                  (Some e, upload, s) \<Rightarrow> (Inl e, w\<lparr>st := s\<rparr>)
                | (None, upload, s) \<Rightarrow>
                    (Inr (upload, info\<lparr>Size := n, SizeIsDeferred := False\<rparr>), w\<lparr>st := s\<rparr>))))"

definition patch_chunk :: "('s, 'u, 'l, 'k) Uploader \<Rightarrow> request \<Rightarrow> 'u \<Rightarrow> FileInfo \<Rightarrow> ('s, 'l) world \<Rightarrow> ('s, 'l) world" where
  "patch_chunk u r upload info w =
     (case declare_length u r upload info w of
        (Inl e, w) \<Rightarrow> sendError r e w
      | (Inr (upload, info), w) \<Rightarrow>
          (case writeChunk u upload info r w of
             (Some e, w) \<Rightarrow> sendError r e w
           | (None, w) \<Rightarrow> sendResp r 204 w))"

definition patch_locked :: "('s, 'u, 'l, 'k) Uploader \<Rightarrow> request \<Rightarrow> int \<Rightarrow> string \<Rightarrow> ('s, 'l) world \<Rightarrow> ('s, 'l) world" where
  "patch_locked u r offset i w =
     or_error r (open_upload u i (st w)) w (\<lambda>(upload, info).
       if IsFinal info then sendError r ErrModifyFinal w
       else if offset \<noteq> Offset info then sendError r ErrMismatchOffset w
       else if \<not> SizeIsDeferred info \<and> Offset info = Size info
       then sendResp r 204 (set_header ''Upload-Offset'' (FormatInt offset) w)
       else patch_chunk u r upload info w)"

definition PatchFile :: "('s, 'u, 'l, 'k) Uploader \<Rightarrow> request \<Rightarrow> ('s, 'l) world \<Rightarrow> ('s, 'l) world" where
  "PatchFile u r w =
     (if hget (Header r) ''Content-Type'' \<noteq> chunk_type then sendError r ErrInvalidContentType w
      else case ParseInt (hget (Header r) ''Upload-Offset'') of
        None \<Rightarrow> sendError r ErrInvalidOffset w
      | Some offset \<Rightarrow>
          if offset < 0 then sendError r ErrInvalidOffset w
          else or_error r (extractIDFromPath (URL_Path r)) w (\<lambda>i.
                 with_lock u r i (patch_locked u r offset i) w))"

subsection \<open>GET\<close>

definition GetFile :: "(nat \<Rightarrow> bool) \<Rightarrow> ('s, 'u, 'l, 'k) Uploader \<Rightarrow> request \<Rightarrow> ('s, 'l) world \<Rightarrow> ('s, 'l) world" where
  "GetFile isPrint u r w =
     or_error r (extractIDFromPath (URL_Path r)) w (\<lambda>i.
       with_lock u r i (\<lambda>w. or_error r (open_upload u i (st w)) w (\<lambda>(upload, info).
         let w = set_header ''Content-Length'' (FormatInt (Offset info)) w;
             (contentType, contentDisposition) = filterContentType isPrint info;
             w = set_header ''Content-Type'' contentType w;
             w = set_header ''Content-Disposition'' contentDisposition w
         in if Offset info = 0 then sendResp r 204 w
            else or_error r (GetReader (core u) upload (st w)) w (\<lambda>src.
                   write_out src (sendResp r 200 w)))) w)"

subsection \<open>DELETE\<close>

text \<open>The upload as the terminated event shows it: empty unless events are asked for.\<close>

definition no_info :: FileInfo where
  "no_info = \<lparr>ID = [], Size = 0, SizeIsDeferred = False, Offset = 0, MetaData = [],
     IsPartial = False, IsFinal = False, PartialUploads = [], Storage = []\<rparr>"

definition del_info :: "('s, 'u, 'l, 'k) Uploader \<Rightarrow> 'u \<Rightarrow> 's \<Rightarrow> FileInfo res" where
  "del_info u upload s =
     (if NotifyTerminatedUploads (config u) then GetInfo (core u) upload s else Inr no_info)"

definition DelFile :: "('s, 'u, 'l, 'k) Uploader \<Rightarrow> request \<Rightarrow> ('s, 'l) world \<Rightarrow> ('s, 'l) world" where
  "DelFile u r w =
     (if \<not> UsesTerminater (composer u) then sendError r ErrNotImplemented w
      else or_error r (extractIDFromPath (URL_Path r)) w (\<lambda>i.
        with_lock u r i (\<lambda>w. or_error r (GetUpload (core u) i (st w)) w (\<lambda>upload.
          or_error r (del_info u upload (st w)) w (\<lambda>info.
            case terminateUpload u upload info r w of
              (Some e, w) \<Rightarrow> sendError r e w
            | (None, w) \<Rightarrow> sendResp r 204 w))) w))"

subsection \<open>The middleware\<close>

definition cors_allow :: string where
  "cors_allow = ''Authorization, Origin, X-Requested-With, X-Request-ID, X-HTTP-Method-Override, Content-Type, Upload-Length, Upload-Offset, Tus-Resumable, Upload-Metadata, Upload-Defer-Length, Upload-Concat''"

definition cors_expose :: string where
  "cors_expose = ''Upload-Offset, Location, Upload-Length, Tus-Version, Tus-Resumable, Tus-Max-Size, Tus-Extension, Upload-Metadata, Upload-Defer-Length, Upload-Concat''"

definition allowedMethods :: "('s, 'u, 'l, 'k) Config \<Rightarrow> string" where
  "allowedMethods cfg = ''POST, HEAD, PATCH, OPTIONS''
     @ (if \<not> DisableDownload cfg then '', GET'' else [])
     @ (if \<not> DisableTermination cfg then '', DELETE'' else [])"

definition override_method :: "request \<Rightarrow> request" where
  "override_method r = (let m = hget (Header r) ''X-HTTP-Method-Override'' in
     if m \<noteq> [] then r\<lparr>Method := m\<rparr> else r)"

definition cors_headers :: "('s, 'u, 'l, 'k) Config \<Rightarrow> request \<Rightarrow> ('s, 'l) world \<Rightarrow> ('s, 'l) world" where
  "cors_headers cfg r w =
     (let origin = hget (Header r) ''Origin'' in
      if origin = [] then w
      else let w = set_header ''Access-Control-Allow-Origin'' origin w in
        if Method r = ''OPTIONS''
        then set_header ''Access-Control-Max-Age'' ''86400''
               (add_header ''Access-Control-Allow-Headers'' cors_allow
                 (add_header ''Access-Control-Allow-Methods'' (allowedMethods cfg) w))
        else add_header ''Access-Control-Expose-Headers'' cors_expose w)"

text \<open>
  \<open>Middleware\<close>: \<open>handler\<close> is what \<open>r.Middleware.Next()\<close> routes the request to.
\<close>

definition Middleware :: "('s, 'u, 'l, 'k) Uploader \<Rightarrow> (request \<Rightarrow> ('s, 'l) world \<Rightarrow> ('s, 'l) world)
    \<Rightarrow> request \<Rightarrow> ('s, 'l) world \<Rightarrow> ('s, 'l) world" where
  "Middleware u handler r0 w =
     (let r = override_method r0;
          w = w\<lparr>metrics := incRequestsTotal (Method r) (metrics w)\<rparr>;
          w = cors_headers (config u) r w;
          w = set_header ''Tus-Resumable'' ''1.0.0'' w;
          w = set_header ''X-Content-Type-Options'' ''nosniff'' w
      in if Method r = ''OPTIONS'' then
           (let w = (if MaxSize (config u) > 0
                     then set_header ''Tus-Max-Size'' (FormatInt (MaxSize (config u))) w else w);
                w = set_header ''Tus-Version'' ''1.0.0'' w;
                w = set_header ''Tus-Extension'' (extensions u) w
            in sendResp r 200 w)
         else if Method r \<noteq> ''GET'' \<and> Method r \<noteq> ''HEAD'' \<and> hget (Header r) ''Tus-Resumable'' \<noteq> ''1.0.0''
         then sendError r ErrUnsupportedVersion w
         else handler r w)"

end
