(* ===== verification/GoPath.thy ===== *)
theory GoPath
  imports GoStr
begin

section \<open>Paths\<close>

text \<open>
  \<open>filepath.Clean\<close> and \<open>filepath.Join\<close> on a Unix system, as the stores and lockers use them
  to place a file in their directory.
\<close>

definition dot :: string where "dot = ''.''"
definition dotdot :: string where "dotdot = ''..''"

definition clean_step :: "bool \<Rightarrow> string list \<Rightarrow> string \<Rightarrow> string list" where
  "clean_step rooted st seg =
     (if seg = [] \<or> seg = dot then st
      else if seg = dotdot then
        (if st = [] \<or> last st = dotdot then (if rooted then st else st @ [dotdot]) else butlast st)
      else st @ [seg])"

definition rooted :: "string \<Rightarrow> bool" where
  "rooted p \<longleftrightarrow> has_prefix ''/'' p"

definition clean_segs :: "string \<Rightarrow> string list" where
  "clean_segs p = foldl (clean_step (rooted p)) [] (split_on CHR ''/'' p)"

definition Clean :: "string \<Rightarrow> string" where
  "Clean p = (let r = (if rooted p then ''/'' else []) @ join_with CHR ''/'' (clean_segs p)
              in if r = [] then dot else r)"

text \<open>\<open>Join\<close> of two elements leaves out the empty ones.\<close>

definition Join :: "string \<Rightarrow> string \<Rightarrow> string" where
  "Join p q =
     (if p = [] \<and> q = [] then []
      else Clean (if p = [] then q else if q = [] then p else p @ CHR ''/'' # q))"

lemma Join_right: "q \<noteq> [] \<Longrightarrow> Join p q = Clean (if p = [] then q else p @ CHR ''/'' # q)"
  by (simp add: Join_def)

text \<open>A name that stands for itself in a directory.\<close>

definition plain_name :: "string \<Rightarrow> bool" where
  "plain_name n \<longleftrightarrow> n \<noteq> [] \<and> n \<noteq> dot \<and> n \<noteq> dotdot \<and> CHR ''/'' \<notin> set n"

definition dir_prefix :: "string \<Rightarrow> string" where
  "dir_prefix p = (if p = [] then [] else
     (if rooted p then ''/'' else []) @ concat (map (\<lambda>s. s @ ''/'') (clean_segs p)))"

lemma split_on_snoc: "split_on d (p @ d # s) = split_on d p @ split_on d s"
proof (induction p)
  case Nil
  then show ?case by simp
next
  case (Cons c p)
  then show ?case by (cases "split_on d p") (auto split: list.splits)
qed

lemma join_with_snoc:
  "join_with d (ps @ [n]) = concat (map (\<lambda>s. s @ [d]) ps) @ n"
  by (induction ps) simp_all

lemma Join_plain: "plain_name n \<Longrightarrow> Join p n = dir_prefix p @ n"
proof (cases "p = []")
  case True
  assume n: "plain_name n"
  then have "\<not> rooted n"
    by (cases n) (auto simp: rooted_def plain_name_def)
  with n True show ?thesis
    by (simp add: Join_def Clean_def clean_segs_def dir_prefix_def plain_name_def clean_step_def)
next
  case False
  assume n: "plain_name n"
  have r: "rooted (p @ CHR ''/'' # n) = rooted p"
    using False by (cases p) (auto simp: rooted_def)
  have "clean_segs (p @ CHR ''/'' # n) = clean_segs p @ [n]"
    using n by (simp add: clean_segs_def r split_on_snoc plain_name_def clean_step_def)
  with n False r show ?thesis
    by (simp add: Join_def Clean_def dir_prefix_def join_with_snoc plain_name_def)
qed

lemma Join_inj: "plain_name m \<Longrightarrow> plain_name n \<Longrightarrow> Join p m = Join p n \<longleftrightarrow> m = n"
  by (simp add: Join_plain)

text \<open>A plain name at the end of a path stays there when the path is cleaned.\<close>

lemma Clean_plain: "plain_name n \<Longrightarrow> Clean (x @ CHR ''/'' # n) = (if x = [] then ''/'' else dir_prefix x) @ n"
proof (cases "x = []")
  case True
  assume "plain_name n"
  with True show ?thesis
    by (simp add: Clean_def clean_segs_def rooted_def clean_step_def plain_name_def)
next
  case False
  assume n: "plain_name n"
  then have "Clean (x @ CHR ''/'' # n) = Join x n" using False by (simp add: Join_def plain_name_def)
  with n False show ?thesis by (simp add: Join_plain)
qed

lemma dir_prefix_slash: "dir_prefix p = [] \<or> (\<exists>x. dir_prefix p = x @ ''/'')"
proof (cases "p = [] \<or> clean_segs p = []")
  case True
  then show ?thesis by (auto simp: dir_prefix_def intro: exI [of _ "[]"])
next
  case False
  then obtain ss t where "clean_segs p = ss @ [t]" by (cases "clean_segs p" rule: rev_cases) auto
  with False show ?thesis by (auto simp: dir_prefix_def)
qed

lemma Clean_dir_prefix: "\<exists>P. \<forall>n. plain_name n \<longrightarrow> Clean (y @ dir_prefix p @ n) = P @ n" if "y = [] \<or> (\<exists>z. y = z @ ''/'')"
proof -
  have "y @ dir_prefix p = [] \<or> (\<exists>x. y @ dir_prefix p = x @ ''/'')"
    using dir_prefix_slash [of p]
  proof
    assume "dir_prefix p = []"
    with that show ?thesis by simp
  next
    assume "\<exists>x. dir_prefix p = x @ ''/''"
    then obtain x where "dir_prefix p = x @ ''/''" ..
    then have "y @ dir_prefix p = (y @ x) @ ''/''" by simp
    then show ?thesis by blast
  qed
  then consider (none) "y @ dir_prefix p = []" | (some) x where "y @ dir_prefix p = x @ ''/''" by blast
  then show ?thesis
  proof cases
    case none
    have "Clean n = n" if "plain_name n" for n
      using that Join_plain [of n "[]"] by (simp add: Join_def plain_name_def dir_prefix_def split: if_splits)
    then show ?thesis using none by (intro exI [of _ "[]"]) auto
  next
    case (some x)
    then have "y @ dir_prefix p @ n = x @ CHR ''/'' # n" for n
      by (metis append.assoc append_Cons append_Nil)
    then have "Clean (y @ dir_prefix p @ n) = (if x = [] then ''/'' else dir_prefix x) @ n" if "plain_name n" for n
      using that Clean_plain by metis
    then show ?thesis by blast
  qed
qed

end
