(* ===== verification/Json.thy ===== *)
theory Json
  imports Codec "HOL-Library.Char_ord" "HOL-Library.List_Lexorder"
begin

section \<open>The part of encoding/json the code uses\<close>

text \<open>
  Strings with Go's escapes, objects, the values an \<open>interface{}\<close> can hold and their
  encoding (\<open>json.Marshal\<close>), and the decoder's grammar (\<open>json.Unmarshal\<close> into an
  \<open>interface{}\<close>). An encoding error is told from the others by nothing but being one, so
  its text is not modelled; a number is kept as the text it was written with.
\<close>

subsection \<open>Strings and objects\<close>

definition json_rune :: "string \<Rightarrow> nat \<Rightarrow> string" where
  "json_rune raw r =
     (if r = RuneError \<and> length raw = 1 then CHR 0x5C # ''ufffd''
      else if r = 34 \<or> r = 92 then CHR 0x5C # raw
      else if r = 10 then CHR 0x5C # ''n''
      else if r = 13 then CHR 0x5C # ''r''
      else if r = 9 then CHR 0x5C # ''t''
      else if r < 32 \<or> r = 60 \<or> r = 62 \<or> r = 38 \<or> r = 8232 \<or> r = 8233
      then CHR 0x5C # CHR ''u'' # hex_pad 4 r
      else raw)"

text \<open>A string rune by rune: each with its bytes.\<close>

function rune_map :: "(string \<Rightarrow> nat \<Rightarrow> string) \<Rightarrow> string \<Rightarrow> string" where
  "rune_map f s = (case decode_rune s of
     None \<Rightarrow> [] | Some (r, w) \<Rightarrow> f (take w s) r @ rune_map f (drop w s))"
  by pat_completeness auto
termination
  by (relation "measure (\<lambda>(f, s). length s)") (auto dest!: decode_rune_width)

declare rune_map.simps [simp del]

definition json_string :: "string \<Rightarrow> string" where
  "json_string s = CHR 0x22 # rune_map json_rune s @ [CHR 0x22]"

definition json_bool :: "bool \<Rightarrow> string" where
  "json_bool b = (if b then ''true'' else ''false'')"

definition json_field :: "string \<Rightarrow> string \<Rightarrow> string" where
  "json_field k v = json_string k @ CHR '':'' # v"

definition json_object :: "(string \<times> string) list \<Rightarrow> string" where
  "json_object kvs = ''{'' @ join_with CHR '','' (map (\<lambda>(k, v). json_field k v) kvs) @ ''}''"

definition json_map :: "(string \<times> string) list \<Rightarrow> string" where
  "json_map m = json_object (map (\<lambda>(k, v). (k, json_string v)) (sort_key fst m))"

definition utf8_coerce :: "string \<Rightarrow> string" where
  "utf8_coerce = rune_map (\<lambda>raw r. if r = RuneError \<and> length raw = 1
     then [CHR 0xEF, CHR 0xBF, CHR 0xBD] else raw)"

subsection \<open>Values and their encoding\<close>

text \<open>
  The values that reach \<open>json.Marshal\<close>: a byte slice becomes base64, a \<open>json.RawMessage\<close>
  is copied when it is valid JSON, and a value of an unsupported type (a function, a channel)
  is an error.
\<close>

datatype gojson = JNull | JBool bool | JInt int | JNum string | JStr string | JBytes string
  | JRaw string | JUnsupported | JArr "gojson list" | JObj "(string \<times> gojson) list"

definition json_error :: go_error where
  "json_error = new_error ''json''"

definition is_ws :: "char \<Rightarrow> bool" where
  "is_ws c \<longleftrightarrow> c = CHR '' '' \<or> c = CHR 0x09 \<or> c = CHR 0x0A \<or> c = CHR 0x0D"

definition skip_ws :: "string \<Rightarrow> string" where
  "skip_ws = dropWhile is_ws"

text \<open>A string literal after its opening quote: the raw contents and what follows it.\<close>

fun lex_string :: "string \<Rightarrow> (string \<times> string) option" where
  "lex_string [] = None"
| "lex_string (c # cs) =
     (if c = CHR 0x22 then Some ([], cs)
      else if c = CHR 0x5C then
        (case cs of [] \<Rightarrow> None
         | e # r \<Rightarrow>
             if e = CHR ''u'' then
               (case r of h1 # h2 # h3 # h4 # r' \<Rightarrow>
                  if list_all (\<lambda>h. unhex h \<noteq> None) [h1, h2, h3, h4]
                  then map_option (\<lambda>(x, y). (c # e # h1 # h2 # h3 # h4 # x, y)) (lex_string r')
                  else None
                | _ \<Rightarrow> None)
             else if List.member [CHR 0x22, CHR 0x5C, CHR ''/'', CHR ''b'', CHR ''f'', CHR ''n'', CHR ''r'', CHR ''t''] e
             then map_option (\<lambda>(x, y). (c # e # x, y)) (lex_string r)
             else None)
      else if of_char c < (32 :: nat) then None
      else map_option (\<lambda>(x, y). (c # x, y)) (lex_string cs))"

definition hex_value :: "string \<Rightarrow> nat" where
  "hex_value hs = foldl (\<lambda>n h. 16 * n + the (unhex h)) 0 hs"

definition escape_char :: "char \<Rightarrow> char" where
  "escape_char e = (if e = CHR ''b'' then CHR 0x08 else if e = CHR ''f'' then CHR 0x0C
     else if e = CHR ''n'' then CHR 0x0A else if e = CHR ''r'' then CHR 0x0D
     else if e = CHR ''t'' then CHR 0x09 else e)"

text \<open>
  The string a literal denotes. A surrogate pair is one rune, a lone surrogate and an invalid
  encoding are U+FFFD.
\<close>

definition low_surrogate :: "string \<Rightarrow> nat option" where
  "low_surrogate s = (case s of c # e # r \<Rightarrow>
     (let v = hex_value (take 4 r) in
      if c = CHR 0x5C \<and> e = CHR ''u'' \<and> 56320 \<le> v \<and> v < 57344 then Some v else None)
   | _ \<Rightarrow> None)"

function unquote :: "string \<Rightarrow> string" where
  "unquote s = (case s of [] \<Rightarrow> []
   | c # cs \<Rightarrow>
       if c = CHR 0x5C then
         (case cs of [] \<Rightarrow> []
          | e # r \<Rightarrow>
              if e = CHR ''u'' then
                (let v = hex_value (take 4 r); r' = drop 4 r in
                 if 55296 \<le> v \<and> v < 57344 then
                   (case (if v < 56320 then low_surrogate r' else None) of
                      Some v2 \<Rightarrow> utf8_encode ((v - 55296) * 1024 + (v2 - 56320) + 65536) @ unquote (drop 6 r')
                    | None \<Rightarrow> utf8_encode RuneError @ unquote r')
                 else utf8_encode v @ unquote r')
              else escape_char e # unquote r)
       else (case decode_rune s of None \<Rightarrow> []
         | Some (r, w) \<Rightarrow>
             (if r = RuneError \<and> w = 1 then utf8_encode RuneError else take w s)
             @ unquote (drop w s)))"
  by pat_completeness auto
termination
  by (relation "measure length") (auto simp del: decode_rune.simps dest!: decode_rune_width)

declare unquote.simps [simp del]

text \<open>A number literal and what follows it.\<close>

definition lex_digits :: "string \<Rightarrow> (string \<times> string) option" where
  "lex_digits s = (let ds = takeWhile (\<lambda>c. digit_val c \<noteq> None) s in
     if ds = [] then None else Some (ds, drop (length ds) s))"

definition lex_fraction :: "string \<Rightarrow> (string \<times> string) option" where
  "lex_fraction s = (case s of [] \<Rightarrow> Some ([], s)
   | c # r \<Rightarrow> if c = CHR ''.'' then map_option (\<lambda>(x, y). (c # x, y)) (lex_digits r) else Some ([], s))"

definition lex_exponent :: "string \<Rightarrow> (string \<times> string) option" where
  "lex_exponent s = (case s of [] \<Rightarrow> Some ([], s)
   | e # r \<Rightarrow>
       if e = CHR ''e'' \<or> e = CHR ''E'' then
         (case r of [] \<Rightarrow> None
          | x # r' \<Rightarrow>
              if x = CHR ''+'' \<or> x = CHR ''-''
              then map_option (\<lambda>(a, y). (e # x # a, y)) (lex_digits r')
              else map_option (\<lambda>(a, y). (e # a, y)) (lex_digits r))
       else Some ([], s))"

definition lex_unsigned :: "string \<Rightarrow> (string \<times> string) option" where
  "lex_unsigned s =
     (case lex_digits s of None \<Rightarrow> None
      | Some (ds, s2) \<Rightarrow>
          (let (ds, s2) = (if hd ds = CHR ''0'' then ([CHR ''0''], tl s) else (ds, s2)) in
           case lex_fraction s2 of None \<Rightarrow> None
           | Some (fr, s3) \<Rightarrow>
               map_option (\<lambda>(ex, s4). (ds @ fr @ ex, s4)) (lex_exponent s3)))"

definition lex_number :: "string \<Rightarrow> (string \<times> string) option" where
  "lex_number s = (case s of [] \<Rightarrow> None
   | c # r \<Rightarrow> if c = CHR ''-'' then map_option (\<lambda>(x, y). (c # x, y)) (lex_unsigned r)
              else lex_unsigned s)"

text \<open>
  A value and what follows it. The first argument is the nesting the decoder still accepts
  (10000 at the top), the second the fuel: two units for every byte are enough, because of
  two calls in a row at least one consumes a byte.
\<close>

fun parse_value :: "nat \<Rightarrow> nat \<Rightarrow> string \<Rightarrow> (gojson \<times> string) option"
  and parse_elems :: "nat \<Rightarrow> nat \<Rightarrow> string \<Rightarrow> (gojson list \<times> string) option"
  and parse_members :: "nat \<Rightarrow> nat \<Rightarrow> string \<Rightarrow> ((string \<times> gojson) list \<times> string) option" where
  "parse_value d 0 s = None"
| "parse_value d (Suc n) s =
     (case skip_ws s of [] \<Rightarrow> None
      | c # cs \<Rightarrow>
          if c = CHR 0x22 then map_option (\<lambda>(x, y). (JStr (unquote x), y)) (lex_string cs)
          else if c = CHR ''['' then
            (if d = 0 then None
             else if has_prefix [CHR '']''] (skip_ws cs) then Some (JArr [], tl (skip_ws cs))
             else map_option (\<lambda>(x, y). (JArr x, y)) (parse_elems (d - 1) n cs))
          else if c = CHR ''{'' then
            (if d = 0 then None
             else if has_prefix [CHR ''}''] (skip_ws cs) then Some (JObj [], tl (skip_ws cs))
             else map_option (\<lambda>(x, y). (JObj x, y)) (parse_members (d - 1) n cs))
          else if has_prefix ''null'' (c # cs) then Some (JNull, drop 4 (c # cs))
          else if has_prefix ''true'' (c # cs) then Some (JBool True, drop 4 (c # cs))
          else if has_prefix ''false'' (c # cs) then Some (JBool False, drop 5 (c # cs))
          else map_option (\<lambda>(x, y). (JNum x, y)) (lex_number (c # cs)))"
| "parse_elems d 0 s = None"
| "parse_elems d (Suc n) s =
     (case parse_value d n s of None \<Rightarrow> None
      | Some (v, r) \<Rightarrow>
          (case skip_ws r of [] \<Rightarrow> None
           | c # r' \<Rightarrow>
               if c = CHR '']'' then Some ([v], r')
               else if c = CHR '','' then map_option (\<lambda>(x, y). (v # x, y)) (parse_elems d n r')
               else None))"
| "parse_members d 0 s = None"
| "parse_members d (Suc n) s =
     (case skip_ws s of [] \<Rightarrow> None
      | q # s1 \<Rightarrow>
          if q \<noteq> CHR 0x22 then None
          else (case lex_string s1 of None \<Rightarrow> None
          | Some (k, s2) \<Rightarrow>
              (case skip_ws s2 of [] \<Rightarrow> None
               | c # s3 \<Rightarrow>
                   if c \<noteq> CHR '':'' then None
                   else (case parse_value d n s3 of None \<Rightarrow> None
                   | Some (v, r) \<Rightarrow>
                       (case skip_ws r of [] \<Rightarrow> None
                        | e # r' \<Rightarrow>
                            if e = CHR ''}'' then Some ([(unquote k, v)], r')
                            else if e = CHR '','' then
                              map_option (\<lambda>(x, y). ((unquote k, v) # x, y)) (parse_members d n r')
                            else None)))))"

definition json_parse :: "string \<Rightarrow> gojson option" where
  "json_parse s = (case parse_value 10000 (2 * length s + 2) s of
     Some (v, r) \<Rightarrow> if skip_ws r = [] then Some v else None | None \<Rightarrow> None)"

text \<open>
  \<open>compact\<close> with HTML escaping: white space outside strings is dropped, and the characters
  \<open><\<close>, \<open>>\<close>, \<open>&\<close>, U+2028 and U+2029 are escaped.
\<close>

fun json_compact :: "bool \<Rightarrow> string \<Rightarrow> string" where
  "json_compact q [] = []"
| "json_compact q (c # cs) =
     (if c = CHR ''<'' \<or> c = CHR ''>'' \<or> c = CHR ''&''
      then CHR 0x5C # CHR ''u'' # hex_pad 4 (of_char c) @ json_compact q cs
      else if has_prefix [CHR 0xE2, CHR 0x80, CHR 0xA8] (c # cs)
      then CHR 0x5C # ''u2028'' @ json_compact q (drop 2 cs)
      else if has_prefix [CHR 0xE2, CHR 0x80, CHR 0xA9] (c # cs)
      then CHR 0x5C # ''u2029'' @ json_compact q (drop 2 cs)
      else if q then
        (if c = CHR 0x22 then c # json_compact False cs
         else if c = CHR 0x5C then (case cs of [] \<Rightarrow> [c] | e # r \<Rightarrow> c # e # json_compact True r)
         else c # json_compact True cs)
      else if is_ws c then json_compact False cs
      else c # json_compact (c = CHR 0x22) cs)"

fun marshal :: "gojson \<Rightarrow> string option"
  and marshal_list :: "gojson list \<Rightarrow> string list option"
  and marshal_fields :: "(string \<times> gojson) list \<Rightarrow> (string \<times> string) list option" where
  "marshal JNull = Some ''null''"
| "marshal (JBool b) = Some (json_bool b)"
| "marshal (JInt n) = Some (FormatInt n)"
| "marshal (JNum s) = Some s"
| "marshal (JStr s) = Some (json_string s)"
| "marshal (JBytes s) = Some (CHR 0x22 # b64_encode b64_std s @ [CHR 0x22])"
| "marshal (JRaw s) = (if json_parse s = None then None else Some (json_compact False s))"
| "marshal JUnsupported = None"
| "marshal (JArr vs) = map_option (\<lambda>ps. ''['' @ join_with CHR '','' ps @ '']'') (marshal_list vs)"
| "marshal (JObj fs) = map_option json_object (marshal_fields fs)"
| "marshal_list [] = Some []"
| "marshal_list (v # vs) = (case marshal v of None \<Rightarrow> None
     | Some p \<Rightarrow> map_option ((#) p) (marshal_list vs))"
| "marshal_fields [] = Some []"
| "marshal_fields ((k, v) # fs) = (case marshal v of None \<Rightarrow> None
     | Some p \<Rightarrow> map_option ((#) (k, p)) (marshal_fields fs))"

definition json_Marshal :: "gojson \<Rightarrow> string res" where
  "json_Marshal v = (case marshal v of None \<Rightarrow> Inl json_error | Some s \<Rightarrow> Inr s)"

definition json_valid :: "gojson \<Rightarrow> bool" where
  "json_valid v \<longleftrightarrow> marshal v \<noteq> None"

lemma json_Marshal_ok: "json_valid v \<Longrightarrow> \<exists>s. json_Marshal v = Inr s"
  by (auto simp: json_valid_def json_Marshal_def)

lemma json_Marshal_bad: "\<not> json_valid v \<Longrightarrow> json_Marshal v = Inl json_error"
  by (auto simp: json_valid_def json_Marshal_def)

lemma marshal_list_iff: "marshal_list vs \<noteq> None \<longleftrightarrow> (\<forall>v \<in> set vs. json_valid v)"
  by (induction vs) (auto simp: json_valid_def split: option.splits)

lemma json_valid_JArr [simp]: "json_valid (JArr vs) \<longleftrightarrow> (\<forall>v \<in> set vs. json_valid v)"
  using marshal_list_iff [of vs] by (simp add: json_valid_def)

lemma marshal_fields_iff: "marshal_fields fs \<noteq> None \<longleftrightarrow> (\<forall>x \<in> set fs. json_valid (snd x))"
  by (induction fs) (auto simp: json_valid_def split: option.splits)

lemma json_valid_JObj [simp]: "json_valid (JObj fs) \<longleftrightarrow> (\<forall>x \<in> set fs. json_valid (snd x))"
  using marshal_fields_iff [of fs] by (simp add: json_valid_def)

lemma json_valid_simps [simp]:
  "json_valid JNull" "json_valid (JBool b)" "json_valid (JInt n)" "json_valid (JStr s)"
  "json_valid (JBytes s)" "\<not> json_valid JUnsupported"
  by (simp_all add: json_valid_def)

lemma json_valid_JRaw [simp]: "json_valid (JRaw s) \<longleftrightarrow> json_parse s \<noteq> None"
  by (simp add: json_valid_def)

end
