(* ===== verification/Tus_FileStore.thy ===== *)
theory Tus_FileStore
  imports Tus_Store GoPath Json
begin

section \<open>tus: the store on the file system\<close>

text \<open>
  \<open>pkg/tus/filestore/filestore.go\<close> and \<open>pkg/tus/uid/uid.go\<close> over a model of the file
  system: a map from paths to contents, a hook that makes an operation on a path fail, the
  number of bytes the device still takes, and the source of random bytes. An info file is
  kept as the record it was marshalled from (\<open>FInfo\<close>); its text is \<open>Marshal\<close> of the record
  and reading it gives the record with invalid UTF-8 replaced, as \<open>encoding/json\<close> does.
  The section ends with the interpretation of the store contract on these definitions.
\<close>

subsection \<open>JSON of an upload\<close>

definition Marshal :: "FileInfo \<Rightarrow> string" where
  "Marshal info = json_object
     [(''ID'', json_string (ID info)), (''Size'', FormatInt (Size info)),
      (''SizeIsDeferred'', json_bool (SizeIsDeferred info)), (''Offset'', FormatInt (Offset info)),
      (''MetaData'', json_map (MetaData info)), (''IsPartial'', json_bool (IsPartial info)),
      (''IsFinal'', json_bool (IsFinal info)),
      (''PartialUploads'', if PartialUploads info = [] then ''null''
         else ''['' @ join_with CHR '','' (map json_string (PartialUploads info)) @ '']''),
      (''Storage'', json_map (Storage info))]"

text \<open>What is left of the maps after a trip through the text.\<close>

definition coerce_map :: "(string \<times> string) list \<Rightarrow> (string \<times> string) list" where
  "coerce_map m = fold (\<lambda>(k, v). AList.update (utf8_coerce k) (utf8_coerce v)) (sort_key fst m) []"

definition json_coerce :: "FileInfo \<Rightarrow> FileInfo" where
  "json_coerce info = info\<lparr>ID := utf8_coerce (ID info), MetaData := coerce_map (MetaData info),
     PartialUploads := map utf8_coerce (PartialUploads info), Storage := coerce_map (Storage info)\<rparr>"

subsection \<open>The file system\<close>

datatype fcontent = FBytes string | FInfo FileInfo

datatype fs_op = OpCreate | OpAppend | OpOpen | OpReadFile | OpWriteFile | OpWrite | OpStat | OpRemove

datatype os_err = ENOENT | OsErr string

record fs =
  files :: "string \<Rightarrow> fcontent option"
  fault :: "fs_op \<Rightarrow> string \<Rightarrow> os_err option"
  room :: nat
  rand :: "nat \<Rightarrow> nat \<Rightarrow> char"
  drawn :: nat

fun fbytes :: "fcontent \<Rightarrow> string" where
  "fbytes (FBytes b) = b"
| "fbytes (FInfo info) = Marshal info"

definition file_text :: "string \<Rightarrow> fs \<Rightarrow> string" where
  "file_text path w = (case files w path of None \<Rightarrow> [] | Some c \<Rightarrow> fbytes c)"

definition os_error :: "string \<Rightarrow> string \<Rightarrow> os_err \<Rightarrow> go_error" where
  "os_error oper path e = new_error (oper @ '' '' @ path @ '': ''
     @ (case e of ENOENT \<Rightarrow> ''no such file or directory'' | OsErr m \<Rightarrow> m))"

text \<open>An operation on a file that must exist.\<close>

definition existing :: "fs_op \<Rightarrow> string \<Rightarrow> fs \<Rightarrow> (os_err + fcontent)" where
  "existing oper path w = (case fault w oper path of
     Some e \<Rightarrow> Inl e
   | None \<Rightarrow> (case files w path of None \<Rightarrow> Inl ENOENT | Some c \<Rightarrow> Inr c))"

text \<open>One \<open>Write\<close> to a file opened for appending: as much as the device has room for.\<close>

definition file_write :: "string \<Rightarrow> fs \<Rightarrow> string \<Rightarrow> (nat \<times> go_error option) \<times> fs" where
  "file_write path w d = (case fault w OpWrite path of
     Some e \<Rightarrow> ((0, Some (os_error ''write'' path e)), w)
   | None \<Rightarrow>
       (let k = min (length d) (room w);
            w' = w\<lparr>files := (files w)(path \<mapsto> FBytes (file_text path w @ take k d)), room := room w - k\<rparr>
        in ((k, if k < length d then Some (os_error ''write'' path (OsErr ''no space left on device'')) else None), w')))"

text \<open>\<open>os.WriteFile\<close> of the marshalled record: it truncates the file first.\<close>

definition write_json :: "string \<Rightarrow> FileInfo \<Rightarrow> fs \<Rightarrow> go_error option \<times> fs" where
  "write_json path info w = (case fault w OpWriteFile path of
     Some e \<Rightarrow> (Some (os_error ''open'' path e), w)
   | None \<Rightarrow>
       (case fault w OpWrite path of
          Some e \<Rightarrow> (Some (os_error ''write'' path e), w\<lparr>files := (files w)(path \<mapsto> FBytes [])\<rparr>)
        | None \<Rightarrow>
            (let d = Marshal info in
             if length d \<le> room w
             then (None, w\<lparr>files := (files w)(path \<mapsto> FInfo info), room := room w - length d\<rparr>)
             else (Some (os_error ''write'' path (OsErr ''no space left on device'')),
                   w\<lparr>files := (files w)(path \<mapsto> FBytes (take (room w) d)), room := 0\<rparr>))))"

definition os_remove :: "string \<Rightarrow> fs \<Rightarrow> go_error option \<times> fs" where
  "os_remove path w = (case existing OpRemove path w of
     Inl e \<Rightarrow> (Some (os_error ''remove'' path e), w)
   | Inr _ \<Rightarrow> (None, w\<lparr>files := (files w)(path := None)\<rparr>))"

subsection \<open>Identifiers\<close>

definition Uid :: "fs \<Rightarrow> string \<times> fs" where
  "Uid w = (hex_encode (map (rand w (drawn w)) [0..<16]), w\<lparr>drawn := Suc (drawn w)\<rparr>)"

definition binPath :: "string \<Rightarrow> string \<Rightarrow> string" where
  "binPath path i = Join path i"

definition infoPath :: "string \<Rightarrow> string \<Rightarrow> string" where
  "infoPath path i = Join path (i @ ''.info'')"

subsection \<open>The store\<close>

record fileUpload =
  up_info :: FileInfo
  up_infoPath :: string
  up_binPath :: string

definition writeInfo :: "fileUpload \<Rightarrow> fs \<Rightarrow> go_error option \<times> fs" where
  "writeInfo upload w = write_json (up_infoPath upload) (up_info upload) w"

definition FS_NewUpload :: "string \<Rightarrow> FileInfo \<Rightarrow> fs \<Rightarrow> fileUpload res \<times> fs" where
  "FS_NewUpload path info w0 =
     (let (i, w) = Uid w0;
          bin = binPath path i;
          info = info\<lparr>ID := i, Storage := [(''Type'', ''filestore''), (''Path'', bin)]\<rparr>
      in case fault w OpCreate bin of
           Some e \<Rightarrow> (Inl (if e = ENOENT then new_error (''upload directory does not exist: '' @ path)
                           else os_error ''open'' bin e), w)
         | None \<Rightarrow>
             (let w1 = (if files w bin = None then w\<lparr>files := (files w)(bin \<mapsto> FBytes [])\<rparr> else w);
                  upload = \<lparr>up_info = info, up_infoPath = infoPath path i, up_binPath = bin\<rparr>
              in case writeInfo upload w1 of
                   (Some e, w2) \<Rightarrow> (Inl e, w2)
                 | (None, w2) \<Rightarrow> (Inr upload, w2)))"

definition FS_GetUpload :: "string \<Rightarrow> string \<Rightarrow> fs \<Rightarrow> fileUpload res" where
  "FS_GetUpload path i w =
     (case existing OpReadFile (infoPath path i) w of
        Inl e \<Rightarrow> Inl (if e = ENOENT then ErrNotFound else os_error ''open'' (infoPath path i) e)
      | Inr (FBytes _) \<Rightarrow> Inl (new_error ''unexpected end of JSON input'')
      | Inr (FInfo data) \<Rightarrow>
          (let info = json_coerce data; bin = binPath path i in
           case existing OpStat bin w of
             Inl e \<Rightarrow> Inl (if e = ENOENT then ErrNotFound else os_error ''stat'' bin e)
           | Inr c \<Rightarrow> Inr \<lparr>up_info = info\<lparr>Offset := int (length (fbytes c))\<rparr>,
                up_infoPath = infoPath path i, up_binPath = bin\<rparr>))"

definition FS_GetInfo :: "fileUpload \<Rightarrow> fs \<Rightarrow> FileInfo res" where
  "FS_GetInfo upload w = Inr (up_info upload)"

definition FS_WriteChunk :: "fileUpload \<Rightarrow> int \<Rightarrow> bodyReader \<Rightarrow> fs
    \<Rightarrow> (int \<times> go_error option) \<times> bodyReader \<times> fileUpload \<times> fs" where
  "FS_WriteChunk upload offset src w =
     (let bin = up_binPath upload in
      case existing OpAppend bin w of
        Inl e \<Rightarrow> ((0, Some (os_error ''open'' bin e)), src, upload, w)
      | Inr _ \<Rightarrow>
          (case io_copy (file_write bin) w src of
             ((n, err), w', src') \<Rightarrow>
               ((n, err), src', upload\<lparr>up_info := (up_info upload)\<lparr>Offset := i64 (Offset (up_info upload) + n)\<rparr>\<rparr>, w')))"

definition FS_GetReader :: "fileUpload \<Rightarrow> fs \<Rightarrow> string res" where
  "FS_GetReader upload w = (case existing OpOpen (up_binPath upload) w of
     Inl e \<Rightarrow> Inl (os_error ''open'' (up_binPath upload) e)
   | Inr c \<Rightarrow> Inr (fbytes c))"

definition FS_Terminate :: "fileUpload \<Rightarrow> fs \<Rightarrow> go_error option \<times> fs" where
  "FS_Terminate upload w = (case os_remove (up_infoPath upload) w of
     (Some e, w') \<Rightarrow> (Some e, w')
   | (None, w') \<Rightarrow> os_remove (up_binPath upload) w')"

text \<open>
  \<open>ConcatUploads\<close>: the loop over the partial uploads, each copied to the end of the file
  (\<open>file_write\<close> of its bytes stands for \<open>io.Copy\<close> from one file to another).
\<close>

fun concat_files :: "string \<Rightarrow> fileUpload list \<Rightarrow> fs \<Rightarrow> go_error option \<times> fs" where
  "concat_files bin [] w = (None, w)"
| "concat_files bin (p # ps) w =
     (case existing OpOpen (up_binPath p) w of
        Inl e \<Rightarrow> (Some (os_error ''open'' (up_binPath p) e), w)
      | Inr src \<Rightarrow>
          (if fbytes src = [] then concat_files bin ps w
           else case file_write bin w (fbytes src) of
             ((n, Some e), w') \<Rightarrow> (Some e, w')
           | ((n, None), w') \<Rightarrow> concat_files bin ps w'))"

definition FS_ConcatUploads :: "fileUpload \<Rightarrow> fileUpload list \<Rightarrow> fs \<Rightarrow> go_error option \<times> fs" where
  "FS_ConcatUploads upload uploads w =
     (case existing OpAppend (up_binPath upload) w of
        Inl e \<Rightarrow> (Some (os_error ''open'' (up_binPath upload) e), w)
      | Inr _ \<Rightarrow> concat_files (up_binPath upload) uploads w)"

definition FS_DeclareLength :: "fileUpload \<Rightarrow> int \<Rightarrow> fs \<Rightarrow> go_error option \<times> fileUpload \<times> fs" where
  "FS_DeclareLength upload len w =
     (let upload = upload\<lparr>up_info := (up_info upload)\<lparr>Size := len, SizeIsDeferred := False\<rparr>\<rparr>;
          (e, w') = writeInfo upload w
      in (e, upload, w'))"

definition FS_FinishUpload :: "fileUpload \<Rightarrow> fs \<Rightarrow> go_error option \<times> fs" where
  "FS_FinishUpload upload w = (None, w)"

definition FileStore :: "string \<Rightarrow> (fs, fileUpload) DataStore" where
  "FileStore path = \<lparr>NewUpload = FS_NewUpload path, GetUpload = FS_GetUpload path,
     GetInfo = FS_GetInfo, WriteChunk = FS_WriteChunk, GetReader = FS_GetReader,
     FinishUpload = FS_FinishUpload\<rparr>"

lemma FileStore_sel [simp]:
  "NewUpload (FileStore path) = FS_NewUpload path" "GetUpload (FileStore path) = FS_GetUpload path"
  "GetInfo (FileStore path) = FS_GetInfo" "WriteChunk (FileStore path) = FS_WriteChunk"
  "GetReader (FileStore path) = FS_GetReader" "FinishUpload (FileStore path) = FS_FinishUpload"
  by (simp_all add: FileStore_def)

definition FileStore_UseIn :: "string \<Rightarrow> (fs, fileUpload, 'l, 'k) StoreComposer
    \<Rightarrow> (fs, fileUpload, 'l, 'k) StoreComposer" where
  "FileStore_UseIn path c = UseLengthDeferrer (Some FS_DeclareLength) (UseConcater (Some FS_ConcatUploads)
     (UseTerminater (Some FS_Terminate) (UseCore (Some (FileStore path)) c)))"

subsection \<open>The store keeps its contract\<close>

definition valid_id :: "string \<Rightarrow> bool" where
  "valid_id i \<longleftrightarrow> plain_name i \<and> \<not> has_suffix ''.info'' i"

definition fs_ok :: "string \<Rightarrow> fs \<Rightarrow> bool" where
  "fs_ok path w \<longleftrightarrow> (\<forall>q info. files w q = Some (FInfo info) \<longrightarrow> (\<exists>i. valid_id i \<and> q = infoPath path i))
     \<and> (\<forall>q c. files w q = Some c \<longrightarrow> int (length (fbytes c) + room w) \<le> MaxInt64)
     \<and> int (room w) \<le> MaxInt64"

definition fs_view :: "string \<Rightarrow> fs \<Rightarrow> string \<Rightarrow> upload_abs option" where
  "fs_view path w i =
     (if valid_id i then
        (case files w (infoPath path i) of
           Some (FInfo info) \<Rightarrow>
             (case files w (binPath path i) of Some (FBytes c) \<Rightarrow> Some (info_abs info c) | _ \<Rightarrow> None)
         | _ \<Rightarrow> None)
      else None)"

definition fs_handle :: "string \<Rightarrow> fs \<Rightarrow> string \<Rightarrow> fileUpload \<Rightarrow> bool" where
  "fs_handle path w i u \<longleftrightarrow> valid_id i \<and> up_infoPath u = infoPath path i \<and> up_binPath u = binPath path i
     \<and> (\<exists>c. fs_view path w i = Some (info_abs (up_info u) c) \<and> Offset (up_info u) = int (length c))"

text \<open>The random bytes give a name no file of the directory has yet.\<close>

definition fs_fresh :: "string \<Rightarrow> fs \<Rightarrow> bool" where
  "fs_fresh path w \<longleftrightarrow> files w (binPath path (fst (Uid w))) = None
     \<and> files w (infoPath path (fst (Uid w))) = None"

lemma plain_info: "CHR ''/'' \<notin> set i \<Longrightarrow> plain_name (i @ ''.info'')"
  by (auto simp: plain_name_def dot_def dotdot_def append_eq_Cons_conv)

lemma infoPath_eq: "CHR ''/'' \<notin> set i \<Longrightarrow> infoPath path i = dir_prefix path @ i @ ''.info''"
  by (simp add: infoPath_def Join_plain plain_info)

lemma valid_id_no_slash: "valid_id i \<Longrightarrow> CHR ''/'' \<notin> set i"
  by (simp add: valid_id_def plain_name_def)

lemma binPath_eq: "valid_id i \<Longrightarrow> binPath path i = dir_prefix path @ i"
  by (simp add: binPath_def Join_plain valid_id_def)

lemma paths_inj:
  "CHR ''/'' \<notin> set i \<Longrightarrow> CHR ''/'' \<notin> set j \<Longrightarrow> infoPath path i = infoPath path j \<longleftrightarrow> i = j"
  "valid_id i \<Longrightarrow> valid_id j \<Longrightarrow> binPath path i = binPath path j \<longleftrightarrow> i = j"
  by (simp_all add: infoPath_eq binPath_eq)

lemma bin_not_info: "valid_id i \<Longrightarrow> CHR ''/'' \<notin> set j \<Longrightarrow> binPath path i \<noteq> infoPath path j"
  by (auto simp: infoPath_eq binPath_eq valid_id_def has_suffix_iff)

lemma info_not_bin: "valid_id i \<Longrightarrow> CHR ''/'' \<notin> set j \<Longrightarrow> infoPath path j \<noteq> binPath path i"
  using bin_not_info by metis

lemmas path_simps = paths_inj bin_not_info info_not_bin valid_id_no_slash

lemma hex_encode_digit: "set (hex_encode s) \<subseteq> set hex_lower"
proof (induction s)
  case Nil
  then show ?case by simp
next
  case (Cons c s)
  have l: "length hex_lower = 16" by (simp add: hex_lower_def)
  have "byte_of c div 16 < length hex_lower" unfolding l by (simp add: less_mult_imp_div_less)
  moreover have "byte_of c mod 16 < length hex_lower" unfolding l by (rule mod_less_divisor) simp
  ultimately have "hex_lower ! (byte_of c div 16) \<in> set hex_lower" "hex_lower ! (byte_of c mod 16) \<in> set hex_lower"
    by (auto intro: nth_mem)
  with Cons show ?case by simp
qed

lemma hex_encode_length [simp]: "length (hex_encode s) = 2 * length s"
  by (induction s) simp_all

lemma valid_Uid: "valid_id (fst (Uid w))"
proof -
  let ?i = "fst (Uid w)"
  have l: "length ?i = 32" by (simp add: Uid_def)
  have "CHR ''.'' \<notin> set hex_lower" "CHR ''/'' \<notin> set hex_lower" by (simp_all add: hex_lower_def)
  then have c: "CHR ''.'' \<notin> set ?i" "CHR ''/'' \<notin> set ?i"
    using hex_encode_digit [of "map (rand w (drawn w)) [0..<16]"] unfolding Uid_def by auto
  then show ?thesis using l
    by (auto simp: valid_id_def plain_name_def dot_def dotdot_def has_suffix_iff)
qed

lemma fs_view_cong:
  assumes "files w' (infoPath path j) = files w (infoPath path j)"
    and "files w' (binPath path j) = files w (binPath path j)"
  shows "fs_view path w' j = fs_view path w j"
  unfolding fs_view_def assms ..

lemma fs_view_other:
  assumes "\<And>q. q \<noteq> infoPath path i \<Longrightarrow> q \<noteq> binPath path i \<Longrightarrow> files w' q = files w q"
    and "valid_id i" "j \<noteq> i"
  shows "fs_view path w' j = fs_view path w j"
proof (cases "valid_id j")
  case True
  then show ?thesis using assms by (intro fs_view_cong assms(1)) (simp_all add: path_simps)
next
  case False
  then show ?thesis by (simp add: fs_view_def)
qed

lemma fs_view_Some:
  assumes "fs_view path w i = Some a"
  obtains info c where "valid_id i" "files w (infoPath path i) = Some (FInfo info)"
    "files w (binPath path i) = Some (FBytes c)" "a = info_abs info c"
  using assms by (auto simp: fs_view_def split: if_splits option.splits fcontent.splits)

lemma fs_handleI:
  "valid_id i \<Longrightarrow> up_infoPath u = infoPath path i \<Longrightarrow> up_binPath u = binPath path i \<Longrightarrow>
    fs_view path w i = Some (info_abs (up_info u) c) \<Longrightarrow> Offset (up_info u) = int (length c) \<Longrightarrow>
    fs_handle path w i u"
  unfolding fs_handle_def by blast

lemma fs_okD:
  assumes "fs_ok path w"
  shows "files w q = Some c \<Longrightarrow> int (length (fbytes c) + room w) \<le> MaxInt64"
    and "files w q = Some (FInfo info) \<Longrightarrow> \<exists>i. valid_id i \<and> q = infoPath path i"
    and "int (room w) \<le> MaxInt64"
  using assms unfolding fs_ok_def by blast+

lemma fs_ok_upd:
  assumes ok: "fs_ok path w" and f: "files w' = (files w)(q \<mapsto> x)" and r: "room w' \<le> room w"
    and x: "int (length (fbytes x) + room w') \<le> MaxInt64"
    and i: "\<And>info. x = FInfo info \<Longrightarrow> \<exists>i. valid_id i \<and> q = infoPath path i"
  shows "fs_ok path w'"
  unfolding fs_ok_def
proof (intro conjI allI impI)
  fix p info assume "files w' p = Some (FInfo info)"
  then show "\<exists>i. valid_id i \<and> p = infoPath path i"
    using fs_okD(2) [OF ok] f i by (auto split: if_splits)
next
  fix p c assume p: "files w' p = Some c"
  show "int (length (fbytes c) + room w') \<le> MaxInt64"
  proof (cases "p = q")
    case True
    with p f x show ?thesis by simp
  next
    case False
    with p f have "files w p = Some c" by simp
    from fs_okD(1) [OF ok this] r show ?thesis by simp
  qed
next
  show "int (room w') \<le> MaxInt64" using r fs_okD(3) [OF ok] by simp
qed

lemma fs_ok_sub:
  assumes "fs_ok path w" "\<And>q c. files w' q = Some c \<Longrightarrow> files w q = Some c" "room w' = room w"
  shows "fs_ok path w'"
  unfolding fs_ok_def assms(3) using fs_okD [OF assms(1)] assms(2) by blast

text \<open>
  The file as a writer of \<open>io.Copy\<close>: it only grows at its end, and no other file changes.
\<close>

definition write_inv :: "string \<Rightarrow> string \<Rightarrow> fs \<Rightarrow> fs \<Rightarrow> bool" where
  "write_inv path bin w0 w \<longleftrightarrow> (\<exists>c. files w bin = Some (FBytes c)) \<and> (\<forall>q. q \<noteq> bin \<longrightarrow> files w q = files w0 q)
     \<and> fault w = fault w0 \<and> fs_ok path w"

lemma file_write_prefix:
  assumes "write_inv path bin w0 w" "file_write bin w d = ((k, e), w')"
  shows "k \<le> length d \<and> file_text bin w' = file_text bin w @ take k d \<and> write_inv path bin w0 w'"
proof (cases "fault w OpWrite bin")
  case (Some e)
  with assms show ?thesis by (auto simp: file_write_def)
next
  case None
  obtain c where c: "files w bin = Some (FBytes c)" using assms(1) by (auto simp: write_inv_def)
  let ?k = "min (length d) (room w)"
  have r: "k = ?k" "w' = w\<lparr>files := (files w)(bin \<mapsto> FBytes (c @ take ?k d)), room := room w - ?k\<rparr>"
    using assms(2) None c by (auto simp: file_write_def Let_def file_text_def)
  have ok: "fs_ok path w" using assms(1) by (simp add: write_inv_def)
  have fit: "int (length c + room w) \<le> MaxInt64" using fs_okD(1) [OF ok c] by simp
  have "fs_ok path w'"
    using ok by (rule fs_ok_upd [where q = bin and x = "FBytes (c @ take ?k d)"]) (use r fit in \<open>auto simp: of_nat_diff min_def\<close>)
  with r c assms(1) show ?thesis by (simp add: write_inv_def file_text_def)
qed

interpretation fw: io_writer "file_write bin" "file_text bin" "write_inv path bin w0" for path bin w0
  by unfold_locales (rule file_write_prefix)

lemma existing_Inr: "existing oper q w = Inr x \<longleftrightarrow> fault w oper q = None \<and> files w q = Some x"
  by (auto simp: existing_def split: option.splits)

lemma fs_handle_files:
  assumes "fs_handle path w i u"
  obtains info c where "valid_id i" "up_infoPath u = infoPath path i" "up_binPath u = binPath path i"
    "files w (infoPath path i) = Some (FInfo info)" "files w (binPath path i) = Some (FBytes c)"
    "info_abs info c = info_abs (up_info u) c" "Offset (up_info u) = int (length c)"
    "fs_view path w i = Some (info_abs (up_info u) c)"
proof -
  from assms obtain c where h: "valid_id i" "up_infoPath u = infoPath path i" "up_binPath u = binPath path i"
    "fs_view path w i = Some (info_abs (up_info u) c)" "Offset (up_info u) = int (length c)"
    by (auto simp: fs_handle_def)
  from h(4) obtain info c' where v: "files w (infoPath path i) = Some (FInfo info)"
    "files w (binPath path i) = Some (FBytes c')" "info_abs (up_info u) c = info_abs info c'"
    by (rule fs_view_Some)
  then have "c = c'" by (metis info_abs_sel(4))
  with h v that show thesis by metis
qed

lemma fs_get_upload:
  assumes ok: "fs_ok path w" and i: "CHR ''/'' \<notin> set i" and g: "FS_GetUpload path i w = Inr u"
  shows "fs_handle path w i u"
proof -
  obtain data c where data: "files w (infoPath path i) = Some (FInfo data)"
    and c: "files w (binPath path i) = Some c"
    and u: "u = \<lparr>up_info = (json_coerce data)\<lparr>Offset := int (length (fbytes c))\<rparr>,
          up_infoPath = infoPath path i, up_binPath = binPath path i\<rparr>"
    using g by (auto simp: FS_GetUpload_def Let_def existing_Inr split: sum.splits fcontent.splits)
  from ok data obtain j where j: "valid_id j" "infoPath path i = infoPath path j"
    by (auto simp: fs_ok_def)
  then have v: "valid_id i" using i path_simps(1) [of i j] valid_id_no_slash by metis
  have "\<exists>b. c = FBytes b"
  proof (cases c)
    case (FInfo x)
    then obtain j where "valid_id j" "binPath path i = infoPath path j" using ok c by (auto simp: fs_ok_def)
    then show ?thesis using v bin_not_info valid_id_no_slash by metis
  qed auto
  then obtain b where b: "c = FBytes b" ..
  have "fs_view path w i = Some (info_abs data b)"
    using v data c b by (simp add: fs_view_def)
  moreover have "info_abs data b = info_abs (json_coerce data) b"
    by (simp add: info_abs_def json_coerce_def)
  ultimately show ?thesis using v u b by (intro fs_handleI [where c = b]) simp_all
qed

lemma fs_write_chunk:
  assumes ok: "fs_ok path w" and h: "fs_handle path w i u" and v: "fs_view path w i = Some a"
    and wc: "FS_WriteChunk u off r w = ((n, e), r', u', w')"
  shows "fs_ok path w' \<and> fs_handle path w' i u' \<and> (\<exists>d t. reader_data r = d @ t \<and> n = int (length d)
    \<and> (e = None \<longrightarrow> t = []) \<and> fs_view path w' = (fs_view path w)(i \<mapsto> a\<lparr>u_data := u_data a @ d\<rparr>))"
  using h
proof (rule fs_handle_files)
  fix info c
  assume f: "valid_id i" "up_infoPath u = infoPath path i" "up_binPath u = binPath path i"
    "files w (infoPath path i) = Some (FInfo info)" "files w (binPath path i) = Some (FBytes c)"
    "info_abs info c = info_abs (up_info u) c" "Offset (up_info u) = int (length c)"
    "fs_view path w i = Some (info_abs (up_info u) c)"
  have a: "a = info_abs (up_info u) c" using f(8) v by simp
  let ?bin = "binPath path i"
  show ?thesis
  proof (cases "existing OpAppend ?bin w")
    case (Inl er)
    then have "n = 0" "e \<noteq> None" "u' = u" "w' = w" using wc f(3) by (auto simp: FS_WriteChunk_def Let_def)
    moreover have "(fs_view path w)(i \<mapsto> a\<lparr>u_data := u_data a @ []\<rparr>) = fs_view path w"
      using v by (simp add: fun_upd_idem_iff)
    ultimately show ?thesis using ok h by (intro conjI exI [of _ "[]"] exI [of _ "reader_data r"]) auto
  next
    case (Inr x)
    then obtain src' where cp: "io_copy (file_write ?bin) w r = ((n, e), w', src')"
      and u': "u' = u\<lparr>up_info := (up_info u)\<lparr>Offset := i64 (Offset (up_info u) + n)\<rparr>\<rparr>"
      using wc f(3) by (auto simp: FS_WriteChunk_def Let_def split: prod.splits)
    have "write_inv path ?bin w w" using ok f(5) by (simp add: write_inv_def)
    from fw.io_copy_prefix [OF this cp] obtain d t where
      inv: "write_inv path ?bin w w'" and d: "file_text ?bin w' = file_text ?bin w @ d" "n = int (length d)"
        "reader_data r = d @ t" "e = None \<longrightarrow> t = []" by blast
    then have b: "files w' ?bin = Some (FBytes (c @ d))"
      using f(5) by (auto simp: write_inv_def file_text_def)
    have ok': "fs_ok path w'" and o: "\<And>q. q \<noteq> ?bin \<Longrightarrow> files w' q = files w q"
      using inv by (auto simp: write_inv_def)
    have "int (length (fbytes (FBytes (c @ d))) + room w') \<le> MaxInt64"
      using fs_okD(1) [OF ok' b] .
    then have off: "i64 (int (length c) + n) = int (length (c @ d))"
      using d(2) by (simp add: in_i64_nonneg)
    have vi: "fs_view path w' i = Some (info_abs (up_info u) (c @ d))"
      using f b o [of "infoPath path i"] by (simp add: fs_view_def path_simps info_abs_def)
    have "fs_view path w' = (fs_view path w)(i \<mapsto> info_abs (up_info u) (c @ d))"
      using vi fs_view_other [of path i w' w] o f(1) by (auto simp: fun_eq_iff)
    moreover have "info_abs (up_info u) (c @ d) = a\<lparr>u_data := u_data a @ d\<rparr>"
      using a by (simp add: info_abs_def)
    moreover have "fs_handle path w' i u'"
      using f vi off u' by (intro fs_handleI [where c = "c @ d"]) simp_all
    ultimately show ?thesis using ok' d by metis
  qed
qed

lemma write_json_ok:
  assumes ok: "fs_ok path w" and i: "valid_id i" and wr: "write_json (infoPath path i) info w = (e, w')"
  shows "fs_ok path w' \<and> (\<forall>q. q \<noteq> infoPath path i \<longrightarrow> files w' q = files w q)
    \<and> (if e = None then files w' (infoPath path i) = Some (FInfo info)
       else w' = w \<or> (\<exists>b. files w' (infoPath path i) = Some (FBytes b)))"
proof -
  let ?q = "infoPath path i"
  consider (same) "w' = w" "e \<noteq> None"
    | (trunc) b where "files w' = (files w)(?q \<mapsto> FBytes b)" "length b + room w' \<le> room w" "e \<noteq> None"
    | (written) "files w' = (files w)(?q \<mapsto> FInfo info)" "length (Marshal info) + room w' \<le> room w" "e = None"
    using wr by (auto simp: write_json_def Let_def split: option.splits if_splits)
  then show ?thesis
  proof cases
    case same
    then show ?thesis using ok by auto
  next
    case (trunc b)
    have "fs_ok path w'"
      using ok trunc(1) by (rule fs_ok_upd) (use trunc(2) fs_okD(3) [OF ok] in auto)
    with trunc show ?thesis by simp
  next
    case written
    have "fs_ok path w'"
      using ok written(1) by (rule fs_ok_upd) (use written(2) fs_okD(3) [OF ok] i in auto)
    with written show ?thesis by simp
  qed
qed

lemma fs_new_upload:
  assumes ok: "fs_ok path w0" and fr: "fs_fresh path w0" and z: "Offset info = 0"
    and nu: "FS_NewUpload path info w0 = (r, w')"
  shows "fs_ok path w' \<and> (case r of
      Inl er \<Rightarrow> fs_view path w' = fs_view path w0
    | Inr u \<Rightarrow> (\<exists>i. fs_view path w0 i = None \<and> fs_handle path w' i u
        \<and> fs_view path w' = (fs_view path w0)(i \<mapsto> info_abs info []) \<and> ID (up_info u) = i))"
proof -
  define i w where "i = fst (Uid w0)" and "w = snd (Uid w0)"
  let ?bin = "binPath path i" and ?inf = "infoPath path i"
  let ?info = "info\<lparr>ID := i, Storage := [(''Type'', ''filestore''), (''Path'', ?bin)]\<rparr>"
  let ?w1 = "w\<lparr>files := (files w)(?bin \<mapsto> FBytes [])\<rparr>"
  let ?u = "\<lparr>up_info = ?info, up_infoPath = ?inf, up_binPath = ?bin\<rparr>"
  have u: "Uid w0 = (i, w)" by (simp add: i_def w_def)
  have v: "valid_id i" unfolding i_def by (rule valid_Uid)
  have w: "files w = files w0" "room w = room w0" "fault w = fault w0" by (simp_all add: w_def Uid_def)
  have fb: "files w ?bin = None" "files w ?inf = None" using fr w by (simp_all add: fs_fresh_def i_def)
  have none: "fs_view path w0 i = None" using fb w by (simp add: fs_view_def)
  show ?thesis
  proof (cases "fault w OpCreate ?bin")
    case (Some e)
    then have "w' = w" "\<exists>er. r = Inl er" using nu u by (auto simp: FS_NewUpload_def Let_def)
    moreover have "fs_ok path w" using ok by (rule fs_ok_sub) (use w in auto)
    moreover have "fs_view path w = fs_view path w0"
      using w by (intro ext fs_view_cong) simp_all
    ultimately show ?thesis by auto
  next
    case None
    have ok1: "fs_ok path ?w1"
      using ok by (rule fs_ok_upd [where q = ?bin and x = "FBytes []"]) (use w fs_okD(3) [OF ok] in auto)
    obtain e where wj: "write_json ?inf ?info ?w1 = (e, w')" and r: "r = (case e of Some er \<Rightarrow> Inl er | None \<Rightarrow> Inr ?u)"
      using nu u None fb by (auto simp: FS_NewUpload_def Let_def writeInfo_def split: prod.splits option.splits)
    note wr = write_json_ok [OF ok1 v wj]
    have other: "files w' q = files w0 q" if "q \<noteq> ?inf" "q \<noteq> ?bin" for q using wr that w by simp
    have views: "fs_view path w' j = fs_view path w0 j" if "j \<noteq> i" for j
      using fs_view_other [of path i w' w0] other v that by blast
    have bin: "files w' ?bin = Some (FBytes [])" using wr v by (simp add: path_simps)
    show ?thesis
    proof (cases e)
      case None
      then have vi: "fs_view path w' i = Some (info_abs ?info [])"
        using wr bin v by (simp add: fs_view_def)
      have "info_abs ?info [] = info_abs info []" by (simp add: info_abs_def)
      then have "fs_view path w' = (fs_view path w0)(i \<mapsto> info_abs info [])"
        using vi views by (auto simp: fun_eq_iff)
      moreover have "fs_handle path w' i ?u"
        using v vi z by (intro fs_handleI [where c = "[]"]) simp_all
      ultimately show ?thesis using None r wr none by (auto intro!: exI [of _ i])
    next
      case (Some er)
      then have "fs_view path w' i = None"
        using wr fb v by (auto simp: fs_view_def path_simps)
      then have "fs_view path w' = fs_view path w0" using views none by (metis ext)
      then show ?thesis using Some r wr by simp
    qed
  qed
qed

lemma fs_terminate:
  assumes ok: "fs_ok path w" and h: "fs_handle path w i u" and t: "FS_Terminate u w = (e, w')"
  shows "fs_ok path w' \<and> (if e = None then fs_view path w' = (fs_view path w)(i := None)
    else fs_view path w' = fs_view path w \<or> fs_view path w' = (fs_view path w)(i := None))"
proof -
  let ?bin = "binPath path i" and ?inf = "infoPath path i"
  have f: "valid_id i" "up_infoPath u = ?inf" "up_binPath u = ?bin" using h by (simp_all add: fs_handle_def)
  have sub: "\<And>q c. files w' q = Some c \<Longrightarrow> files w q = Some c" "room w' = room w"
    and o: "\<And>q. q \<noteq> ?inf \<Longrightarrow> q \<noteq> ?bin \<Longrightarrow> files w' q = files w q"
    and gone: "files w' ?inf = None \<or> e \<noteq> None \<and> w' = w"
    using t f by (auto simp: FS_Terminate_def os_remove_def path_simps split: prod.splits sum.splits option.splits if_splits)
  have "fs_ok path w'" using ok sub by (rule fs_ok_sub)
  moreover have views: "j \<noteq> i \<Longrightarrow> fs_view path w' j = fs_view path w j" for j
    using fs_view_other [of path i w' w] o f(1) by blast
  moreover have "files w' ?inf = None \<Longrightarrow> fs_view path w' = (fs_view path w)(i := None)"
    using views by (auto simp: fun_eq_iff fs_view_def)
  ultimately show ?thesis using gone by auto
qed

lemma fs_declare_length:
  assumes ok: "fs_ok path w" and h: "fs_handle path w i u" and v: "fs_view path w i = Some a"
    and d: "FS_DeclareLength u n w = (e, u', w')"
  shows "fs_ok path w' \<and> (if e = None then fs_view path w' = (fs_view path w)(i \<mapsto> a\<lparr>u_size := Some n\<rparr>) \<and> fs_handle path w' i u'
    else fs_view path w' = fs_view path w \<or> fs_view path w' = (fs_view path w)(i := None))"
  using h
proof (rule fs_handle_files)
  fix info c
  assume f: "valid_id i" "up_infoPath u = infoPath path i" "up_binPath u = binPath path i"
    "files w (infoPath path i) = Some (FInfo info)" "files w (binPath path i) = Some (FBytes c)"
    "info_abs info c = info_abs (up_info u) c" "Offset (up_info u) = int (length c)"
    "fs_view path w i = Some (info_abs (up_info u) c)"
  let ?info = "(up_info u)\<lparr>Size := n, SizeIsDeferred := False\<rparr>"
  have u': "u' = u\<lparr>up_info := ?info\<rparr>" and wj: "write_json (infoPath path i) ?info w = (e, w')"
    using d f(2) by (auto simp: FS_DeclareLength_def writeInfo_def Let_def split: prod.splits)
  note wr = write_json_ok [OF ok f(1) wj]
  have views: "j \<noteq> i \<Longrightarrow> fs_view path w' j = fs_view path w j" for j
    using fs_view_other [of path i w' w] wr f(1) by blast
  show ?thesis
  proof (cases e)
    case None
    then have vi: "fs_view path w' i = Some (info_abs ?info c)"
      using wr f by (simp add: fs_view_def path_simps)
    have "a = info_abs (up_info u) c" using v f(8) by simp
    then have "info_abs ?info c = a\<lparr>u_size := Some n\<rparr>" by (simp add: info_abs_def)
    then have "fs_view path w' = (fs_view path w)(i \<mapsto> a\<lparr>u_size := Some n\<rparr>)"
      using vi views by (auto simp: fun_eq_iff)
    moreover have "fs_handle path w' i u'"
      using f vi u' by (intro fs_handleI [where c = c]) simp_all
    ultimately show ?thesis using None wr by simp
  next
    case (Some er)
    then consider "w' = w" | b where "files w' (infoPath path i) = Some (FBytes b)" using wr by auto
    then have "fs_view path w' = fs_view path w \<or> fs_view path w' i = None"
      by cases (simp_all add: fs_view_def)
    then show ?thesis using Some wr views by (auto simp: fun_eq_iff)
  qed
qed

lemma fs_get_reader:
  assumes h: "fs_handle path w i u" and r: "FS_GetReader u w = Inr c"
  shows "map_option u_data (fs_view path w i) = Some c"
  using h by (rule fs_handle_files) (use r in \<open>auto simp: FS_GetReader_def existing_Inr split: sum.splits\<close>)

lemma file_write_all:
  assumes "write_inv path bin w0 w" "file_write bin w d = ((k, None), w')"
  shows "file_text bin w' = file_text bin w @ d"
proof -
  have "k = length d" using assms(2) by (auto simp: file_write_def Let_def split: option.splits if_splits)
  then show ?thesis using file_write_prefix [OF assms] by simp
qed

text \<open>The loop appends the partial uploads in the order given, or stops on the way.\<close>

lemma concat_files_ok:
  "write_inv path bin w0 w \<Longrightarrow> \<forall>u \<in> set us. up_binPath u \<noteq> bin \<Longrightarrow> concat_files bin us w = (e, w') \<Longrightarrow>
    write_inv path bin w0 w' \<and> (\<exists>d t. concat (map (\<lambda>u. file_text (up_binPath u) w0) us) = d @ t
      \<and> file_text bin w' = file_text bin w @ d \<and> (e = None \<longrightarrow> t = []))"
proof (induction us arbitrary: w)
  case Nil
  then show ?case by simp
next
  case (Cons u us)
  show ?case
  proof (cases "existing OpOpen (up_binPath u) w")
    case (Inl er)
    with Cons.prems have "e \<noteq> None" "w' = w" by auto
    with Cons.prems(1) show ?thesis by (intro conjI exI [of _ "[]"] exI) auto
  next
    case (Inr x)
    then have "files w (up_binPath u) = Some x" by (simp add: existing_Inr)
    then have x: "fbytes x = file_text (up_binPath u) w0"
      using Cons.prems(1,2) by (simp add: write_inv_def file_text_def)
    show ?thesis
    proof (cases "fbytes x = []")
      case True
      with Inr Cons.prems(3) have "concat_files bin us w = (e, w')" by simp
      with Cons.IH [OF Cons.prems(1) _ this] Cons.prems(2) x True show ?thesis by simp
    next
      case False
      obtain n e1 w1 where w1: "file_write bin w (fbytes x) = ((n, e1), w1)" by (metis surj_pair)
      note pre = file_write_prefix [OF Cons.prems(1) w1]
      show ?thesis
      proof (cases e1)
        case None
        with Inr False w1 Cons.prems(3) have c: "concat_files bin us w1 = (e, w')" by simp
        from Cons.IH [OF _ _ c] pre Cons.prems(2) obtain d t where
          dt: "write_inv path bin w0 w'" "concat (map (\<lambda>u. file_text (up_binPath u) w0) us) = d @ t"
          "file_text bin w' = file_text bin w1 @ d" "e = None \<longrightarrow> t = []" by auto
        have "file_text bin w1 = file_text bin w @ fbytes x"
          using file_write_all [OF Cons.prems(1)] w1 None by simp
        with dt x show ?thesis
          by (intro conjI exI [of _ "fbytes x @ d"] exI [of _ t]) auto
      next
        case (Some er)
        with Inr False w1 Cons.prems(3) have "e \<noteq> None" "w' = w1" by auto
        with pre x show ?thesis
          by (intro conjI exI [of _ "take n (fbytes x)"]
              exI [of _ "drop n (fbytes x) @ concat (map (\<lambda>u. file_text (up_binPath u) w0) us)"]) auto
      qed
    qed
  qed
qed

lemma file_text_handle:
  "fs_handle path w j u \<Longrightarrow> up_binPath u = binPath path j \<and> file_text (up_binPath u) w = u_data (the (fs_view path w j))"
  by (elim fs_handle_files) (simp add: file_text_def)

lemma handles_data:
  "list_all2 (fs_handle path w) is us \<Longrightarrow>
    concat (map (\<lambda>u. file_text (up_binPath u) w) us) = concat (map (\<lambda>j. u_data (the (fs_view path w j))) is)"
  by (induction rule: list_all2_induct) (auto dest: file_text_handle)

lemma fs_concat_uploads:
  assumes ok: "fs_ok path w" and h: "fs_handle path w i u" and v: "fs_view path w i = Some a"
    and hs: "list_all2 (fs_handle path w) is us" and ni: "i \<notin> set is"
    and c: "FS_ConcatUploads u us w = (e, w')"
  shows "fs_ok path w' \<and> (\<exists>d t. concat (map (\<lambda>j. u_data (the (fs_view path w j))) is) = d @ t
    \<and> (e = None \<longrightarrow> t = []) \<and> fs_view path w' = (fs_view path w)(i \<mapsto> a\<lparr>u_data := u_data a @ d\<rparr>))"
  using h
proof (rule fs_handle_files)
  fix info c0
  let ?bin = "binPath path i"
  assume f: "valid_id i" "up_infoPath u = infoPath path i" "up_binPath u = ?bin"
    "files w (infoPath path i) = Some (FInfo info)" "files w ?bin = Some (FBytes c0)"
    "info_abs info c0 = info_abs (up_info u) c0" "Offset (up_info u) = int (length c0)"
    "fs_view path w i = Some (info_abs (up_info u) c0)"
  show ?thesis
  proof (cases "existing OpAppend ?bin w")
    case (Inl er)
    with c f(3) have "w' = w" "e \<noteq> None" by (auto simp: FS_ConcatUploads_def)
    moreover have "fs_view path w = (fs_view path w)(i \<mapsto> a\<lparr>u_data := u_data a @ []\<rparr>)"
      using v by (auto simp: fun_eq_iff)
    ultimately show ?thesis using ok by (intro conjI exI [of _ "[]"] exI) auto
  next
    case (Inr x)
    with c f(3) have cf: "concat_files ?bin us w = (e, w')" by (simp add: FS_ConcatUploads_def)
    have others: "\<forall>u' \<in> set us. up_binPath u' \<noteq> ?bin"
    proof
      fix u' assume "u' \<in> set us"
      then obtain j where j: "j \<in> set is" "fs_handle path w j u'"
        using hs by (metis in_set_conv_nth list_all2_conv_all_nth)
      then have "valid_id j" "up_binPath u' = binPath path j" by (simp_all add: fs_handle_def)
      then show "up_binPath u' \<noteq> ?bin" using f(1) j(1) ni by (auto simp: path_simps)
    qed
    have inv0: "write_inv path ?bin w w" using ok f(5) by (simp add: write_inv_def)
    from concat_files_ok [OF inv0 others cf] obtain d t where inv: "write_inv path ?bin w w'"
      and d: "concat (map (\<lambda>u. file_text (up_binPath u) w) us) = d @ t"
      and t: "file_text ?bin w' = file_text ?bin w @ d" "e = None \<longrightarrow> t = []"
      by auto
    have o: "\<And>q. q \<noteq> ?bin \<Longrightarrow> files w' q = files w q" and ok': "fs_ok path w'"
      using inv by (simp_all add: write_inv_def)
    have "files w' (infoPath path i) = Some (FInfo info)" using o f(1,4) by (simp add: path_simps)
    moreover have "files w' ?bin = Some (FBytes (c0 @ d))" using inv t f(5) by (auto simp: write_inv_def file_text_def)
    ultimately have "fs_view path w' i = Some (info_abs info (c0 @ d))" using f(1) by (simp add: fs_view_def)
    moreover have "a = info_abs info c0" using v f(6,8) by simp
    ultimately have "fs_view path w' i = Some (a\<lparr>u_data := u_data a @ d\<rparr>)" by (simp add: info_abs_def)
    then have "fs_view path w' = (fs_view path w)(i \<mapsto> a\<lparr>u_data := u_data a @ d\<rparr>)"
      using fs_view_other [of path i w' w] o f(1) by (auto simp: fun_eq_iff)
    then show ?thesis using ok' d t(2) handles_data [OF hs] by auto
  qed
qed

interpretation fstore: full_store "FileStore path" "fs_ok path" "fs_fresh path" "fs_view path" "fs_handle path"
  FS_Terminate FS_ConcatUploads FS_DeclareLength for path
proof (unfold_locales, goal_cases)
  case 1 then show ?case using fs_get_upload by simp
next
  case 2 then show ?case by (auto simp: FS_GetInfo_def fs_handle_def)
next
  case 3 then show ?case by (simp add: fs_handle_def)
next
  case 4 then show ?case by (auto simp: fs_handle_def)
next
  case (5 s info u s')
  then have "FS_NewUpload path info s = (Inr u, s')" by simp
  from fs_new_upload [OF 5(1-3) this] show ?case by (auto simp: FS_GetInfo_def)
next
  case (6 s info er s')
  then have "FS_NewUpload path info s = (Inl er, s')" by simp
  from fs_new_upload [OF 6(1-3) this] show ?case by simp
next
  case (7 s i u a off r n e r' u' s')
  then have "FS_WriteChunk u off r s = ((n, e), r', u', s')" by simp
  from fs_write_chunk [OF 7(1-3) this] show ?case .
next
  case (8 s i a)
  from 8(2) obtain info c where "files s (binPath path i) = Some (FBytes c)" "a = info_abs info c"
    by (rule fs_view_Some)
  with fs_okD(1) [OF 8(1)] show ?case by fastforce
next
  case 9 then show ?case using fs_get_reader by simp
next
  case 10 then show ?case by (simp add: FS_FinishUpload_def)
next
  case 11 then show ?case by (intro fs_terminate)
next
  case 12 then show ?case by (intro fs_concat_uploads)
next
  case 13 then show ?case by (intro fs_declare_length)
qed

subsection \<open>When nothing fails\<close>

text \<open>A body that ends without a read error.\<close>

definition clean_body :: "body \<Rightarrow> bool" where
  "clean_body b \<longleftrightarrow> list_all (\<lambda>(d, e). e = None \<or> e = Some EOF) b"

definition clean_reader :: "bodyReader \<Rightarrow> bool" where
  "clean_reader r \<longleftrightarrow> clean_body (rd_body r) \<and> (rd_err r = None \<or> rd_err r = Some EOF)"

lemma body_read_clean: "body_read n b = ((d, e), b') \<Longrightarrow> clean_body b \<Longrightarrow> clean_body b' \<and> (e = None \<or> e = Some EOF)"
  by (cases "(n, b)" rule: body_read.cases) (auto simp: clean_body_def split: if_splits)

lemma Read_clean: "bodyReader_Read cap r = ((d, e), r') \<Longrightarrow> clean_reader r \<Longrightarrow> clean_reader r'"
  by (auto simp: bodyReader_Read_def limit_read_def clean_reader_def Let_def
      dest: body_read_clean split: prod.splits if_splits)

lemma clean_hasError: "clean_reader r \<Longrightarrow> hasError r = None"
  by (auto simp: clean_reader_def hasError_def)

lemma file_write_room:
  assumes "fault w OpWrite bin = None" "length d \<le> room w" "file_write bin w d = ((k, e), w')"
  shows "k = length d \<and> e = None \<and> room w' = room w - length d \<and> fault w' = fault w"
  using assms by (auto simp: file_write_def Let_def)

lemma file_copy_total:
  "fault w OpWrite bin = None \<Longrightarrow> length (reader_data r) \<le> room w \<Longrightarrow> clean_reader r \<Longrightarrow>
    io_copy (file_write bin) w r = ((n, er), w', r') \<Longrightarrow> er = None \<and> hasError r' = None"
proof (induction "rd_measure r" arbitrary: w r n er w' r' rule: less_induct)
  case (less r)
  obtain d e r1 where rd: "bodyReader_Read copy_buf r = ((d, e), r1)" by (metis surj_pair)
  obtain nw ew w1 where wr: "(if d = [] then ((0, None), w) else file_write bin w d) = ((nw, ew), w1)"
    by (metis surj_pair)
  have data: "reader_data r = d @ reader_data r1" using Read_data [OF rd] by simp
  have w1: "nw = length d \<and> ew = None \<and> room w1 = room w - length d \<and> fault w1 = fault w"
    using wr file_write_room [of w bin d nw ew w1] less.prems(1,2) data by (cases "d = []") auto
  have step: "io_copy (file_write bin) w r = (case e of Some _ \<Rightarrow> ((int nw, None), w1, r1)
        | None \<Rightarrow> (case io_copy (file_write bin) w1 r1 of ((n, er), w'', r'') \<Rightarrow> ((int nw + n, er), w'', r'')))"
    using w1 by (auto simp: io_copy.simps [of "file_write bin" w r] rd wr split: option.splits)
  have c1: "clean_reader r1" using Read_clean [OF rd less.prems(3)] .
  show ?case
  proof (cases e)
    case (Some x)
    then show ?thesis using step less.prems(4) clean_hasError [OF c1] by simp
  next
    case None
    then obtain n1 where n1: "io_copy (file_write bin) w1 r1 = ((n1, er), w', r')"
      using step less.prems(4) by (auto split: prod.splits)
    have "rd_measure r1 < rd_measure r" using Read_measure rd None by blast
    from less.hyps [OF this _ _ c1 n1] w1 less.prems(1,2) data show ?thesis by simp
  qed
qed

text \<open>Every upload the directory has can be opened when reading does not fail.\<close>

lemma FS_GetUpload_total:
  assumes "fs_view path w i = Some a" "fault w OpReadFile (infoPath path i) = None" "fault w OpStat (binPath path i) = None"
  obtains u where "FS_GetUpload path i w = Inr u"
  using assms(1) by (rule fs_view_Some) (use assms that in \<open>auto simp: FS_GetUpload_def existing_def Let_def\<close>)

lemma FS_GetUpload_gone:
  assumes "fs_ok path w" "CHR ''/'' \<notin> set i" "fs_view path w i = None"
    and "fault w OpReadFile (infoPath path i) = None" "fault w OpStat (binPath path i) = None"
    and "\<forall>b. files w (infoPath path i) \<noteq> Some (FBytes b)"
  shows "FS_GetUpload path i w = Inl ErrNotFound"
proof (cases "FS_GetUpload path i w")
  case (Inr u)
  then show ?thesis using fs_get_upload [OF assms(1,2) Inr] assms(3) by (simp add: fs_handle_def)
next
  case (Inl e)
  then show ?thesis using assms(4-6)
    by (auto simp: FS_GetUpload_def existing_def Let_def split: option.splits fcontent.splits)
qed

end
