(* ===== verification/Tus_Lockers.thy ===== *)
theory Tus_Lockers
  imports Tus_Store GoPath
begin

section \<open>tus: the lockers\<close>

text \<open>
  \<open>pkg/tus/memorylocker/memorylocker.go\<close>, whose state is the set of locked identifiers, and
  \<open>pkg/tus/filelocker/filelocker.go\<close>, which calls a lockfile package that is not part of the
  repository: its \<open>TryLock\<close> and \<open>Unlock\<close> are parameters.
\<close>

subsection \<open>In memory\<close>

text \<open>
  \<open>Lock\<close> and \<open>Unlock\<close> run under the locker's mutex from their first to their last step, so
  each is one atomic function of the set.
\<close>

record memoryLock =
  lock_id :: string

definition ML_NewLock :: "string \<Rightarrow> memoryLock res" where
  "ML_NewLock i = Inr \<lparr>lock_id = i\<rparr>"

definition ML_Lock :: "memoryLock \<Rightarrow> string set \<Rightarrow> go_error option \<times> string set" where
  "ML_Lock lock locks =
     (if lock_id lock \<in> locks then (Some ErrFileLocked, locks)
      else (None, insert (lock_id lock) locks))"

definition ML_Unlock :: "memoryLock \<Rightarrow> string set \<Rightarrow> go_error option \<times> string set" where
  "ML_Unlock lock locks = (None, locks - {lock_id lock})"

definition MemoryLocker :: "(string set, memoryLock) Locker" where
  "MemoryLocker = \<lparr>NewLock = ML_NewLock, Lock = ML_Lock, Unlock = ML_Unlock\<rparr>"

definition MemoryLocker_UseIn :: "('s, 'u, string set, memoryLock) StoreComposer
    \<Rightarrow> ('s, 'u, string set, memoryLock) StoreComposer" where
  "MemoryLocker_UseIn c = UseLocker (Some MemoryLocker) c"

lemma MemoryLocker_sel [simp]:
  "NewLock MemoryLocker = ML_NewLock" "Lock MemoryLocker = ML_Lock" "Unlock MemoryLocker = ML_Unlock"
  by (simp_all add: MemoryLocker_def)

lemmas memory_defs = ML_NewLock_def ML_Lock_def ML_Unlock_def

interpretation ml: locker MemoryLocker "\<lambda>locks. locks"
  by unfold_locales (auto simp: memory_defs split: if_splits)

text \<open>
  Any number of clients that lock and unlock: a client holds a lock between a \<open>Lock\<close> that
  succeeded and its \<open>Unlock\<close>, and only the holder calls \<open>Unlock\<close>.
\<close>

type_synonym client = nat

inductive lock_step :: "string set \<times> (client \<times> string) set \<Rightarrow> string set \<times> (client \<times> string) set \<Rightarrow> bool" where
  acquire: "ML_NewLock i = Inr k \<Longrightarrow> ML_Lock k locks = (None, locks') \<Longrightarrow>
    lock_step (locks, holders) (locks', insert (c, i) holders)"
| busy: "ML_NewLock i = Inr k \<Longrightarrow> ML_Lock k locks = (Some e, locks') \<Longrightarrow>
    lock_step (locks, holders) (locks', holders)"
| release: "(c, i) \<in> holders \<Longrightarrow> ML_NewLock i = Inr k \<Longrightarrow> ML_Unlock k locks = (e, locks') \<Longrightarrow>
    lock_step (locks, holders) (locks', holders - {(c, i)})"

definition exclusive :: "string set \<times> (client \<times> string) set \<Rightarrow> bool" where
  "exclusive s \<longleftrightarrow> fst s = snd ` snd s \<and> (\<forall>c d i. (c, i) \<in> snd s \<and> (d, i) \<in> snd s \<longrightarrow> c = d)"

lemma exclusive_step: "lock_step s t \<Longrightarrow> exclusive s \<Longrightarrow> exclusive t"
proof (induction rule: lock_step.induct)
  case (acquire i k locks locks' holders c)
  then show ?case by (force simp: exclusive_def memory_defs split: if_splits)
next
  case (busy i k locks e locks' holders)
  then show ?case by (auto simp: exclusive_def memory_defs split: if_splits)
next
  case (release c i holders k locks e locks')
  then show ?case by (force simp: exclusive_def memory_defs)
qed

lemma exclusive_steps: "lock_step\<^sup>*\<^sup>* s t \<Longrightarrow> exclusive s \<Longrightarrow> exclusive t"
  by (induction rule: rtranclp_induct) (auto intro: exclusive_step)



subsection \<open>On disk\<close>

text \<open>
  What the lockfile package answers; \<open>ErrBusy\<close> and the error of a missing file are the two
  the locker looks at.
\<close>

datatype lock_answer = LOk | LBusy | LNotExist | LOther go_error

definition lock_answer_err :: "lock_answer \<Rightarrow> go_error option" where
  "lock_answer_err a = (case a of LOk \<Rightarrow> None | LBusy \<Rightarrow> Some (new_error ''Locked by other process'')
     | LNotExist \<Rightarrow> Some (new_error ''no such file or directory'') | LOther e \<Rightarrow> Some e)"

text \<open>\<open>filepath.Abs\<close>, with the working directory or the error of asking for it.\<close>

definition Abs :: "string res \<Rightarrow> string \<Rightarrow> string res" where
  "Abs cwd p = (if rooted p then Inr (Clean p) else case cwd of Inl e \<Rightarrow> Inl e | Inr d \<Rightarrow> Inr (Join d p))"

definition FL_NewLock :: "string res \<Rightarrow> string \<Rightarrow> string \<Rightarrow> string res" where
  "FL_NewLock cwd path i = Abs cwd (Join path (i @ ''.lock''))"

definition FL_Lock :: "(string \<Rightarrow> 'l \<Rightarrow> lock_answer \<times> 'l) \<Rightarrow> string \<Rightarrow> 'l \<Rightarrow> go_error option \<times> 'l" where
  "FL_Lock TryLock file l = (case TryLock file l of (a, l') \<Rightarrow>
     (if a = LBusy then Some ErrFileLocked else lock_answer_err a, l'))"

definition FL_Unlock :: "(string \<Rightarrow> 'l \<Rightarrow> lock_answer \<times> 'l) \<Rightarrow> string \<Rightarrow> 'l \<Rightarrow> go_error option \<times> 'l" where
  "FL_Unlock UnlockFile file l = (case UnlockFile file l of (a, l') \<Rightarrow>
     (if a = LNotExist then None else lock_answer_err a, l'))"

definition FileLocker :: "string res \<Rightarrow> (string \<Rightarrow> 'l \<Rightarrow> lock_answer \<times> 'l)
    \<Rightarrow> (string \<Rightarrow> 'l \<Rightarrow> lock_answer \<times> 'l) \<Rightarrow> string \<Rightarrow> ('l, string) Locker" where
  "FileLocker cwd TryLock UnlockFile path =
     \<lparr>NewLock = FL_NewLock cwd path, Lock = FL_Lock TryLock, Unlock = FL_Unlock UnlockFile\<rparr>"

text \<open>Two uploads never share a lock file.\<close>

lemma Abs_Join: "\<exists>P. \<forall>n f. plain_name n \<longrightarrow> Abs cwd (Join path n) = Inr f \<longrightarrow> f = P @ n"
proof -
  obtain P where P: "\<And>n. plain_name n \<Longrightarrow> Clean (dir_prefix path @ n) = P @ n"
    using Clean_dir_prefix [of "[]" path] by auto
  obtain Q where Q: "\<And>d n. plain_name n \<Longrightarrow> cwd = Inr d \<Longrightarrow> d \<noteq> [] \<Longrightarrow>
      Clean (d @ CHR ''/'' # dir_prefix path @ n) = Q @ n"
    using Clean_dir_prefix [of "projr cwd @ ''/''" path] by (metis append.assoc append_Cons append_Nil sum.sel(2))
  have r: "rooted (dir_prefix path @ n) \<longleftrightarrow> rooted (dir_prefix path @ m)" if "plain_name n" "plain_name m" for m n
    using that by (cases "dir_prefix path"; cases n; cases m) (auto simp: rooted_def plain_name_def)
  show ?thesis
  proof (cases "\<forall>n. plain_name n \<longrightarrow> rooted (dir_prefix path @ n)")
    case True
    then show ?thesis using P by (intro exI [of _ P]) (auto simp: Abs_def Join_plain)
  next
    case False
    then have nr: "plain_name n \<Longrightarrow> \<not> rooted (dir_prefix path @ n)" for n using r by blast
    have "Abs cwd (Join path n) = (case cwd of Inl e \<Rightarrow> Inl e | Inr d \<Rightarrow>
        Inr (Clean (if d = [] then dir_prefix path @ n else d @ CHR ''/'' # dir_prefix path @ n)))"
      if "plain_name n" for n
      using that nr [OF that] Join_right [of "dir_prefix path @ n"] unfolding Abs_def Join_plain [OF that]
      by (auto simp: plain_name_def split: sum.splits)
    then show ?thesis using P Q
      by (cases "cwd = Inr []") (auto split: sum.splits intro: exI [of _ P] exI [of _ Q])
  qed
qed

lemma FL_NewLock_inj:
  assumes "CHR ''/'' \<notin> set i" "CHR ''/'' \<notin> set j"
    and "FL_NewLock cwd path i = Inr f" "FL_NewLock cwd path j = Inr f"
  shows "i = j"
proof -
  have "plain_name (k @ ''.lock'')" if "CHR ''/'' \<notin> set k" for k
    using that by (auto simp: plain_name_def dot_def dotdot_def append_eq_Cons_conv)
  then show ?thesis using Abs_Join [of cwd path] assms unfolding FL_NewLock_def
    by (metis append_same_eq same_append_eq)
qed

text \<open>
  On disk the locker adds nothing to the lockfile package but the two translations: a busy
  file is \<open>ErrFileLocked\<close>, unlocking a file that is not there is no error, every other answer
  passes through; and two uploads never share a lock file.
\<close>

theorem file_locker_translates:
  "fst (FL_Lock TryLock f l) = (case fst (TryLock f l) of LOk \<Rightarrow> None | LBusy \<Rightarrow> Some ErrFileLocked
      | a \<Rightarrow> lock_answer_err a)
   \<and> snd (FL_Lock TryLock f l) = snd (TryLock f l)
   \<and> fst (FL_Unlock UnlockFile f l) = (case fst (UnlockFile f l) of LOk \<Rightarrow> None | LNotExist \<Rightarrow> None
      | a \<Rightarrow> lock_answer_err a)
   \<and> snd (FL_Unlock UnlockFile f l) = snd (UnlockFile f l)
   \<and> inj_on (FL_NewLock cwd path) {i. CHR ''/'' \<notin> set i \<and> is_ok (FL_NewLock cwd path i)}"
proof -
  have "inj_on (FL_NewLock cwd path) {i. CHR ''/'' \<notin> set i \<and> is_ok (FL_NewLock cwd path i)}"
  proof (rule inj_onI)
    fix i j assume *: "i \<in> {i. CHR ''/'' \<notin> set i \<and> is_ok (FL_NewLock cwd path i)}"
      "j \<in> {i. CHR ''/'' \<notin> set i \<and> is_ok (FL_NewLock cwd path i)}" "FL_NewLock cwd path i = FL_NewLock cwd path j"
    from *(1) have "is_ok (FL_NewLock cwd path i)" by (rule CollectE) (erule conjE)
    then obtain f where f: "FL_NewLock cwd path i = Inr f" by (rule is_okE)
    have "FL_NewLock cwd path j = Inr f" using *(3) f by (rule subst)
    with f show "i = j" using FL_NewLock_inj [of i j cwd path f] *(1,2) by blast
  qed
  then show ?thesis
    by (auto simp: FL_Lock_def FL_Unlock_def lock_answer_err_def split: prod.splits lock_answer.splits)
qed

end
