(* ===== verification/Tus_Server.thy ===== *)
theory Tus_Server
  imports Tus_Api Tus_FileStore Tus_Lockers
begin

section \<open>tus: what the server guarantees\<close>

text \<open>
  The guarantees of the handlers for any store and any locker that keep the contracts of
  \<open>Tus_Store\<close>, proved once in a locale and interpreted for the file store and the memory
  locker; then the properties of the server built from these two.
\<close>

subsection \<open>What the building blocks leave alone\<close>

lemma header_frame [simp]:
  "st (set_header k v w) = st w" "locks (set_header k v w) = locks w"
  "metrics (set_header k v w) = metrics w" "CompleteUploads (set_header k v w) = CompleteUploads w"
  "TerminatedUploads (set_header k v w) = TerminatedUploads w"
  "CreatedUploads (set_header k v w) = CreatedUploads w"
  "UploadProgress (set_header k v w) = UploadProgress w"
  "r_status (resp (set_header k v w)) = r_status (resp w)"
  "r_out (resp (set_header k v w)) = r_out (resp w)"
  "r_header (resp (set_header k v w)) = hset k v (r_header (resp w))"
  by (simp_all add: set_header_def)

lemma add_header_frame [simp]:
  "st (add_header k v w) = st w" "locks (add_header k v w) = locks w"
  "metrics (add_header k v w) = metrics w" "CompleteUploads (add_header k v w) = CompleteUploads w"
  "TerminatedUploads (add_header k v w) = TerminatedUploads w"
  "CreatedUploads (add_header k v w) = CreatedUploads w"
  "UploadProgress (add_header k v w) = UploadProgress w"
  "r_status (resp (add_header k v w)) = r_status (resp w)"
  "r_out (resp (add_header k v w)) = r_out (resp w)"
  "r_header (resp (add_header k v w)) = hadd k v (r_header (resp w))"
  by (simp_all add: add_header_def)

lemma status_frame [simp]:
  "st (WriteStatus c x w) = st w" "locks (WriteStatus c x w) = locks w"
  "metrics (WriteStatus c x w) = metrics w" "CompleteUploads (WriteStatus c x w) = CompleteUploads w"
  "TerminatedUploads (WriteStatus c x w) = TerminatedUploads w"
  "CreatedUploads (WriteStatus c x w) = CreatedUploads w"
  "UploadProgress (WriteStatus c x w) = UploadProgress w"
  "r_status (resp (WriteStatus c x w)) = Some c"
  "r_out (resp (WriteStatus c x w)) = r_out (resp w) @ [x]"
  "r_header (resp (WriteStatus c x w)) = r_header (resp w)"
  by (simp_all add: WriteStatus_def)

lemma write_out_frame [simp]:
  "st (write_out d w) = st w" "locks (write_out d w) = locks w"
  "r_status (resp (write_out d w)) = r_status (resp w)"
  "r_out (resp (write_out d w)) = r_out (resp w) @ [WBytes d]"
  "r_header (resp (write_out d w)) = r_header (resp w)"
  by (simp_all add: write_out_def)

lemma sendResp_frame [simp]:
  "st (sendResp r c w) = st w" "locks (sendResp r c w) = locks w" "metrics (sendResp r c w) = metrics w"
  "CompleteUploads (sendResp r c w) = CompleteUploads w"
  "TerminatedUploads (sendResp r c w) = TerminatedUploads w"
  "r_status (resp (sendResp r c w)) = Some c" "r_header (resp (sendResp r c w)) = r_header (resp w)"
  "r_out (resp (sendResp r c w)) = r_out (resp w) @ [WNil]"
  by (simp_all add: sendResp_def)

definition err_status :: "go_error \<Rightarrow> int" where
  "err_status e = StatusCode (status_error (plain_error e))"

lemma sendError_frame [simp]:
  "st (sendError r e w) = st w" "locks (sendError r e w) = locks w"
  "CompleteUploads (sendError r e w) = CompleteUploads w"
  "TerminatedUploads (sendError r e w) = TerminatedUploads w"
  "r_status (resp (sendError r e w)) = Some (err_status e)"
  by (simp_all add: sendError_def Let_def err_status_def)

text \<open>
  A handler that gets to its end calls \<open>sendResp\<close>; every other answer is an error with a
  body of its own.
\<close>

definition answered :: "int \<Rightarrow> ('s, 'l) world \<Rightarrow> bool" where
  "answered c w \<longleftrightarrow> r_status (resp w) = Some c \<and> r_out (resp w) \<noteq> [] \<and> last (r_out (resp w)) = WNil"

lemma answered_simps [simp]:
  "answered c (sendResp r c w)" "\<not> answered c (sendError r e w)"
  by (simp_all add: answered_def sendError_def Let_def)

lemma answered_sendResp: "answered c (sendResp r c' w) \<longleftrightarrow> c = c'"
  by (auto simp: answered_def)

text \<open>The statuses of the errors the package defines.\<close>

lemma err_statuses [simp]:
  "err_status ErrNotFound = 404" "err_status ErrFileLocked = 423" "err_status ErrModifyFinal = 403"
  "err_status ErrMismatchOffset = 409" "err_status ErrUnsupportedVersion = 412"
  "err_status ErrSizeExceeded = 413" "err_status ErrMaxSizeExceeded = 413"
  "err_status ErrInvalidContentType = 400" "err_status ErrInvalidOffset = 400"
  "err_status ErrNotImplemented = 501" "err_status ErrUploadStoppedByServer = 400"
  "err_status ErrInvalidUploadLength = 400" "err_status ErrInvalidConcat = 400"
  "err_status ErrUploadNotFinished = 400" "err_status ErrInvalidUploadDeferLength = 400"
  "err_status ErrUploadLengthAndUploadDeferLength = 400"
  by code_simp+

lemma finish_frame: "finishUploadIfComplete u upload info r w = (e, w') \<Longrightarrow>
    locks w' = locks w \<and> r_header (resp w') = r_header (resp w)
    \<and> (st w' = st w \<or> (\<exists>e'. FinishUpload (core u) upload (st w) = (e', st w')))"
  by (auto simp: finishUploadIfComplete_def Let_def split: if_splits prod.splits option.splits)

lemma terminate_frame: "terminateUpload u upload info r w = (e, w') \<Longrightarrow> locks w' = locks w"
  by (auto simp: terminateUpload_def Let_def split: if_splits prod.splits option.splits)

lemma terminate_locks [simp]: "locks (snd (terminateUpload u upload info r w)) = locks w"
  by (metis surjective_pairing terminate_frame)

lemma terminate_hdr [simp]: "r_header (resp (snd (terminateUpload u upload info r w))) = r_header (resp w)"
  by (auto simp: terminateUpload_def Let_def split: prod.splits option.splits)

lemma write_body_frame: "write_body u upload info r b n w = (x, w') \<Longrightarrow>
    locks w' = locks w \<and> r_header (resp w') = r_header (resp w)"
  by (auto simp: write_body_def Let_def split: if_splits prod.splits)

lemma writeChunk_locks: "writeChunk u upload info r w = (e, w') \<Longrightarrow> locks w' = locks w"
  by (auto simp: writeChunk_def Let_def dest!: finish_frame write_body_frame
      split: if_splits prod.splits option.splits)

lemma or_error_locks: "(\<And>v. x = Inr v \<Longrightarrow> locks (rest v) = locks w) \<Longrightarrow> locks (or_error r x w rest) = locks w"
  by (cases x) (simp_all add: or_error_def)

lemma patch_locked_locks: "locks (patch_locked u r offset i w) = locks w"
  unfolding patch_locked_def
  by (rule or_error_locks)
    (auto simp: patch_chunk_def declare_length_def dest!: writeChunk_locks
      split: prod.splits option.splits sum.splits if_splits)

subsection \<open>The guarantees\<close>

text \<open>An uploader whose composer has the given store, extensions and locker.\<close>

definition wired :: "('s, 'u, 'l, 'k) Uploader \<Rightarrow> ('s, 'u) DataStore \<Rightarrow> ('s, 'u) Terminater \<Rightarrow> ('s, 'u) Concater
    \<Rightarrow> ('s, 'u) LengthDeferrer \<Rightarrow> ('l, 'k) Locker \<Rightarrow> bool" where
  "wired u cs te cc ld lk \<longleftrightarrow> core u = cs \<and> composed (composer u) \<and> Terminater (composer u) = Some te
     \<and> Concater (composer u) = Some cc \<and> LengthDeferrer (composer u) = Some ld \<and> CLocker (composer u) = Some lk"

text \<open>What a request can have added to an upload: a prefix of the body's bytes.\<close>

definition from_body :: "request \<Rightarrow> int \<Rightarrow> string \<Rightarrow> bool" where
  "from_body r n d \<longleftrightarrow> d = [] \<or> (\<exists>b t. Body r = Some b \<and> take (nat n) (body_data b) = d @ t)"

definition body_part :: "request \<Rightarrow> int \<Rightarrow> string" where
  "body_part r n = (case Body r of None \<Rightarrow> [] | Some b \<Rightarrow> take (nat n) (body_data b))"

lemma from_body_length: "from_body r n d \<Longrightarrow> 0 \<le> n \<Longrightarrow> int (length d) \<le> n"
proof -
  assume "from_body r n d" "0 \<le> n"
  moreover have "length d \<le> nat n" if "take (nat n) x = d @ t" for x t
    using arg_cong [OF that, of length] by simp
  ultimately show ?thesis by (auto simp: from_body_def le_nat_iff)
qed

lemma unlock_frame [simp]:
  "st (unlock u k w) = st w" "resp (unlock u k w) = resp w"
  "CompleteUploads (unlock u k w) = CompleteUploads w" "metrics (unlock u k w) = metrics w"
  "TerminatedUploads (unlock u k w) = TerminatedUploads w"
  by (simp_all add: unlock_def split: option.splits)

lemma answered_unlock [simp]: "answered c (unlock u k w) = answered c w"
  by (simp add: answered_def)

lemma patch_chunk_cases:
  obtains (nolen) e w1 where "declare_length u r upload info w = (Inl e, w1)"
      "patch_chunk u r upload info w = sendError r e w1"
  | (fail) up info' w1 e w2 where "declare_length u r upload info w = (Inr (up, info'), w1)"
      "writeChunk u up info' r w1 = (Some e, w2)" "patch_chunk u r upload info w = sendError r e w2"
  | (ok) up info' w1 w2 where "declare_length u r upload info w = (Inr (up, info'), w1)"
      "writeChunk u up info' r w1 = (None, w2)" "patch_chunk u r upload info w = sendResp r 204 w2"
proof -
  obtain x w1 where d: "declare_length u r upload info w = (x, w1)" by (metis surj_pair)
  show thesis
  proof (cases x)
    case (Inl e)
    then show thesis using nolen d by (simp add: patch_chunk_def)
  next
    case (Inr y)
    obtain up info' where y: "y = (up, info')" by (metis surj_pair)
    obtain z w2 where wc: "writeChunk u up info' r w1 = (z, w2)" by (metis surj_pair)
    show thesis using fail ok d Inr y wc by (cases z) (auto simp: patch_chunk_def)
  qed
qed

text \<open>The length an upload has after a request: the old one, or one declared only now.\<close>

definition length_declared :: "request \<Rightarrow> int option \<Rightarrow> int option \<Rightarrow> int \<Rightarrow> bool" where
  "length_declared r old new n \<longleftrightarrow> new = old
     \<or> (old = None \<and> new = ParseInt (hget (Header r) ''Upload-Length'') \<and> (\<exists>k. new = Some k \<and> n \<le> k))"

text \<open>An upload that stays within its declared size; a final one is as long as its parts.\<close>

definition fits :: "upload_abs \<Rightarrow> bool" where
  "fits a = (case u_size a of None \<Rightarrow> True
     | Some n \<Rightarrow> n \<le> MaxInt64 \<and> (u_final a \<or> int (length (u_data a)) \<le> n))"

lemma length_declared_fits:
  assumes "length_declared r (u_size a) (u_size b) n" "u_data b = u_data a \<and> u_final b = u_final a \<and> n = int (length (u_data a))"
    and "fits a"
  shows "fits b"
  using assms(1) unfolding length_declared_def
proof
  assume "u_size b = u_size a"
  then show ?thesis using assms(2,3) by (auto simp: fits_def split: option.splits)
next
  assume "u_size a = None \<and> u_size b = ParseInt (hget (Header r) ''Upload-Length'') \<and> (\<exists>k. u_size b = Some k \<and> n \<le> k)"
  then obtain k where "u_size b = Some k" "n \<le> k" "ParseInt (hget (Header r) ''Upload-Length'') = Some k" by auto
  then show ?thesis using assms(2) ParseInt_le_Max by (simp add: fits_def)
qed

lemma finish_header: "finishUploadIfComplete u upload info r w = (e, w') \<Longrightarrow> r_header (resp w') = r_header (resp w)"
  by (drule finish_frame) simp

lemma writeChunk_header:
  "writeChunk u upload info r w = (e, w') \<Longrightarrow> k \<noteq> ''Upload-Offset'' \<Longrightarrow>
    hget (r_header (resp w')) k = hget (r_header (resp w)) k"
  by (auto simp: writeChunk_def Let_def hget_hset dest!: finish_header write_body_frame
      split: if_splits prod.splits option.splits)

text \<open>A POST is refused before the store is asked, or creates the upload it describes.\<close>

lemma PostFile_cases:
  obtains (no) e where "PostFile u r w = sendError r e w"
  | (create) isPartial isFinal ids us n deferred where
      "parseConcat (concat_header u r) = Inr (isPartial, isFinal, ids)"
      "post_size u r isFinal ids (has_chunk r) (st w) = Inr (us, n, deferred)"
      "MaxSize (config u) > 0 \<longrightarrow> n \<le> MaxSize (config u)"
      "PostFile u r w = post_create u (post_info r isPartial isFinal ids n deferred) us (has_chunk r) r w"
proof (cases "parseConcat (concat_header u r)")
  case (Inl e)
  then show thesis using no [of e] by (simp add: PostFile_def or_error_def Let_def)
next
  case (Inr x)
  obtain isPartial isFinal ids where x: "x = (isPartial, isFinal, ids)" by (metis surj_pair)
  show thesis
  proof (cases "post_size u r isFinal ids (has_chunk r) (st w)")
    case (Inl e)
    then show thesis using no [of e] Inr x
      by (simp add: PostFile_def or_error_def Let_def)
  next
    case ps: (Inr y)
    obtain us n deferred where y: "y = (us, n, deferred)" by (metis surj_pair)
    let ?info = "post_info r isPartial isFinal ids n deferred"
    have p: "PostFile u r w = (if MaxSize (config u) > 0 \<and> n > MaxSize (config u) then sendError r ErrMaxSizeExceeded w
        else case (case PreUploadCreateCallback (config u) of None \<Rightarrow> None | Some f \<Rightarrow> f (newHookEvent ?info r)) of
             Some e \<Rightarrow> sendError r e w | None \<Rightarrow> post_create u ?info us (has_chunk r) r w)"
      using Inr x ps y
      by (simp add: PostFile_def or_error_def Let_def)
    show thesis
      using p no create [OF Inr [unfolded x] ps [unfolded y]] by (fastforce split: option.splits if_splits)
  qed
qed

lemma extractID_no_slash: "extractIDFromPath p = Inr i \<Longrightarrow> i \<noteq> [] \<and> CHR ''/'' \<notin> set i"
  by (auto simp: extractIDFromPath_def last_segment_def Let_def dest: set_takeWhileD split: if_splits)

lemma concat_ids_no_slash: "concat_ids vs = Inr ids \<Longrightarrow> \<forall>i \<in> set ids. CHR ''/'' \<notin> set i"
  by (induction vs arbitrary: ids rule: concat_ids.induct)
    (auto simp: Let_def dest: extractID_no_slash split: if_splits sum.splits)

lemma parseConcat_ids: "parseConcat h = Inr (p, f, ids) \<Longrightarrow> \<forall>i \<in> set ids. CHR ''/'' \<notin> set i"
  by (auto simp: parseConcat_def dest: concat_ids_no_slash split: if_splits sum.splits)

lemma validate_length: "validateNewUploadLengthHeaders b h1 h2 = Inr (n, d) \<Longrightarrow> 0 \<le> n \<and> n \<le> MaxInt64"
proof -
  have "(0::int) \<le> MaxInt64" by (simp add: MaxInt64_def)
  then show "validateNewUploadLengthHeaders b h1 h2 = Inr (n, d) \<Longrightarrow> ?thesis"
    by (auto simp: validateNewUploadLengthHeaders_def Let_def dest: ParseInt_le_Max split: if_splits option.splits)
qed

lemma sizeOfUploads_le: "sizeOfUploads u ids s = Inr (us, n) \<Longrightarrow> n \<le> MaxInt64"
  by (cases ids) (auto simp: MaxInt64_def in_i64_def i64_def split: sum.splits if_splits)

lemma post_size_le: "post_size u r f ids ch s = Inr (us, n, d) \<Longrightarrow> n \<le> MaxInt64 \<and> (\<not> f \<longrightarrow> 0 \<le> n) \<and> (f \<longrightarrow> \<not> ch)"
  by (auto simp: post_size_def dest: validate_length sizeOfUploads_le split: if_splits sum.splits)

text \<open>The bytes one call of \<open>writeChunk\<close> may add.\<close>

definition chunk_ok :: "('s, 'u, 'l, 'k) Config \<Rightarrow> FileInfo \<Rightarrow> request \<Rightarrow> string \<Rightarrow> bool" where
  "chunk_ok cfg info r d \<longleftrightarrow> from_body r (chunk_limit cfg info (ContentLength r)) d
     \<and> (\<not> SizeIsDeferred info \<and> i64 (Offset info + ContentLength r) > Size info \<longrightarrow> d = [])"

lemma chunk_ok_Nil [simp]: "chunk_ok cfg info r []"
  by (simp add: chunk_ok_def from_body_def)

lemma chunk_ok_fits:
  assumes d: "chunk_ok cfg info r d" and off: "Offset info = int (length c)"
    and f: "fits (info_abs info c)" and nf: "\<not> IsFinal info"
    and len: "Offset info + ContentLength r \<le> MaxInt64" "- 1 \<le> ContentLength r"
  shows "fits (info_abs info (c @ d))"
proof (cases "SizeIsDeferred info \<or> d = []")
  case True
  then show ?thesis using d f by (auto simp: fits_def)
next
  case False
  let ?n = "chunk_limit cfg info (ContentLength r)"
  have s: "Size info \<le> MaxInt64" "int (length c) \<le> Size info" using f nf False by (auto simp: fits_def)
  have "in_i64 (Offset info + ContentLength r)"
    using len off by (simp add: in_i64_def MaxInt64_def)
  then have le: "int (length c) + ContentLength r \<le> Size info" using d False off by (simp add: chunk_ok_def)
  have b: "from_body r ?n d" using d by (simp add: chunk_ok_def)
  have "int (length c) + int (length d) \<le> Size info"
  proof (cases "0 < ContentLength r")
    case True
    then show ?thesis using from_body_length [OF b] le by (simp add: chunk_limit_def Let_def)
  next
    case nolen: False
    have "in_i64 (Size info - int (length c))" using s by (simp add: in_i64_def MaxInt64_def)
    then have "?n = Size info - int (length c)" using nolen False off by (simp add: chunk_limit_def)
    then show ?thesis using from_body_length [OF b] s(2) by simp
  qed
  then show ?thesis using s(1) False by (simp add: fits_def)
qed

text \<open>
  What the upload a POST created holds: the data of its parts in their order, or the bytes
  of the chunk the request came with, or nothing.
\<close>

definition created_as :: "(string \<Rightarrow> upload_abs option) \<Rightarrow> request \<Rightarrow> bool \<times> bool \<times> string list \<Rightarrow> upload_abs \<Rightarrow> bool" where
  "created_as v r pfi a = (case pfi of (p, f, ids) \<Rightarrow> u_partial a = p \<and> u_final a = f \<and>
     (if f then u_data a = concat (map (\<lambda>j. u_data (the (v j))) ids)
         \<and> (\<forall>j \<in> set ids. \<exists>b. v j = Some b \<and> u_size b = Some (int (length (u_data b))))
      else if has_chunk r then u_data a = [] \<or> (\<exists>b t. Body r = Some b \<and> body_data b = u_data a @ t)
      else u_data a = []))"

lemma from_body_prefix: "from_body r n x \<Longrightarrow> x = [] \<or> (\<exists>b t. Body r = Some b \<and> body_data b = x @ t)"
  by (auto simp: from_body_def) (metis append_take_drop_id append.assoc)

lemma info_abs_eq: "info_abs a c = info_abs b c' \<longleftrightarrow> c = c' \<and> SizeIsDeferred a = SizeIsDeferred b
    \<and> (\<not> SizeIsDeferred a \<longrightarrow> Size a = Size b) \<and> IsPartial a = IsPartial b \<and> IsFinal a = IsFinal b"
  by (auto simp: info_abs_def)

lemma chunk_limit_cong: "info_abs a c = info_abs b c' \<Longrightarrow> Offset a = Offset b \<Longrightarrow>
    chunk_limit cfg a len = chunk_limit cfg b len"
  by (auto simp: info_abs_eq chunk_limit_def Let_def)

lemma chunk_ok_cong: "info_abs a c = info_abs b c' \<Longrightarrow> Offset a = Offset b \<Longrightarrow> chunk_ok cfg a r d = chunk_ok cfg b r d"
  using chunk_limit_cong [of a c b c' cfg "ContentLength r"] by (auto simp: chunk_ok_def info_abs_eq)

text \<open>
  A client's requests, one after the other, each with a response of its own. A request is
  tame when its offset and its length do not add up to more than an \<open>int64\<close> holds.
\<close>

definition no_resp :: response where
  "no_resp = \<lparr>r_header = (\<lambda>_. []), r_status = None, r_out = []\<rparr>"

definition tame :: "request \<Rightarrow> bool" where
  "tame r \<longleftrightarrow> - 1 \<le> ContentLength r \<and> ContentLength r \<le> MaxInt64
     \<and> (case ParseInt (hget (Header r) ''Upload-Offset'') of None \<Rightarrow> True
        | Some off \<Rightarrow> off + ContentLength r \<le> MaxInt64)"

inductive server_step :: "('s, 'u, 'l, 'k) Uploader \<Rightarrow> ('s \<Rightarrow> bool) \<Rightarrow> ('s, 'l) world \<Rightarrow> ('s, 'l) world \<Rightarrow> bool"
  for u fresh where
  post: "fresh (st w) \<Longrightarrow> tame r \<Longrightarrow> server_step u fresh w (PostFile u r (w\<lparr>resp := no_resp\<rparr>))"
| head: "server_step u fresh w (HeadFile u r (w\<lparr>resp := no_resp\<rparr>))"
| patch: "tame r \<Longrightarrow> server_step u fresh w (PatchFile u r (w\<lparr>resp := no_resp\<rparr>))"
| get: "server_step u fresh w (GetFile isPrint u r (w\<lparr>resp := no_resp\<rparr>))"
| delete: "server_step u fresh w (DelFile u r (w\<lparr>resp := no_resp\<rparr>))"

locale tus_server = full_store cs sinv fresh view handle te cc ld + locker lk held
  for cs :: "('s, 'u) DataStore" and sinv fresh view handle te cc ld
    and lk :: "('l, 'k) Locker" and held
begin

lemma wired_simps:
  assumes "wired u cs te cc ld lk"
  shows "core u = cs" "Terminater (composer u) = Some te" "UsesTerminater (composer u)"
    "Concater (composer u) = Some cc" "UsesConcater (composer u)"
    "LengthDeferrer (composer u) = Some ld" "UsesLengthDeferrer (composer u)"
    "CLocker (composer u) = Some lk" "UsesLocker (composer u)"
  using assms by (auto simp: wired_def composed_def)

text \<open>Locks: every path of the guarded part gives the lock back.\<close>

lemma with_lock_held:
  assumes u: "wired u cs te cc ld lk" and rest: "\<And>w1. locks (rest w1) = locks w1"
  shows "held (locks (with_lock u r i rest w)) = held (locks w)"
proof (cases "NewLock lk i")
  case (Inl e)
  then show ?thesis using u by (simp add: with_lock_def lockUpload_def wired_simps)
next
  case (Inr k)
  obtain e l where l: "Lock lk k (locks w) = (e, l)" by (metis surj_pair)
  show ?thesis
  proof (cases e)
    case None
    then show ?thesis using Inr l u rest lock_unlock [OF Inr, of "locks w" l l]
      by (simp add: with_lock_def lockUpload_def unlock_def wired_simps)
  next
    case (Some er)
    then show ?thesis using Inr l u lock_err [OF Inr, of "locks w" er l]
      by (simp add: with_lock_def lockUpload_def wired_simps)
  qed
qed

lemma with_lock_busy:
  assumes u: "wired u cs te cc ld lk" and k: "NewLock lk i = Inr k" and h: "i \<in> held (locks w)"
  shows "st (with_lock u r i rest w) = st w \<and> r_status (resp (with_lock u r i rest w)) = Some 423"
proof -
  obtain l where "Lock lk k (locks w) = (Some ErrFileLocked, l)"
    using lock_held [OF k h] by (metis surjective_pairing)
  then show ?thesis using u k by (simp add: with_lock_def lockUpload_def wired_simps)
qed

text \<open>The guarded part runs on the same store, and what it answers is the answer.\<close>

lemma with_lock_cases:
  assumes u: "wired u cs te cc ld lk"
  obtains (no) e l where "with_lock u r i rest w = sendError r e (w\<lparr>locks := l\<rparr>)"
  | (yes) k l where "with_lock u r i rest w = unlock u k (rest (w\<lparr>locks := l\<rparr>))" "i \<notin> held (locks w)"
proof (cases "NewLock lk i")
  case (Inl e)
  then have "with_lock u r i rest w = sendError r e (w\<lparr>locks := locks w\<rparr>)"
    using u by (simp add: with_lock_def lockUpload_def wired_simps)
  then show thesis by (rule no)
next
  case (Inr k)
  obtain e l where l: "Lock lk k (locks w) = (e, l)" by (metis surj_pair)
  show thesis
  proof (cases e)
    case None
    then show thesis using Inr l u lock_ok [OF Inr, of "locks w" l]
      by (intro yes [of k l]) (simp_all add: with_lock_def lockUpload_def wired_simps)
  next
    case (Some er)
    then show thesis using Inr l u
      by (intro no [of er l]) (simp add: with_lock_def lockUpload_def wired_simps)
  qed
qed

text \<open>Reading the body: the upload grows by bytes of it, unless the server stops it.\<close>

lemma write_body_effect:
  assumes u: "wired u cs te cc ld lk" and inv: "sinv (st w)" and h: "handle (st w) i upload"
    and v: "view (st w) i = Some (info_abs info c)" and n: "0 < n"
    and wb: "write_body u upload info r b n w = ((k, e, upload'), w')"
  shows "sinv (st w') \<and> (\<forall>j. j \<noteq> i \<longrightarrow> view (st w') j = view (st w) j)
    \<and> (stopped r \<longrightarrow> e = Some ErrUploadStoppedByServer)
    \<and> (\<exists>d t. take (nat n) (body_data b) = d @ t \<and> k = int (length d) \<and> (e = None \<longrightarrow> t = [])
        \<and> (view (st w') i = Some (info_abs info (c @ d)) \<or> stopped r \<and> view (st w') i = None))"
proof -
  obtain m er rd up s where wc: "WriteChunk cs upload (Offset info) (newBodyReader b n) (st w) = ((m, er), rd, up, s)"
    by (metis surj_pair)
  from write_chunk [OF inv h v wc] obtain d t where
    s: "sinv s" "handle s i up" "view s = (view (st w))(i \<mapsto> (info_abs info c)\<lparr>u_data := c @ d\<rparr>)"
    and d: "take (nat n) (body_data b) = d @ t" "m = int (length d)" "er = None \<longrightarrow> t = []"
    by auto
  have a: "(info_abs info c)\<lparr>u_data := c @ d\<rparr> = info_abs info (c @ d)" by (simp add: info_abs_def)
  define w1 where "w1 = (if NotifyUploadProgress (config u)
     then w\<lparr>st := s, UploadProgress := UploadProgress w
       @ sendProgressMessages (newHookEvent info r) (ticks r @ [bytesRead rd])\<rparr>
     else w\<lparr>st := s\<rparr>)"
  have w1: "st w1 = s" by (simp add: w1_def)
  have "write_body u upload info r b n w = ((m, if stopped r then Some ErrUploadStoppedByServer
      else if er = None then hasError rd else er, up), if stopped r then snd (terminateUpload u up info r w1) else w1)"
    using wc u by (simp add: write_body_def wired_simps Let_def w1_def)
  then have w': "w' = (if stopped r then snd (terminateUpload u up info r w1) else w1)" and k: "k = m"
    and e: "e = (if stopped r then Some ErrUploadStoppedByServer else if er = None then hasError rd else er)"
    using wb by simp_all
  show ?thesis
  proof (cases "stopped r")
    case False
    then have "st w' = s" "e = None \<longrightarrow> er = None" using w1 w' e by (auto split: if_splits)
    then show ?thesis using False s d k a by auto
  next
    case True
    obtain et s' where t: "te up s = (et, s')" by (metis surj_pair)
    have "st w' = s'" using True w1 w' t u by (auto simp: terminateUpload_def wired_simps Let_def split: option.splits)
    moreover have "sinv s' \<and> (view s' = view s \<or> view s' = (view s)(i := None))"
      using terminate [OF s(1,2) t] by (auto split: if_splits)
    ultimately show ?thesis using True e s(3) d k a by auto
  qed
qed

lemma writeChunk_effect:
  assumes u: "wired u cs te cc ld lk" and inv: "sinv (st w)" and h: "handle (st w) i upload"
    and v: "view (st w) i = Some (info_abs info c)" and off: "Offset info = int (length c)"
    and wc: "writeChunk u upload info r w = (e, w')"
  shows "sinv (st w') \<and> (\<forall>j. j \<noteq> i \<longrightarrow> view (st w') j = view (st w) j)
    \<and> (\<exists>d. chunk_ok (config u) info r d
        \<and> (view (st w') i = Some (info_abs info (c @ d)) \<or> e \<noteq> None \<and> view (st w') i = None)
        \<and> (e = None \<longrightarrow> hget (r_header (resp w')) ''Upload-Offset'' = FormatInt (int (length (c @ d))))
        \<and> (e = None \<longrightarrow> d = body_part r (chunk_limit (config u) info (ContentLength r))))"
proof (cases "\<not> SizeIsDeferred info \<and> i64 (Offset info + ContentLength r) > Size info")
  case True
  then have "e \<noteq> None" "w' = w" using wc by (auto simp: writeChunk_def)
  then show ?thesis using inv v by (auto intro!: exI [of _ "[]"])
next
  case False
  let ?n = "chunk_limit (config u) info (ContentLength r)"
  obtain k e1 up w1 where m: "(case Body r of None \<Rightarrow> ((0, None, upload), w)
      | Some b \<Rightarrow> if ?n > 0 then write_body u upload info r b ?n w else ((0, None, upload), w)) = ((k, e1, up), w1)"
    by (metis surj_pair)
  have mid: "sinv (st w1) \<and> (\<forall>j. j \<noteq> i \<longrightarrow> view (st w1) j = view (st w) j)
    \<and> (\<exists>d. k = int (length d) \<and> from_body r ?n d
        \<and> (view (st w1) i = Some (info_abs info (c @ d)) \<or> e1 \<noteq> None \<and> view (st w1) i = None)
        \<and> (e1 = None \<longrightarrow> d = body_part r ?n))"
  proof (cases "Body r = None \<or> ?n \<le> 0")
    case True
    then have "k = 0" "e1 = None" "w1 = w" using m by (auto split: option.splits)
    then show ?thesis using inv v True by (auto intro!: exI [of _ "[]"] simp: from_body_def body_part_def split: option.splits)
  next
    case False
    then obtain b where b: "Body r = Some b" "0 < ?n" by auto
    with m have wb: "write_body u upload info r b ?n w = ((k, e1, up), w1)" by simp
    have "from_body r ?n d" if "take (nat ?n) (body_data b) = d @ t" for d t
      using that b(1) by (auto simp: from_body_def)
    moreover have "d = body_part r ?n" if "take (nat ?n) (body_data b) = d @ []" for d
      using that b(1) by (simp add: body_part_def)
    ultimately show ?thesis using write_body_effect [OF u inv h v b(2) wb] by (metis option.distinct(1))
  qed
  show ?thesis
  proof (cases e1)
    case (Some er)
    then have "w' = w1" "e = Some er" using wc False m by (auto simp: writeChunk_def Let_def)
    then show ?thesis using mid Some False by (auto simp: chunk_ok_def)
  next
    case None
    let ?off = "i64 (Offset info + k)"
    let ?w2 = "(set_header ''Upload-Offset'' (FormatInt ?off) w1)\<lparr>metrics := incBytesReceived k (metrics w1)\<rparr>"
    have fin: "finishUploadIfComplete u up (info\<lparr>Offset := ?off\<rparr>) r ?w2 = (e, w')"
      using wc False m None by (simp add: writeChunk_def Let_def)
    note ff = finish_frame [OF fin]
    obtain d where d: "k = int (length d)" "view (st w1) i = Some (info_abs info (c @ d))" "from_body r ?n d"
      "d = body_part r ?n" using mid None by auto
    have "int (length (c @ d)) \<le> MaxInt64" using view_len [of "st w1" i] mid d(2) by fastforce
    then have o: "?off = int (length (c @ d))" using off d(1) by (simp add: in_i64_nonneg)
    have "sinv (st w') \<and> view (st w') = view (st w1)"
    proof -
      from ff consider "st w' = st w1" | e' where "FinishUpload cs up (st w1) = (e', st w')"
        using u by (auto simp: wired_simps)
      then show ?thesis using mid finish_upload by cases auto
    qed
    then show ?thesis using mid d o ff None False by (auto simp: hget_hset chunk_ok_def)
  qed
qed

lemma declare_effect:
  assumes u: "wired u cs te cc ld lk" and inv: "sinv (st w)" and h: "handle (st w) i upload"
    and v: "view (st w) i = Some (info_abs info c)" and off: "Offset info = int (length c)"
    and d: "declare_length u r upload info w = (x, w')"
  shows "sinv (st w') \<and> (\<forall>j. j \<noteq> i \<longrightarrow> view (st w') j = view (st w) j) \<and>
    (case x of Inl e \<Rightarrow> view (st w') = view (st w) \<or> view (st w') = (view (st w))(i := None)
     | Inr (up, info') \<Rightarrow> handle (st w') i up \<and> view (st w') i = Some (info_abs info' c) \<and> resp w' = resp w
         \<and> Offset info' = Offset info \<and> IsPartial info' = IsPartial info \<and> IsFinal info' = IsFinal info
         \<and> length_declared r (u_size (info_abs info c)) (u_size (info_abs info' c)) (Offset info))"
proof (cases "hget (Header r) ''Upload-Length'' = []")
  case True
  then show ?thesis using d inv h v by (auto simp: declare_length_def length_declared_def)
next
  case ne: False
  show ?thesis
  proof (cases "declared_length u r info")
    case (Inl e)
    then show ?thesis using d ne inv by (auto simp: declare_length_def)
  next
    case (Inr n)
    then have n: "SizeIsDeferred info" "ParseInt (hget (Header r) ''Upload-Length'') = Some n" "Offset info \<le> n"
      by (auto simp: declared_length_def split: if_splits option.splits)
    obtain e up s where l: "ld upload n (st w) = (e, up, s)" by (metis surj_pair)
    note eff = declare_length [OF inv h v l]
    show ?thesis
    proof (cases e)
      case (Some er)
      then show ?thesis using d ne Inr l u eff by (auto simp: declare_length_def wired_simps)
    next
      case None
      let ?info = "info\<lparr>Size := n, SizeIsDeferred := False\<rparr>"
      have x: "x = Inr (up, ?info)" "w' = w\<lparr>st := s\<rparr>"
        using d ne Inr l u None by (auto simp: declare_length_def wired_simps)
      have "(info_abs info c)\<lparr>u_size := Some n\<rparr> = info_abs ?info c" by (simp add: info_abs_def)
      then show ?thesis using x eff None n by (auto simp: length_declared_def)
    qed
  qed
qed

text \<open>
  What a PATCH that is let in does: the upload grows at its end, at the offset the request
  names, by bytes of the body, and the answer tells the new offset.
\<close>

lemma patch_locked_effect:
  assumes u: "wired u cs te cc ld lk" and inv: "sinv (st w)" and i: "CHR ''/'' \<notin> set i"
  shows "sinv (st (patch_locked u r offset i w))
    \<and> (\<forall>j. j \<noteq> i \<longrightarrow> view (st (patch_locked u r offset i w)) j = view (st w) j)
    \<and> (answered 204 (patch_locked u r offset i w) \<longrightarrow>
        (\<exists>a d s'. view (st w) i = Some a \<and> \<not> u_final a \<and> offset = int (length (u_data a))
          \<and> view (st (patch_locked u r offset i w)) i = Some (a\<lparr>u_size := s', u_data := u_data a @ d\<rparr>)
          \<and> (d = [] \<or> (\<exists>b t. Body r = Some b \<and> body_data b = d @ t))
          \<and> length_declared r (u_size a) s' offset
          \<and> hget (r_header (resp (patch_locked u r offset i w))) ''Upload-Offset''
              = FormatInt (int (length (u_data a @ d)))))"
proof (cases "open_upload u i (st w)")
  case (Inl e)
  then have "patch_locked u r offset i w = sendError r e w" by (simp add: patch_locked_def or_error_def)
  then show ?thesis using inv by simp
next
  case (Inr y)
  obtain upload info where y: "y = (upload, info)" by (metis surj_pair)
  have "GetUpload cs i (st w) = Inr upload" "GetInfo cs upload (st w) = Inr info"
    using Inr y u by (auto simp: open_upload_def wired_simps split: sum.splits)
  then obtain c where h: "handle (st w) i upload" and v: "view (st w) i = Some (info_abs info c)"
    and off: "Offset info = int (length c)" using read_info [OF inv i] by metis
  let ?w' = "patch_locked u r offset i w"
  have p: "?w' = (if IsFinal info then sendError r ErrModifyFinal w
       else if offset \<noteq> Offset info then sendError r ErrMismatchOffset w
       else if \<not> SizeIsDeferred info \<and> Offset info = Size info
       then sendResp r 204 (set_header ''Upload-Offset'' (FormatInt offset) w)
       else patch_chunk u r upload info w)"
    using Inr y by (simp add: patch_locked_def or_error_def)
  consider (bad) "IsFinal info \<or> offset \<noteq> Offset info"
    | (full) "\<not> IsFinal info" "offset = Offset info" "\<not> SizeIsDeferred info" "Offset info = Size info"
    | (chunk) "\<not> IsFinal info" "offset = Offset info" "\<not> (\<not> SizeIsDeferred info \<and> Offset info = Size info)"
    by blast
  then show ?thesis
  proof cases
    case bad
    then have "\<exists>e. ?w' = sendError r e w" unfolding p by auto
    then show ?thesis using inv by auto
  next
    case full
    have "view (st ?w') i = Some ((info_abs info c)\<lparr>u_size := u_size (info_abs info c), u_data := u_data (info_abs info c) @ []\<rparr>)"
      "hget (r_header (resp ?w')) ''Upload-Offset'' = FormatInt (int (length (u_data (info_abs info c) @ [])))"
      "length_declared r (u_size (info_abs info c)) (u_size (info_abs info c)) offset"
      "view (st w) i = Some (info_abs info c)" "\<not> u_final (info_abs info c)"
      "offset = int (length (u_data (info_abs info c)))"
      using full p v off by (simp_all add: hget_hset length_declared_def)
    moreover have "st ?w' = st w" using full p by simp
    ultimately show ?thesis using inv by metis
  next
    case chunk
    then have p': "?w' = patch_chunk u r upload info w" unfolding p by auto
    show ?thesis
    proof (cases rule: patch_chunk_cases [of u r upload info w])
      case (nolen e w1)
      then show ?thesis using declare_effect [OF u inv h v off nolen(1)] nolen(2) p' by simp
    next
      case (fail up info' w1 e w2)
      from declare_effect [OF u inv h v off fail(1)] have d: "sinv (st w1)" "handle (st w1) i up"
        "view (st w1) i = Some (info_abs info' c)" "Offset info' = int (length c)"
        "\<forall>j. j \<noteq> i \<longrightarrow> view (st w1) j = view (st w) j" using off by auto
      from writeChunk_effect [OF u d(1-4) fail(2)] d(5) fail(3) p' show ?thesis by simp
    next
      case (ok up info' w1 w2)
      from declare_effect [OF u inv h v off ok(1)] have d: "sinv (st w1)" "handle (st w1) i up"
        "view (st w1) i = Some (info_abs info' c)" "Offset info' = int (length c)"
        "\<forall>j. j \<noteq> i \<longrightarrow> view (st w1) j = view (st w) j"
        "IsPartial info' = IsPartial info" "IsFinal info' = IsFinal info"
        "length_declared r (u_size (info_abs info c)) (u_size (info_abs info' c)) (Offset info)"
        using off by auto
      from writeChunk_effect [OF u d(1-4) ok(2)] obtain x where x: "sinv (st w2)"
        "\<forall>j. j \<noteq> i \<longrightarrow> view (st w2) j = view (st w1) j" "view (st w2) i = Some (info_abs info' (c @ x))"
        "chunk_ok (config u) info' r x"
        "hget (r_header (resp w2)) ''Upload-Offset'' = FormatInt (int (length (c @ x)))" by auto
      have "info_abs info' (c @ x) = (info_abs info c)\<lparr>u_size := u_size (info_abs info' c), u_data := u_data (info_abs info c) @ x\<rparr>"
        using d(6,7) by (simp add: info_abs_def)
      moreover note from_body_prefix [of r _ x, OF conjunct1 [OF x(4) [unfolded chunk_ok_def]]]
      ultimately show ?thesis using chunk x d(5,8) v off p' ok(3)
        by (intro conjI impI exI [of _ "info_abs info c"] exI [of _ x] exI [of _ "u_size (info_abs info' c)"]) auto
    qed
  qed
qed

lemma open_upload_info:
  assumes u: "wired u cs te cc ld lk" and inv: "sinv s" and i: "CHR ''/'' \<notin> set i"
    and o: "open_upload u i s = Inr (upload, info)"
  obtains c where "handle s i upload" "view s i = Some (info_abs info c)" "Offset info = int (length c)"
proof -
  have "GetUpload cs i s = Inr upload" "GetInfo cs upload s = Inr info"
    using o u by (auto simp: open_upload_def wired_simps split: sum.splits)
  then show thesis using read_info [OF inv i] that by metis
qed

lemma writeChunk_fits:
  assumes u: "wired u cs te cc ld lk" and inv: "sinv (st w)" and h: "handle (st w) i upload"
    and v: "view (st w) i = Some (info_abs info c)" and off: "Offset info = int (length c)"
    and wc: "writeChunk u upload info r w = (e, w')"
    and f: "fits (info_abs info c)" and nf: "\<not> IsFinal info"
    and len: "Offset info + ContentLength r \<le> MaxInt64" "- 1 \<le> ContentLength r"
    and a: "view (st w') i = Some a"
  shows "fits a"
proof -
  from writeChunk_effect [OF u inv h v off wc] a obtain d where "chunk_ok (config u) info r d" "a = info_abs info (c @ d)"
    by auto
  then show ?thesis using chunk_ok_fits off f nf len by blast
qed

lemma patch_locked_fits:
  assumes u: "wired u cs te cc ld lk" and inv: "sinv (st w)" and i: "CHR ''/'' \<notin> set i"
    and f: "\<And>a. view (st w) i = Some a \<Longrightarrow> fits a"
    and len: "offset + ContentLength r \<le> MaxInt64" "- 1 \<le> ContentLength r"
    and a: "view (st (patch_locked u r offset i w)) i = Some a"
  shows "fits a"
proof (cases "open_upload u i (st w)")
  case (Inl e)
  then have "patch_locked u r offset i w = sendError r e w" by (simp add: patch_locked_def or_error_def)
  then show ?thesis using f a by simp
next
  case (Inr y)
  obtain upload info where y: "y = (upload, info)" by (metis surj_pair)
  obtain c where h: "handle (st w) i upload" and v: "view (st w) i = Some (info_abs info c)"
    and off: "Offset info = int (length c)" using open_upload_info [OF u inv i] Inr y by metis
  have p: "patch_locked u r offset i w = (if IsFinal info then sendError r ErrModifyFinal w
       else if offset \<noteq> Offset info then sendError r ErrMismatchOffset w
       else if \<not> SizeIsDeferred info \<and> Offset info = Size info
       then sendResp r 204 (set_header ''Upload-Offset'' (FormatInt offset) w)
       else patch_chunk u r upload info w)"
    using Inr y by (simp add: patch_locked_def or_error_def)
  show ?thesis
  proof (cases "IsFinal info \<or> offset \<noteq> Offset info \<or> (\<not> SizeIsDeferred info \<and> Offset info = Size info)")
    case True
    then have "st (patch_locked u r offset i w) = st w" unfolding p by auto
    then show ?thesis using f a by simp
  next
    case False
    then have p': "patch_locked u r offset i w = patch_chunk u r upload info w" unfolding p by auto
    have chunk: "fits a" if d: "declare_length u r upload info w = (Inr (up, info'), w1)"
      and wc: "writeChunk u up info' r w1 = (e, w2)" and "view (st w2) i = Some a" for up info' w1 e w2
    proof -
      from declare_effect [OF u inv h v off d] have d': "sinv (st w1)" "handle (st w1) i up"
        "view (st w1) i = Some (info_abs info' c)" "Offset info' = int (length c)"
        "IsFinal info' = IsFinal info" "Offset info' = Offset info"
        "length_declared r (u_size (info_abs info c)) (u_size (info_abs info' c)) (Offset info)" using off by auto
      have "fits (info_abs info' c)"
        using length_declared_fits [OF d'(7) _ f [OF v]] d'(5) off by simp
      then show ?thesis
        using writeChunk_fits [OF u d'(1-4) wc _ _ _ len(2) that(3)] d'(5,6) False len by auto
    qed
    show ?thesis
    proof (cases rule: patch_chunk_cases [of u r upload info w])
      case (nolen e w1)
      from declare_effect [OF u inv h v off nolen(1)] a p' nolen(2) have "view (st w) i = Some a"
        by (auto split: if_splits)
      then show ?thesis by (rule f)
    next
      case (fail up info' w1 e w2)
      with chunk [OF fail(1,2)] a p' show ?thesis by simp
    next
      case (ok up info' w1 w2)
      with chunk [OF ok(1,2)] a p' show ?thesis by simp
    qed
  qed
qed

lemma sizeOfUploads_handles:
  assumes u: "wired u cs te cc ld lk" and inv: "sinv s"
  shows "sizeOfUploads u ids s = Inr (us, n) \<Longrightarrow> \<forall>i \<in> set ids. CHR ''/'' \<notin> set i \<Longrightarrow>
    list_all2 (handle s) ids us \<and> (\<forall>j \<in> set ids. \<exists>a. view s j = Some a \<and> u_size a = Some (int (length (u_data a))))"
proof (induction ids arbitrary: us n)
  case Nil
  then show ?case by simp
next
  case (Cons i ids)
  obtain up info where g: "GetUpload cs i s = Inr up" "GetInfo cs up s = Inr info"
    "\<not> SizeIsDeferred info" "Offset info = Size info"
    using Cons.prems(1) u by (auto simp: wired_simps split: sum.splits if_splits)
  then obtain us' n' where r: "sizeOfUploads u ids s = Inr (us', n')" "us = up # us'"
    using Cons.prems(1) u by (auto simp: wired_simps split: sum.splits)
  have "CHR ''/'' \<notin> set i" using Cons.prems(2) by simp
  from read_info [OF inv this g(1,2)] obtain c where
    c: "handle s i up" "view s i = Some (info_abs info c)" "Offset info = int (length c)" by metis
  then have "\<exists>a. view s i = Some a \<and> u_size a = Some (int (length (u_data a)))" using g(3,4) by simp
  then show ?case using Cons.IH [OF r(1)] Cons.prems(2) r(2) c(1) by simp
qed

lemma post_rest_effect:
  assumes u: "wired u cs te cc ld lk" and inv: "sinv (st w)" and v: "view (st w) i = Some (info_abs info c)"
    and h: "ch \<longrightarrow> handle (st w) i upload \<and> Offset info = int (length c)"
  shows "sinv (st (post_rest u upload info ch d n r w))
    \<and> (\<forall>j. j \<noteq> i \<longrightarrow> view (st (post_rest u upload info ch d n r w)) j = view (st w) j)
    \<and> (\<exists>x. (view (st (post_rest u upload info ch d n r w)) i = Some (info_abs info (c @ x))
          \<or> \<not> answered 201 (post_rest u upload info ch d n r w) \<and> view (st (post_rest u upload info ch d n r w)) i = None)
        \<and> (\<not> ch \<longrightarrow> x = []) \<and> chunk_ok (config u) info r x)
    \<and> (answered 201 (post_rest u upload info ch d n r w) \<longrightarrow>
        hget (r_header (resp (post_rest u upload info ch d n r w))) ''Location'' = hget (r_header (resp w)) ''Location'')"
proof (cases ch)
  case True
  let ?rest = "\<lambda>w. case writeChunk u upload info r w of (Some e, w) \<Rightarrow> sendError r e w | (None, w) \<Rightarrow> sendResp r 201 w"
  have p: "post_rest u upload info ch d n r w = with_lock u r (ID info) ?rest w" using True by (simp add: post_rest_def)
  show ?thesis
  proof (rule with_lock_cases [OF u, of r "ID info" ?rest w])
    fix e l assume "with_lock u r (ID info) ?rest w = sendError r e (w\<lparr>locks := l\<rparr>)"
    then show ?thesis unfolding p using inv v by (auto intro!: exI [of _ "[]"])
  next
    fix k l assume yes: "with_lock u r (ID info) ?rest w = unlock u k (?rest (w\<lparr>locks := l\<rparr>))"
    obtain e w2 where wc: "writeChunk u upload info r (w\<lparr>locks := l\<rparr>) = (e, w2)" by (metis surj_pair)
    have pre: "sinv (st (w\<lparr>locks := l\<rparr>))" "handle (st (w\<lparr>locks := l\<rparr>)) i upload"
      "view (st (w\<lparr>locks := l\<rparr>)) i = Some (info_abs info c)" "Offset info = int (length c)"
      using inv v h True by auto
    note eff = writeChunk_effect [OF u pre wc] and hd = writeChunk_header [OF wc, of "''Location''"]
    show ?thesis unfolding p yes using eff hd wc True
      by (cases e) auto
  qed
next
  case False
  show ?thesis
  proof (cases "\<not> d \<and> n = 0")
    case True
    obtain e w2 where f: "finishUploadIfComplete u upload info r w = (e, w2)" by (metis surj_pair)
    from finish_frame [OF f] have ff: "r_header (resp w2) = r_header (resp w)" "sinv (st w2) \<and> view (st w2) = view (st w)"
      using u inv finish_upload by (auto simp: wired_simps)
    have p: "post_rest u upload info ch d n r w = (case e of Some e \<Rightarrow> sendError r e w2 | None \<Rightarrow> sendResp r 201 w2)"
      using False True f by (simp add: post_rest_def)
    show ?thesis using p ff v False by (cases e) (auto intro!: exI [of _ "[]"])
  next
    case no: False
    then have "post_rest u upload info ch d n r w = sendResp r 201 w" using False by (auto simp: post_rest_def)
    then show ?thesis using inv v False by (auto intro!: exI [of _ "[]"])
  qed
qed

lemma post_concat_effect:
  assumes u: "wired u cs te cc ld lk" and inv: "sinv (st w)" and h: "handle (st w) i upload"
    and v: "view (st w) i = Some (info_abs info0 [])" and us: "list_all2 (handle (st w)) is us" "i \<notin> set is"
    and pc: "post_concat u upload us n info r w = (x, w')"
  shows "sinv (st w') \<and> r_header (resp w') = r_header (resp w) \<and> (\<forall>info'. x = Inr info' \<longrightarrow> info' = info\<lparr>Offset := n\<rparr>)
    \<and> (\<exists>d t. concat (map (\<lambda>j. u_data (the (view (st w) j))) is) = d @ t \<and> (is_ok x \<longrightarrow> t = [])
        \<and> view (st w') = (view (st w))(i \<mapsto> info_abs info0 d))"
proof -
  obtain e s where c: "cc upload us (st w) = (e, s)" by (metis surj_pair)
  have "is_ok x \<longleftrightarrow> e = None" "st w' = s" "r_header (resp w') = r_header (resp w)"
    "\<forall>info'. x = Inr info' \<longrightarrow> info' = info\<lparr>Offset := n\<rparr>"
    using pc c u by (auto simp: post_concat_def wired_simps Let_def split: option.splits if_splits)
  then show ?thesis using concat_uploads [OF inv h v us c] by auto
qed

lemma post_create_effect:
  assumes u: "wired u cs te cc ld lk" and inv: "sinv (st w)" and fr: "fresh (st w)" and z: "Offset info0 = 0"
    and fin: "IsFinal info0 \<longrightarrow> \<not> ch \<and> list_all2 (handle (st w)) is us"
    and w': "w' = post_create u info0 us ch r w"
  shows "sinv (st w') \<and> (view (st w') = view (st w) \<and> \<not> answered 201 w' \<or>
     (\<exists>i. view (st w) i = None \<and> (\<forall>j. j \<noteq> i \<longrightarrow> view (st w') j = view (st w) j)
      \<and> (view (st w') i = None \<and> \<not> answered 201 w'
         \<or> (\<exists>c. view (st w') i = Some (info_abs info0 c)
            \<and> (answered 201 w' \<longrightarrow> hget (r_header (resp w')) ''Location'' = absFileURL u r i
                \<and> (IsFinal info0 \<longrightarrow> c = concat (map (\<lambda>j. u_data (the (view (st w) j))) is)))
            \<and> (\<not> IsFinal info0 \<longrightarrow> (if ch then chunk_ok (config u) info0 r c else c = []))))))"
proof -
  obtain x s where nu: "NewUpload cs info0 (st w) = (x, s)" by (metis surj_pair)
  have core: "core u = cs" using u by (simp add: wired_simps)
  show ?thesis
  proof (cases x)
    case (Inl e)
    then have "w' = sendError r e (w\<lparr>st := s\<rparr>)" using w' nu core by (simp add: post_create_def)
    then show ?thesis using new_upload_err [OF inv fr z] nu Inl by simp
  next
    case up: (Inr upload)
    obtain i where i: "sinv s" "view (st w) i = None" "handle s i upload"
      "view s = (view (st w))(i \<mapsto> info_abs info0 [])"
      "\<forall>info'. GetInfo cs upload s = Inr info' \<longrightarrow> ID info' = i"
      using new_upload [OF inv fr z] nu up by blast
    let ?w1 = "w\<lparr>st := s\<rparr>"
    show ?thesis
    proof (cases "GetInfo cs upload s")
      case (Inl e)
      then have "w' = sendError r e ?w1" using w' nu core up by (simp add: post_create_def or_error_def Let_def)
      then show ?thesis using i by (intro conjI disjI2 exI [of _ i] exI [of _ "[]"]) auto
    next
      case (Inr info)
      obtain c where "view s i = Some (info_abs info c)" "Offset info = int (length c)"
        using handle_view [OF i(3) Inr] by blast
      then have info: "info_abs info [] = info_abs info0 []" "Offset info = 0" using i(4) by (auto simp: info_abs_eq)
      then have abs: "info_abs info d = info_abs info0 d" for d by (simp add: info_abs_eq)
      have lim: "chunk_ok (config u) info r d = chunk_ok (config u) info0 r d" for d
        using chunk_ok_cong [OF info(1)] info(2) z by simp
      define w2 where "w2 = (let w = set_header ''Location'' (absFileURL u r (ID info)) ?w1;
           w = w\<lparr>metrics := incUploadsCreated (metrics w)\<rparr>
        in if NotifyCreatedUploads (config u) then w\<lparr>CreatedUploads := CreatedUploads w @ [newHookEvent info r]\<rparr> else w)"
      have w2: "st w2 = s" "hget (r_header (resp w2)) ''Location'' = absFileURL u r i"
        using i(5) Inr by (simp_all add: w2_def Let_def hget_hset)
      let ?n = "Size info0" and ?d = "SizeIsDeferred info0"
      show ?thesis
      proof (cases "IsFinal info0")
        case False
        then have p: "w' = post_rest u upload info ch ?d ?n r w2"
          using w' nu core up Inr by (simp add: post_create_def or_error_def w2_def Let_def)
        have "sinv (st w2)" "view (st w2) i = Some (info_abs info [])" "ch \<longrightarrow> handle (st w2) i upload \<and> Offset info = int (length [])"
          using w2 i info by simp_all
        from post_rest_effect [OF u this, of ?d ?n r] p show ?thesis
          using False w2 i abs lim
          by - (rule conjI, simp, rule disjI2, rule exI [of _ i], auto split: if_splits)
      next
        case True
        obtain y w3 where pc: "post_concat u upload us ?n info r w2 = (y, w3)" by (metis surj_pair)
        have p: "w' = (case y of Inl e \<Rightarrow> sendError r e w3 | Inr info \<Rightarrow> post_rest u upload info ch ?d ?n r w3)"
          using w' nu core up Inr True pc by (simp add: post_create_def or_error_def w2_def Let_def)
        have hs: "list_all2 (handle (st w)) is us" and ch: "\<not> ch" using fin True by auto
        have ni: "i \<notin> set is"
        proof
          assume "i \<in> set is"
          then obtain up' where "handle (st w) i up'" using hs by (metis in_set_conv_nth list_all2_conv_all_nth)
          then show False using handle_some i(2) by blast
        qed
        have "list_all2 (handle (st w2)) is us"
          using hs ni i(4) w2(1) handle_cong by (auto simp: list_all2_conv_all_nth) (metis fun_upd_other nth_mem)
        moreover have "sinv (st w2)" "handle (st w2) i upload" "view (st w2) i = Some (info_abs info0 [])"
          using w2 i by simp_all
        moreover have "concat (map (\<lambda>j. u_data (the (view (st w2) j))) is) = concat (map (\<lambda>j. u_data (the (view (st w) j))) is)"
          using ni w2(1) i(4) by (intro arg_cong [where f = concat] map_cong) auto
        ultimately obtain d t where cat: "sinv (st w3)" "r_header (resp w3) = r_header (resp w2)"
          "\<forall>info'. y = Inr info' \<longrightarrow> info' = info\<lparr>Offset := ?n\<rparr>"
          "concat (map (\<lambda>j. u_data (the (view (st w) j))) is) = d @ t" "is_ok y \<longrightarrow> t = []"
          "view (st w3) = (view (st w2))(i \<mapsto> info_abs info0 d)"
          using post_concat_effect [OF u _ _ _ _ ni pc] by metis
        show ?thesis
        proof (cases y)
          case (Inl e)
          then have "w' = sendError r e w3" using p by simp
          then show ?thesis using cat i w2 True
            by - (rule conjI, simp, rule disjI2, rule exI [of _ i], auto)
        next
          case ok: (Inr info')
          then have p': "w' = post_rest u upload info' ch ?d ?n r w3" using p by simp
          have "info_abs info' d = info_abs info0 d" for d using cat(3) ok abs by (auto simp: info_abs_eq)
          then have "sinv (st w3)" "view (st w3) i = Some (info_abs info' d)"
            "ch \<longrightarrow> handle (st w3) i upload \<and> Offset info' = int (length d)"
            "\<And>d. info_abs info' d = info_abs info0 d"
            using cat ch by simp_all
          from post_rest_effect [OF u this(1-3), of ?d ?n r] this(4) p' show ?thesis
            using True ch w2 i cat ok by - (rule conjI, simp, rule disjI2, rule exI [of _ i], auto)
        qed
      qed
    qed
  qed
qed

text \<open>POST as a whole: it never touches an upload that was there before.\<close>

lemma PostFile_effect:
  assumes u: "wired u cs te cc ld lk" and inv: "sinv (st w)" and fr: "fresh (st w)"
  shows "sinv (st (PostFile u r w))
    \<and> (\<forall>j. view (st w) j \<noteq> None \<longrightarrow> view (st (PostFile u r w)) j = view (st w) j)
    \<and> (\<forall>j a. view (st w) j = None \<longrightarrow> view (st (PostFile u r w)) j = Some a \<longrightarrow> - 1 \<le> ContentLength r \<longrightarrow>
         ContentLength r \<le> MaxInt64 \<longrightarrow> fits a)
    \<and> (answered 201 (PostFile u r w) \<longrightarrow> (\<exists>i a pfi. view (st w) i = None
        \<and> view (st (PostFile u r w)) = (view (st w))(i \<mapsto> a)
        \<and> parseConcat (concat_header u r) = Inr pfi \<and> created_as (view (st w)) r pfi a
        \<and> (\<forall>n. u_size a = Some n \<longrightarrow> 0 < MaxSize (config u) \<longrightarrow> n \<le> MaxSize (config u))
        \<and> hget (r_header (resp (PostFile u r w))) ''Location'' = absFileURL u r i))"
proof (cases rule: PostFile_cases [of u r w])
  case (no e)
  then show ?thesis using inv by simp
next
  case (create isPartial isFinal ids us n deferred)
  let ?info = "post_info r isPartial isFinal ids n deferred"
  have fin: "IsFinal ?info \<longrightarrow> \<not> has_chunk r \<and> list_all2 (handle (st w)) ids us"
    and parts: "isFinal \<longrightarrow> (\<forall>j \<in> set ids. \<exists>b. view (st w) j = Some b \<and> u_size b = Some (int (length (u_data b))))"
    and le: "n \<le> MaxInt64" "\<not> isFinal \<longrightarrow> 0 \<le> n"
    using create(2) post_size_le [OF create(2)] sizeOfUploads_handles [OF u inv, of ids us n] parseConcat_ids [OF create(1)]
    by (auto simp: post_info_def post_size_def split: if_splits sum.splits)
  have z: "Offset ?info = 0" by (simp add: post_info_def)
  note eff = post_create_effect [OF u inv fr z fin create(4)]
  have fit: "fits (info_abs ?info c)" if "- 1 \<le> ContentLength r" "ContentLength r \<le> MaxInt64"
    "\<not> isFinal \<longrightarrow> (if has_chunk r then chunk_ok (config u) ?info r c else c = [])" for c
  proof (cases isFinal)
    case True
    then show ?thesis using le by (simp add: fits_def post_info_def)
  next
    case False
    then have "fits (info_abs ?info [])" using le by (simp add: fits_def post_info_def)
    then show ?thesis using chunk_ok_fits [of "config u" ?info r c "[]"] that False z
      by (auto simp: post_info_def split: if_splits)
  qed
  have asc: "created_as (view (st w)) r (isPartial, isFinal, ids) (info_abs ?info c)"
    if "isFinal \<longrightarrow> c = concat (map (\<lambda>j. u_data (the (view (st w) j))) ids)"
      "\<not> isFinal \<longrightarrow> (if has_chunk r then chunk_ok (config u) ?info r c else c = [])" for c
    using that parts from_body_prefix [of r _ c]
    by (auto simp: created_as_def post_info_def chunk_ok_def split: if_splits)
  have pi: "IsFinal ?info = isFinal" "u_size (info_abs ?info c) = (if deferred then None else Some n)" for c
    by (simp_all add: post_info_def)
  from eff show ?thesis
  proof (elim conjE disjE exE, goal_cases)
    case 1
    then show ?case by simp
  next
    case (2 i)
    then have "view (st (PostFile u r w)) = view (st w)" by (intro ext) metis
    then show ?case using 2 by simp
  next
    case (3 i c)
    then have upd: "view (st (PostFile u r w)) = (view (st w))(i \<mapsto> info_abs ?info c)" by (auto simp: fun_eq_iff)
    let ?a = "info_abs ?info c"
    have fc: "- 1 \<le> ContentLength r \<longrightarrow> ContentLength r \<le> MaxInt64 \<longrightarrow> fits ?a"
      using fit [of c] 3 pi(1) by auto
    have ans: "answered 201 (PostFile u r w) \<longrightarrow> created_as (view (st w)) r (isPartial, isFinal, ids) ?a
        \<and> hget (r_header (resp (PostFile u r w))) ''Location'' = absFileURL u r i"
      using asc [of c] 3 pi(1) by auto
    have max: "\<forall>m. u_size ?a = Some m \<longrightarrow> 0 < MaxSize (config u) \<longrightarrow> m \<le> MaxSize (config u)"
      using create(3) pi(2) by auto
    show ?case
    proof (intro conjI impI)
      show "sinv (st (PostFile u r w))" by fact
      show "\<forall>j. view (st w) j \<noteq> None \<longrightarrow> view (st (PostFile u r w)) j = view (st w) j"
        using 3(2) upd by auto
      show "\<forall>j a. view (st w) j = None \<longrightarrow> view (st (PostFile u r w)) j = Some a \<longrightarrow> - 1 \<le> ContentLength r \<longrightarrow>
         ContentLength r \<le> MaxInt64 \<longrightarrow> fits a" using upd fc by (auto split: if_splits)
      assume "answered 201 (PostFile u r w)"
      then show "\<exists>i a pfi. view (st w) i = None
        \<and> view (st (PostFile u r w)) = (view (st w))(i \<mapsto> a)
        \<and> parseConcat (concat_header u r) = Inr pfi \<and> created_as (view (st w)) r pfi a
        \<and> (\<forall>n. u_size a = Some n \<longrightarrow> 0 < MaxSize (config u) \<longrightarrow> n \<le> MaxSize (config u))
        \<and> hget (r_header (resp (PostFile u r w))) ''Location'' = absFileURL u r i"
        using 3(2) upd ans max create(1) by blast
    qed
  qed
qed

text \<open>PATCH as a whole.\<close>

lemma PatchFile_run:
  assumes u: "wired u cs te cc ld lk" and w': "w' = PatchFile u r w"
  obtains (no) "st w' = st w" "\<not> answered 204 w'"
  | (run) i offset w1 where "extractIDFromPath (URL_Path r) = Inr i" "CHR ''/'' \<notin> set i" "i \<notin> held (locks w)"
      "ParseInt (hget (Header r) ''Upload-Offset'') = Some offset" "0 \<le> offset" "st w1 = st w"
      "st w' = st (patch_locked u r offset i w1)" "resp w' = resp (patch_locked u r offset i w1)"
proof (cases "\<exists>e. w' = sendError r e w")
  case True
  then show thesis using no by auto
next
  case False
  then obtain offset i where o: "ParseInt (hget (Header r) ''Upload-Offset'') = Some offset" "0 \<le> offset"
    and i: "extractIDFromPath (URL_Path r) = Inr i"
    and p: "w' = with_lock u r i (patch_locked u r offset i) w"
    using w' by (auto simp: PatchFile_def or_error_def split: if_splits option.splits sum.splits)
  have ns: "CHR ''/'' \<notin> set i" using extractID_no_slash [OF i] by simp
  show ?thesis
  proof (rule with_lock_cases [OF u, of r i "patch_locked u r offset i" w])
    fix e l assume "with_lock u r i (patch_locked u r offset i) w = sendError r e (w\<lparr>locks := l\<rparr>)"
    then show thesis using p no by simp
  next
    fix k l assume y: "with_lock u r i (patch_locked u r offset i) w = unlock u k (patch_locked u r offset i (w\<lparr>locks := l\<rparr>))"
      and nh: "i \<notin> held (locks w)"
    show thesis by (rule run [OF i ns nh o, of "w\<lparr>locks := l\<rparr>"]) (simp_all add: p y)
  qed
qed

lemma PatchFile_effect:
  assumes u: "wired u cs te cc ld lk" and inv: "sinv (st w)" and w': "w' = PatchFile u r w" and ok: "answered 204 w'"
  shows "\<exists>i a d s'. extractIDFromPath (URL_Path r) = Inr i \<and> i \<notin> held (locks w)
      \<and> view (st w) i = Some a \<and> \<not> u_final a
      \<and> ParseInt (hget (Header r) ''Upload-Offset'') = Some (int (length (u_data a)))
      \<and> view (st w') = (view (st w))(i \<mapsto> a\<lparr>u_size := s', u_data := u_data a @ d\<rparr>)
      \<and> (d = [] \<or> (\<exists>b t. Body r = Some b \<and> body_data b = d @ t))
      \<and> length_declared r (u_size a) s' (int (length (u_data a)))
      \<and> hget (r_header (resp w')) ''Upload-Offset'' = FormatInt (int (length (u_data a @ d)))"
proof (cases rule: PatchFile_run [OF u w'])
  case 1
  then show ?thesis using ok by simp
next
  case (2 i offset w1)
  have inv1: "sinv (st w1)" using inv 2 by simp
  have "answered 204 (patch_locked u r offset i w1)" using ok 2(8) by (simp add: answered_def)
  with patch_locked_effect [OF u inv1 2(2), of r offset] obtain a d s' where
    e: "\<forall>j. j \<noteq> i \<longrightarrow> view (st w') j = view (st w) j" "view (st w) i = Some a" "\<not> u_final a" "offset = int (length (u_data a))"
    "view (st w') i = Some (a\<lparr>u_size := s', u_data := u_data a @ d\<rparr>)"
    "d = [] \<or> (\<exists>b t. Body r = Some b \<and> body_data b = d @ t)" "length_declared r (u_size a) s' offset"
    "hget (r_header (resp w')) ''Upload-Offset'' = FormatInt (int (length (u_data a @ d)))"
    unfolding 2(6-8) by metis
  have "view (st w') = (view (st w))(i \<mapsto> a\<lparr>u_size := s', u_data := u_data a @ d\<rparr>)"
    using e(1,5) by (auto simp: fun_eq_iff)
  then show ?thesis using e 2 by metis
qed

lemma PatchFile_keeps:
  assumes u: "wired u cs te cc ld lk" and inv: "sinv (st w)" and w': "w' = PatchFile u r w"
    and t: "tame r" and f: "\<forall>i a. view (st w) i = Some a \<longrightarrow> fits a"
  shows "sinv (st w') \<and> (\<forall>i a. view (st w') i = Some a \<longrightarrow> fits a)"
proof (cases rule: PatchFile_run [OF u w'])
  case 1
  then show ?thesis using inv f by simp
next
  case (2 i offset w1)
  have inv1: "sinv (st w1)" using inv 2 by simp
  note eff = patch_locked_effect [OF u inv1 2(2), of r offset]
  have len: "offset + ContentLength r \<le> MaxInt64" "- 1 \<le> ContentLength r" using t 2(4) by (simp_all add: tame_def)
  have "fits a" if "view (st w') j = Some a" for j a
  proof (cases "j = i")
    case True
    then show ?thesis using patch_locked_fits [OF u inv1 2(2) _ len, of a] f that 2(6,7) by simp
  next
    case False
    then show ?thesis using eff f that 2(6,7) by simp
  qed
  then show ?thesis using eff 2(7) by simp
qed

text \<open>DELETE takes the upload away, or leaves the store's uploads as they were or without it.\<close>

lemma DelFile_effect:
  assumes u: "wired u cs te cc ld lk" and inv: "sinv (st w)" and w': "w' = DelFile u r w"
  shows "sinv (st w') \<and> (view (st w') = view (st w) \<and> \<not> answered 204 w'
      \<or> (\<exists>i. extractIDFromPath (URL_Path r) = Inr i \<and> view (st w) i \<noteq> None \<and> i \<notin> held (locks w)
          \<and> view (st w') = (view (st w))(i := None) \<and> (\<exists>up e. te up (st w) = (e, st w'))))"
proof (cases "\<exists>e. w' = sendError r e w")
  case True
  then show ?thesis using inv by auto
next
  case False
  define rest where "rest = (\<lambda>i w. or_error r (GetUpload (core u) i (st w)) w (\<lambda>upload.
          or_error r (del_info u upload (st w)) w (\<lambda>info.
            case terminateUpload u upload info r w of (Some e, w) \<Rightarrow> sendError r e w | (None, w) \<Rightarrow> sendResp r 204 w)))"
  obtain i where i: "extractIDFromPath (URL_Path r) = Inr i" and p: "w' = with_lock u r i (rest i) w"
    using w' False u by (auto simp: DelFile_def or_error_def rest_def wired_simps split: sum.splits)
  have ns: "CHR ''/'' \<notin> set i" using extractID_no_slash [OF i] by simp
  show ?thesis
  proof (rule with_lock_cases [OF u, of r i "rest i" w])
    fix e l assume "with_lock u r i (rest i) w = sendError r e (w\<lparr>locks := l\<rparr>)"
    then show ?thesis using p inv by simp
  next
    fix k l assume y: "with_lock u r i (rest i) w = unlock u k (rest i (w\<lparr>locks := l\<rparr>))"
      and nh: "i \<notin> held (locks w)"
    let ?w1 = "w\<lparr>locks := l\<rparr>"
    show ?thesis
    proof (cases "\<exists>e. rest i ?w1 = sendError r e ?w1")
      case True
      then show ?thesis using p y inv by auto
    next
      case False
      then obtain up info where g: "GetUpload cs i (st w) = Inr up"
        and rest: "rest i ?w1 = (case terminateUpload u up info r ?w1 of (Some e, w) \<Rightarrow> sendError r e w | (None, w) \<Rightarrow> sendResp r 204 w)"
        using u by (auto simp: rest_def or_error_def wired_simps split: sum.splits)
      obtain e s where t: "te up (st w) = (e, s)" by (metis surj_pair)
      have h: "handle (st w) i up" using get_upload [OF inv ns g] .
      have st: "st (rest i ?w1) = s" "answered 204 (rest i ?w1) \<longrightarrow> e = None"
        using rest t u by (auto simp: terminateUpload_def wired_simps Let_def split: option.splits)
      have ex: "\<exists>up e. te up (st w) = (e, st (rest i ?w1))" using t st(1) by blast
      show ?thesis using terminate [OF inv h t] st p y i nh handle_some [OF h] ex by (auto split: if_splits)
    qed
  qed
qed

text \<open>HEAD and GET read.\<close>

lemma read_effect:
  assumes u: "wired u cs te cc ld lk" and i: "extractIDFromPath (URL_Path r) = Inr i"
    and rest: "\<And>w1. st (rest w1) = st w1"
  shows "st (with_lock u r i rest w) = st w"
  by (rule with_lock_cases [OF u, of r i rest w]) (simp_all add: rest)

lemma HeadFile_st:
  assumes u: "wired u cs te cc ld lk"
  shows "st (HeadFile u r w) = st w"
proof (cases "extractIDFromPath (URL_Path r)")
  case (Inl e)
  then show ?thesis by (simp add: HeadFile_def or_error_def)
next
  case (Inr i)
  then show ?thesis
    by (auto simp: HeadFile_def or_error_def head_headers_def Let_def split: sum.splits intro!: read_effect [OF u Inr])
qed

lemma GetFile_st:
  assumes u: "wired u cs te cc ld lk"
  shows "st (GetFile isPrint u r w) = st w"
proof (cases "extractIDFromPath (URL_Path r)")
  case (Inl e)
  then show ?thesis by (simp add: GetFile_def or_error_def)
next
  case (Inr i)
  then show ?thesis
    by (auto simp: GetFile_def or_error_def Let_def split: sum.splits prod.splits intro!: read_effect [OF u Inr])
qed

lemma HeadFile_effect:
  assumes u: "wired u cs te cc ld lk" and inv: "sinv (st w)" and a: "answered 200 (HeadFile u r w)"
  shows "\<exists>i a. extractIDFromPath (URL_Path r) = Inr i \<and> view (st w) i = Some a \<and> i \<notin> held (locks w)
    \<and> hget (r_header (resp (HeadFile u r w))) ''Upload-Offset'' = FormatInt (int (length (u_data a)))
    \<and> (case u_size a of
         Some n \<Rightarrow> hget (r_header (resp (HeadFile u r w))) ''Upload-Length'' = FormatInt n
       | None \<Rightarrow> hget (r_header (resp (HeadFile u r w))) ''Upload-Defer-Length'' = UploadLengthDeferred)"
proof -
  define rest where "rest = (\<lambda>i (w :: ('s, 'l) world). or_error r (open_upload u i (st w)) w (\<lambda>(upload, info).
         sendResp r 200 (head_headers u r info w)))"
  obtain i where i: "extractIDFromPath (URL_Path r) = Inr i" and p: "HeadFile u r w = with_lock u r i (rest i) w"
    using a by (cases "extractIDFromPath (URL_Path r)") (auto simp: HeadFile_def or_error_def rest_def)
  have ns: "CHR ''/'' \<notin> set i" using extractID_no_slash [OF i] by simp
  show ?thesis
  proof (rule with_lock_cases [OF u, of r i "rest i" w])
    fix e l assume "with_lock u r i (rest i) w = sendError r e (w\<lparr>locks := l\<rparr>)"
    then show ?thesis using p a by simp
  next
    fix k l assume y: "with_lock u r i (rest i) w = unlock u k (rest i (w\<lparr>locks := l\<rparr>))" and nh: "i \<notin> held (locks w)"
    then obtain up info where o: "open_upload u i (st w) = Inr (up, info)"
      and rest: "rest i (w\<lparr>locks := l\<rparr>) = sendResp r 200 (head_headers u r info (w\<lparr>locks := l\<rparr>))"
      using a p by (auto simp: rest_def or_error_def split: sum.splits prod.splits)
    obtain c where c: "view (st w) i = Some (info_abs info c)" "Offset info = int (length c)"
      using open_upload_info [OF u inv ns o] by metis
    have "hget (r_header (resp (head_headers u r info w'))) ''Upload-Offset'' = FormatInt (Offset info)"
      "SizeIsDeferred info \<Longrightarrow> hget (r_header (resp (head_headers u r info w'))) ''Upload-Defer-Length'' = UploadLengthDeferred"
      "\<not> SizeIsDeferred info \<Longrightarrow> hget (r_header (resp (head_headers u r info w'))) ''Upload-Length'' = FormatInt (Size info)" for w' :: "('s, 'l) world"
      by (simp_all add: head_headers_def Let_def hget_hset)
    then show ?thesis using p y rest i nh c by auto
  qed
qed

lemma GetFile_effect:
  assumes u: "wired u cs te cc ld lk" and inv: "sinv (st w)"
    and out: "r_out (resp (GetFile isPrint u r w)) = r_out (resp w) @ [WNil, WBytes src]"
  shows "\<exists>i a. extractIDFromPath (URL_Path r) = Inr i \<and> view (st w) i = Some a \<and> i \<notin> held (locks w) \<and> src = u_data a
    \<and> r_status (resp (GetFile isPrint u r w)) = Some 200
    \<and> hget (r_header (resp (GetFile isPrint u r w))) ''Content-Length'' = FormatInt (int (length src))"
proof -
  define rest where "rest = (\<lambda>i (w :: ('s, 'l) world). or_error r (open_upload u i (st w)) w (\<lambda>(upload, info).
         let w = set_header ''Content-Length'' (FormatInt (Offset info)) w;
             (contentType, contentDisposition) = filterContentType isPrint info;
             w = set_header ''Content-Type'' contentType w;
             w = set_header ''Content-Disposition'' contentDisposition w
         in if Offset info = 0 then sendResp r 204 w
            else or_error r (GetReader (core u) upload (st w)) w (\<lambda>src. write_out src (sendResp r 200 w))))"
  have se: "r_out (resp (sendError r e w')) \<noteq> r_out (resp w') @ [WNil, WBytes src]" for e and w' :: "('s, 'l) world"
    by (simp add: sendError_def Let_def)
  obtain i where i: "extractIDFromPath (URL_Path r) = Inr i" and p: "GetFile isPrint u r w = with_lock u r i (rest i) w"
    using out se [of _ w] by (cases "extractIDFromPath (URL_Path r)") (simp_all add: GetFile_def or_error_def rest_def)
  have ns: "CHR ''/'' \<notin> set i" using extractID_no_slash [OF i] by simp
  show ?thesis
  proof (rule with_lock_cases [OF u, of r i "rest i" w])
    fix e l assume "with_lock u r i (rest i) w = sendError r e (w\<lparr>locks := l\<rparr>)"
    then show ?thesis using p out se [of e "w\<lparr>locks := l\<rparr>"] by auto
  next
    fix k l assume y: "with_lock u r i (rest i) w = unlock u k (rest i (w\<lparr>locks := l\<rparr>))" and nh: "i \<notin> held (locks w)"
    let ?w1 = "w\<lparr>locks := l\<rparr>"
    have out1: "r_out (resp (rest i ?w1)) = r_out (resp w) @ [WNil, WBytes src]" using out p y by simp
    obtain up info where o: "open_upload u i (st w) = Inr (up, info)"
      using out1 se [of _ ?w1] by (cases "open_upload u i (st w)") (auto simp: rest_def or_error_def)
    obtain c where c: "handle (st w) i up" "view (st w) i = Some (info_abs info c)" "Offset info = int (length c)"
      using open_upload_info [OF u inv ns o] by metis
    let ?w2 = "set_header ''Content-Disposition'' (snd (filterContentType isPrint info))
       (set_header ''Content-Type'' (fst (filterContentType isPrint info))
         (set_header ''Content-Length'' (FormatInt (Offset info)) ?w1))"
    have rest: "rest i ?w1 = (if Offset info = 0 then sendResp r 204 ?w2
        else or_error r (GetReader cs up (st w)) ?w2 (\<lambda>src. write_out src (sendResp r 200 ?w2)))"
      using o u by (simp add: rest_def or_error_def wired_simps Let_def case_prod_beta)
    then obtain d where g: "Offset info \<noteq> 0" "GetReader cs up (st w) = Inr d"
      using out1 se [of _ ?w2] by (cases "Offset info = 0"; cases "GetReader cs up (st w)") (auto simp: or_error_def)
    then have r2: "rest i ?w1 = write_out d (sendResp r 200 ?w2)" using rest by (simp add: or_error_def)
    then have "d = src" using out1 by simp
    moreover have "d = c" using get_reader [OF c(1) g(2)] c(2) by simp
    ultimately show ?thesis using r2 p y i nh c by (auto simp: hget_hset)
  qed
qed

text \<open>The invariant of the server: a sound store whose uploads stay within their sizes.\<close>

lemma server_step_inv:
  assumes u: "wired u cs te cc ld lk" and s: "server_step u fresh w w'"
    and inv: "sinv (st w) \<and> (\<forall>i a. view (st w) i = Some a \<longrightarrow> fits a)"
  shows "sinv (st w') \<and> (\<forall>i a. view (st w') i = Some a \<longrightarrow> fits a)"
  using s
proof cases
  case (post r)
  let ?w = "w\<lparr>resp := no_resp\<rparr>"
  have i: "sinv (st ?w)" "fresh (st ?w)" using inv post by simp_all
  note eff = PostFile_effect [OF u i, of r]
  have "fits a" if "view (st w') j = Some a" for j a
  proof (cases "view (st w) j")
    case None
    then show ?thesis using eff post that by (auto simp: tame_def)
  next
    case (Some b)
    then show ?thesis using eff post that inv by auto
  qed
  then show ?thesis using eff post by simp
next
  case (head r)
  then show ?thesis using HeadFile_st [OF u] inv by simp
next
  case (patch r)
  let ?w = "w\<lparr>resp := no_resp\<rparr>"
  have i: "sinv (st ?w)" using inv by simp
  show ?thesis using PatchFile_keeps [OF u i patch(1,2)] inv by simp
next
  case (get isPrint r)
  then show ?thesis using GetFile_st [OF u] inv by simp
next
  case (delete r)
  let ?w = "w\<lparr>resp := no_resp\<rparr>"
  have i: "sinv (st ?w)" using inv by simp
  show ?thesis using DelFile_effect [OF u i delete] inv by (auto split: if_splits)
qed

text \<open>After a request no lock is held that was not held before it.\<close>

lemma or_error_held:
  "(\<And>v. x = Inr v \<Longrightarrow> held (locks (rest v)) = held (locks w)) \<Longrightarrow> held (locks (or_error r x w rest)) = held (locks w)"
  by (cases x) (simp_all add: or_error_def)

lemma post_rest_held:
  assumes u: "wired u cs te cc ld lk"
  shows "held (locks (post_rest u upload info ch d n r w)) = held (locks w)"
  unfolding post_rest_def
  by (auto dest!: writeChunk_locks finish_frame split: prod.splits option.splits intro!: with_lock_held [OF u])

lemma post_create_held:
  assumes u: "wired u cs te cc ld lk"
  shows "held (locks (post_create u info0 us ch r w)) = held (locks w)"
proof -
  have pc: "post_concat u upload us n info r w1 = (y, w2) \<Longrightarrow> locks w2 = locks w1" for upload n info w1 y w2
    by (auto simp: post_concat_def Let_def split: option.splits prod.splits if_splits)
  show ?thesis
    unfolding post_create_def Let_def
    by (auto simp: or_error_def post_rest_held [OF u] dest!: pc split: prod.splits sum.splits)
qed

lemma DelFile_held:
  assumes u: "wired u cs te cc ld lk"
  shows "held (locks (DelFile u r w)) = held (locks w)"
  unfolding DelFile_def
  by (auto intro!: or_error_held with_lock_held [OF u] or_error_locks dest!: terminate_frame split: prod.splits option.splits)

lemma server_step_held:
  assumes u: "wired u cs te cc ld lk" and s: "server_step u fr w w'"
  shows "held (locks w') = held (locks w)"
  using s
proof cases
  case (post r)
  then show ?thesis
    by (cases rule: PostFile_cases [of u r "w\<lparr>resp := no_resp\<rparr>"]) (simp_all add: post_create_held [OF u])
next
  case (head r)
  have "held (locks (HeadFile u r w1)) = held (locks w1)" for w1
    unfolding HeadFile_def
    by (intro or_error_held with_lock_held [OF u] or_error_locks) (auto simp: head_headers_def Let_def split: prod.splits)
  with head show ?thesis by simp
next
  case (patch r)
  have "held (locks (PatchFile u r w1)) = held (locks w1)" for w1
    unfolding PatchFile_def
    by (auto intro!: or_error_held with_lock_held [OF u] patch_locked_locks split: option.splits)
  with patch show ?thesis by simp
next
  case (get isPrint r)
  have "held (locks (GetFile isPrint u r w1)) = held (locks w1)" for w1
    unfolding GetFile_def
    by (intro or_error_held with_lock_held [OF u] or_error_locks)
      (auto simp: Let_def or_error_def split: prod.splits sum.splits)
  with get show ?thesis by simp
next
  case (delete r)
  then show ?thesis by (simp add: DelFile_held [OF u])
qed

end

end
