(* ===== verification/Tus_FileServer.thy ===== *)
theory Tus_FileServer
  imports Tus_Server
begin

section \<open>tus: the server on the file store and the memory locker\<close>

text \<open>
  The composition the package is made for: \<open>FileStore.UseIn\<close> and \<open>MemoryLocker.UseIn\<close> on a
  new composer, and \<open>NewTus\<close>. The guarantees of \<open>Tus_Server\<close> are interpreted on it, and the
  properties of the server follow.
\<close>

interpretation srv: tus_server "FileStore path" "fs_ok path" "fs_fresh path" "fs_view path" "fs_handle path"
  FS_Terminate FS_ConcatUploads FS_DeclareLength MemoryLocker "\<lambda>l. l" for path
  by unfold_locales

type_synonym file_uploader = "(fs, fileUpload, string set, memoryLock) Uploader"
type_synonym file_world = "(fs, string set) world"

definition file_composer :: "string \<Rightarrow> (fs, fileUpload, string set, memoryLock) StoreComposer" where
  "file_composer path = MemoryLocker_UseIn (FileStore_UseIn path NewStoreComposer)"

definition file_server :: "string \<Rightarrow> file_uploader \<Rightarrow> bool" where
  "file_server path u \<longleftrightarrow> (\<exists>cfg. CStoreComposer cfg = Some (file_composer path) \<and> NewTus cfg = Inr u)"

lemma file_composer_sel:
  "Core (file_composer path) = Some (FileStore path)" "Terminater (file_composer path) = Some FS_Terminate"
  "Concater (file_composer path) = Some FS_ConcatUploads" "LengthDeferrer (file_composer path) = Some FS_DeclareLength"
  "CLocker (file_composer path) = Some MemoryLocker" "composed (file_composer path)"
  by (auto simp: file_composer_def MemoryLocker_UseIn_def FileStore_UseIn_def composer_defs composed_def)

lemma file_server_wired:
  assumes "file_server path u"
  shows "wired u (FileStore path) FS_Terminate FS_ConcatUploads FS_DeclareLength MemoryLocker"
proof -
  obtain cfg where "CStoreComposer cfg = Some (file_composer path)" "NewTus cfg = Inr u"
    using assms by (auto simp: file_server_def)
  then have "composer u = file_composer path \<and> core u = FileStore path"
    by (auto simp: NewTus_def validate_def Let_def file_composer_sel split: sum.splits option.splits if_splits)
  then show ?thesis by (simp add: wired_def file_composer_sel)
qed

lemmas file_simps = srv.wired_simps [OF file_server_wired]

subsection \<open>An instance for evaluation\<close>

text \<open>A server on the directory \<open>d\<close> with one upload \<open>a\<close> of ten bytes, five of them stored.\<close>

definition demo_config :: "(fs, fileUpload, string set, memoryLock) Config" where
  "demo_config = \<lparr>CStoreComposer = Some (file_composer ''d''), MaxSize = 0, BasePath = ''files'', IsAbs = False,
     DisableDownload = False, DisableTermination = False, NotifyCompleteUploads = True,
     NotifyTerminatedUploads = True, NotifyUploadProgress = True, NotifyCreatedUploads = True,
     RespectForwardedHeaders = False, PreUploadCreateCallback = None, PreFinishResponseCallback = None\<rparr>"

definition demo_server :: file_uploader where
  "demo_server = projr (NewTus demo_config)"

definition demo_info :: "string \<Rightarrow> int \<Rightarrow> FileInfo" where
  "demo_info i n = \<lparr>ID = i, Size = n, SizeIsDeferred = False, Offset = 0, MetaData = [], IsPartial = False,
     IsFinal = False, PartialUploads = [], Storage = []\<rparr>"

definition demo_fs :: fs where
  "demo_fs = \<lparr>files = (\<lambda>p. if p = ''d/a.info'' then Some (FInfo (demo_info ''a'' 10))
       else if p = ''d/a'' then Some (FBytes ''hello'') else None),
     fault = (\<lambda>_ _. None), room = 100000, rand = (\<lambda>n k. char_of (n + k)), drawn = 0\<rparr>"

definition demo_world :: file_world where
  "demo_world = \<lparr>st = demo_fs, locks = {}, metrics = newMetrics, CompleteUploads = [], TerminatedUploads = [],
     UploadProgress = [], CreatedUploads = [], resp = no_resp\<rparr>"

definition demo_request :: "string \<Rightarrow> string \<Rightarrow> (string \<times> string) list \<Rightarrow> int \<Rightarrow> string \<Rightarrow> request" where
  "demo_request m path hs n b = \<lparr>Method = m, URL_Path = path, RequestURI = path, RemoteAddr = ''r'', Host = ''h'',
     TLS = False, Header = (\<lambda>k. case map_of hs k of None \<Rightarrow> [] | Some v \<Rightarrow> [v]), ContentLength = n,
     Body = Some [(b, Some EOF)], stopped = False, ticks = []\<rparr>"

definition demo_patch :: "int \<Rightarrow> int \<Rightarrow> string \<Rightarrow> request" where
  "demo_patch off n b = demo_request ''PATCH'' ''/files/a''
     [(''Content-Type'', ''application/offset+octet-stream''), (''Upload-Offset'', FormatInt off),
      (''Tus-Resumable'', ''1.0.0'')] n b"

lemma demo_file_server: "file_server ''d'' demo_server"
proof -
  have "is_ok (NewTus demo_config)" by code_simp
  then have "NewTus demo_config = Inr demo_server"
    by (cases "NewTus demo_config") (simp_all add: demo_server_def)
  then show ?thesis unfolding file_server_def by (intro exI [of _ demo_config]) (simp add: demo_config_def)
qed

lemma demo_fs_ok: "fs_ok ''d'' demo_fs"
proof -
  have "valid_id ''a''" "infoPath ''d'' ''a'' = ''d/a.info''" by code_simp+
  moreover have "int (length (Marshal (demo_info ''a'' 10)) + 100000) \<le> MaxInt64" by code_simp
  ultimately show ?thesis by (auto simp: fs_ok_def demo_fs_def MaxInt64_def intro!: exI [of _ "''a''"])
qed

subsection \<open>Properties\<close>

text \<open>
  C1. A PATCH that the server accepts (204) appends to the stored bytes, and nothing else in
  the store changes: the upload was there, was not final and not locked, its length was the
  Upload-Offset of the request, the bytes added are a prefix of the request's body, the size
  is the old one or one declared by this request, and the Upload-Offset of the answer is the
  new length.
\<close>

theorem patch_appends:
  assumes "file_server path u" and "fs_ok path (st w)" and "answered 204 (PatchFile u r w)"
  shows "\<exists>i a d s'. extractIDFromPath (URL_Path r) = Inr i \<and> i \<notin> locks w
      \<and> fs_view path (st w) i = Some a \<and> \<not> u_final a
      \<and> ParseInt (hget (Header r) ''Upload-Offset'') = Some (int (length (u_data a)))
      \<and> fs_view path (st (PatchFile u r w))
          = (fs_view path (st w))(i \<mapsto> a\<lparr>u_size := s', u_data := u_data a @ d\<rparr>)
      \<and> (d = [] \<or> (\<exists>b t. Body r = Some b \<and> body_data b = d @ t))
      \<and> length_declared r (u_size a) s' (int (length (u_data a)))
      \<and> hget (r_header (resp (PatchFile u r w))) ''Upload-Offset'' = FormatInt (int (length (u_data a @ d)))"
  by (rule srv.PatchFile_effect [OF file_server_wired [OF assms(1)] assms(2) refl assms(3)])

theorem patch_appends_witness:
  "answered 204 (PatchFile demo_server (demo_patch 5 3 ''abc'') demo_world)
   \<and> (\<exists>i. extractIDFromPath (URL_Path (demo_patch 5 3 ''abc'')) = Inr i \<and> i \<notin> locks demo_world)"
proof -
  have "answered 204 (PatchFile demo_server (demo_patch 5 3 ''abc'') demo_world)" by code_simp
  moreover have "fs_ok ''d'' (st demo_world)" by (simp add: demo_world_def demo_fs_ok)
  ultimately show ?thesis using patch_appends [OF demo_file_server] by blast
qed


lemma demo_views: "fs_view ''d'' demo_fs i = Some a \<Longrightarrow> fits a"
proof (elim fs_view_Some)
  fix info c
  assume "files demo_fs (infoPath ''d'' i) = Some (FInfo info)" "a = info_abs info c"
    "files demo_fs (binPath ''d'' i) = Some (FBytes c)"
  then have "info = demo_info ''a'' 10" "c = ''hello''"
    by (auto simp: demo_fs_def split: if_splits)
  then show "fits a" using \<open>a = info_abs info c\<close> by (simp add: fits_def demo_info_def MaxInt64_def)
qed



definition demo_post :: request where
  "demo_post = demo_request ''POST'' ''/files/'' [(''Upload-Concat'', ''partial''), (''Upload-Length'', ''5'')] 0 []"




text \<open>
  C6. While an upload is locked, every other request for it is answered 423 and the store is
  not touched.
\<close>

theorem locked_refused:
  assumes "file_server path u" and "extractIDFromPath (URL_Path r) = Inr i" and "i \<in> locks w"
    and "H \<in> set [HeadFile u, GetFile isPrint u, DelFile u]
      \<or> (H = PatchFile u \<and> has_chunk r \<and> (\<exists>off \<ge> 0. ParseInt (hget (Header r) ''Upload-Offset'') = Some off))"
  shows "st (H r w) = st w \<and> r_status (resp (H r w)) = Some 423"
proof -
  note u = file_server_wired [OF assms(1)]
  have busy: "st (with_lock u r i rest w) = st w \<and> r_status (resp (with_lock u r i rest w)) = Some 423" for rest
    by (rule srv.with_lock_busy [OF u]) (simp_all add: ML_NewLock_def assms(3))
  have "\<exists>rest. H r w = with_lock u r i rest w"
    using assms(2,4) file_simps [OF assms(1)]
    by (auto simp: HeadFile_def GetFile_def DelFile_def PatchFile_def or_error_def has_chunk_def)
  then show ?thesis using busy by metis
qed

theorem locked_refused_witness:
  "r_status (resp (HeadFile demo_server (demo_patch 5 3 []) (demo_world\<lparr>locks := {''a''}\<rparr>))) = Some 423"
proof -
  have "extractIDFromPath (URL_Path (demo_patch 5 3 [])) = Inr ''a''" by code_simp
  then show ?thesis using locked_refused [OF demo_file_server, of "demo_patch 5 3 []" "''a''"] by simp
qed

lemma terminate_files: "files (snd (FS_Terminate up v)) q = files v q \<or> files (snd (FS_Terminate up v)) q = None"
  by (auto simp: FS_Terminate_def os_remove_def split: prod.splits sum.splits)

text \<open>
  C7. After a DELETE that the server accepts (204) the upload is gone and the others are as
  they were; a HEAD of the same upload is answered 404 when the store can be read.
\<close>

theorem delete_gone:
  assumes "file_server path u" and "fs_ok path (st w)" and "answered 204 (DelFile u r w)"
    and "extractIDFromPath (URL_Path r) = Inr i"
    and "extractIDFromPath (URL_Path r') = Inr i"
    and "fault (st (DelFile u r w)) OpReadFile (infoPath path i) = None"
    and "fault (st (DelFile u r w)) OpStat (binPath path i) = None"
  shows "fs_view path (st w) i \<noteq> None
    \<and> fs_view path (st (DelFile u r w)) = (fs_view path (st w))(i := None)
    \<and> r_status (resp (HeadFile u r' (DelFile u r w))) = Some 404"
proof -
  note u = file_server_wired [OF assms(1)]
  let ?w = "DelFile u r w"
  from srv.DelFile_effect [OF u assms(2) refl, of r] assms(3,4)
  obtain up e where eff: "fs_ok path (st ?w)" "fs_view path (st w) i \<noteq> None" "i \<notin> locks w"
    "fs_view path (st ?w) = (fs_view path (st w))(i := None)" "FS_Terminate up (st w) = (e, st ?w)" by auto
  have ns: "CHR ''/'' \<notin> set i" using extractID_no_slash [OF assms(4)] by simp
  obtain info where "files (st w) (infoPath path i) = Some (FInfo info)" using eff(2) fs_view_Some by blast
  moreover have "files (st ?w) q = files (st w) q \<or> files (st ?w) q = None" for q
    using terminate_files [of up "st w" q] eff(5) by simp
  ultimately have "\<forall>b. files (st ?w) (infoPath path i) \<noteq> Some (FBytes b)"
    by (metis fcontent.distinct(1) option.distinct(1) option.inject)
  then have g: "FS_GetUpload path i (st ?w) = Inl ErrNotFound"
    using FS_GetUpload_gone [OF eff(1) ns _ assms(6,7)] eff(4) by simp
  have "i \<notin> locks ?w" using srv.DelFile_held [OF u, of r w] eff(3) by simp
  with g have "r_status (resp (HeadFile u r' ?w)) = Some 404"
    using assms(5) by (simp add: HeadFile_def or_error_def with_lock_def lockUpload_def open_upload_def
        file_simps [OF assms(1)] memory_defs)
  then show ?thesis using eff by simp
qed

theorem delete_gone_witness:
  "r_status (resp (HeadFile demo_server (demo_patch 5 3 []) (DelFile demo_server (demo_patch 5 3 []) demo_world))) = Some 404"
proof -
  let ?r = "demo_patch 5 3 []"
  have "answered 204 (DelFile demo_server ?r demo_world)" "extractIDFromPath (URL_Path ?r) = Inr ''a''"
    "fault (st (DelFile demo_server ?r demo_world)) OpReadFile (infoPath ''d'' ''a'') = None"
    "fault (st (DelFile demo_server ?r demo_world)) OpStat (binPath ''d'' ''a'') = None"
    by code_simp+
  moreover have "fs_ok ''d'' (st demo_world)" by (simp add: demo_world_def demo_fs_ok)
  ultimately show ?thesis using delete_gone [OF demo_file_server, of demo_world ?r "''a''" ?r] by blast
qed

text \<open>
  A HEAD that is answered 200 reports the upload as it is stored: the number of bytes it
  has, and its size or that the size is not declared yet; nothing is changed.
\<close>

theorem head_reports:
  assumes "file_server path u" and "fs_ok path (st w)" and "answered 200 (HeadFile u r w)"
  shows "st (HeadFile u r w) = st w \<and> (\<exists>i a. extractIDFromPath (URL_Path r) = Inr i \<and> fs_view path (st w) i = Some a \<and> i \<notin> locks w
    \<and> hget (r_header (resp (HeadFile u r w))) ''Upload-Offset'' = FormatInt (int (length (u_data a)))
    \<and> (case u_size a of
         Some n \<Rightarrow> hget (r_header (resp (HeadFile u r w))) ''Upload-Length'' = FormatInt n
       | None \<Rightarrow> hget (r_header (resp (HeadFile u r w))) ''Upload-Defer-Length'' = UploadLengthDeferred))"
  using srv.HeadFile_effect [OF file_server_wired [OF assms(1)] assms(2,3)]
    srv.HeadFile_st [OF file_server_wired [OF assms(1)]] by simp

theorem head_reports_witness:
  "\<exists>a. fs_view ''d'' (st demo_world) ''a'' = Some a
    \<and> hget (r_header (resp (HeadFile demo_server (demo_patch 5 3 []) demo_world))) ''Upload-Offset'' = FormatInt (int (length (u_data a)))"
proof -
  have "answered 200 (HeadFile demo_server (demo_patch 5 3 []) demo_world)"
    "extractIDFromPath (URL_Path (demo_patch 5 3 [])) = Inr ''a''" by code_simp+
  moreover have "fs_ok ''d'' (st demo_world)" by (simp add: demo_world_def demo_fs_ok)
  ultimately show ?thesis using head_reports [OF demo_file_server, of demo_world "demo_patch 5 3 []"] by auto
qed

text \<open>
  A GET that answers with content delivers exactly the bytes stored so far, with their
  number as Content-Length, and changes nothing.
\<close>

theorem get_returns:
  assumes "file_server path u" and "fs_ok path (st w)"
    and "r_out (resp (GetFile isPrint u r w)) = r_out (resp w) @ [WNil, WBytes src]"
  shows "st (GetFile isPrint u r w) = st w \<and> (\<exists>i a. extractIDFromPath (URL_Path r) = Inr i
    \<and> fs_view path (st w) i = Some a \<and> i \<notin> locks w \<and> src = u_data a
    \<and> r_status (resp (GetFile isPrint u r w)) = Some 200
    \<and> hget (r_header (resp (GetFile isPrint u r w))) ''Content-Length'' = FormatInt (int (length src)))"
  using srv.GetFile_effect [OF file_server_wired [OF assms(1)] assms(2,3)]
    srv.GetFile_st [OF file_server_wired [OF assms(1)]] by simp

theorem get_returns_witness:
  "r_status (resp (GetFile (\<lambda>_. False) demo_server (demo_patch 5 3 []) demo_world)) = Some 200"
proof -
  have "r_out (resp (GetFile (\<lambda>_. False) demo_server (demo_patch 5 3 []) demo_world)) = [WNil, WBytes ''hello'']" by code_simp
  moreover have "fs_ok ''d'' (st demo_world)" "r_out (resp demo_world) = []"
    by (simp_all add: demo_world_def demo_fs_ok no_resp_def)
  ultimately show ?thesis
    using get_returns [OF demo_file_server, of demo_world "\<lambda>_. False" "demo_patch 5 3 []" "''hello''"] by auto
qed

text \<open>
  C8. A PATCH of a final upload is answered 403 and one whose offset is not the number of
  bytes stored is answered 409; the store is not touched.
\<close>

theorem patch_refused:
  assumes "file_server path u" and "fs_ok path (st w)" and "extractIDFromPath (URL_Path r) = Inr i" and "i \<notin> locks w"
    and "has_chunk r" and "ParseInt (hget (Header r) ''Upload-Offset'') = Some off" and "0 \<le> off"
    and "fs_view path (st w) i = Some a" and "u_final a \<or> off \<noteq> int (length (u_data a))"
    and "fault (st w) OpReadFile (infoPath path i) = None" and "fault (st w) OpStat (binPath path i) = None"
  shows "st (PatchFile u r w) = st w \<and> r_status (resp (PatchFile u r w)) = Some (if u_final a then 403 else 409)"
proof -
  note f = file_simps [OF assms(1)]
  have ns: "CHR ''/'' \<notin> set i" using extractID_no_slash [OF assms(3)] by simp
  obtain up where g: "FS_GetUpload path i (st w) = Inr up" using FS_GetUpload_total assms(8,10,11) by blast
  obtain c where c: "a = info_abs (up_info up) c" "Offset (up_info up) = int (length c)"
    using fs_get_upload [OF assms(2) ns g] assms(8) by (auto simp: fs_handle_def)
  have "patch_locked u r off i v = (if IsFinal (up_info up) then sendError r ErrModifyFinal v
      else sendError r ErrMismatchOffset v)" if "st v = st w" for v
    using that g f c assms(9) by (auto simp: patch_locked_def open_upload_def or_error_def FS_GetInfo_def)
  then show ?thesis
    using assms(3-7) f c by (simp add: PatchFile_def has_chunk_def or_error_def with_lock_def lockUpload_def memory_defs)
qed

theorem patch_refused_witness:
  "r_status (resp (PatchFile demo_server (demo_patch 4 3 ''abc'') demo_world)) = Some 409"
proof -
  let ?r = "demo_patch 4 3 ''abc''"
  have "fs_ok ''d'' (st demo_world)" by (simp add: demo_world_def demo_fs_ok)
  moreover have "extractIDFromPath (URL_Path ?r) = Inr ''a''" "has_chunk ?r"
    "ParseInt (hget (Header ?r) ''Upload-Offset'') = Some 4"
    "fs_view ''d'' (st demo_world) ''a'' = Some \<lparr>u_size = Some 10, u_partial = False, u_final = False, u_data = ''hello''\<rparr>"
    "fault (st demo_world) OpReadFile (infoPath ''d'' ''a'') = None" "fault (st demo_world) OpStat (binPath ''d'' ''a'') = None"
    by code_simp+
  moreover have "''a'' \<notin> locks demo_world" by (simp add: demo_world_def)
  ultimately show ?thesis using patch_refused [OF demo_file_server, of demo_world ?r "''a''" 4] by simp
qed

lemma finish_succeeds:
  "core u = FileStore path \<Longrightarrow> PreFinishResponseCallback (config u) = None \<Longrightarrow>
    fst (finishUploadIfComplete u up info r v) = None"
  by (simp add: finishUploadIfComplete_def FS_FinishUpload_def Let_def)

lemma write_succeeds:
  assumes h: "fs_handle path s i up" and rd: "length (reader_data rd) \<le> room s" "clean_reader rd" "fault s = (\<lambda>_ _. None)"
  obtains k rd' up' s' where "FS_WriteChunk up off rd s = ((k, None), rd', up', s')" "hasError rd' = None"
proof -
  obtain c where "files s (up_binPath up) = Some (FBytes c)" using h by (elim fs_handle_files) simp
  then have ex: "existing OpAppend (up_binPath up) s = Inr (FBytes c)" using rd(3) by (simp add: existing_def)
  obtain n er s' rd' where cp: "io_copy (file_write (up_binPath up)) s rd = ((n, er), s', rd')" by (metis surj_pair)
  have "er = None \<and> hasError rd' = None" using file_copy_total [OF _ rd(1,2) cp] rd(3) by simp
  then show thesis using that ex cp by (simp add: FS_WriteChunk_def Let_def)
qed




definition demo_part :: "string \<Rightarrow> string \<Rightarrow> request" where
  "demo_part n b = demo_request ''POST'' ''/files/''
     ((''Upload-Concat'', ''partial'') # (''Upload-Length'', n)
      # (if b = [] then [] else [(''Content-Type'', ''application/offset+octet-stream'')])) (int (length b)) b"

definition demo_final :: request where
  "demo_final = demo_request ''POST'' ''/files/''
     [(''Upload-Concat'', ''final;/files/000102030405060708090a0b0c0d0e0f'')] 0 []"

text \<open>
  A final upload made of empty parts is announced as complete twice: by the branch of POST
  for final uploads and again when the empty upload is finished at once; a final upload with
  bytes is announced once but never counted as finished.
\<close>

theorem final_notified:
  "(let w = PostFile demo_server (demo_part ''0'' []) demo_world; w' = PostFile demo_server demo_final w
    in answered 201 w' \<and> length (CompleteUploads w') = length (CompleteUploads w) + 2)
   \<and> (let w = PostFile demo_server (demo_part ''2'' ''ab'') demo_world; w' = PostFile demo_server demo_final w
    in answered 201 w' \<and> length (CompleteUploads w') = length (CompleteUploads w) + 1
      \<and> UploadsFinished (metrics w') = UploadsFinished (metrics w))"
  by (rule conjI; code_simp)

text \<open>
  An error is answered with its own status and text, or 500 for one that has no status,
  and only HEAD gets no body; the Content-Length is the length of the body sent, the counter of
  exactly this error goes up by one, and neither the store nor the locks are touched.
\<close>

theorem error_response:
  "\<exists>e' body. e' = status_error (plain_error e)
    \<and> body = (if Method r = ''HEAD'' then [] else ErrBody e' @ [CHR 0x0A])
    \<and> r_status (resp (sendError r e w)) = Some (StatusCode e')
    \<and> r_out (resp (sendError r e w)) = r_out (resp w) @ [WBytes body]
    \<and> hget (r_header (resp (sendError r e w))) ''Content-Length'' = FormatInt (int (length body))
    \<and> ErrorsTotal (metrics (sendError r e w)) = (ErrorsTotal (metrics w))(simplifyHTTPError e' \<mapsto>
        (case ErrorsTotal (metrics w) (simplifyHTTPError e') of Some n \<Rightarrow> n + 1 | None \<Rightarrow> 1))
    \<and> st (sendError r e w) = st w \<and> locks (sendError r e w) = locks w"
  by (simp add: sendError_def Let_def hget_hset incErrorsTotal_counts)

lemma cors_frame: "st (cors_headers cfg r w) = st w \<and> locks (cors_headers cfg r w) = locks w
    \<and> metrics (cors_headers cfg r w) = metrics w \<and> r_out (resp (cors_headers cfg r w)) = r_out (resp w)"
  by (simp add: cors_headers_def Let_def)

text \<open>
  The middleware answers OPTIONS itself with 200, the protocol version and the extensions;
  it refuses with 412 a request of any other method than GET and HEAD that does not name the
  version; every other request reaches the handler, under the overriding method if one is
  given, with the version and nosniff headers set and nothing changed but them, the CORS
  headers and the request counter.
\<close>

theorem middleware_routes:
  "if Method (override_method r) = ''OPTIONS''
   then r_status (resp (Middleware u H r w)) = Some 200 \<and> st (Middleware u H r w) = st w
     \<and> hget (r_header (resp (Middleware u H r w))) ''Tus-Version'' = ''1.0.0''
     \<and> hget (r_header (resp (Middleware u H r w))) ''Tus-Extension'' = extensions u
   else if Method (override_method r) \<notin> {''GET'', ''HEAD''} \<and> hget (Header r) ''Tus-Resumable'' \<noteq> ''1.0.0''
   then r_status (resp (Middleware u H r w)) = Some 412 \<and> st (Middleware u H r w) = st w
   else \<exists>v. Middleware u H r w = H (override_method r) v \<and> st v = st w \<and> locks v = locks w
     \<and> metrics v = incRequestsTotal (Method (override_method r)) (metrics w)
     \<and> r_out (resp v) = r_out (resp w)
     \<and> hget (r_header (resp v)) ''Tus-Resumable'' = ''1.0.0''
     \<and> hget (r_header (resp v)) ''X-Content-Type-Options'' = ''nosniff''"
proof -
  have hdr: "Header (override_method r) = Header r" by (simp add: override_method_def Let_def)
  let ?r = "override_method r"
  define v where "v = set_header ''X-Content-Type-Options'' ''nosniff'' (set_header ''Tus-Resumable'' ''1.0.0''
      (cors_headers (config u) ?r (w\<lparr>metrics := incRequestsTotal (Method ?r) (metrics w)\<rparr>)))"
  have v: "st v = st w" "locks v = locks w" "metrics v = incRequestsTotal (Method ?r) (metrics w)"
    "r_out (resp v) = r_out (resp w)" "hget (r_header (resp v)) ''Tus-Resumable'' = ''1.0.0''"
    "hget (r_header (resp v)) ''X-Content-Type-Options'' = ''nosniff''"
    by (simp_all add: v_def cors_frame hget_hset)
  have m: "Middleware u H r w = (if Method ?r = ''OPTIONS'' then
           (let v = (if MaxSize (config u) > 0 then set_header ''Tus-Max-Size'' (FormatInt (MaxSize (config u))) v else v);
                v = set_header ''Tus-Version'' ''1.0.0'' v;
                v = set_header ''Tus-Extension'' (extensions u) v
            in sendResp ?r 200 v)
         else if Method ?r \<noteq> ''GET'' \<and> Method ?r \<noteq> ''HEAD'' \<and> hget (Header ?r) ''Tus-Resumable'' \<noteq> ''1.0.0''
         then sendError ?r ErrUnsupportedVersion v
         else H ?r v)"
    by (simp add: Middleware_def v_def Let_def)
  show ?thesis
    by (auto simp: m v hdr Let_def hget_hset intro!: exI [of _ v])
qed

end
