(* ===== verification/Ws_Base.thy ===== *)
theory Ws_Base
  imports Json
begin

section \<open>ws: messages, counters, channels\<close>

text \<open>
  \<open>pkg/ws/protocol.go\<close>, \<open>pkg/ws/statistics.go\<close>, \<open>pkg/ws/config.go\<close>,
  \<open>pkg/ws/errors.go\<close> and Go's buffered channels. The counters are 64-bit integers that
  wrap around.
\<close>

subsection \<open>Channels\<close>

text \<open>
  A channel holds a queue; \<open>waiting\<close> are the receivers that block on it. A send goes through
  when the buffer has room or a receiver waits for it, so a waiting receiver is one more
  place in the queue; on an unbuffered channel it is the only one.
\<close>

record 'a chan =
  buf :: "'a list"
  cap :: nat
  waiting :: nat

definition make_chan :: "int \<Rightarrow> 'a chan option" where
  "make_chan n = (if n < 0 then None else Some \<lparr>buf = [], cap = nat n, waiting = 0\<rparr>)"

definition can_send :: "'a chan \<Rightarrow> bool" where
  "can_send ch \<longleftrightarrow> length (buf ch) < cap ch + waiting ch"

definition send :: "'a \<Rightarrow> 'a chan \<Rightarrow> 'a chan" where
  "send x ch = ch\<lparr>buf := buf ch @ [x]\<rparr>"

definition recv :: "'a chan \<Rightarrow> ('a \<times> 'a chan) option" where
  "recv ch = (case buf ch of [] \<Rightarrow> None
     | x # xs \<Rightarrow> Some (x, ch\<lparr>buf := xs, waiting := waiting ch - 1\<rparr>))"

definition block :: "'a chan \<Rightarrow> 'a chan" where
  "block ch = (if buf ch = [] then ch\<lparr>waiting := waiting ch + 1\<rparr> else ch)"

lemma buf_send [simp]: "buf (send x ch) = buf ch @ [x]"
  by (simp add: send_def)

lemma buf_block [simp]: "buf (block ch) = buf ch"
  by (simp add: block_def)

lemma recv_Some: "recv ch = Some (x, ch') \<Longrightarrow> buf ch = x # buf ch'"
  by (auto simp: recv_def split: list.splits)

lemma recv_head: "buf ch = x # xs \<Longrightarrow> \<exists>ch'. recv ch = Some (x, ch') \<and> buf ch' = xs"
  by (simp add: recv_def)

lemma recv_None [simp]: "recv ch = None \<longleftrightarrow> buf ch = []"
  by (auto simp: recv_def split: list.splits)

lemma make_chan_empty: "make_chan n = Some ch \<Longrightarrow> buf ch = [] \<and> cap ch = nat n \<and> 0 \<le> n"
  by (auto simp: make_chan_def split: if_splits)

subsection \<open>Counters\<close>

record Statistics =
  OnlineConnections :: int
  SendMessageTotal :: int
  SendMessageFail :: int
  PushFail :: int
  DispatchPending :: int
  PushJobPending :: int
  DispatchTotal :: int
  DispatchFail :: int
  RoomCount :: int
  MergerPending :: int
  MergerRoomTotal :: int
  MergerAllTotal :: int
  MergerRoomFail :: int
  MergerAllFail :: int

definition zero_stats :: Statistics where
  "zero_stats = \<lparr>OnlineConnections = 0, SendMessageTotal = 0, SendMessageFail = 0, PushFail = 0,
     DispatchPending = 0, PushJobPending = 0, DispatchTotal = 0, DispatchFail = 0, RoomCount = 0,
     MergerPending = 0, MergerRoomTotal = 0, MergerAllTotal = 0, MergerRoomFail = 0, MergerAllFail = 0\<rparr>"

definition DispatchPendingIncr :: "Statistics \<Rightarrow> Statistics" where
  "DispatchPendingIncr s = s\<lparr>DispatchPending := i64 (DispatchPending s + 1)\<rparr>"

definition DispatchPendingDesc :: "Statistics \<Rightarrow> Statistics" where
  "DispatchPendingDesc s = s\<lparr>DispatchPending := i64 (DispatchPending s - 1)\<rparr>"

definition PushJobPendingIncr :: "Statistics \<Rightarrow> Statistics" where
  "PushJobPendingIncr s = s\<lparr>PushJobPending := i64 (PushJobPending s + 1)\<rparr>"

definition PushJobPendingDesc :: "Statistics \<Rightarrow> Statistics" where
  "PushJobPendingDesc s = s\<lparr>PushJobPending := i64 (PushJobPending s - 1)\<rparr>"

definition OnlineConnectionsIncr :: "Statistics \<Rightarrow> Statistics" where
  "OnlineConnectionsIncr s = s\<lparr>OnlineConnections := i64 (OnlineConnections s + 1)\<rparr>"

definition OnlineConnectionsDesc :: "Statistics \<Rightarrow> Statistics" where
  "OnlineConnectionsDesc s = s\<lparr>OnlineConnections := i64 (OnlineConnections s - 1)\<rparr>"

definition RoomCountIncr :: "Statistics \<Rightarrow> Statistics" where
  "RoomCountIncr s = s\<lparr>RoomCount := i64 (RoomCount s + 1)\<rparr>"

definition RoomCountDesc :: "Statistics \<Rightarrow> Statistics" where
  "RoomCountDesc s = s\<lparr>RoomCount := i64 (RoomCount s - 1)\<rparr>"

definition MergerPendingIncr :: "Statistics \<Rightarrow> Statistics" where
  "MergerPendingIncr s = s\<lparr>MergerPending := i64 (MergerPending s + 1)\<rparr>"

definition MergerPendingDesc :: "Statistics \<Rightarrow> Statistics" where
  "MergerPendingDesc s = s\<lparr>MergerPending := i64 (MergerPending s - 1)\<rparr>"

definition MergerAllTotalIncr :: "int \<Rightarrow> Statistics \<Rightarrow> Statistics" where
  "MergerAllTotalIncr n s = s\<lparr>MergerAllTotal := i64 (MergerAllTotal s + n)\<rparr>"

definition MergerAllFailIncr :: "int \<Rightarrow> Statistics \<Rightarrow> Statistics" where
  "MergerAllFailIncr n s = s\<lparr>MergerAllFail := i64 (MergerAllFail s + n)\<rparr>"

definition DispatchFailIncr :: "Statistics \<Rightarrow> Statistics" where
  "DispatchFailIncr s = s\<lparr>DispatchFail := i64 (DispatchFail s + 1)\<rparr>"

definition DispatchTotalIncr :: "int \<Rightarrow> Statistics \<Rightarrow> Statistics" where
  "DispatchTotalIncr n s = s\<lparr>DispatchTotal := i64 (DispatchTotal s + n)\<rparr>"

definition DispatchFailNumIncr :: "int \<Rightarrow> Statistics \<Rightarrow> Statistics" where
  "DispatchFailNumIncr n s = s\<lparr>DispatchFail := i64 (DispatchFail s + n)\<rparr>"

definition SendMessageFailIncr :: "Statistics \<Rightarrow> Statistics" where
  "SendMessageFailIncr s = s\<lparr>SendMessageFail := i64 (SendMessageFail s + 1)\<rparr>"

definition SendMessageTotalIncr :: "Statistics \<Rightarrow> Statistics" where
  "SendMessageTotalIncr s = s\<lparr>SendMessageTotal := i64 (SendMessageTotal s + 1)\<rparr>"

definition Dump :: "Statistics \<Rightarrow> string res" where
  "Dump s = json_Marshal (JObj
     [(''online_connections'', JInt (OnlineConnections s)), (''send_message_total'', JInt (SendMessageTotal s)),
      (''send_message_fail'', JInt (SendMessageFail s)), (''push_fail'', JInt (PushFail s)),
      (''dispatch_pending'', JInt (DispatchPending s)), (''push_job_pending'', JInt (PushJobPending s)),
      (''dispatch_total'', JInt (DispatchTotal s)), (''dispatch_fail'', JInt (DispatchFail s)),
      (''room_count'', JInt (RoomCount s)), (''merger_pending'', JInt (MergerPending s)),
      (''merger_room_total'', JInt (MergerRoomTotal s)), (''merger_all_total'', JInt (MergerAllTotal s)),
      (''merger_room_fail'', JInt (MergerRoomFail s)), (''merger_all_fail'', JInt (MergerAllFail s))])"

lemmas stats_defs = DispatchPendingIncr_def DispatchPendingDesc_def PushJobPendingIncr_def
  PushJobPendingDesc_def OnlineConnectionsIncr_def OnlineConnectionsDesc_def RoomCountIncr_def
  RoomCountDesc_def MergerPendingIncr_def MergerPendingDesc_def MergerAllTotalIncr_def
  MergerAllFailIncr_def DispatchFailIncr_def DispatchTotalIncr_def DispatchFailNumIncr_def
  SendMessageFailIncr_def SendMessageTotalIncr_def

subsection \<open>Errors, configuration\<close>

definition ErrConnectionLoss :: go_error where
  "ErrConnectionLoss = new_error ''ERR_CONNECTION_LOSS''"
definition ErrSendMessageFull :: go_error where
  "ErrSendMessageFull = new_error ''ERR_SEND_MESSAGE_FULL''"
definition ErrJoinRoomTwice :: go_error where
  "ErrJoinRoomTwice = new_error ''ERR_JOIN_ROOM_TWICE''"
definition ErrNotInRoom :: go_error where
  "ErrNotInRoom = new_error ''ERR_NOT_IN_ROOM''"
definition ErrRoomIdInvalid :: go_error where
  "ErrRoomIdInvalid = new_error ''ERR_ROOM_ID_INVALID''"
definition ErrDispatchChannelFull :: go_error where
  "ErrDispatchChannelFull = new_error ''ERR_DISPATCH_CHANNEL_FULL''"
definition ErrMergeChannelFull :: go_error where
  "ErrMergeChannelFull = new_error ''ERR_MERGE_CHANNEL_FULL''"

lemma send_errors_differ [simp]: "ErrConnectionLoss \<noteq> ErrSendMessageFull"
  by (simp add: ErrConnectionLoss_def ErrSendMessageFull_def new_error_def)

record WsConfig =
  ReadTimeout :: int
  WriteTimeout :: int
  InChannelSize :: int
  OutChannelSize :: int
  HeartbeatInterval :: int
  BucketCount :: int
  BucketWorkerCount :: int
  BucketJobChannelSize :: int
  BucketJobWorkerCount :: int
  DispatchChannelSize :: int
  DispatchWorkerCount :: int
  MaxMergerDelay :: int
  MaxMergerBatchSize :: int
  MergerWorkerCount :: int
  MergerChannelSize :: int
  MaxJoinRoom :: int

text \<open>A small configuration for the examples.\<close>

definition sample_cfg :: WsConfig where
  "sample_cfg = \<lparr>ReadTimeout = 0, WriteTimeout = 0, InChannelSize = 2, OutChannelSize = 2, HeartbeatInterval = 30,
     BucketCount = 2, BucketWorkerCount = 1, BucketJobChannelSize = 2, BucketJobWorkerCount = 1,
     DispatchChannelSize = 2, DispatchWorkerCount = 1, MaxMergerDelay = 10, MaxMergerBatchSize = 2,
     MergerWorkerCount = 1, MergerChannelSize = 2, MaxJoinRoom = 5\<rparr>"

subsection \<open>Messages\<close>

record Message =
  MsgType :: int
  MsgData :: string

text \<open>\<open>MessageReq\<close> and \<open>MessageRes\<close> have the same fields.\<close>

record MessageReq =
  Service :: string
  Action :: string
  Data :: gojson

type_synonym MessageRes = MessageReq

record Response =
  Code :: int
  resp_Message :: string
  resp_Body :: gojson

definition TextMessage :: int where "TextMessage = 1"

definition PushTypeUser :: int where "PushTypeUser = 0"
definition PushTypeRoom :: int where "PushTypeRoom = 1"
definition PushTypeAll :: int where "PushTypeAll = 2"

definition BuildWsMessage :: "int \<Rightarrow> string \<Rightarrow> Message" where
  "BuildWsMessage t d = \<lparr>MsgType = t, MsgData = d\<rparr>"

definition message_json :: "MessageReq \<Rightarrow> gojson" where
  "message_json m = JObj [(''service'', JStr (Service m)), (''action'', JStr (Action m)), (''data'', Data m)]"

definition response_json :: "Response \<Rightarrow> gojson" where
  "response_json r = JObj [(''code'', JInt (Code r)), (''message'', JStr (resp_Message r)), (''body'', resp_Body r)]"

definition EncodeWsMessage :: "MessageReq \<Rightarrow> Message res" where
  "EncodeWsMessage m =
     (case json_Marshal (response_json \<lparr>Code = 0, resp_Message = ''ok'', resp_Body = message_json m\<rparr>) of
        Inl e \<Rightarrow> Inl e
      | Inr b \<Rightarrow> Inr \<lparr>MsgType = TextMessage, MsgData = b\<rparr>)"

text \<open>
  Decoding into the struct: a member belongs to the field its name equals up to case (and up
  to the long s, which folds to an s); unknown members are dropped, a later member overrides
  an earlier one, \<open>null\<close> leaves a string as it is, and a value of another type is an error
  once the whole object is read.
\<close>

definition fold_key :: "string \<Rightarrow> nat list" where
  "fold_key k = map (\<lambda>r. if 65 \<le> r \<and> r \<le> 90 then r + 32 else if r = 383 then 115
     else if r = 8490 then 107 else r) (runes k)"

definition decode_string :: "gojson \<Rightarrow> string \<Rightarrow> string option" where
  "decode_string v old = (case v of JStr s \<Rightarrow> Some s | JNull \<Rightarrow> Some old | _ \<Rightarrow> None)"

fun decode_members :: "(string \<times> gojson) list \<Rightarrow> MessageReq \<Rightarrow> MessageReq option" where
  "decode_members [] m = Some m"
| "decode_members ((k, v) # kvs) m =
     (if fold_key k = map of_char ''service'' then
        (case decode_string v (Service m) of None \<Rightarrow> None
         | Some s \<Rightarrow> decode_members kvs (m\<lparr>Service := s\<rparr>))
      else if fold_key k = map of_char ''action'' then
        (case decode_string v (Action m) of None \<Rightarrow> None
         | Some s \<Rightarrow> decode_members kvs (m\<lparr>Action := s\<rparr>))
      else if fold_key k = map of_char ''data'' then decode_members kvs (m\<lparr>Data := v\<rparr>)
      else decode_members kvs m)"

definition no_message :: MessageReq where
  "no_message = \<lparr>Service = [], Action = [], Data = JNull\<rparr>"

definition DecodeMessage :: "string \<Rightarrow> MessageReq res" where
  "DecodeMessage b = (case json_parse b of
     Some (JObj kvs) \<Rightarrow> (case decode_members kvs no_message of
        Some m \<Rightarrow> Inr m | None \<Rightarrow> Inl json_error)
   | Some JNull \<Rightarrow> Inr no_message
   | _ \<Rightarrow> Inl json_error)"

lemma EncodeWsMessage_ok: "json_valid (Data m) \<longleftrightarrow> is_ok (EncodeWsMessage m)"
proof -
  have "json_valid (response_json \<lparr>Code = 0, resp_Message = ''ok'', resp_Body = message_json m\<rparr>)
      \<longleftrightarrow> json_valid (Data m)"
    by (simp add: response_json_def message_json_def)
  then show ?thesis
    by (auto simp: EncodeWsMessage_def json_Marshal_def json_valid_def split: option.splits sum.splits)
qed

end
