(* ===== verification/Ws_Connection.thy ===== *)
theory Ws_Connection
  imports Ws_Base
begin

section \<open>ws: a connection\<close>

text \<open>
  \<open>pkg/ws/connection.go\<close> up to \<open>handlePing\<close>: the queues of a connection, its close, its
  heartbeat, and one round of the loops that read and write its socket. What the socket
  answers is an argument of the round. A \<open>select\<close> with several ready cases takes any of
  them: \<open>pick\<close> says whether it prefers the channel operation to the closed \<open>closeChan\<close>.
\<close>

text \<open>
  \<open>closeChan\<close> counts the calls of \<open>close\<close> on the channel; Go panics at the second.
  \<open>wsClosed\<close> is the state of the socket. Times are in nanoseconds.
\<close>

record Connection =
  connId :: "64 word"
  wsClosed :: bool
  inChan :: "Message chan"
  outChan :: "Message chan"
  closeChan :: nat
  isClosed :: bool
  lastHeartbeatTime :: int
  conn_rooms :: "string list"
  heartbeatInterval :: int
  inChannelSize :: int
  outChannelSize :: int

definition NewConnection :: "64 word \<Rightarrow> int \<Rightarrow> int \<Rightarrow> int \<Rightarrow> int \<Rightarrow> Connection option" where
  "NewConnection i now heartbeat inSize outSize =
     (case (make_chan inSize, make_chan outSize) of
        (Some ic, Some oc) \<Rightarrow> Some
          \<lparr>connId = i, wsClosed = False, inChan = ic, outChan = oc, closeChan = 0, isClosed = False,
           lastHeartbeatTime = now, conn_rooms = [], heartbeatInterval = heartbeat,
           inChannelSize = inSize, outChannelSize = outSize\<rparr>
      | _ \<Rightarrow> None)"

abbreviation closing :: "Connection \<Rightarrow> bool" where
  "closing c \<equiv> 0 < closeChan c"

subsection \<open>Close\<close>

definition Close :: "Connection \<Rightarrow> Connection" where
  "Close c =
     (let c = c\<lparr>wsClosed := True\<rparr> in
      if \<not> isClosed c then c\<lparr>isClosed := True, closeChan := closeChan c + 1\<rparr> else c)"

definition conn_ok :: "Connection \<Rightarrow> bool" where
  "conn_ok c \<longleftrightarrow> closeChan c = (if isClosed c then 1 else 0) \<and> (isClosed c \<longrightarrow> wsClosed c)
     \<and> distinct (conn_rooms c)"

lemma Close_sel [simp]:
  "connId (Close c) = connId c" "inChan (Close c) = inChan c" "outChan (Close c) = outChan c"
  "conn_rooms (Close c) = conn_rooms c" "isClosed (Close c)" "wsClosed (Close c)"
  "lastHeartbeatTime (Close c) = lastHeartbeatTime c" "heartbeatInterval (Close c) = heartbeatInterval c"
  by (simp_all add: Close_def Let_def)

lemma Close_ok: "conn_ok c \<Longrightarrow> conn_ok (Close c)"
  by (simp add: conn_ok_def Close_def Let_def)

subsection \<open>Queues\<close>

definition SendMessage :: "bool \<Rightarrow> Message \<Rightarrow> Connection \<times> Statistics
    \<Rightarrow> go_error option \<times> Connection \<times> Statistics" where
  "SendMessage pick m cs = (case cs of (c, s) \<Rightarrow>
     if can_send (outChan c) \<and> (\<not> closing c \<or> pick)
     then (None, c\<lparr>outChan := send m (outChan c)\<rparr>, SendMessageTotalIncr s)
     else if closing c then (Some ErrConnectionLoss, c, s)
     else (Some ErrSendMessageFull, c, SendMessageFailIncr s))"

text \<open>\<open>None\<close> when \<open>ReadMessage\<close> blocks.\<close>

definition ReadMessage :: "bool \<Rightarrow> Connection \<Rightarrow> (Message res \<times> Connection) option" where
  "ReadMessage pick c =
     (case recv (inChan c) of
        Some (m, ch) \<Rightarrow>
          if \<not> closing c \<or> pick then Some (Inr m, c\<lparr>inChan := ch\<rparr>)
          else Some (Inl ErrConnectionLoss, c)
      | None \<Rightarrow> if closing c then Some (Inl ErrConnectionLoss, c) else None)"

text \<open>One round of a loop: it goes on, it ends, or it blocks.\<close>

datatype 'a round = Again 'a | Done 'a | Blocked

definition readLoop :: "bool \<Rightarrow> (int \<times> string) res \<Rightarrow> Connection \<Rightarrow> Connection round" where
  "readLoop pick sock c = (case sock of
     Inl _ \<Rightarrow> Done (Close c)
   | Inr (t, d) \<Rightarrow>
       if can_send (inChan c) \<and> (\<not> closing c \<or> pick)
       then Again (c\<lparr>inChan := send (BuildWsMessage t d) (inChan c)\<rparr>)
       else if closing c then Done c else Blocked)"

text \<open>The round also says what it wrote to the socket; \<open>sock\<close> is the socket's answer.\<close>

definition writeLoop :: "bool \<Rightarrow> go_error option \<Rightarrow> Connection \<Rightarrow> Message option \<times> Connection round" where
  "writeLoop pick sock c =
     (case recv (outChan c) of
        Some (m, ch) \<Rightarrow>
          if \<not> closing c \<or> pick then
            (let c = c\<lparr>outChan := ch\<rparr> in
             (Some m, case sock of None \<Rightarrow> Again c | Some _ \<Rightarrow> Done (Close c)))
          else (None, Done c)
      | None \<Rightarrow> (None, if closing c then Done c else Blocked))"

subsection \<open>Heartbeat\<close>

definition second :: int where "second = 1000000000"

text \<open>\<open>time.Time.Sub\<close> saturates.\<close>

definition time_Sub :: "int \<Rightarrow> int \<Rightarrow> int" where
  "time_Sub t u = max (- (2 ^ 63)) (min MaxInt64 (t - u))"

definition IsAlive :: "int \<Rightarrow> Connection \<Rightarrow> bool" where
  "IsAlive now c \<longleftrightarrow> \<not> (isClosed c \<or> time_Sub now (lastHeartbeatTime c) > i64 (heartbeatInterval c * second))"

definition KeepAlive :: "int \<Rightarrow> Connection \<Rightarrow> Connection" where
  "KeepAlive now c = c\<lparr>lastHeartbeatTime := now\<rparr>"

text \<open>
  One round of the checker. It waits for its timer or for \<open>closeChan\<close>; \<open>fired\<close> says that the
  timer went off, at the time \<open>now\<close>.
\<close>

definition heartbeatChecker :: "bool \<Rightarrow> bool \<Rightarrow> int \<Rightarrow> Connection \<Rightarrow> Connection round" where
  "heartbeatChecker pick fired now c =
     (if fired \<and> (\<not> closing c \<or> pick) then
        (if \<not> IsAlive now c then Done (Close c) else Again c)
      else if closing c then Done c else Blocked)"

text \<open>
  \<open>gtime\<close> is not part of the repository: \<open>fmt\<close> is its \<open>Format\<close>. \<open>Unix\<close> rounds down.
  The clock is read twice.
\<close>

definition handlePing :: "(int \<Rightarrow> string) \<Rightarrow> int \<Rightarrow> int \<Rightarrow> Connection \<Rightarrow> (MessageRes option \<times> go_error option) \<times> Connection" where
  "handlePing fmt now now' c =
     (let c = KeepAlive now c;
          t = now' + i64 (heartbeatInterval c * second) in
      ((Some \<lparr>Service = ''ping'', Action = ''pong'', Data = JObj
          [(''session_id'', JInt (uint (connId c))), (''keep_alive'', JInt (heartbeatInterval c)),
           (''date_time'', JStr (fmt t)), (''expire'', JInt (t div second))]\<rparr>, None), c))"

lemmas conn_defs = SendMessage_def ReadMessage_def readLoop_def writeLoop_def heartbeatChecker_def
  KeepAlive_def handlePing_def

subsection \<open>What the operations keep\<close>

lemma SendMessage_ok:
  "conn_ok c \<Longrightarrow> SendMessage pick m (c, s) = (e, c', s') \<Longrightarrow>
   conn_ok c' \<and> connId c' = connId c \<and> conn_rooms c' = conn_rooms c \<and> isClosed c' = isClosed c"
  by (auto simp: conn_defs conn_ok_def split: if_splits)

text \<open>A message is queued, lost with the connection, or dropped and counted; nothing else.\<close>

lemma SendMessage_cases:
  assumes "SendMessage pick m (c, s) = (e, c', s')"
  obtains (sent) "e = None" "c' = c\<lparr>outChan := send m (outChan c)\<rparr>" "can_send (outChan c)"
      "s' = SendMessageTotalIncr s"
    | (lost) "e = Some ErrConnectionLoss" "c' = c" "s' = s" "closing c"
    | (full) "e = Some ErrSendMessageFull" "c' = c" "s' = SendMessageFailIncr s" "\<not> can_send (outChan c)"
        "\<not> closing c"
  using assms by (auto simp: SendMessage_def split: if_splits)

text \<open>
  The checker over a stretch of time: its timer fires \<open>h\<close> seconds after the last round, at
  each round it may find heartbeats, here none after \<open>lastHeartbeatTime\<close>.
\<close>

fun silent_rounds :: "nat \<Rightarrow> int \<Rightarrow> Connection \<Rightarrow> Connection round" where
  "silent_rounds 0 now c = Again c"
| "silent_rounds (Suc n) now c = (case heartbeatChecker True True (now + heartbeatInterval c * second) c of
     Again c' \<Rightarrow> silent_rounds n (now + heartbeatInterval c * second) c' | r \<Rightarrow> r)"

text \<open>A connection for the examples.\<close>

definition sample_conn :: Connection where
  "sample_conn = \<lparr>connId = 1, wsClosed = False, inChan = \<lparr>buf = [], cap = 1, waiting = 0\<rparr>,
     outChan = \<lparr>buf = [], cap = 1, waiting = 0\<rparr>, closeChan = 0, isClosed = False, lastHeartbeatTime = 5,
     conn_rooms = [], heartbeatInterval = 30, inChannelSize = 1, outChannelSize = 1\<rparr>"

end
