(* ===== verification/Ws_Bucket.thy ===== *)
theory Ws_Bucket
  imports Ws_Connection
begin

section \<open>ws: rooms and buckets\<close>

text \<open>
  \<open>pkg/ws/Room.go\<close> and \<open>pkg/ws/bucket.go\<close>. A pointer to a connection is an index into
  the list of all connections ever opened. Go's maps are association lists with distinct
  keys; a loop over a map takes the entries in any order, so the pushes take the order as an
  argument. Every operation holds the bucket's (or the room's) mutex from start to end and is
  one atomic function.
\<close>

type_synonym cref = nat
type_synonym conn_map = "(64 word \<times> cref) list"

record Room =
  roomId :: string
  members :: conn_map

definition InitRoom :: "string \<Rightarrow> Room" where
  "InitRoom r = \<lparr>roomId = r, members = []\<rparr>"

definition Room_Join :: "64 word \<Rightarrow> cref \<Rightarrow> Room \<Rightarrow> go_error option \<times> Room" where
  "Room_Join i c room =
     (if map_of (members room) i \<noteq> None then (Some ErrJoinRoomTwice, room)
      else (None, room\<lparr>members := AList.update i c (members room)\<rparr>))"

definition Room_Leave :: "64 word \<Rightarrow> Room \<Rightarrow> go_error option \<times> Room" where
  "Room_Leave i room =
     (if map_of (members room) i = None then (Some ErrNotInRoom, room)
      else (None, room\<lparr>members := AList.delete i (members room)\<rparr>))"

definition Room_Count :: "Room \<Rightarrow> nat" where
  "Room_Count room = length (members room)"

text \<open>
  Sending one message to several connections: each send has its own choice, and the errors
  are dropped.
\<close>

fun push_loop :: "Message \<Rightarrow> (bool \<times> cref) list \<Rightarrow> Connection list \<times> Statistics \<Rightarrow> Connection list \<times> Statistics" where
  "push_loop m [] hs = hs"
| "push_loop m ((pick, c) # cs) (h, s) =
     (case SendMessage pick m (h ! c, s) of (_, c', s') \<Rightarrow> push_loop m cs (h[c := c'], s'))"

definition enumerates :: "(bool \<times> cref) list \<Rightarrow> conn_map \<Rightarrow> bool" where
  "enumerates order m \<longleftrightarrow> mset (map snd order) = mset (map snd m)"

definition Room_Push :: "Message \<Rightarrow> (bool \<times> cref) list \<Rightarrow> Room \<Rightarrow> Connection list \<times> Statistics
    \<Rightarrow> (Connection list \<times> Statistics) option" where
  "Room_Push m order room hs = (if enumerates order (members room) then Some (push_loop m order hs) else None)"

subsection \<open>Buckets\<close>

record Bucket =
  index :: nat
  id2Conn :: conn_map
  rooms :: "(string \<times> Room) list"

definition InitBucket :: "nat \<Rightarrow> Bucket" where
  "InitBucket i = \<lparr>index = i, id2Conn = [], rooms = []\<rparr>"

definition Bucket_JoinRoom :: "string \<Rightarrow> 64 word \<Rightarrow> cref \<Rightarrow> Bucket \<times> Statistics
    \<Rightarrow> go_error option \<times> Bucket \<times> Statistics" where
  "Bucket_JoinRoom r i c bs = (case bs of (b, s) \<Rightarrow>
     (let (room, s) = (case map_of (rooms b) r of
            Some room \<Rightarrow> (room, s)
          | None \<Rightarrow> (InitRoom r, RoomCountIncr s));
          (e, room) = Room_Join i c room in
      (e, b\<lparr>rooms := AList.update r room (rooms b)\<rparr>, s)))"

definition Bucket_LeaveRoom :: "string \<Rightarrow> 64 word \<Rightarrow> Bucket \<times> Statistics
    \<Rightarrow> go_error option \<times> Bucket \<times> Statistics" where
  "Bucket_LeaveRoom r i bs = (case bs of (b, s) \<Rightarrow>
     (case map_of (rooms b) r of
        None \<Rightarrow> (Some ErrNotInRoom, b, s)
      | Some room \<Rightarrow>
          (let (e, room) = Room_Leave i room in
           if Room_Count room = 0
           then (e, b\<lparr>rooms := AList.delete r (rooms b)\<rparr>, RoomCountDesc s)
           else (e, b\<lparr>rooms := AList.update r room (rooms b)\<rparr>, s))))"

definition Bucket_AddConn :: "64 word \<Rightarrow> cref \<Rightarrow> Bucket \<Rightarrow> Bucket" where
  "Bucket_AddConn i c b = b\<lparr>id2Conn := AList.update i c (id2Conn b)\<rparr>"

definition Bucket_DelConn :: "64 word \<Rightarrow> Bucket \<Rightarrow> Bucket" where
  "Bucket_DelConn i b = b\<lparr>id2Conn := AList.delete i (id2Conn b)\<rparr>"

definition Bucket_DelConnByCID :: "64 word \<Rightarrow> Bucket \<times> Connection list \<Rightarrow> Bucket \<times> Connection list" where
  "Bucket_DelConnByCID i bh = (case bh of (b, h) \<Rightarrow>
     (case map_of (id2Conn b) i of
        Some c \<Rightarrow> (b\<lparr>id2Conn := AList.delete (connId (h ! c)) (id2Conn b)\<rparr>, h[c := Close (h ! c)])
      | None \<Rightarrow> (b, h)))"

definition Bucket_PushAll :: "Message \<Rightarrow> (bool \<times> cref) list \<Rightarrow> Bucket \<Rightarrow> Connection list \<times> Statistics
    \<Rightarrow> (Connection list \<times> Statistics) option" where
  "Bucket_PushAll m order b hs = (if enumerates order (id2Conn b) then Some (push_loop m order hs) else None)"

text \<open>The text of the error: \<open>\<close> the message in UTF-8.\<close>

definition err_push_failed :: go_error where
  "err_push_failed = new_error (concat (map utf8_encode
     [21457, 36865, 22833, 36133, 65292, 99, 111, 110, 110, 73, 100, 19981, 27491, 30830, 25110,
      119, 101, 98, 115, 111, 99, 107, 101, 116, 36830, 25509, 19981, 23384, 22312, 33]))"

definition Bucket_PushByCid :: "bool \<Rightarrow> 64 word \<Rightarrow> Message \<Rightarrow> Bucket \<Rightarrow> Connection list \<times> Statistics
    \<Rightarrow> go_error option \<times> Connection list \<times> Statistics" where
  "Bucket_PushByCid pick i m b hs = (case hs of (h, s) \<Rightarrow>
     (case map_of (id2Conn b) i of
        Some c \<Rightarrow> (case SendMessage pick m (h ! c, s) of (e, c', s') \<Rightarrow> (e, h[c := c'], s'))
      | None \<Rightarrow> (Some err_push_failed, h, s)))"

lemmas bucket_defs = Bucket_JoinRoom_def Bucket_LeaveRoom_def Bucket_AddConn_def Bucket_DelConn_def
  Bucket_DelConnByCID_def Bucket_PushAll_def Bucket_PushByCid_def
lemmas room_defs = InitRoom_def Room_Join_def Room_Leave_def Room_Count_def

subsection \<open>Membership\<close>

text \<open>
  Who is in which room of a bucket, and the shape of a bucket: distinct keys, no empty room,
  and a room under its own name.
\<close>

definition in_room :: "Bucket \<Rightarrow> string \<Rightarrow> 64 word \<Rightarrow> cref option" where
  "in_room b r i = (case map_of (rooms b) r of None \<Rightarrow> None | Some room \<Rightarrow> map_of (members room) i)"

definition room_ok :: "string \<Rightarrow> Room \<Rightarrow> bool" where
  "room_ok r room \<longleftrightarrow> roomId room = r \<and> members room \<noteq> [] \<and> distinct (map fst (members room))"

definition bucket_ok :: "Bucket \<Rightarrow> bool" where
  "bucket_ok b \<longleftrightarrow> distinct (map fst (id2Conn b)) \<and> distinct (map fst (rooms b))
     \<and> (\<forall>(r, room) \<in> set (rooms b). room_ok r room)"

lemma bucket_ok_room: "bucket_ok b \<Longrightarrow> map_of (rooms b) r = Some room \<Longrightarrow> room_ok r room"
  by (auto simp: bucket_ok_def dest!: map_of_SomeD)

lemma update_set: "set (AList.update k v al) \<subseteq> insert (k, v) (set al)"
  by (induction al) auto

lemma delete_set: "set (AList.delete k al) \<subseteq> set al"
  by (auto simp: AList.delete_eq)

lemma length_update: "map_of al k = None \<Longrightarrow> length (AList.update k v al) = Suc (length al)"
  by (induction al) (auto split: if_splits)

lemma length_update_same: "map_of al k = Some w \<Longrightarrow> length (AList.update k v al) = length al"
  by (induction al) (auto split: if_splits)

lemma length_delete: "distinct (map fst al) \<Longrightarrow> map_of al k = Some w \<Longrightarrow> Suc (length (AList.delete k al)) = length al"
proof (induction al)
  case Nil
  then show ?case by simp
next
  case (Cons p al)
  obtain a v where p: "p = (a, v)" by force
  show ?case
  proof (cases "a = k")
    case True
    with Cons.prems p have "AList.delete k al = al" by (simp add: delete_idem)
    with True p show ?thesis by simp
  next
    case False
    with Cons p show ?thesis by simp
  qed
qed

lemma distinct_update_keys: "distinct (map fst al) \<Longrightarrow> distinct (map fst (AList.update k v al))"
  by (rule distinct_update)

lemma update_nonempty [simp]: "AList.update k v al \<noteq> []"
  by (cases al) auto

subsection \<open>The operations on membership\<close>

lemma JoinRoom_effect:
  assumes ok: "bucket_ok b" and j: "Bucket_JoinRoom r i c (b, s) = (e, b', s')"
  shows "bucket_ok b'" "id2Conn b' = id2Conn b" "index b' = index b"
    "e = (if in_room b r i = None then None else Some ErrJoinRoomTwice)"
    "in_room b' = (\<lambda>r' i'. if r' = r \<and> i' = i \<and> in_room b r i = None then Some c else in_room b r' i')"
    "s' = s\<lparr>RoomCount := RoomCount s'\<rparr>"
    "RoomCount s = i64 x \<Longrightarrow> RoomCount s' = i64 (x + int (length (rooms b')) - int (length (rooms b)))"
proof -
  define room where "room = (case map_of (rooms b) r of Some room \<Rightarrow> room | None \<Rightarrow> InitRoom r)"
  define room' where "room' = snd (Room_Join i c room)"
  have b': "b' = b\<lparr>rooms := AList.update r room' (rooms b)\<rparr>"
    and e: "e = fst (Room_Join i c room)"
    and s': "s' = (if map_of (rooms b) r = None then RoomCountIncr s else s)"
    using j by (auto simp: Bucket_JoinRoom_def room_def room'_def split: option.splits prod.splits)
  have none: "map_of (members room) i = None \<longleftrightarrow> in_room b r i = None"
    by (auto simp: room_def in_room_def InitRoom_def split: option.splits)
  have d: "distinct (map fst (members room))" "roomId room = r" "in_room b r = map_of (members room)"
    using bucket_ok_room [OF ok, of r]
    by (auto simp: room_def room_ok_def InitRoom_def in_room_def fun_eq_iff split: option.splits)
  have rk: "room_ok r room'"
  proof (cases "map_of (members room) i = None")
    case True
    with d show ?thesis by (simp add: room_ok_def room'_def Room_Join_def distinct_update_keys)
  next
    case False
    then have "members room \<noteq> []" by auto
    with False d show ?thesis by (simp add: room_ok_def room'_def Room_Join_def)
  qed
  show "bucket_ok b'"
    using ok rk update_set [of r room' "rooms b"]
    by (auto simp: bucket_ok_def b' intro: distinct_update_keys)
  show "id2Conn b' = id2Conn b" "index b' = index b" by (simp_all add: b')
  show "e = (if in_room b r i = None then None else Some ErrJoinRoomTwice)"
    using none by (simp add: e Room_Join_def)
  have m': "map_of (members room') = (if map_of (members room) i = None
      then (map_of (members room))(i \<mapsto> c) else map_of (members room))"
    by (simp add: room'_def Room_Join_def update_conv')
  have "in_room b' r' = (if r' = r then map_of (members room') else in_room b r')" for r'
    by (simp add: in_room_def b' update_conv' fun_eq_iff)
  then show "in_room b' = (\<lambda>r' i'. if r' = r \<and> i' = i \<and> in_room b r i = None then Some c else in_room b r' i')"
    using none d(3) by (auto simp: fun_eq_iff m')
  show "s' = s\<lparr>RoomCount := RoomCount s'\<rparr>"
    by (simp add: s' RoomCountIncr_def)
  show "RoomCount s' = i64 (x + int (length (rooms b')) - int (length (rooms b)))" if "RoomCount s = i64 x"
    using that by (cases "map_of (rooms b) r")
      (simp_all add: b' s' length_update length_update_same RoomCountIncr_def add.commute)
qed

lemma LeaveRoom_effect:
  assumes ok: "bucket_ok b" and j: "Bucket_LeaveRoom r i (b, s) = (e, b', s')"
  shows "bucket_ok b'" "id2Conn b' = id2Conn b" "index b' = index b"
    "e = (if in_room b r i = None then Some ErrNotInRoom else None)"
    "in_room b' = (\<lambda>r' i'. if r' = r \<and> i' = i then None else in_room b r' i')"
    "s' = s\<lparr>RoomCount := RoomCount s'\<rparr>"
    "RoomCount s = i64 x \<Longrightarrow> RoomCount s' = i64 (x + int (length (rooms b')) - int (length (rooms b)))"
proof -
  have "bucket_ok b' \<and> id2Conn b' = id2Conn b \<and> index b' = index b \<and>
    e = (if in_room b r i = None then Some ErrNotInRoom else None) \<and>
    (\<forall>r' i'. in_room b' r' i' = (if r' = r \<and> i' = i then None else in_room b r' i')) \<and>
    s' = s\<lparr>RoomCount := RoomCount s'\<rparr> \<and>
    (RoomCount s = i64 x \<longrightarrow> RoomCount s' = i64 (x + int (length (rooms b')) - int (length (rooms b))))"
  proof (cases "map_of (rooms b) r")
    case None
    with j have "e = Some ErrNotInRoom" "b' = b" "s' = s" by (auto simp: Bucket_LeaveRoom_def)
    with ok None show ?thesis by (simp add: in_room_def)
  next
    case (Some room)
    note rk = bucket_ok_room [OF ok Some]
    define room' where "room' = snd (Room_Leave i room)"
    have m': "map_of (members room') = (map_of (members room))(i := None)"
      by (auto simp: room'_def Room_Leave_def delete_conv' fun_eq_iff)
    have d': "distinct (map fst (members room'))" "roomId room' = r"
      using rk by (auto simp: room'_def Room_Leave_def room_ok_def distinct_delete)
    have e: "e = (if in_room b r i = None then Some ErrNotInRoom else None)"
      using j Some by (auto simp: Bucket_LeaveRoom_def Room_Leave_def in_room_def split: if_splits)
    show ?thesis
    proof (cases "members room' = []")
      case True
      then have b': "b' = b\<lparr>rooms := AList.delete r (rooms b)\<rparr>" "s' = RoomCountDesc s"
        using j Some by (auto simp: Bucket_LeaveRoom_def room'_def Room_Count_def split: prod.splits)
      have "map_of (members room) i' = None" if "i' \<noteq> i" for i'
        using fun_cong [OF m', of i'] True that by simp
      then have "in_room b' r' i' = (if r' = r \<and> i' = i then None else in_room b r' i')" for r' i'
        using Some by (simp add: in_room_def b' delete_conv')
      moreover have "bucket_ok b'"
        using ok delete_set [of r "rooms b"] by (auto simp: bucket_ok_def b' distinct_delete)
      moreover have "int (length (rooms b')) = int (length (rooms b)) - 1"
        using length_delete [OF _ Some] ok by (simp add: b' bucket_ok_def)
      ultimately show ?thesis by (simp add: e b' RoomCountDesc_def)
    next
      case False
      then have b': "b' = b\<lparr>rooms := AList.update r room' (rooms b)\<rparr>" "s' = s"
        using j Some by (auto simp: Bucket_LeaveRoom_def room'_def Room_Count_def split: prod.splits)
      have "in_room b' r' i' = (if r' = r \<and> i' = i then None else in_room b r' i')" for r' i'
        using Some by (simp add: in_room_def b' update_conv' m')
      moreover have "bucket_ok b'"
        using ok update_set [of r room' "rooms b"] d' False
        by (auto simp: bucket_ok_def b' room_ok_def intro: distinct_update_keys)
      ultimately show ?thesis by (simp add: e b' length_update_same [OF Some])
    qed
  qed
  then show "bucket_ok b'" "id2Conn b' = id2Conn b" "index b' = index b"
    "e = (if in_room b r i = None then Some ErrNotInRoom else None)"
    "in_room b' = (\<lambda>r' i'. if r' = r \<and> i' = i then None else in_room b r' i')"
    "s' = s\<lparr>RoomCount := RoomCount s'\<rparr>"
    "RoomCount s = i64 x \<Longrightarrow> RoomCount s' = i64 (x + int (length (rooms b')) - int (length (rooms b)))"
    by blast+
qed

subsection \<open>What a client of the rooms relies on\<close>

text \<open>
  The contract of joining and leaving: it is a set of pairs of a room and an identifier, a
  second join and a leave without a join are refused and change nothing. A client's sequence
  of calls, errors ignored, acts on that set.
\<close>

datatype room_op = Join string cref | Leave string cref

fun room_ops :: "(string \<Rightarrow> cref \<Rightarrow> 'w \<Rightarrow> (go_error option \<times> 'w) option)
    \<Rightarrow> (string \<Rightarrow> cref \<Rightarrow> 'w \<Rightarrow> (go_error option \<times> 'w) option) \<Rightarrow> room_op list \<Rightarrow> 'w \<Rightarrow> 'w option" where
  "room_ops join leave [] w = Some w"
| "room_ops join leave (Join r c # ops) w =
     (case join r c w of None \<Rightarrow> None | Some (_, w) \<Rightarrow> room_ops join leave ops w)"
| "room_ops join leave (Leave r c # ops) w =
     (case leave r c w of None \<Rightarrow> None | Some (_, w) \<Rightarrow> room_ops join leave ops w)"

fun set_ops :: "(cref \<Rightarrow> 64 word) \<Rightarrow> room_op list \<Rightarrow> (string \<times> 64 word) set \<Rightarrow> (string \<times> 64 word) set" where
  "set_ops f [] m = m"
| "set_ops f (Join r c # ops) m = set_ops f ops (insert (r, f c) m)"
| "set_ops f (Leave r c # ops) m = set_ops f ops (m - {(r, f c)})"

locale room_registry =
  fixes ok :: "'w \<Rightarrow> bool" and ident :: "'w \<Rightarrow> cref \<Rightarrow> 64 word" and mem :: "'w \<Rightarrow> (string \<times> 64 word) set"
    and join :: "string \<Rightarrow> cref \<Rightarrow> 'w \<Rightarrow> (go_error option \<times> 'w) option"
    and leave :: "string \<Rightarrow> cref \<Rightarrow> 'w \<Rightarrow> (go_error option \<times> 'w) option"
  assumes join_law: "ok w \<Longrightarrow> \<exists>w'. join r c w
        = Some (if (r, ident w c) \<in> mem w then Some ErrJoinRoomTwice else None, w')
      \<and> ok w' \<and> ident w' = ident w \<and> mem w' = insert (r, ident w c) (mem w)"
    and leave_law: "ok w \<Longrightarrow> \<exists>w'. leave r c w
        = Some (if (r, ident w c) \<in> mem w then None else Some ErrNotInRoom, w')
      \<and> ok w' \<and> ident w' = ident w \<and> mem w' = mem w - {(r, ident w c)}"
begin

lemma ops_refine_set:
  "ok w \<Longrightarrow> \<exists>w'. room_ops join leave ops w = Some w' \<and> ok w' \<and> ident w' = ident w
     \<and> mem w' = set_ops (ident w) ops (mem w)"
proof (induction ops arbitrary: w)
  case Nil
  then show ?case by simp
next
  case (Cons op ops)
  show ?case
  proof (cases op)
    case (Join r c)
    obtain w1 where w1: "join r c w = Some (if (r, ident w c) \<in> mem w then Some ErrJoinRoomTwice else None, w1)"
        "ok w1" "ident w1 = ident w" "mem w1 = insert (r, ident w c) (mem w)"
      using join_law [OF Cons.prems] by blast
    from Cons.IH [OF w1(2)] show ?thesis by (simp add: Join w1)
  next
    case (Leave r c)
    obtain w1 where w1: "leave r c w = Some (if (r, ident w c) \<in> mem w then None else Some ErrNotInRoom, w1)"
        "ok w1" "ident w1 = ident w" "mem w1 = mem w - {(r, ident w c)}"
      using leave_law [OF Cons.prems] by blast
    from Cons.IH [OF w1(2)] show ?thesis by (simp add: Leave w1)
  qed
qed

end

end
