(* ===== verification/Ws_ConnMgr.thy ===== *)
theory Ws_ConnMgr
  imports Ws_Bucket
begin

section \<open>ws: the connection manager\<close>

text \<open>
  \<open>pkg/ws/connMgr.go\<close>: the buckets, the job queues and the dispatcher. The manager's state
  is extended with what the package keeps in globals and on the heap: the counters and all
  connections ever opened. A function that may panic returns an option; the only panic is the
  division by the number of buckets when there is none.
\<close>

record PushJob =
  pushType :: int
  job_room :: string
  job_Msg :: MessageReq
  wsMsg :: "Message option"

record ConnManager =
  buckets :: "Bucket list"
  jobChan :: "PushJob chan list"
  dispatchChan :: "PushJob chan"

record hub = ConnManager +
  conns :: "Connection list"
  stats :: Statistics

text \<open>
  The dispatcher goroutine: waiting for a job, about to serve the buckets in the list, or
  blocked on the queue of the first one.
\<close>

datatype dworker = Idle | Next PushJob "nat list" | Sending PushJob nat "nat list"

text \<open>The manager with its job workers per bucket and its dispatchers.\<close>

definition NewConnMgr :: "WsConfig \<Rightarrow> (ConnManager \<times> nat \<times> dworker list) option" where
  "NewConnMgr cfg =
     (if BucketCount cfg < 0 then None
      else case make_chan (DispatchChannelSize cfg) of
        None \<Rightarrow> None
      | Some dc \<Rightarrow>
          (let n = nat (BucketCount cfg) in
           case (if n = 0 then Some [] else map_option (replicate n) (make_chan (BucketJobChannelSize cfg))) of
             None \<Rightarrow> None
           | Some jc \<Rightarrow> Some
               (\<lparr>buckets = map InitBucket [0..<n], jobChan = jc, dispatchChan = dc\<rparr>,
                nat (BucketJobWorkerCount cfg), replicate (nat (DispatchWorkerCount cfg)) Idle)))"

subsection \<open>Buckets of connections\<close>

definition GetBucketByCID :: "64 word \<Rightarrow> ('a) ConnManager_scheme \<Rightarrow> nat option" where
  "GetBucketByCID i m = (if buckets m = [] then None else Some (unat i mod length (buckets m)))"

definition GetBucket :: "cref \<Rightarrow> hub \<Rightarrow> nat option" where
  "GetBucket c w = GetBucketByCID (connId (conns w ! c)) w"

definition JoinRoom :: "string \<Rightarrow> cref \<Rightarrow> hub \<Rightarrow> (go_error option \<times> hub) option" where
  "JoinRoom r c w = (case GetBucket c w of None \<Rightarrow> None
     | Some k \<Rightarrow> (case Bucket_JoinRoom r (connId (conns w ! c)) c (buckets w ! k, stats w) of
         (e, b, s) \<Rightarrow> Some (e, w\<lparr>buckets := (buckets w)[k := b], stats := s\<rparr>)))"

definition LeaveRoom :: "string \<Rightarrow> cref \<Rightarrow> hub \<Rightarrow> (go_error option \<times> hub) option" where
  "LeaveRoom r c w = (case GetBucket c w of None \<Rightarrow> None
     | Some k \<Rightarrow> (case Bucket_LeaveRoom r (connId (conns w ! c)) (buckets w ! k, stats w) of
         (e, b, s) \<Rightarrow> Some (e, w\<lparr>buckets := (buckets w)[k := b], stats := s\<rparr>)))"

definition AddConn :: "cref \<Rightarrow> hub \<Rightarrow> hub option" where
  "AddConn c w = (case GetBucket c w of None \<Rightarrow> None
     | Some k \<Rightarrow> Some (w\<lparr>buckets := (buckets w)[k := Bucket_AddConn (connId (conns w ! c)) c (buckets w ! k)],
         stats := OnlineConnectionsIncr (stats w)\<rparr>))"

definition DelConn :: "cref \<Rightarrow> hub \<Rightarrow> hub option" where
  "DelConn c w = (case GetBucket c w of None \<Rightarrow> None
     | Some k \<Rightarrow> Some (w\<lparr>buckets := (buckets w)[k := Bucket_DelConn (connId (conns w ! c)) (buckets w ! k)],
         stats := OnlineConnectionsDesc (stats w)\<rparr>))"

definition DelConnByCID :: "64 word \<Rightarrow> hub \<Rightarrow> hub option" where
  "DelConnByCID i w = (case GetBucketByCID i w of None \<Rightarrow> None
     | Some k \<Rightarrow> (case Bucket_DelConnByCID i (buckets w ! k, conns w) of
         (b, h) \<Rightarrow> Some (w\<lparr>buckets := (buckets w)[k := b], conns := h\<rparr>)))"

subsection \<open>Pushing\<close>

definition PushAll :: "MessageReq \<Rightarrow> hub \<Rightarrow> go_error option \<times> hub" where
  "PushAll m w =
     (let job = \<lparr>pushType = PushTypeAll, job_room = [], job_Msg = m, wsMsg = None\<rparr> in
      if can_send (dispatchChan w)
      then (None, w\<lparr>dispatchChan := send job (dispatchChan w), stats := DispatchPendingIncr (stats w)\<rparr>)
      else (Some ErrDispatchChannelFull, w\<lparr>stats := DispatchFailIncr (stats w)\<rparr>))"

definition PushRoom :: "string \<Rightarrow> MessageReq \<Rightarrow> hub \<Rightarrow> go_error option \<times> hub" where
  "PushRoom r m w =
     (let job = \<lparr>pushType = PushTypeRoom, job_room = r, job_Msg = m, wsMsg = None\<rparr> in
      if can_send (dispatchChan w)
      then (None, w\<lparr>dispatchChan := send job (dispatchChan w), stats := DispatchTotalIncr 1 (stats w)\<rparr>)
      else (Some ErrDispatchChannelFull, w\<lparr>stats := DispatchFailNumIncr 1 (stats w)\<rparr>))"

definition PushByCID :: "bool \<Rightarrow> 64 word \<Rightarrow> MessageReq \<Rightarrow> hub \<Rightarrow> (go_error option \<times> hub) option" where
  "PushByCID pick i m w = (case GetBucketByCID i w of None \<Rightarrow> None
     | Some k \<Rightarrow> (case EncodeWsMessage m of
         Inl e \<Rightarrow> Some (Some e, w)
       | Inr msg \<Rightarrow> (case Bucket_PushByCid pick i msg (buckets w ! k) (conns w, stats w) of
           (e, h, s) \<Rightarrow> Some (e, w\<lparr>conns := h, stats := s\<rparr>))))"

subsection \<open>The workers\<close>

text \<open>
  One step of a dispatcher, \<open>None\<close> when it blocks. It counts a job as pending for a bucket
  before it waits for the bucket's queue.
\<close>

definition dispatchWorkerMain :: "dworker \<times> hub \<Rightarrow> (dworker \<times> hub) option" where
  "dispatchWorkerMain dw = (case dw of
     (Idle, w) \<Rightarrow> (case recv (dispatchChan w) of
        None \<Rightarrow> None
      | Some (job, ch) \<Rightarrow>
          (let w = w\<lparr>dispatchChan := ch, stats := DispatchPendingDesc (stats w)\<rparr> in
           case EncodeWsMessage (job_Msg job) of
             Inl _ \<Rightarrow> Some (Idle, w)
           | Inr msg \<Rightarrow> Some (Next (job\<lparr>wsMsg := Some msg\<rparr>) [0..<length (buckets w)], w)))
   | (Next job [], w) \<Rightarrow> Some (Idle, w)
   | (Next job (k # ks), w) \<Rightarrow> Some (Sending job k ks, w\<lparr>stats := PushJobPendingIncr (stats w)\<rparr>)
   | (Sending job k ks, w) \<Rightarrow>
       (if can_send (jobChan w ! k)
        then Some (Next job ks, w\<lparr>jobChan := (jobChan w)[k := send job (jobChan w ! k)]\<rparr>)
        else None))"

text \<open>
  One step of a worker of bucket \<open>k\<close>. A job in a bucket's queue always carries its message,
  as the invariant of the system says; without one there is no step.
\<close>

definition jobWorkerMain :: "nat \<Rightarrow> (bool \<times> cref) list \<Rightarrow> hub \<Rightarrow> (PushJob \<times> hub) option" where
  "jobWorkerMain k order w = (case recv (jobChan w ! k) of
     None \<Rightarrow> None
   | Some (job, ch) \<Rightarrow>
       (let w = w\<lparr>jobChan := (jobChan w)[k := ch], stats := PushJobPendingDesc (stats w)\<rparr> in
        if pushType job = PushTypeAll then
          (case wsMsg job of None \<Rightarrow> None
           | Some msg \<Rightarrow> (case Bucket_PushAll msg order (buckets w ! k) (conns w, stats w) of
               None \<Rightarrow> None
             | Some (h, s) \<Rightarrow> Some (job, w\<lparr>conns := h, stats := s\<rparr>)))
        else Some (job, w)))"

subsection \<open>Sums over the buckets\<close>

lemma sum_list_list_update:
  fixes f :: "'a \<Rightarrow> int"
  shows "k < length xs \<Longrightarrow> sum_list (map f (xs[k := x])) = sum_list (map f xs) + f x - f (xs ! k)"
  by (induction xs arbitrary: k) (auto split: nat.splits)

definition total_rooms :: "Bucket list \<Rightarrow> int" where
  "total_rooms bs = sum_list (map (\<lambda>b. int (length (rooms b))) bs)"

lemma total_rooms_update:
  "k < length bs \<Longrightarrow> total_rooms (bs[k := b]) = total_rooms bs + int (length (rooms b)) - int (length (rooms (bs ! k)))"
  unfolding total_rooms_def by (rule sum_list_list_update)

subsection \<open>The manager as one registry\<close>

text \<open>
  The buckets are one registry split by identifier: the connection under an identifier and
  the connection an identifier stands for in a room.
\<close>

definition bucket_of :: "('a) ConnManager_scheme \<Rightarrow> 64 word \<Rightarrow> Bucket" where
  "bucket_of w i = buckets w ! (unat i mod length (buckets w))"

definition registered :: "('a) ConnManager_scheme \<Rightarrow> 64 word \<Rightarrow> cref option" where
  "registered w i = map_of (id2Conn (bucket_of w i)) i"

definition member :: "('a) ConnManager_scheme \<Rightarrow> string \<Rightarrow> 64 word \<Rightarrow> cref option" where
  "member w r i = in_room (bucket_of w i) r i"

text \<open>
  The shape of the manager: every bucket is well formed and holds its own identifiers only,
  and the room counter counts the rooms.
\<close>

definition own_ids :: "nat \<Rightarrow> nat \<Rightarrow> Bucket \<Rightarrow> bool" where
  "own_ids n k b \<longleftrightarrow> (\<forall>i c. map_of (id2Conn b) i = Some c \<longrightarrow> unat i mod n = k)
     \<and> (\<forall>r i c. in_room b r i = Some c \<longrightarrow> unat i mod n = k)"

definition mgr_ok :: "hub \<Rightarrow> bool" where
  "mgr_ok w \<longleftrightarrow> buckets w \<noteq> [] \<and> length (jobChan w) = length (buckets w)
     \<and> (\<forall>k < length (buckets w). bucket_ok (buckets w ! k) \<and> own_ids (length (buckets w)) k (buckets w ! k))
     \<and> RoomCount (stats w) = i64 (total_rooms (buckets w))"

lemma mgr_okD:
  assumes "mgr_ok w"
  shows "buckets w \<noteq> []" "unat i mod length (buckets w) < length (buckets w)"
    "bucket_ok (bucket_of w i)" "own_ids (length (buckets w)) (unat i mod length (buckets w)) (bucket_of w i)"
    "RoomCount (stats w) = i64 (total_rooms (buckets w))"
    "GetBucketByCID i w = Some (unat i mod length (buckets w))"
  using assms by (auto simp: mgr_ok_def bucket_of_def GetBucketByCID_def)

text \<open>Changing one bucket: what must be shown for it, and what the registry becomes.\<close>

lemma mgr_ok_update:
  assumes ok: "mgr_ok w" and b: "bucket_ok b" "own_ids (length (buckets w)) k b"
    and k: "k = unat (i :: 64 word) mod length (buckets w)"
    and w': "buckets w' = (buckets w)[k := b]" "length (jobChan w') = length (jobChan w)"
    and rc: "RoomCount (stats w') = i64 (total_rooms (buckets w) + int (length (rooms b)) - int (length (rooms (buckets w ! k))))"
  shows "mgr_ok w'"
proof -
  have "k < length (buckets w)" using mgr_okD(2) [OF ok, of i] k by simp
  with assms show ?thesis
    by (auto simp: mgr_ok_def total_rooms_update nth_list_update)
qed

lemma bucket_of_update:
  assumes "buckets w \<noteq> []" "buckets w' = (buckets w)[unat i mod length (buckets w) := b]"
  shows "bucket_of w' j = (if unat j mod length (buckets w) = unat i mod length (buckets w) then b else bucket_of w j)"
  using assms by (simp add: bucket_of_def nth_list_update)

subsection \<open>What the operations do to the registry\<close>

definition same_queues :: "hub \<Rightarrow> hub \<Rightarrow> bool" where
  "same_queues w w' \<longleftrightarrow> dispatchChan w' = dispatchChan w \<and> jobChan w' = jobChan w
     \<and> DispatchPending (stats w') = DispatchPending (stats w)
     \<and> PushJobPending (stats w') = PushJobPending (stats w)
     \<and> length (buckets w') = length (buckets w)"

lemma own_ids_room:
  assumes "own_ids n k b" "unat i mod n = k" "id2Conn b' = id2Conn b"
    "\<And>r' i'. in_room b' r' i' \<noteq> None \<Longrightarrow> i' \<noteq> i \<Longrightarrow> in_room b r' i' \<noteq> None"
  shows "own_ids n k b'"
  using assms unfolding own_ids_def by (metis option.distinct(1) option.exhaust)

lemma room_op_effect:
  assumes ok: "mgr_ok w" and k: "k = unat i mod length (buckets w)"
    and b: "bucket_ok b" "id2Conn b = id2Conn (buckets w ! k)"
    and m: "in_room b = (\<lambda>r' i'. if r' = r \<and> i' = i then v else in_room (buckets w ! k) r' i')"
    and s: "s = (stats w)\<lparr>RoomCount := RoomCount s\<rparr>"
    and rc: "RoomCount s = i64 (total_rooms (buckets w) + int (length (rooms b)) - int (length (rooms (buckets w ! k))))"
    and w': "w' = w\<lparr>buckets := (buckets w)[k := b], stats := s\<rparr>"
  shows "mgr_ok w'" "conns w' = conns w" "registered w' = registered w"
    "member w' = (\<lambda>r' i'. if r' = r \<and> i' = i then v else member w r' i')"
    "OnlineConnections (stats w') = OnlineConnections (stats w)" "same_queues w w'"
proof -
  note d = mgr_okD [OF ok]
  have bk: "bucket_of w i = buckets w ! k" by (simp add: bucket_of_def k)
  have own: "own_ids (length (buckets w)) k b"
  proof (rule own_ids_room [OF _ _ b(2)])
    show "own_ids (length (buckets w)) k (buckets w ! k)" using d(4) [of i] by (simp add: bk k)
    show "unat i mod length (buckets w) = k" by (simp add: k)
  next
    fix r' i' assume "in_room b r' i' \<noteq> None" "i' \<noteq> i"
    then show "in_room (buckets w ! k) r' i' \<noteq> None" by (simp add: m)
  qed
  show "mgr_ok w'"
    by (rule mgr_ok_update [OF ok b(1) own k]) (simp_all add: w' rc)
  have bu: "bucket_of w' j = (if unat j mod length (buckets w) = k then b else bucket_of w j)" for j
    unfolding k by (rule bucket_of_update [OF d(1)]) (simp add: w' k)
  have bj: "bucket_of w j = buckets w ! k" if "unat j mod length (buckets w) = k" for j
    by (simp add: bucket_of_def that)
  show "registered w' = registered w"
    by (simp add: fun_eq_iff registered_def bu b(2) bj)
  have "member w' r' i' = (if r' = r \<and> i' = i then v else member w r' i')" for r' i'
    by (cases "unat i' mod length (buckets w) = k") (auto simp: member_def bu m bj k)
  then show "member w' = (\<lambda>r' i'. if r' = r \<and> i' = i then v else member w r' i')"
    by (simp add: fun_eq_iff)
  show "conns w' = conns w" by (simp add: w')
  show "OnlineConnections (stats w') = OnlineConnections (stats w)"
    using arg_cong [OF s, of OnlineConnections] by (simp add: w')
  show "same_queues w w'"
    using arg_cong [OF s, of DispatchPending] arg_cong [OF s, of PushJobPending]
    by (simp add: same_queues_def w')
qed

lemma hub_JoinRoom:
  assumes ok: "mgr_ok w" and i: "i = connId (conns w ! c)"
  obtains w' where "JoinRoom r c w = Some (if member w r i = None then None else Some ErrJoinRoomTwice, w')"
    "mgr_ok w'" "conns w' = conns w" "registered w' = registered w"
    "member w' = (\<lambda>r' i'. if r' = r \<and> i' = i \<and> member w r i = None then Some c else member w r' i')"
    "OnlineConnections (stats w') = OnlineConnections (stats w)" "same_queues w w'"
proof -
  define k where "k = unat i mod length (buckets w)"
  obtain e b s where j: "Bucket_JoinRoom r i c (buckets w ! k, stats w) = (e, b, s)" by (metis prod_cases3)
  let ?w' = "w\<lparr>buckets := (buckets w)[k := b], stats := s\<rparr>"
  have g: "GetBucket c w = Some k" using mgr_okD(6) [OF ok, of i] by (simp add: GetBucket_def i k_def)
  have bk: "bucket_of w i = buckets w ! k" by (simp add: bucket_of_def k_def)
  note eff = JoinRoom_effect [OF mgr_okD(3) [OF ok, of i, unfolded bk] j]
  let ?v = "if member w r i = None then Some c else member w r i"
  have m: "in_room b = (\<lambda>r' i'. if r' = r \<and> i' = i then ?v else in_room (buckets w ! k) r' i')"
    by (auto simp: eff(5) fun_eq_iff member_def bk)
  note ro = room_op_effect [OF ok k_def eff(1,2) m eff(6) eff(7) [OF mgr_okD(5) [OF ok]] refl]
  show ?thesis
  proof (rule that [of ?w'])
    show "JoinRoom r c w = Some (if member w r i = None then None else Some ErrJoinRoomTwice, ?w')"
      using j eff(4) by (simp add: JoinRoom_def g flip: i) (simp add: member_def bk)
    show "member ?w' = (\<lambda>r' i'. if r' = r \<and> i' = i \<and> member w r i = None then Some c else member w r' i')"
      by (auto simp: ro(4) fun_eq_iff)
  qed (fact ro)+
qed

lemma hub_LeaveRoom:
  assumes ok: "mgr_ok w" and i: "i = connId (conns w ! c)"
  obtains w' where "LeaveRoom r c w = Some (if member w r i = None then Some ErrNotInRoom else None, w')"
    "mgr_ok w'" "conns w' = conns w" "registered w' = registered w"
    "member w' = (\<lambda>r' i'. if r' = r \<and> i' = i then None else member w r' i')"
    "OnlineConnections (stats w') = OnlineConnections (stats w)" "same_queues w w'"
proof -
  define k where "k = unat i mod length (buckets w)"
  obtain e b s where j: "Bucket_LeaveRoom r i (buckets w ! k, stats w) = (e, b, s)" by (metis prod_cases3)
  let ?w' = "w\<lparr>buckets := (buckets w)[k := b], stats := s\<rparr>"
  have g: "GetBucket c w = Some k" using mgr_okD(6) [OF ok, of i] by (simp add: GetBucket_def i k_def)
  have bk: "bucket_of w i = buckets w ! k" by (simp add: bucket_of_def k_def)
  note eff = LeaveRoom_effect [OF mgr_okD(3) [OF ok, of i, unfolded bk] j]
  note ro = room_op_effect [OF ok k_def eff(1,2,5,6) eff(7) [OF mgr_okD(5) [OF ok]] refl]
  show ?thesis
  proof (rule that [of ?w'])
    show "LeaveRoom r c w = Some (if member w r i = None then Some ErrNotInRoom else None, ?w')"
      using j eff(4) by (simp add: LeaveRoom_def g flip: i) (simp add: member_def bk)
  qed (fact ro)+
qed

text \<open>The operations on the connections themselves leave the rooms alone.\<close>

lemma conn_op_effect:
  assumes ok: "mgr_ok w" and k: "k = unat i mod length (buckets w)"
    and b: "rooms b = rooms (buckets w ! k)" "map_of (id2Conn b) = (map_of (id2Conn (buckets w ! k)))(i := v)"
      "distinct (map fst (id2Conn b))"
    and w': "buckets w' = (buckets w)[k := b]" "RoomCount (stats w') = RoomCount (stats w)"
      "length (jobChan w') = length (jobChan w)"
  shows "mgr_ok w'" "registered w' = (registered w)(i := v)" "member w' = member w"
proof -
  note d = mgr_okD [OF ok]
  have bk: "bucket_of w i = buckets w ! k" by (simp add: bucket_of_def k)
  have inr: "in_room b = in_room (buckets w ! k)" by (simp add: in_room_def b(1) fun_eq_iff)
  have own: "own_ids (length (buckets w)) k b"
    using d(4) [of i] by (auto simp: own_ids_def bk k [symmetric] b(2) inr)
  have ok': "bucket_ok b" using d(3) [of i] b by (simp add: bucket_ok_def bk)
  show "mgr_ok w'"
    by (rule mgr_ok_update [OF ok ok' own k w'(1,3)]) (simp add: w'(2) b(1) d(5))
  have bu: "bucket_of w' j = (if unat j mod length (buckets w) = k then b else bucket_of w j)" for j
    unfolding k by (rule bucket_of_update [OF d(1)]) (simp add: w' k)
  have bj: "bucket_of w j = buckets w ! k" if "unat j mod length (buckets w) = k" for j
    by (simp add: bucket_of_def that)
  show "registered w' = (registered w)(i := v)"
    by (rule ext) (auto simp: registered_def bu b(2) bj k)
  show "member w' = member w"
    by (simp add: fun_eq_iff member_def bu inr bj)
qed

lemma hub_AddConn:
  assumes ok: "mgr_ok w" and i: "i = connId (conns w ! c)"
  obtains w' where "AddConn c w = Some w'" "mgr_ok w'" "conns w' = conns w"
    "registered w' = (registered w)(i \<mapsto> c)" "member w' = member w"
    "stats w' = OnlineConnectionsIncr (stats w)" "same_queues w w'"
proof -
  define k where "k = unat i mod length (buckets w)"
  let ?b = "Bucket_AddConn i c (buckets w ! k)"
  let ?w' = "w\<lparr>buckets := (buckets w)[k := ?b], stats := OnlineConnectionsIncr (stats w)\<rparr>"
  have g: "GetBucket c w = Some k" using mgr_okD(6) [OF ok, of i] by (simp add: GetBucket_def i k_def)
  have "bucket_ok (buckets w ! k)" using mgr_okD(3) [OF ok, of i] by (simp add: bucket_of_def k_def)
  then have "distinct (map fst (id2Conn ?b))"
    by (simp add: Bucket_AddConn_def distinct_update_keys bucket_ok_def)
  then have "mgr_ok ?w'" "registered ?w' = (registered w)(i \<mapsto> c)" "member ?w' = member w"
    by (intro conn_op_effect [OF ok k_def, of ?b "Some c"];
        simp add: Bucket_AddConn_def update_conv' OnlineConnectionsIncr_def)+
  moreover have "same_queues w ?w'" by (simp add: same_queues_def OnlineConnectionsIncr_def)
  ultimately show ?thesis by (intro that [of ?w']) (simp_all add: AddConn_def g flip: i)
qed

lemma hub_DelConn:
  assumes ok: "mgr_ok w" and i: "i = connId (conns w ! c)"
  obtains w' where "DelConn c w = Some w'" "mgr_ok w'" "conns w' = conns w"
    "registered w' = (registered w)(i := None)" "member w' = member w"
    "stats w' = OnlineConnectionsDesc (stats w)" "same_queues w w'"
proof -
  define k where "k = unat i mod length (buckets w)"
  let ?b = "Bucket_DelConn i (buckets w ! k)"
  let ?w' = "w\<lparr>buckets := (buckets w)[k := ?b], stats := OnlineConnectionsDesc (stats w)\<rparr>"
  have g: "GetBucket c w = Some k" using mgr_okD(6) [OF ok, of i] by (simp add: GetBucket_def i k_def)
  have "bucket_ok (buckets w ! k)" using mgr_okD(3) [OF ok, of i] by (simp add: bucket_of_def k_def)
  then have "distinct (map fst (id2Conn ?b))"
    by (simp add: Bucket_DelConn_def distinct_delete bucket_ok_def)
  then have "mgr_ok ?w'" "registered ?w' = (registered w)(i := None)" "member ?w' = member w"
    by (intro conn_op_effect [OF ok k_def, of ?b None];
        simp add: Bucket_DelConn_def delete_conv' OnlineConnectionsDesc_def)+
  moreover have "same_queues w ?w'" by (simp add: same_queues_def OnlineConnectionsDesc_def)
  ultimately show ?thesis by (intro that [of ?w']) (simp_all add: DelConn_def g flip: i)
qed

lemma hub_DelConnByCID:
  assumes ok: "mgr_ok w" and i: "\<And>c. registered w i = Some c \<Longrightarrow> connId (conns w ! c) = i"
  obtains w' where "DelConnByCID i w = Some w'" "mgr_ok w'"
    "conns w' = (case registered w i of None \<Rightarrow> conns w | Some c \<Rightarrow> (conns w)[c := Close (conns w ! c)])"
    "registered w' = (registered w)(i := None)" "member w' = member w" "stats w' = stats w" "same_queues w w'"
proof -
  define k where "k = unat i mod length (buckets w)"
  have g: "GetBucketByCID i w = Some k" using mgr_okD(6) [OF ok, of i] by (simp add: k_def)
  have bk: "bucket_of w i = buckets w ! k" by (simp add: bucket_of_def k_def)
  have bok: "bucket_ok (buckets w ! k)" using mgr_okD(3) [OF ok, of i] by (simp add: bk)
  show ?thesis
  proof (cases "registered w i")
    case None
    then have "DelConnByCID i w = Some w"
      by (simp add: DelConnByCID_def g Bucket_DelConnByCID_def registered_def bk)
    moreover have "registered w = (registered w)(i := None)" using None by (simp add: fun_eq_iff)
    ultimately show ?thesis using ok None by (intro that [of w]) (simp_all add: same_queues_def)
  next
    case (Some c)
    let ?b = "(buckets w ! k)\<lparr>id2Conn := AList.delete i (id2Conn (buckets w ! k))\<rparr>"
    let ?w' = "w\<lparr>buckets := (buckets w)[k := ?b], conns := (conns w)[c := Close (conns w ! c)]\<rparr>"
    have "DelConnByCID i w = Some ?w'"
      using Some i [OF Some] by (simp add: DelConnByCID_def g Bucket_DelConnByCID_def registered_def bk)
    moreover have "mgr_ok ?w'" "registered ?w' = (registered w)(i := None)" "member ?w' = member w"
      using bok by (intro conn_op_effect [OF ok k_def, of ?b None];
        simp add: delete_conv' distinct_delete bucket_ok_def)+
    ultimately show ?thesis using Some by (intro that [of ?w']) (simp_all add: same_queues_def)
  qed
qed

subsection \<open>The manager provides the rooms\<close>

definition room_members :: "hub \<Rightarrow> (string \<times> 64 word) set" where
  "room_members w = {(r, i). member w r i \<noteq> None}"

interpretation rooms: room_registry mgr_ok "\<lambda>w c. connId (conns w ! c)" room_members JoinRoom LeaveRoom
proof
  fix w :: hub and r c
  assume ok: "mgr_ok w"
  let ?i = "connId (conns w ! c)"
  show "\<exists>w'. JoinRoom r c w = Some (if (r, ?i) \<in> room_members w then Some ErrJoinRoomTwice else None, w')
      \<and> mgr_ok w' \<and> (\<lambda>c. connId (conns w' ! c)) = (\<lambda>c. connId (conns w ! c))
      \<and> room_members w' = insert (r, ?i) (room_members w)"
    by (rule hub_JoinRoom [OF ok refl, of r c]) (auto simp: room_members_def split: if_splits)
  show "\<exists>w'. LeaveRoom r c w = Some (if (r, ?i) \<in> room_members w then None else Some ErrNotInRoom, w')
      \<and> mgr_ok w' \<and> (\<lambda>c. connId (conns w' ! c)) = (\<lambda>c. connId (conns w ! c))
      \<and> room_members w' = room_members w - {(r, ?i)}"
    by (rule hub_LeaveRoom [OF ok refl, of r c]) (auto simp: room_members_def split: if_splits)
qed

end
