(* ===== verification/Ws_Router.thy ===== *)
theory Ws_Router
  imports Ws_ConnMgr
begin

section \<open>ws: requests\<close>

text \<open>
  The rest of \<open>pkg/ws/connection.go\<close> with \<open>types.go\<close>, \<open>socket.go\<close> and \<open>api.go\<close>: joining
  and leaving rooms, the services an application plugs in, their dispatcher, the round of the
  request loop, and the way a connection is opened and given up. \<open>gconv.Struct\<close> is not part
  of the repository: \<open>conv\<close> says which room it finds in the data of a request.
\<close>

subsection \<open>Joining and leaving\<close>

definition set_rooms :: "cref \<Rightarrow> string list \<Rightarrow> hub \<Rightarrow> hub" where
  "set_rooms c rs w = w\<lparr>conns := (conns w)[c := (conns w ! c)\<lparr>conn_rooms := rs\<rparr>]\<rparr>"

definition handleJoin :: "(gojson \<Rightarrow> string res) \<Rightarrow> int \<Rightarrow> MessageReq \<Rightarrow> cref \<Rightarrow> hub
    \<Rightarrow> ((MessageRes option \<times> go_error option) \<times> hub) option" where
  "handleJoin conv maxJoinRoom req c w =
     (case conv (Data req) of
        Inl e \<Rightarrow> Some ((None, Some e), w)
      | Inr r \<Rightarrow>
          if r = [] then Some ((None, Some ErrRoomIdInvalid), w)
          else if int (length (conn_rooms (conns w ! c))) \<ge> maxJoinRoom then Some ((None, None), w)
          else if List.member (conn_rooms (conns w ! c)) r then Some ((None, None), w)
          else (case JoinRoom r c w of
              None \<Rightarrow> None
            | Some (Some e, w) \<Rightarrow> Some ((None, Some e), w)
            | Some (None, w) \<Rightarrow> Some ((None, None), set_rooms c (r # conn_rooms (conns w ! c)) w)))"

definition handleLeave :: "(gojson \<Rightarrow> string res) \<Rightarrow> MessageReq \<Rightarrow> cref \<Rightarrow> hub
    \<Rightarrow> ((MessageRes option \<times> go_error option) \<times> hub) option" where
  "handleLeave conv req c w =
     (case conv (Data req) of
        Inl e \<Rightarrow> Some ((None, Some e), w)
      | Inr r \<Rightarrow>
          if r = [] then Some ((None, Some ErrRoomIdInvalid), w)
          else if \<not> List.member (conn_rooms (conns w ! c)) r then Some ((None, None), w)
          else (case LeaveRoom r c w of
              None \<Rightarrow> None
            | Some (Some e, w) \<Rightarrow> Some ((None, Some e), w)
            | Some (None, w) \<Rightarrow> Some ((None, None), set_rooms c (remove1 r (conn_rooms (conns w ! c))) w)))"

text \<open>
  \<open>leaveAll\<close> runs over the rooms of the connection in any order; errors are logged. One
  turn of its loop, and the loop for a given order.
\<close>

definition leave_one :: "string \<Rightarrow> cref \<Rightarrow> hub \<Rightarrow> hub option" where
  "leave_one r c w = (case LeaveRoom r c w of
     None \<Rightarrow> None
   | Some (_, w) \<Rightarrow> Some (set_rooms c (remove1 r (conn_rooms (conns w ! c))) w))"

fun leaveAll :: "string list \<Rightarrow> cref \<Rightarrow> hub \<Rightarrow> hub option" where
  "leaveAll [] c w = Some w"
| "leaveAll (r # rs) c w = (case leave_one r c w of None \<Rightarrow> None | Some w \<Rightarrow> leaveAll rs c w)"

definition set_conn :: "cref \<Rightarrow> Connection \<Rightarrow> hub \<Rightarrow> hub" where
  "set_conn c x w = w\<lparr>conns := (conns w)[c := x]\<rparr>"

text \<open>The end of \<open>RouterHandle\<close>, from the label \<open>ERR\<close> on.\<close>

definition router_exit :: "string list \<Rightarrow> cref \<Rightarrow> hub \<Rightarrow> hub option" where
  "router_exit order c w =
     (case leaveAll order c (set_conn c (Close (conns w ! c)) w) of
        None \<Rightarrow> None | Some w \<Rightarrow> DelConn c w)"

subsection \<open>Services\<close>

text \<open>
  What an application plugs in: optional hooks and the six actions. They act on the
  application's state; a hook may change the message it is given, which the code passes by
  pointer.
\<close>

type_synonym 's handler = "MessageReq \<Rightarrow> 's \<Rightarrow> (MessageRes option \<times> go_error option) \<times> 's"

record 's Actions =
  ActPost :: "'s handler"
  ActDelete :: "'s handler"
  ActUpdate :: "'s handler"
  ActGet :: "'s handler"
  ActJoin :: "'s handler"
  ActLeave :: "'s handler"

record 's WsService =
  SrvBefore :: "(MessageReq \<Rightarrow> 's \<Rightarrow> (go_error option \<times> MessageReq) \<times> 's) option"
  SrvHandler :: "'s handler option"
  SrvAfter :: "(MessageRes \<Rightarrow> 's \<Rightarrow> (go_error option \<times> MessageRes) \<times> 's) option"
  SrvAction :: "'s Actions option"

definition empty_res :: MessageRes where
  "empty_res = \<lparr>Service = [], Action = [], Data = JNull\<rparr>"

text \<open>A service whose \<open>Action\<close> is nil does nothing for any of the six actions.\<close>

definition action_of :: "string \<Rightarrow> ('s Actions \<Rightarrow> 's handler) option" where
  "action_of a = map_of
     [(''join'', ActJoin), (''leave'', ActLeave), (''post'', ActPost), (''delete'', ActDelete),
      (''update'', ActUpdate), (''get'', ActGet)] a"

definition Handle :: "'s WsService \<Rightarrow> 's handler" where
  "Handle h req a =
     (case action_of (Action req) of
        None \<Rightarrow> ((None, Some (new_error (''default service '' @ Service req @ '' not found action: ''
                   @ Action req @ '' ''))), a)
      | Some act \<Rightarrow>
          (let ((res, e), a) = (case SrvAction h of None \<Rightarrow> ((None, None), a) | Some o' \<Rightarrow> act o' req a) in
           ((Some (case res of None \<Rightarrow> empty_res | Some r \<Rightarrow> r), e), a)))"

text \<open>
  The after hook is deferred: it runs once the result is fixed, its error is only logged, and
  what it changes of a response that exists is seen by the caller.
\<close>

definition after_hook :: "'s WsService \<Rightarrow> MessageRes option \<Rightarrow> 's \<Rightarrow> MessageRes option \<times> 's" where
  "after_hook h res a = (case SrvAfter h of
     None \<Rightarrow> (res, a)
   | Some f \<Rightarrow>
       (case f (case res of None \<Rightarrow> empty_res | Some r \<Rightarrow> r) a of
          ((_, r'), a) \<Rightarrow> (map_option (\<lambda>_. r') res, a)))"

definition dispatcher :: "(string \<rightharpoonup> 's WsService) \<Rightarrow> 's handler" where
  "dispatcher routers msg a =
     (case routers (Service msg) of
        None \<Rightarrow> ((None, Some (new_error (''Not found service: '' @ Service msg))), a)
      | Some h \<Rightarrow>
          (let ((e, msg), a) = (case SrvBefore h of None \<Rightarrow> ((None, msg), a) | Some f \<Rightarrow> f msg a) in
           case e of Some e \<Rightarrow> ((None, Some e), a)
           | None \<Rightarrow>
               (let ((res, e), a) = (case SrvHandler h of Some f \<Rightarrow> f msg a | None \<Rightarrow> Handle h msg a) in
                case e of Some e \<Rightarrow> ((None, Some e), a)
                | None \<Rightarrow> (let (res, a) = after_hook h res a in ((res, None), a)))))"

subsection \<open>The request loop\<close>

definition res_json :: "MessageRes option \<Rightarrow> gojson" where
  "res_json r = (case r of None \<Rightarrow> JNull | Some m \<Rightarrow> message_json m)"

definition build_response :: "MessageRes option \<times> go_error option \<Rightarrow> Response" where
  "build_response re = (case re of (r, e) \<Rightarrow>
     (case e of
        Some e \<Rightarrow> \<lparr>Code = 500, resp_Message = err_msg e, resp_Body = JObj []\<rparr>
      | None \<Rightarrow> \<lparr>Code = 0, resp_Message = ''ok'', resp_Body = res_json r\<rparr>))"

text \<open>
  What a round of the loop depends on: the choice of the final send, two readings of the
  clock and the time format.
\<close>

record env =
  choice :: bool
  clock :: int
  clock2 :: int
  fmt :: "int \<Rightarrow> string"

text \<open>
  One message: whether the loop goes on, and the connection, the counters and the
  application's state after it.
\<close>

definition router_round :: "env \<Rightarrow> (string \<rightharpoonup> 's WsService) \<Rightarrow> Message
    \<Rightarrow> Connection \<times> Statistics \<times> 's \<Rightarrow> bool \<times> Connection \<times> Statistics \<times> 's" where
  "router_round en routers m st = (case st of (c, s, a) \<Rightarrow>
     if MsgType m \<noteq> TextMessage then (True, c, s, a)
     else (case DecodeMessage (MsgData m) of
       Inl _ \<Rightarrow> (False, c, s, a)
     | Inr req \<Rightarrow>
         (let (re, c, a) =
            (if Service req = ''ping''
             then (case handlePing (fmt en) (clock en) (clock2 en) c of (re, c) \<Rightarrow> (re, c, a))
             else (case dispatcher routers req a of (re, a) \<Rightarrow> (re, c, a))) in
          case json_Marshal (response_json (build_response re)) of
            Inl _ \<Rightarrow> (False, c, s, a)
          | Inr b \<Rightarrow>
              (case SendMessage (choice en) \<lparr>MsgType = TextMessage, MsgData = b\<rparr> (c, s) of
                 (e, c, s) \<Rightarrow> (e = None \<or> e = Some ErrSendMessageFull, c, s, a)))))"

text \<open>
  The loop over the messages \<open>ReadMessage\<close> returns; it leaves the rest unread when it ends.
  The \<open>bool\<close> is false when the loop went to \<open>ERR\<close>.
\<close>

fun router_loop :: "(string \<rightharpoonup> 's WsService) \<Rightarrow> (env \<times> Message res) list
    \<Rightarrow> Connection \<times> Statistics \<times> 's \<Rightarrow> bool \<times> Connection \<times> Statistics \<times> 's" where
  "router_loop routers [] st = (True, st)"
| "router_loop routers ((en, Inl e) # ms) st = (False, st)"
| "router_loop routers ((en, Inr m) # ms) st =
     (case router_round en routers m st of (go, st) \<Rightarrow> if go then router_loop routers ms st else (False, st))"

subsection \<open>Instances\<close>

text \<open>
  \<open>NewSocket\<close> shares the package's counters; \<open>serverId\<close> is the counter the identifiers of
  connections are drawn from.
\<close>

definition open_connection :: "WsConfig \<Rightarrow> int \<Rightarrow> 64 word \<times> hub \<Rightarrow> (64 word \<times> hub) option" where
  "open_connection cfg now iw = (case iw of (i, w) \<Rightarrow>
     (case NewConnection (i + 1) now (HeartbeatInterval cfg) (InChannelSize cfg) (OutChannelSize cfg) of
        None \<Rightarrow> None
      | Some x \<Rightarrow> map_option (Pair (i + 1)) (AddConn (length (conns w)) (w\<lparr>conns := conns w @ [x]\<rparr>))))"

definition NewSocket :: "WsConfig \<Rightarrow> Statistics \<Rightarrow> (hub \<times> nat \<times> dworker list) option" where
  "NewSocket cfg s = map_option (\<lambda>(m, jw, dw).
     (\<lparr>buckets = buckets m, jobChan = jobChan m, dispatchChan = dispatchChan m, conns = [], stats = s\<rparr>, jw, dw))
     (NewConnMgr cfg)"

definition PushSession :: "bool \<Rightarrow> 64 word \<Rightarrow> MessageReq \<Rightarrow> hub \<Rightarrow> (go_error option \<times> hub) option" where
  "PushSession pick i m w = PushByCID pick i m w"

definition CloseSession :: "64 word \<Rightarrow> hub \<Rightarrow> (go_error option \<times> hub) option" where
  "CloseSession i w = map_option (Pair None) (DelConnByCID i w)"

subsection \<open>Every request is answered\<close>

text \<open>
  A round either ends the loop, or leaves a message that is not text without an answer, or
  answers a text message: the answer is queued and counted, or dropped and counted.
\<close>

lemma router_round_cases:
  assumes "router_round en routers m (c, s, a) = (go, c', s', a')" "\<not> closing c"
  obtains (over) "\<not> go"
    | (skipped) "go" "MsgType m \<noteq> TextMessage" "c' = c" "s' = s" "a' = a"
    | (answered) b t where "go" "MsgType m = TextMessage" "\<not> closing c'"
      "outChan c' = send \<lparr>MsgType = TextMessage, MsgData = b\<rparr> (outChan c)"
      "c' = c\<lparr>lastHeartbeatTime := t, outChan := outChan c'\<rparr>" "s' = SendMessageTotalIncr s"
    | (dropped) t where "go" "MsgType m = TextMessage" "\<not> can_send (outChan c)"
      "c' = c\<lparr>lastHeartbeatTime := t\<rparr>" "s' = SendMessageFailIncr s"
proof (cases "go \<and> MsgType m = TextMessage")
  case False
  with assms(1) that(1,2) show ?thesis by (auto simp: router_round_def split: if_splits)
next
  case True
  obtain req where req: "DecodeMessage (MsgData m) = Inr req"
    using assms(1) True by (cases "DecodeMessage (MsgData m)") (auto simp: router_round_def)
  define h where "h = (if Service req = ''ping''
      then (case handlePing (fmt en) (clock en) (clock2 en) c of (re, c) \<Rightarrow> (re, c, a))
      else (case dispatcher routers req a of (re, a) \<Rightarrow> (re, c, a)))"
  obtain re c1 a1 where h': "h = (re, c1, a1)" by (metis prod_cases3)
  have c1: "\<exists>t. c1 = c\<lparr>lastHeartbeatTime := t\<rparr>"
  proof (cases "Service req = ''ping''")
    case True
    with h' have "c1 = c\<lparr>lastHeartbeatTime := clock en\<rparr>"
      by (simp add: h_def handlePing_def KeepAlive_def Let_def)
    then show ?thesis by blast
  next
    case False
    with h' have "c1 = c\<lparr>lastHeartbeatTime := lastHeartbeatTime c\<rparr>"
      by (simp add: h_def split: prod.splits)
    then show ?thesis by blast
  qed
  obtain b where b: "json_Marshal (response_json (build_response re)) = Inr b"
    using assms(1) True req h'
    by (cases "json_Marshal (response_json (build_response re))") (auto simp: router_round_def Let_def simp flip: h_def)
  obtain e where sm: "SendMessage (choice en) \<lparr>MsgType = TextMessage, MsgData = b\<rparr> (c1, s) = (e, c', s')"
    using assms(1) True req h' b
    by (auto simp: router_round_def Let_def simp flip: h_def split: prod.splits)
  obtain t where t: "c1 = c\<lparr>lastHeartbeatTime := t\<rparr>" using c1 by blast
  from sm show ?thesis
  proof (cases rule: SendMessage_cases)
    case sent
    then show ?thesis using True assms(2) t by (intro answered [of b t]) simp_all
  next
    case lost
    then show ?thesis using assms(2) t by simp
  next
    case full
    then show ?thesis using True t by (intro dropped [of t]) simp_all
  qed
qed

definition texts :: "(env \<times> Message res) list \<Rightarrow> int" where
  "texts ms = int (length (filter (\<lambda>(en, r). case r of Inl _ \<Rightarrow> False | Inr m \<Rightarrow> MsgType m = TextMessage) ms))"

lemma texts_simps [simp]: "texts [] = 0"
  "texts ((en, Inr m) # ms) = (if MsgType m = TextMessage then 1 else 0) + texts ms"
  by (simp_all add: texts_def)


definition sample_env :: env where
  "sample_env = \<lparr>choice = True, clock = 9, clock2 = 9, fmt = (\<lambda>_. [])\<rparr>"

definition sample_ping :: Message where
  "sample_ping = \<lparr>MsgType = TextMessage, MsgData = ''{'' @ CHR 0x22 # ''service'' @ CHR 0x22 # '':''
     @ CHR 0x22 # ''ping'' @ CHR 0x22 # ''}''\<rparr>"


end
