(* ===== verification/Ws_Hub.thy ===== *)
theory Ws_Hub
  imports Ws_Router
begin

section \<open>ws: the running system\<close>

text \<open>
  All goroutines of an instance, interleaved: the handlers of the connections with their
  phase, the loops of each connection, the dispatchers and job workers, and the calls an
  application makes. One step is one operation on a channel, or one operation under a mutex.
  The invariant says how the buckets, the rooms, the connections and the counters agree.
\<close>

text \<open>The phase of a connection's handler: serving requests, past \<open>ERR\<close>, returned.\<close>

datatype phase = Serving | Leaving | Gone

text \<open>
  \<open>accepted\<close> lists the jobs that \<open>PushAll\<close> and \<open>PushRoom\<close> took, and \<open>handled\<close> the jobs the
  workers of a bucket have finished; no code reads them.
\<close>

record sys =
  net :: hub
  serverId :: "64 word"
  phases :: "phase list"
  dispatchers :: "dworker list"
  accepted :: "PushJob list"
  handled :: "(nat \<times> PushJob) list"

text \<open>What may happen to one connection.\<close>

inductive conn_event :: "Connection \<times> Statistics \<Rightarrow> Connection \<times> Statistics \<Rightarrow> bool" where
  ev_send: "SendMessage pick m (c, s) = (e, c', s') \<Longrightarrow> conn_event (c, s) (c', s')"
| ev_read: "ReadMessage pick c = Some (r, c') \<Longrightarrow> conn_event (c, s) (c', s)"
| ev_readLoop: "readLoop pick sock c = r \<Longrightarrow> r = Again c' \<or> r = Done c' \<Longrightarrow> conn_event (c, s) (c', s)"
| ev_writeLoop: "writeLoop pick err c = (out, r) \<Longrightarrow> r = Again c' \<or> r = Done c' \<Longrightarrow> conn_event (c, s) (c', s)"
| ev_heartbeat: "heartbeatChecker pick fired now c = r \<Longrightarrow> r = Again c' \<or> r = Done c' \<Longrightarrow> conn_event (c, s) (c', s)"
| ev_ping: "handlePing fm now now' c = (r, c') \<Longrightarrow> conn_event (c, s) (c', s)"
| ev_close: "conn_event (c, s) (Close c, s)"
| ev_wait: "conn_event (c, s) (c\<lparr>inChan := block (inChan c)\<rparr>, s)"
| ev_idle: "conn_event (c, s) (c\<lparr>outChan := block (outChan c)\<rparr>, s)"

inductive ws_step :: "WsConfig \<Rightarrow> (gojson \<Rightarrow> string res) \<Rightarrow> sys \<Rightarrow> sys \<Rightarrow> bool" for cfg conv where
  arriving: "open_connection cfg now (serverId y, net y) = Some (i, w) \<Longrightarrow>
    ws_step cfg conv y (y\<lparr>serverId := i, net := w, phases := phases y @ [Serving]\<rparr>)"
| traffic: "c < length (conns (net y)) \<Longrightarrow> conn_event (conns (net y) ! c, stats (net y)) (x, s) \<Longrightarrow>
    ws_step cfg conv y (y\<lparr>net := (net y)\<lparr>conns := (conns (net y))[c := x], stats := s\<rparr>\<rparr>)"
| joining: "c < length (conns (net y)) \<Longrightarrow> phases y ! c = Serving \<Longrightarrow>
    handleJoin conv mx req c (net y) = Some (r, w) \<Longrightarrow> ws_step cfg conv y (y\<lparr>net := w\<rparr>)"
| leaving: "c < length (conns (net y)) \<Longrightarrow> phases y ! c = Serving \<Longrightarrow>
    handleLeave conv req c (net y) = Some (r, w) \<Longrightarrow> ws_step cfg conv y (y\<lparr>net := w\<rparr>)"
| failing: "c < length (conns (net y)) \<Longrightarrow> phases y ! c = Serving \<Longrightarrow>
    ws_step cfg conv y (y\<lparr>net := set_conn c (Close (conns (net y) ! c)) (net y), phases := (phases y)[c := Leaving]\<rparr>)"
| parting: "c < length (conns (net y)) \<Longrightarrow> phases y ! c = Leaving \<Longrightarrow> r \<in> set (conn_rooms (conns (net y) ! c)) \<Longrightarrow>
    leave_one r c (net y) = Some w \<Longrightarrow> ws_step cfg conv y (y\<lparr>net := w\<rparr>)"
| returning: "c < length (conns (net y)) \<Longrightarrow> phases y ! c = Leaving \<Longrightarrow> conn_rooms (conns (net y) ! c) = [] \<Longrightarrow>
    DelConn c (net y) = Some w \<Longrightarrow> ws_step cfg conv y (y\<lparr>net := w, phases := (phases y)[c := Gone]\<rparr>)"
| kicking: "CloseSession i (net y) = Some (e, w) \<Longrightarrow> ws_step cfg conv y (y\<lparr>net := w\<rparr>)"
| to_one: "PushSession pick i m (net y) = Some (e, w) \<Longrightarrow> ws_step cfg conv y (y\<lparr>net := w\<rparr>)"
| to_all: "PushAll m (net y) = (e, w) \<Longrightarrow>
    ws_step cfg conv y (y\<lparr>net := w, accepted := accepted y @ (if e = None
      then [\<lparr>pushType = PushTypeAll, job_room = [], job_Msg = m, wsMsg = None\<rparr>] else [])\<rparr>)"
| to_room: "PushRoom r m (net y) = (e, w) \<Longrightarrow>
    ws_step cfg conv y (y\<lparr>net := w, accepted := accepted y @ (if e = None
      then [\<lparr>pushType = PushTypeRoom, job_room = r, job_Msg = m, wsMsg = None\<rparr>] else [])\<rparr>)"
| dispatching: "k < length (dispatchers y) \<Longrightarrow> dispatchWorkerMain (dispatchers y ! k, net y) = Some (d, w) \<Longrightarrow>
    ws_step cfg conv y (y\<lparr>net := w, dispatchers := (dispatchers y)[k := d]\<rparr>)"
| working: "k < length (buckets (net y)) \<Longrightarrow> jobWorkerMain k order (net y) = Some (job, w) \<Longrightarrow>
    ws_step cfg conv y (y\<lparr>net := w, handled := handled y @ [(k, job)]\<rparr>)"
| waiting_dispatch: "ws_step cfg conv y (y\<lparr>net := (net y)\<lparr>dispatchChan := block (dispatchChan (net y))\<rparr>\<rparr>)"
| waiting_job: "k < length (buckets (net y)) \<Longrightarrow>
    ws_step cfg conv y (y\<lparr>net := (net y)\<lparr>jobChan := (jobChan (net y))[k := block (jobChan (net y) ! k)]\<rparr>\<rparr>)"

inductive_cases conn_eventE: "conn_event (c, s) (c', s')"

definition ws_init :: "WsConfig \<Rightarrow> 64 word \<Rightarrow> sys \<Rightarrow> bool" where
  "ws_init cfg i y \<longleftrightarrow> (case NewSocket cfg zero_stats of
     None \<Rightarrow> False
   | Some (w, jw, ds) \<Rightarrow> buckets w \<noteq> [] \<and>
       y = \<lparr>net = w, serverId = i, phases = [], dispatchers = ds, accepted = [], handled = []\<rparr>)"

definition ws_reachable :: "WsConfig \<Rightarrow> (gojson \<Rightarrow> string res) \<Rightarrow> 64 word \<Rightarrow> sys \<Rightarrow> bool" where
  "ws_reachable cfg conv i y \<longleftrightarrow> (\<exists>y0. ws_init cfg i y0 \<and> (ws_step cfg conv)\<^sup>*\<^sup>* y0 y)"

lemma ws_reachable_step: "ws_reachable cfg conv i y \<Longrightarrow> ws_step cfg conv y y' \<Longrightarrow> ws_reachable cfg conv i y'"
  unfolding ws_reachable_def by (meson rtranclp.rtrancl_into_rtrancl)

lemma ws_reachable_induct [consumes 1, case_names init step]:
  assumes "ws_reachable cfg conv i y" and "\<And>y. ws_init cfg i y \<Longrightarrow> P y"
    and "\<And>y y'. P y \<Longrightarrow> ws_step cfg conv y y' \<Longrightarrow> P y'"
  shows "P y"
proof -
  obtain y0 where y0: "ws_init cfg i y0" "(ws_step cfg conv)\<^sup>*\<^sup>* y0 y"
    using assms(1) by (auto simp: ws_reachable_def)
  show ?thesis by (rule rtranclp_induct [OF y0(2)]) (use assms y0 in blast)+
qed

subsection \<open>What events leave of a connection\<close>

definition conn_frame :: "Connection \<Rightarrow> Connection \<Rightarrow> bool" where
  "conn_frame c c' \<longleftrightarrow> connId c' = connId c \<and> conn_rooms c' = conn_rooms c
     \<and> (isClosed c \<longrightarrow> isClosed c') \<and> (conn_ok c \<longrightarrow> conn_ok c')"

definition stats_frame :: "Statistics \<Rightarrow> Statistics \<Rightarrow> bool" where
  "stats_frame s s' \<longleftrightarrow> OnlineConnections s' = OnlineConnections s \<and> RoomCount s' = RoomCount s
     \<and> DispatchPending s' = DispatchPending s \<and> PushJobPending s' = PushJobPending s"

lemma stats_frame_refl [simp]: "stats_frame s s"
  by (simp add: stats_frame_def)

lemma stats_frame_trans: "stats_frame s s' \<Longrightarrow> stats_frame s' s'' \<Longrightarrow> stats_frame s s''"
  by (simp add: stats_frame_def)

lemma conn_frame_refl [simp]: "conn_frame c c"
  by (simp add: conn_frame_def)

lemma conn_frame_trans: "conn_frame c c' \<Longrightarrow> conn_frame c' c'' \<Longrightarrow> conn_frame c c''"
  by (auto simp: conn_frame_def)

lemma conn_frame_Close [simp]: "conn_frame c (Close c)"
  by (simp add: conn_frame_def Close_ok)

lemma conn_frame_upd [simp]:
  "conn_frame c (c\<lparr>inChan := x\<rparr>)" "conn_frame c (c\<lparr>outChan := y\<rparr>)"
  "conn_frame c (c\<lparr>lastHeartbeatTime := t\<rparr>)" "conn_frame c (Close (c\<lparr>outChan := y\<rparr>))"
  by (simp_all add: conn_frame_def conn_ok_def Close_ok [unfolded conn_ok_def])

lemma stats_frame_send [simp]:
  "stats_frame s (SendMessageTotalIncr s)" "stats_frame s (SendMessageFailIncr s)"
  by (simp_all add: stats_frame_def stats_defs)

lemma SendMessage_frame:
  "SendMessage pick m (c, s) = (e, c', s') \<Longrightarrow> conn_frame c c' \<and> stats_frame s s'"
  by (erule SendMessage_cases) simp_all

lemma ReadMessage_frame: "ReadMessage pick c = Some (r, c') \<Longrightarrow> conn_frame c c'"
  by (auto simp: ReadMessage_def split: option.splits if_splits)

lemma readLoop_frame: "readLoop pick sock c = r \<Longrightarrow> r = Again c' \<or> r = Done c' \<Longrightarrow> conn_frame c c'"
  by (auto simp: readLoop_def split: sum.splits if_splits)

lemma writeLoop_frame: "writeLoop pick err c = (out, r) \<Longrightarrow> r = Again c' \<or> r = Done c' \<Longrightarrow> conn_frame c c'"
  by (auto simp: writeLoop_def Let_def split: option.splits if_splits)

lemma heartbeat_frame: "heartbeatChecker pick fired now c = r \<Longrightarrow> r = Again c' \<or> r = Done c' \<Longrightarrow> conn_frame c c'"
  by (auto simp: heartbeatChecker_def split: if_splits)

lemma ping_frame: "handlePing fm now now' c = (r, c') \<Longrightarrow> conn_frame c c'"
  by (auto simp: handlePing_def KeepAlive_def Let_def)

lemmas event_frames = ReadMessage_frame readLoop_frame writeLoop_frame heartbeat_frame ping_frame

lemma conn_event_frame:
  assumes "conn_event (c, s) (c', s')"
  shows "conn_frame c c' \<and> stats_frame s s'"
  using assms by (rule conn_eventE) (simp_all add: SendMessage_frame event_frames)

lemma push_loop_frame:
  "push_loop m cs (h, s) = (h', s') \<Longrightarrow>
   length h' = length h \<and> (\<forall>c < length h. conn_frame (h ! c) (h' ! c)) \<and> stats_frame s s'"
proof (induction m cs "(h, s)" arbitrary: h s rule: push_loop.induct)
  case (1 m)
  then show ?case by simp
next
  case (2 m pick c cs h s)
  obtain e x t where x: "SendMessage pick m (h ! c, s) = (e, x, t)" by (metis prod_cases3)
  note fr = SendMessage_frame [OF x]
  have ih: "length h' = length (h[c := x]) \<and> (\<forall>d < length (h[c := x]). conn_frame (h[c := x] ! d) (h' ! d)) \<and> stats_frame t s'"
    using "2.hyps" [OF x [symmetric] refl] "2.prems" x by simp
  have "conn_frame (h ! d) (h[c := x] ! d)" if "d < length h" for d
    using fr that by (cases "d = c") simp_all
  with ih fr show ?case by (auto intro: conn_frame_trans stats_frame_trans)
qed

subsection \<open>The invariant\<close>

text \<open>
  Identifiers are handed out in order, so they differ until the counter has gone round. A
  registered connection is live and stands under its own identifier; somebody is in a room
  exactly when its connection says so; the connection of a handler that ended is closed and
  in no room; and the online counter counts the live handlers.
\<close>

definition ids_ok :: "64 word \<Rightarrow> sys \<Rightarrow> bool" where
  "ids_ok i y \<longleftrightarrow> length (phases y) = length (conns (net y))
     \<and> serverId y = i + word_of_nat (length (conns (net y)))
     \<and> (\<forall>j < length (conns (net y)). connId (conns (net y) ! j) = i + word_of_nat (Suc j))"

definition live :: "sys \<Rightarrow> int" where
  "live y = sum_list (map (\<lambda>p. if p = Gone then 0 else 1) (phases y))"

definition registered_ok :: "sys \<Rightarrow> bool" where
  "registered_ok y \<longleftrightarrow> (\<forall>i c. registered (net y) i = Some c \<longrightarrow>
     c < length (conns (net y)) \<and> connId (conns (net y) ! c) = i \<and> phases y ! c \<noteq> Gone)"

definition rooms_ok :: "sys \<Rightarrow> bool" where
  "rooms_ok y \<longleftrightarrow> (\<forall>r i c. member (net y) r i = Some c \<longleftrightarrow>
     c < length (conns (net y)) \<and> connId (conns (net y) ! c) = i \<and> r \<in> set (conn_rooms (conns (net y) ! c)))"

definition phases_ok :: "sys \<Rightarrow> bool" where
  "phases_ok y \<longleftrightarrow> (\<forall>c < length (conns (net y)). conn_ok (conns (net y) ! c)
     \<and> (phases y ! c \<noteq> Serving \<longrightarrow> isClosed (conns (net y) ! c))
     \<and> (phases y ! c = Gone \<longrightarrow> conn_rooms (conns (net y) ! c) = []))"

definition registry_ok :: "sys \<Rightarrow> bool" where
  "registry_ok y \<longleftrightarrow> registered_ok y \<and> rooms_ok y \<and> phases_ok y
     \<and> OnlineConnections (stats (net y)) = i64 (live y)"

definition sys_ok :: "64 word \<Rightarrow> sys \<Rightarrow> bool" where
  "sys_ok i y \<longleftrightarrow> mgr_ok (net y) \<and> ids_ok i y \<and> registry_ok y \<and> length (conns (net y)) < 2 ^ 64"

lemma word_of_nat_inj:
  assumes "(i :: 64 word) + word_of_nat m = i + word_of_nat n" "m < 2 ^ 64" "n < 2 ^ 64"
  shows "m = n"
proof -
  have "(word_of_nat m :: 64 word) = word_of_nat n" using assms(1) by simp
  then have "take_bit 64 m = take_bit 64 n" by (simp add: word_of_nat_eq_iff)
  with assms(2,3) show ?thesis by (simp add: take_bit_nat_eq_self)
qed

lemma ids_inj:
  assumes "ids_ok i y" "length (conns (net y)) < 2 ^ 64" "j < length (conns (net y))" "k < length (conns (net y))"
    and "connId (conns (net y) ! j) = connId (conns (net y) ! k)"
  shows "j = k"
proof -
  have "i + word_of_nat (Suc j) = i + word_of_nat (Suc k)" using assms by (simp add: ids_ok_def)
  then have "Suc j = Suc k" by (rule word_of_nat_inj) (use assms in auto)
  then show ?thesis by simp
qed

text \<open>Steps that leave the registry alone.\<close>

definition registry_frame :: "hub \<Rightarrow> hub \<Rightarrow> bool" where
  "registry_frame w w' \<longleftrightarrow> buckets w' = buckets w \<and> length (jobChan w') = length (jobChan w)
     \<and> RoomCount (stats w') = RoomCount (stats w)
     \<and> OnlineConnections (stats w') = OnlineConnections (stats w)
     \<and> length (conns w') = length (conns w)
     \<and> (\<forall>c < length (conns w). conn_frame (conns w ! c) (conns w' ! c))"

lemma registry_frameD:
  assumes "registry_frame w w'"
  shows "registered w' = registered w" "member w' = member w" "mgr_ok w \<Longrightarrow> mgr_ok w'"
  using assms by (auto simp: registry_frame_def registered_def member_def bucket_of_def fun_eq_iff mgr_ok_def)

lemma sys_ok_frame:
  assumes ok: "sys_ok i y" and fr: "registry_frame (net y) (net y')"
    and y': "phases y' = phases y" "serverId y' = serverId y"
  shows "sys_ok i y'"
proof -
  note f = registry_frameD [OF fr]
  have n: "length (conns (net y')) = length (conns (net y))" using fr by (simp add: registry_frame_def)
  have c: "conn_frame (conns (net y) ! c) (conns (net y') ! c)" if "c < length (conns (net y))" for c
    using fr that by (simp add: registry_frame_def)
  have cid: "connId (conns (net y') ! c) = connId (conns (net y) ! c)"
    and rms: "conn_rooms (conns (net y') ! c) = conn_rooms (conns (net y) ! c)" if "c < length (conns (net y))" for c
    using c [OF that] by (simp_all add: conn_frame_def)
  have "ids_ok i y'" using ok by (simp add: sys_ok_def ids_ok_def n cid y')
  moreover have r: "registry_ok y" using ok by (simp add: sys_ok_def)
  have "registry_ok y'"
    unfolding registry_ok_def
  proof (intro conjI)
    show "registered_ok y'" using r cid by (fastforce simp: registry_ok_def registered_ok_def f n y')
    show "rooms_ok y'" using r by (auto simp: registry_ok_def rooms_ok_def f n cid rms)
    show "phases_ok y'" using r c by (fastforce simp: registry_ok_def phases_ok_def n y' rms conn_frame_def)
    show "OnlineConnections (stats (net y')) = i64 (live y')"
      using r fr by (simp add: registry_ok_def registry_frame_def live_def y')
  qed
  ultimately show ?thesis using ok by (simp add: sys_ok_def f(3) n)
qed

text \<open>A connection's membership of one room changes, in the room and in the connection.\<close>

lemma set_rooms_registry [simp]:
  "registered (set_rooms c rs w) = registered w" "member (set_rooms c rs w) = member w"
  "mgr_ok (set_rooms c rs w) = mgr_ok w" "length (conns (set_rooms c rs w)) = length (conns w)"
  "stats (set_rooms c rs w) = stats w" "dispatchChan (set_rooms c rs w) = dispatchChan w"
  "jobChan (set_rooms c rs w) = jobChan w" "buckets (set_rooms c rs w) = buckets w"
  by (simp_all add: set_rooms_def registered_def member_def bucket_of_def mgr_ok_def fun_eq_iff)

lemma set_rooms_nth:
  "c < length (conns w) \<Longrightarrow> conns (set_rooms c rs w) ! d
    = (if d = c then (conns w ! c)\<lparr>conn_rooms := rs\<rparr> else conns w ! d)"
  by (simp add: set_rooms_def nth_list_update)

lemma room_change_ok:
  assumes ok: "sys_ok i y" and c: "c < length (conns (net y))" "phases y ! c \<noteq> Gone"
    and w: "mgr_ok w" "conns w = conns (net y)" "registered w = registered (net y)"
      "OnlineConnections (stats w) = OnlineConnections (stats (net y))"
    and m: "member w = (\<lambda>r' i'. if r' = r \<and> i' = connId (conns (net y) ! c)
        then if r \<in> set rs then Some c else None else member (net y) r' i')"
    and rs: "distinct rs" "set rs - {r} = set (conn_rooms (conns (net y) ! c)) - {r}"
  shows "sys_ok i (y\<lparr>net := set_rooms c rs w\<rparr>)"
proof -
  let ?y' = "y\<lparr>net := set_rooms c rs w\<rparr>"
  let ?n = "length (conns (net y))"
  have cw: "c < length (conns w)" by (simp add: w(2) c(1))
  note nth = set_rooms_nth [OF cw, of rs, unfolded w(2)]
  have cid: "connId (conns (set_rooms c rs w) ! d) = connId (conns (net y) ! d)" for d by (simp add: nth)
  have ids: "ids_ok i ?y'" using ok by (simp add: sys_ok_def ids_ok_def w(2) cid)
  have r: "registry_ok y" and n: "?n < 2 ^ 64" using ok by (simp_all add: sys_ok_def)
  have "registry_ok ?y'"
    unfolding registry_ok_def
  proof (intro conjI)
    show "registered_ok ?y'" using r by (simp add: registry_ok_def registered_ok_def w(2,3) cid)
    have old: "member (net y) r' i' = Some d \<longleftrightarrow> d < ?n \<and> connId (conns (net y) ! d) = i'
        \<and> r' \<in> set (conn_rooms (conns (net y) ! d))" for r' i' d
      using r unfolding registry_ok_def rooms_ok_def by blast
    show "rooms_ok ?y'"
      unfolding rooms_ok_def
    proof (intro allI)
      fix r' i' d
      show "member (net ?y') r' i' = Some d \<longleftrightarrow> d < length (conns (net ?y'))
        \<and> connId (conns (net ?y') ! d) = i' \<and> r' \<in> set (conn_rooms (conns (net ?y') ! d))"
      proof (cases "r' = r \<and> i' = connId (conns (net y) ! c)")
        case True
        have "ids_ok i y" using ok by (simp add: sys_ok_def)
        then have "d = c" if "d < ?n" "connId (conns (net y) ! d) = connId (conns (net y) ! c)"
          using ids_inj [OF _ n that(1) c(1) that(2)] by simp
        with True c show ?thesis by (auto simp: m w(2) nth)
      next
        case False
        have "r' \<in> set rs \<longleftrightarrow> r' \<in> set (conn_rooms (conns (net y) ! c))" if "r' \<noteq> r"
          using rs(2) that by blast
        with False show ?thesis by (auto simp: m old w(2) nth)
      qed
    qed
    show "phases_ok ?y'" using r rs(1) c by (auto simp: registry_ok_def phases_ok_def w(2) nth conn_ok_def)
    show "OnlineConnections (stats (net ?y')) = i64 (live ?y')"
      using r by (simp add: registry_ok_def live_def w(4))
  qed
  with ids w(1) show ?thesis using ok by (simp add: sys_ok_def w(2))
qed

subsection \<open>Every step keeps the invariant\<close>

lemma sys_okD:
  assumes "sys_ok i y"
  shows "registered_ok y" "rooms_ok y" "phases_ok y" "OnlineConnections (stats (net y)) = i64 (live y)"
    "length (conns (net y)) < 2 ^ 64" "ids_ok i y" "mgr_ok (net y)"
  using assms by (simp_all add: sys_ok_def registry_ok_def)

lemma set_rooms_connId [simp]: "connId (conns (set_rooms c rs w) ! d) = connId (conns w ! d)"
  by (cases "c < length (conns w)") (simp add: set_rooms_nth, simp add: set_rooms_def list_update_beyond)

lemma same_queues_set_rooms [simp]: "same_queues w (set_rooms c rs w') = same_queues w w'"
  by (simp add: same_queues_def)

lemma same_queues_refl [simp]: "same_queues w w"
  by (simp add: same_queues_def)

lemma join_step:
  assumes ok: "sys_ok i y" and c: "c < length (conns (net y))" "phases y ! c \<noteq> Gone"
    and j: "handleJoin conv mx req c (net y) = Some (re, w)"
  shows "sys_ok i (y\<lparr>net := w\<rparr>) \<and> same_queues (net y) w"
proof (cases "w = net y")
  case True
  with ok show ?thesis by simp
next
  case False
  have mo: "mgr_ok (net y)" using ok by (simp add: sys_ok_def)
  obtain r where r: "conv (Data req) = Inr r" using j False by (cases "conv (Data req)") (auto simp: handleJoin_def)
  let ?i = "connId (conns (net y) ! c)" and ?rs = "conn_rooms (conns (net y) ! c)"
  obtain w1 where w1: "JoinRoom r c (net y)
        = Some (if member (net y) r ?i = None then None else Some ErrJoinRoomTwice, w1)"
      "mgr_ok w1" "conns w1 = conns (net y)" "registered w1 = registered (net y)"
      "member w1 = (\<lambda>r' i'. if r' = r \<and> i' = ?i \<and> member (net y) r ?i = None then Some c else member (net y) r' i')"
      "OnlineConnections (stats w1) = OnlineConnections (stats (net y))" "same_queues (net y) w1"
    by (rule hub_JoinRoom [OF mo refl, of r c])
  have notin: "r \<notin> set ?rs" and w: "w = (if member (net y) r ?i = None then set_rooms c (r # ?rs) w1 else w1)"
    using j False r w1(1,3) by (auto simp: handleJoin_def split: if_splits)
  note d = sys_okD [OF ok]
  have none: "member (net y) r ?i = None"
  proof (rule ccontr)
    assume "member (net y) r ?i \<noteq> None"
    then obtain c' where "member (net y) r ?i = Some c'" by blast
    then have c': "c' < length (conns (net y))" "connId (conns (net y) ! c') = ?i"
        "r \<in> set (conn_rooms (conns (net y) ! c'))"
      using d(2) unfolding rooms_ok_def by blast+
    have "c' = c" by (rule ids_inj [OF d(6,5) c'(1) c(1) c'(2)])
    with c'(3) notin show False by simp
  qed
  have "sys_ok i (y\<lparr>net := set_rooms c (r # ?rs) w1\<rparr>)"
    by (rule room_change_ok [OF ok c w1(2,3,4,6), of r])
      (use d(3) c notin in \<open>auto simp: w1(5) none fun_eq_iff phases_ok_def conn_ok_def\<close>)
  with w w1(7) show ?thesis by (simp add: none)
qed

text \<open>Leaving one room, on request or because the handler ends.\<close>

lemma leave_step:
  assumes ok: "sys_ok i y" and c: "c < length (conns (net y))" "phases y ! c \<noteq> Gone"
    and l: "LeaveRoom r c (net y) = Some (e, w1)"
    and w: "w = (if e = None \<or> always then set_rooms c (remove1 r (conn_rooms (conns w1 ! c))) w1 else w1)"
  shows "sys_ok i (y\<lparr>net := w\<rparr>) \<and> same_queues (net y) w"
proof -
  have mo: "mgr_ok (net y)" using ok by (simp add: sys_ok_def)
  let ?i = "connId (conns (net y) ! c)" and ?rs = "conn_rooms (conns (net y) ! c)"
  obtain w' where w': "LeaveRoom r c (net y)
        = Some (if member (net y) r ?i = None then Some ErrNotInRoom else None, w')"
      "mgr_ok w'" "conns w' = conns (net y)" "registered w' = registered (net y)"
      "member w' = (\<lambda>r' i'. if r' = r \<and> i' = ?i then None else member (net y) r' i')"
      "OnlineConnections (stats w') = OnlineConnections (stats (net y))" "same_queues (net y) w'"
    by (rule hub_LeaveRoom [OF mo refl, of r c])
  have w1: "w1 = w'" and e: "e = (if member (net y) r ?i = None then Some ErrNotInRoom else None)"
    using l w'(1) by simp_all
  note d = sys_okD [OF ok]
  have dist: "distinct ?rs" using d(3) c by (simp add: phases_ok_def conn_ok_def)
  have upd: "sys_ok i (y\<lparr>net := set_rooms c (remove1 r ?rs) w'\<rparr>)"
    by (rule room_change_ok [OF ok c w'(2,3,4,6), of r])
      (use dist in \<open>auto simp: w'(5) fun_eq_iff\<close>)
  have idle: "set_rooms c (remove1 r ?rs) w' = w'" if "e \<noteq> None"
  proof -
    have "member (net y) r ?i = Some c" if "r \<in> set ?rs"
      using d(2) c that unfolding rooms_ok_def by blast
    then have "r \<notin> set ?rs" using that by (auto simp: e split: if_splits)
    then show ?thesis using w'(3) by (simp add: set_rooms_def remove1_idem)
  qed
  have "w = set_rooms c (remove1 r ?rs) w'"
    using idle by (simp add: w w1 w'(3))
  with upd w'(7) show ?thesis by simp
qed

lemma handleLeave_step:
  assumes "sys_ok i y" "c < length (conns (net y))" "phases y ! c \<noteq> Gone"
    and j: "handleLeave conv req c (net y) = Some (re, w)"
  shows "sys_ok i (y\<lparr>net := w\<rparr>) \<and> same_queues (net y) w"
proof (cases "w = net y")
  case True
  with assms(1) show ?thesis by simp
next
  case False
  obtain r where r: "conv (Data req) = Inr r" using j False by (cases "conv (Data req)") (auto simp: handleLeave_def)
  obtain e w1 where l: "LeaveRoom r c (net y) = Some (e, w1)"
    using j r False by (cases "LeaveRoom r c (net y)") (auto simp: handleLeave_def split: if_splits)
  have "w = (if e = None \<or> False then set_rooms c (remove1 r (conn_rooms (conns w1 ! c))) w1 else w1)"
    using j r l False by (auto simp: handleLeave_def split: if_splits option.splits)
  from leave_step [OF assms(1-3) l this] show ?thesis .
qed

lemma leave_one_step:
  assumes "sys_ok i y" "c < length (conns (net y))" "phases y ! c \<noteq> Gone"
    and j: "leave_one r c (net y) = Some w"
  shows "sys_ok i (y\<lparr>net := w\<rparr>) \<and> same_queues (net y) w"
proof -
  obtain e w1 where l: "LeaveRoom r c (net y) = Some (e, w1)"
    using j by (cases "LeaveRoom r c (net y)") (auto simp: leave_one_def)
  have "w = (if e = None \<or> True then set_rooms c (remove1 r (conn_rooms (conns w1 ! c))) w1 else w1)"
    using j l by (simp add: leave_one_def)
  from leave_step [OF assms(1-3) l this] show ?thesis .
qed

lemma live_update:
  "c < length (phases y) \<Longrightarrow> sum_list (map (\<lambda>p. if p = Gone then 0 else 1 :: int) ((phases y)[c := p]))
    = live y + (if p = Gone then 0 else 1) - (if phases y ! c = Gone then 0 else 1)"
  unfolding live_def by (rule sum_list_list_update)

lemma phase_change:
  assumes ok: "sys_ok i y" and c: "c < length (conns (net y))" "phases y ! c \<noteq> Gone"
    and cl: "isClosed (conns (net y) ! c)"
  shows "sys_ok i (y\<lparr>phases := (phases y)[c := Leaving]\<rparr>)"
proof -
  let ?y = "y\<lparr>phases := (phases y)[c := Leaving]\<rparr>"
  have len: "c < length (phases y)" using ok c by (simp add: sys_ok_def ids_ok_def)
  have "registry_ok ?y"
    unfolding registry_ok_def
  proof (intro conjI)
    note k = sys_okD [OF ok]
    show "registered_ok ?y" using k(1) len by (auto simp: registered_ok_def nth_list_update)
    show "rooms_ok ?y" using k(2) by (simp add: rooms_ok_def)
    show "phases_ok ?y" using k(3) len cl by (auto simp: phases_ok_def nth_list_update)
    show "OnlineConnections (stats (net ?y)) = i64 (live ?y)"
      using k(4) len c by (simp add: live_def [of ?y] live_update)
  qed
  with ok show ?thesis by (simp add: sys_ok_def ids_ok_def)
qed

lemma failing_step:
  assumes ok: "sys_ok i y" and c: "c < length (conns (net y))" "phases y ! c = Serving"
  shows "sys_ok i (y\<lparr>net := set_conn c (Close (conns (net y) ! c)) (net y), phases := (phases y)[c := Leaving]\<rparr>)"
proof -
  let ?y = "y\<lparr>net := set_conn c (Close (conns (net y) ! c)) (net y)\<rparr>"
  have "registry_frame (net y) (net ?y)"
    using c by (auto simp: registry_frame_def set_conn_def nth_list_update)
  then have y: "sys_ok i ?y" by (rule sys_ok_frame [OF ok]) simp_all
  have "sys_ok i (?y\<lparr>phases := (phases ?y)[c := Leaving]\<rparr>)"
    by (rule phase_change [OF y]) (use c in \<open>simp_all add: set_conn_def\<close>)
  then show ?thesis by simp
qed

lemma returning_step:
  assumes ok: "sys_ok i y" and c: "c < length (conns (net y))" "phases y ! c = Leaving"
    and rs: "conn_rooms (conns (net y) ! c) = []" and d: "DelConn c (net y) = Some w"
  shows "sys_ok i (y\<lparr>net := w, phases := (phases y)[c := Gone]\<rparr>) \<and> same_queues (net y) w"
proof -
  have mo: "mgr_ok (net y)" using ok by (simp add: sys_ok_def)
  let ?i = "connId (conns (net y) ! c)" and ?y = "y\<lparr>net := w, phases := (phases y)[c := Gone]\<rparr>"
  have len: "c < length (phases y)" using ok c by (simp add: sys_ok_def ids_ok_def)
  have w: "mgr_ok w" "conns w = conns (net y)" "registered w = (registered (net y))(?i := None)"
      "member w = member (net y)" "stats w = OnlineConnectionsDesc (stats (net y))" "same_queues (net y) w"
    by (rule hub_DelConn [OF mo refl, of c]; use d in simp)+
  have "registry_ok ?y"
  proof -
    note k = sys_okD [OF ok]
    show ?thesis
      unfolding registry_ok_def
    proof (intro conjI)
      have ids: "ids_ok i y" using ok by (simp add: sys_ok_def)
      show "registered_ok ?y"
        unfolding registered_ok_def
      proof (intro allI impI)
        fix j e assume "registered (net ?y) j = Some e"
        then have j: "registered (net y) j = Some e" "j \<noteq> ?i" by (auto simp: w(3) split: if_splits)
        with k(1) have e: "e < length (conns (net y))" "connId (conns (net y) ! e) = j" "phases y ! e \<noteq> Gone"
          unfolding registered_ok_def by blast+
        with j(2) have "e \<noteq> c" by auto
        with e show "e < length (conns (net ?y)) \<and> connId (conns (net ?y) ! e) = j \<and> phases ?y ! e \<noteq> Gone"
          by (simp add: w(2))
      qed
      show "rooms_ok ?y" using k(2) by (simp add: rooms_ok_def w(2,4))
      show "phases_ok ?y" using k(3) c rs len by (auto simp: phases_ok_def w(2) nth_list_update)
      show "OnlineConnections (stats (net ?y)) = i64 (live ?y)"
        using k(4) len c by (simp add: w(5) OnlineConnectionsDesc_def live_def [of ?y] live_update)
    qed
  qed
  with ok w show ?thesis by (simp add: sys_ok_def ids_ok_def)
qed

lemma arriving_step:
  assumes ok: "sys_ok i y" and o: "open_connection cfg now (serverId y, net y) = Some (j, w)"
    and n: "length (conns w) < 2 ^ 64"
  shows "sys_ok i (y\<lparr>serverId := j, net := w, phases := phases y @ [Serving]\<rparr>) \<and> same_queues (net y) w"
proof -
  let ?n = "length (conns (net y))" and ?y = "y\<lparr>serverId := j, net := w, phases := phases y @ [Serving]\<rparr>"
  obtain x where x: "NewConnection (serverId y + 1) now (HeartbeatInterval cfg) (InChannelSize cfg) (OutChannelSize cfg) = Some x"
      and j: "j = serverId y + 1" and a: "AddConn ?n ((net y)\<lparr>conns := conns (net y) @ [x]\<rparr>) = Some w"
    using o by (auto simp: open_connection_def split: option.splits)
  have xs: "connId x = serverId y + 1" "conn_rooms x = []" "conn_ok x"
    using x by (auto simp: NewConnection_def conn_ok_def split: option.splits)
  let ?w0 = "(net y)\<lparr>conns := conns (net y) @ [x]\<rparr>"
  have w0: "mgr_ok ?w0" "registered ?w0 = registered (net y)" "member ?w0 = member (net y)"
    using ok by (simp_all add: sys_ok_def mgr_ok_def registered_def member_def bucket_of_def fun_eq_iff)
  have w: "mgr_ok w" "conns w = conns (net y) @ [x]" "registered w = (registered (net y))(connId x \<mapsto> ?n)"
      "member w = member (net y)" "stats w = OnlineConnectionsIncr (stats (net y))" "same_queues ?w0 w"
    by (rule hub_AddConn [OF w0(1) refl, of ?n]; use a w0 in simp)+
  have ids: "ids_ok i y" and len: "length (phases y) = ?n" using ok by (auto simp: sys_ok_def ids_ok_def)
  have cid: "connId x = i + word_of_nat (Suc ?n)" using ids by (simp add: xs ids_ok_def)
  have ids': "ids_ok i ?y"
    using ids by (auto simp: ids_ok_def w(2) j nth_append xs less_Suc_eq)
  have "registry_ok ?y"
  proof -
    note k = sys_okD [OF ok]
    have fresh: "connId (conns (net y) ! d) \<noteq> connId x" if "d < ?n" for d
      using ids_inj [OF ids', of d ?n] n that by (simp add: w(2) nth_append) blast
    show ?thesis
      unfolding registry_ok_def
    proof (intro conjI)
      show "registered_ok ?y"
        using k(1) len by (auto simp: registered_ok_def w(2,3) nth_append less_Suc_eq)
      have "member (net y) r (connId x) \<noteq> Some d" for r d
        using k(2) fresh unfolding rooms_ok_def by blast
      then show "rooms_ok ?y"
        using k(2) unfolding rooms_ok_def
        by (auto simp: w(2,4) nth_append xs less_Suc_eq)
      show "phases_ok ?y" using k(3) xs len by (auto simp: phases_ok_def w(2) nth_append less_Suc_eq)
      show "OnlineConnections (stats (net ?y)) = i64 (live ?y)"
        using k(4) by (simp add: w(5) OnlineConnectionsIncr_def live_def)
    qed
  qed
  with ids' w n show ?thesis by (simp add: sys_ok_def same_queues_def)
qed

lemma kicking_step:
  assumes ok: "sys_ok i y" and d: "CloseSession j (net y) = Some (e, w)"
  shows "sys_ok i (y\<lparr>net := w\<rparr>) \<and> same_queues (net y) w"
proof -
  note k = sys_okD [OF ok]
  let ?y = "y\<lparr>net := w\<rparr>"
  have d': "DelConnByCID j (net y) = Some w" using d by (auto simp: CloseSession_def)
  have reg: "registered (net y) j = Some c \<Longrightarrow> connId (conns (net y) ! c) = j \<and> c < length (conns (net y))" for c
    using k(1) unfolding registered_ok_def by blast
  have w: "mgr_ok w" "conns w = (case registered (net y) j of None \<Rightarrow> conns (net y)
         | Some c \<Rightarrow> (conns (net y))[c := Close (conns (net y) ! c)])"
      "registered w = (registered (net y))(j := None)" "member w = member (net y)" "stats w = stats (net y)"
      "same_queues (net y) w"
    by (rule hub_DelConnByCID [OF k(7), of j]; use d' reg in simp)+
  have fr: "conn_frame (conns (net y) ! c) (conns w ! c)" for c
    using reg by (auto simp: w(2) nth_list_update split: option.splits)
  have n: "length (conns w) = length (conns (net y))" by (simp add: w(2) split: option.splits)
  have cid: "connId (conns w ! c) = connId (conns (net y) ! c)"
    and rms: "conn_rooms (conns w ! c) = conn_rooms (conns (net y) ! c)"
    and cok: "conn_ok (conns (net y) ! c) \<Longrightarrow> conn_ok (conns w ! c)"
    and cl: "isClosed (conns (net y) ! c) \<Longrightarrow> isClosed (conns w ! c)" for c
    using fr unfolding conn_frame_def by blast+
  have "registry_ok ?y"
    unfolding registry_ok_def
  proof (intro conjI)
    show "registered_ok ?y" using k(1) by (simp add: registered_ok_def n cid w(3))
    show "rooms_ok ?y" using k(2) by (simp add: rooms_ok_def n cid rms w(4))
    show "phases_ok ?y" using k(3) by (simp add: phases_ok_def n rms cok cl)
    show "OnlineConnections (stats (net ?y)) = i64 (live ?y)" using k(4) by (simp add: w(5) live_def)
  qed
  then show ?thesis using ok w(1,6) by (simp add: sys_ok_def ids_ok_def n cid)
qed

text \<open>The steps that only move messages.\<close>

lemma update_frame:
  "conn_frame (h ! c) x \<Longrightarrow> d < length h \<Longrightarrow> conn_frame (h ! d) (h[c := x] ! d)"
  by (cases "c = d") simp_all

lemma PushSession_frame:
  assumes "PushSession pick i m w = Some (e, w')"
  shows "registry_frame w w' \<and> same_queues w w'"
proof -
  obtain k where k: "GetBucketByCID i w = Some k" using assms by (auto simp: PushSession_def PushByCID_def split: option.splits)
  show ?thesis
  proof (cases "EncodeWsMessage m")
    case (Inl a)
    then show ?thesis using assms k by (simp add: PushSession_def PushByCID_def registry_frame_def)
  next
    case (Inr msg)
    then obtain h s where p: "Bucket_PushByCid pick i msg (buckets w ! k) (conns w, stats w) = (e, h, s)"
        and w': "w' = w\<lparr>conns := h, stats := s\<rparr>"
      using assms k by (auto simp: PushSession_def PushByCID_def split: prod.splits)
    have "length h = length (conns w) \<and> (\<forall>d < length (conns w). conn_frame (conns w ! d) (h ! d)) \<and> stats_frame (stats w) s"
    proof (cases "map_of (id2Conn (buckets w ! k)) i")
      case None
      then show ?thesis using p by (simp add: Bucket_PushByCid_def)
    next
      case (Some c)
      obtain c' s' where sm: "SendMessage pick msg (conns w ! c, stats w) = (e, c', s')" "h = (conns w)[c := c']" "s = s'"
        using p Some by (auto simp: Bucket_PushByCid_def split: prod.splits)
      show ?thesis using SendMessage_frame [OF sm(1)] by (simp add: sm update_frame)
    qed
    then show ?thesis by (simp add: w' registry_frame_def same_queues_def stats_frame_def)
  qed
qed

lemma PushAll_frame: "PushAll m w = (e, w') \<Longrightarrow> registry_frame w w'"
  by (auto simp: PushAll_def registry_frame_def stats_defs Let_def split: if_splits)

lemma PushRoom_frame: "PushRoom r m w = (e, w') \<Longrightarrow> registry_frame w w'"
  by (auto simp: PushRoom_def registry_frame_def stats_defs Let_def split: if_splits)

lemma dispatch_cases:
  assumes "dispatchWorkerMain (d, w) = Some (d', w')"
  obtains (take_bad) job ch where "d = Idle" "recv (dispatchChan w) = Some (job, ch)"
      "\<not> is_ok (EncodeWsMessage (job_Msg job))" "d' = Idle"
      "w' = w\<lparr>dispatchChan := ch, stats := DispatchPendingDesc (stats w)\<rparr>"
    | (take) job ch msg where "d = Idle" "recv (dispatchChan w) = Some (job, ch)"
      "EncodeWsMessage (job_Msg job) = Inr msg" "d' = Next (job\<lparr>wsMsg := Some msg\<rparr>) [0..<length (buckets w)]"
      "w' = w\<lparr>dispatchChan := ch, stats := DispatchPendingDesc (stats w)\<rparr>"
    | (served) job where "d = Next job []" "d' = Idle" "w' = w"
    | (count) job k ks where "d = Next job (k # ks)" "d' = Sending job k ks"
      "w' = w\<lparr>stats := PushJobPendingIncr (stats w)\<rparr>"
    | (hand) job k ks where "d = Sending job k ks" "d' = Next job ks" "can_send (jobChan w ! k)"
      "w' = w\<lparr>jobChan := (jobChan w)[k := send job (jobChan w ! k)]\<rparr>"
proof (cases d)
  case Idle
  obtain job ch where r: "recv (dispatchChan w) = Some (job, ch)"
    using assms Idle by (cases "recv (dispatchChan w)") (auto simp: dispatchWorkerMain_def)
  show ?thesis
  proof (cases "EncodeWsMessage (job_Msg job)")
    case (Inl e)
    then show ?thesis using assms Idle r by (intro take_bad [of job ch]) (simp_all add: dispatchWorkerMain_def Let_def)
  next
    case (Inr msg)
    then show ?thesis using assms Idle r by (intro take [of job ch msg]) (simp_all add: dispatchWorkerMain_def Let_def)
  qed
next
  case (Next job ks)
  show ?thesis
  proof (cases ks)
    case Nil
    then show ?thesis using assms Next by (intro served [of job]) (simp_all add: dispatchWorkerMain_def)
  next
    case (Cons k ks')
    then show ?thesis using assms Next by (intro count [of job k ks']) (simp_all add: dispatchWorkerMain_def)
  qed
next
  case (Sending job k ks)
  then show ?thesis using assms
    by (intro hand [of job k ks]) (simp_all add: dispatchWorkerMain_def split: if_splits)
qed

lemma dispatch_frame: "dispatchWorkerMain (d, w) = Some (d', w') \<Longrightarrow> registry_frame w w'"
  by (erule dispatch_cases) (simp_all add: registry_frame_def stats_defs)

lemma job_cases:
  assumes "jobWorkerMain k order w = Some (job, w')"
  obtains ch h s where "recv (jobChan w ! k) = Some (job, ch)"
    "w' = w\<lparr>jobChan := (jobChan w)[k := ch], conns := h, stats := s\<rparr>"
    "if pushType job = PushTypeAll
     then \<exists>msg. wsMsg job = Some msg \<and> enumerates order (id2Conn (buckets w ! k))
            \<and> (h, s) = push_loop msg order (conns w, PushJobPendingDesc (stats w))
     else h = conns w \<and> s = PushJobPendingDesc (stats w)"
  using assms
  by (auto simp: jobWorkerMain_def Let_def Bucket_PushAll_def split: option.splits if_splits prod.splits)

lemma job_frame:
  assumes "jobWorkerMain k order w = Some (job, w')"
  shows "registry_frame w w'"
    and "PushJobPending (stats w') = i64 (PushJobPending (stats w) - 1)"
    and "DispatchPending (stats w') = DispatchPending (stats w)"
proof -
  obtain ch h s where j: "w' = w\<lparr>jobChan := (jobChan w)[k := ch], conns := h, stats := s\<rparr>"
    "if pushType job = PushTypeAll
     then \<exists>msg. wsMsg job = Some msg \<and> enumerates order (id2Conn (buckets w ! k))
            \<and> (h, s) = push_loop msg order (conns w, PushJobPendingDesc (stats w))
     else h = conns w \<and> s = PushJobPendingDesc (stats w)"
    by (rule job_cases [OF assms])
  have "length h = length (conns w) \<and> (\<forall>c < length (conns w). conn_frame (conns w ! c) (h ! c))
      \<and> stats_frame (PushJobPendingDesc (stats w)) s"
  proof (cases "pushType job = PushTypeAll")
    case True
    then obtain msg where "push_loop msg order (conns w, PushJobPendingDesc (stats w)) = (h, s)" using j(2) by auto
    then show ?thesis by (rule push_loop_frame)
  next
    case False
    with j(2) show ?thesis by simp
  qed
  then show "registry_frame w w'" "PushJobPending (stats w') = i64 (PushJobPending (stats w) - 1)"
      "DispatchPending (stats w') = DispatchPending (stats w)"
    by (simp_all add: j(1) registry_frame_def stats_frame_def PushJobPendingDesc_def)
qed

lemma traffic_frame:
  assumes "conn_event (conns w ! c, stats w) (x, s)"
  shows "registry_frame w (w\<lparr>conns := (conns w)[c := x], stats := s\<rparr>) \<and> same_queues w (w\<lparr>conns := (conns w)[c := x], stats := s\<rparr>)"
  using conn_event_frame [OF assms] by (simp add: registry_frame_def same_queues_def stats_frame_def update_frame)

subsection \<open>The invariant holds in every reachable state\<close>

lemma ws_init_ok: "ws_init cfg i y \<Longrightarrow> sys_ok i y"
proof -
  assume "ws_init cfg i y"
  then obtain w jw ds where ns: "NewSocket cfg zero_stats = Some (w, jw, ds)" "buckets w \<noteq> []"
      and y: "y = \<lparr>net = w, serverId = i, phases = [], dispatchers = ds, accepted = [], handled = []\<rparr>"
    by (auto simp: ws_init_def split: option.splits)
  obtain m where m: "NewConnMgr cfg = Some (m, jw, ds)"
      and w: "w = \<lparr>buckets = buckets m, jobChan = jobChan m, dispatchChan = dispatchChan m, conns = [], stats = zero_stats\<rparr>"
    using ns(1) by (auto simp: NewSocket_def)
  let ?n = "nat (BucketCount cfg)"
  have b: "buckets m = map InitBucket [0..<?n]" and jc: "length (jobChan m) = ?n"
    using m by (auto simp: NewConnMgr_def Let_def split: option.splits if_splits)
  have bok: "bucket_ok (InitBucket k)" "own_ids ?n k (InitBucket k)" for k
    by (simp_all add: InitBucket_def bucket_ok_def own_ids_def in_room_def)
  have tot: "total_rooms (buckets m) = 0" by (simp add: total_rooms_def b InitBucket_def o_def)
  have emp: "map_of (id2Conn (bucket_of w j)) j = None" "in_room (bucket_of w j) r j = None" for r j
  proof -
    have "unat j mod ?n < ?n" using ns(2) b w by (simp add: w b)
    then have "bucket_of w j = InitBucket (unat j mod ?n)" by (simp add: bucket_of_def w b)
    then show "map_of (id2Conn (bucket_of w j)) j = None" "in_room (bucket_of w j) r j = None"
      by (simp_all add: InitBucket_def in_room_def)
  qed
  have "mgr_ok w" using ns(2) jc bok by (simp add: mgr_ok_def w b tot [unfolded b] zero_stats_def in_i64_def)
  moreover have "registry_ok y"
    using emp by (simp add: registry_ok_def registered_ok_def rooms_ok_def phases_ok_def y w live_def zero_stats_def
      registered_def member_def)
  ultimately show ?thesis by (simp add: sys_ok_def ids_ok_def y) (simp add: w)
qed

lemma ws_step_conns:
  assumes "sys_ok i y" "ws_step cfg conv y y'" "length (conns (net y')) < 2 ^ 64"
  shows "sys_ok i y'"
  using assms(2)
proof cases
  case (traffic c x s)
  show ?thesis
    by (rule sys_ok_frame [OF assms(1)]) (use traffic traffic_frame [OF traffic(3)] in simp_all)
next
  case (to_one pick j m e w)
  show ?thesis
    by (rule sys_ok_frame [OF assms(1)]) (use to_one PushSession_frame [OF to_one(2)] in simp_all)
next
  case (to_all m e w)
  show ?thesis
    by (rule sys_ok_frame [OF assms(1)]) (use to_all PushAll_frame [OF to_all(2)] in simp_all)
next
  case (to_room r m e w)
  show ?thesis
    by (rule sys_ok_frame [OF assms(1)]) (use to_room PushRoom_frame [OF to_room(2)] in simp_all)
next
  case (dispatching k d w)
  show ?thesis
    by (rule sys_ok_frame [OF assms(1)]) (use dispatching dispatch_frame [OF dispatching(3)] in simp_all)
next
  case (working k order job w)
  show ?thesis
    by (rule sys_ok_frame [OF assms(1)]) (use working job_frame(1) [OF working(3)] in simp_all)
next
  case waiting_dispatch
  show ?thesis
    by (rule sys_ok_frame [OF assms(1)]) (simp_all add: waiting_dispatch registry_frame_def)
next
  case (waiting_job k)
  show ?thesis
    by (rule sys_ok_frame [OF assms(1)]) (simp_all add: waiting_job registry_frame_def)
next
  case (arriving now j w)
  then show ?thesis using arriving_step [OF assms(1) arriving(2)] assms(3) by simp
next
  case (joining c mx req r w)
  then show ?thesis using join_step [OF assms(1) joining(2) _ joining(4)] by simp
next
  case (leaving c req r w)
  then show ?thesis using handleLeave_step [OF assms(1) leaving(2) _ leaving(4)] by simp
next
  case (failing c)
  then show ?thesis using failing_step [OF assms(1)] by simp
next
  case (parting c r w)
  then show ?thesis using leave_one_step [OF assms(1) parting(2) _ parting(5)] by simp
next
  case (returning c w)
  then show ?thesis using returning_step [OF assms(1)] by simp
next
  case (kicking j e w)
  then show ?thesis using kicking_step [OF assms(1)] by simp
qed

text \<open>The list of connections only grows.\<close>

lemma room_calls_conns:
  "JoinRoom r c w = Some (e, w') \<Longrightarrow> conns w' = conns w"
  "LeaveRoom r c w = Some (e, w') \<Longrightarrow> conns w' = conns w"
  "DelConn c w = Some w' \<Longrightarrow> conns w' = conns w"
  "AddConn c w = Some w' \<Longrightarrow> conns w' = conns w"
  by (auto simp: JoinRoom_def LeaveRoom_def DelConn_def AddConn_def split: option.splits prod.splits)

lemma DelConnByCID_length: "DelConnByCID i w = Some w' \<Longrightarrow> length (conns w') = length (conns w)"
  by (auto simp: DelConnByCID_def Bucket_DelConnByCID_def split: option.splits prod.splits)

lemma handleJoin_length: "handleJoin conv mx req c w = Some (re, w') \<Longrightarrow> length (conns w') = length (conns w)"
  by (auto simp: handleJoin_def dest!: room_calls_conns split: sum.splits option.splits if_splits)

lemma handleLeave_length: "handleLeave conv req c w = Some (re, w') \<Longrightarrow> length (conns w') = length (conns w)"
  by (auto simp: handleLeave_def dest!: room_calls_conns split: sum.splits option.splits if_splits)

lemma leave_one_length: "leave_one r c w = Some w' \<Longrightarrow> length (conns w') = length (conns w)"
  by (auto simp: leave_one_def dest!: room_calls_conns split: option.splits)

lemma open_length: "open_connection cfg now (i, w) = Some (j, w') \<Longrightarrow> length (conns w') = Suc (length (conns w))"
  by (auto simp: open_connection_def dest!: room_calls_conns split: option.splits)

lemma registry_frame_length: "registry_frame w w' \<Longrightarrow> length (conns w') = length (conns w)"
  by (simp add: registry_frame_def)

lemma ws_step_grows: "ws_step cfg conv y y' \<Longrightarrow> length (conns (net y)) \<le> length (conns (net y'))"
  by (erule ws_step.cases)
    (auto simp: set_conn_def CloseSession_def open_length
      dest: handleJoin_length handleLeave_length leave_one_length room_calls_conns DelConnByCID_length
        PushSession_frame PushAll_frame PushRoom_frame dispatch_frame job_frame(1) dest!: registry_frame_length)

lemma ws_reachable_ok:
  assumes "ws_reachable cfg conv i y" "length (conns (net y)) < 2 ^ 64"
  shows "sys_ok i y"
proof -
  have "length (conns (net y)) < 2 ^ 64 \<longrightarrow> sys_ok i y"
    using assms(1)
  proof (induction rule: ws_reachable_induct)
    case (init y)
    then show ?case by (simp add: ws_init_ok)
  next
    case (step y y')
    then show ?case using ws_step_grows [OF step(2)] ws_step_conns [OF _ step(2)] by force
  qed
  with assms(2) show ?thesis by simp
qed

end
