(* ===== verification/Ws_Dispatch.thy ===== *)
theory Ws_Dispatch
  imports Ws_Hub
begin

section \<open>ws: what becomes of a push\<close>

text \<open>
  The jobs between \<open>PushAll\<close>, \<open>PushRoom\<close>, the dispatchers and the workers of the buckets. The
  invariant accounts, for every bucket, for every job that was accepted and can be encoded:
  it waits to be dispatched, a dispatcher has it, it waits in the bucket's queue, or it has
  been handled. It also says what the two pending counters count.
\<close>

definition strip_job :: "PushJob \<Rightarrow> PushJob" where
  "strip_job job = job\<lparr>wsMsg := None\<rparr>"

definition encodable :: "PushJob \<Rightarrow> bool" where
  "encodable job = is_ok (EncodeWsMessage (job_Msg job))"

definition encoded :: "PushJob \<Rightarrow> bool" where
  "encoded job \<longleftrightarrow> (\<exists>msg. wsMsg job = Some msg \<and> EncodeWsMessage (job_Msg job) = Inr msg)"

text \<open>The job a dispatcher still has to hand to a bucket, and the buckets it has in mind.\<close>

fun in_hand :: "nat \<Rightarrow> dworker \<Rightarrow> PushJob multiset" where
  "in_hand b Idle = {#}"
| "in_hand b (Next job ks) = (if b \<in> set ks then {#strip_job job#} else {#})"
| "in_hand b (Sending job k ks) = (if b = k \<or> b \<in> set ks then {#strip_job job#} else {#})"

fun worker_ok :: "nat \<Rightarrow> dworker \<Rightarrow> bool" where
  "worker_ok n Idle = True"
| "worker_ok n (Next job ks) \<longleftrightarrow> encoded job \<and> distinct ks \<and> set ks \<subseteq> {..<n}"
| "worker_ok n (Sending job k ks) \<longleftrightarrow> encoded job \<and> distinct (k # ks) \<and> set (k # ks) \<subseteq> {..<n}"

definition busy :: "dworker \<Rightarrow> int" where
  "busy d = (case d of Sending _ _ _ \<Rightarrow> 1 | _ \<Rightarrow> 0)"

definition handled_at :: "nat \<Rightarrow> sys \<Rightarrow> PushJob list" where
  "handled_at k y = map snd (filter (\<lambda>p. fst p = k) (handled y))"

definition job_account :: "nat \<Rightarrow> sys \<Rightarrow> PushJob multiset" where
  "job_account k y = mset (map strip_job (handled_at k y)) + mset (map strip_job (buf (jobChan (net y) ! k)))
     + sum_list (map (in_hand k) (dispatchers y)) + filter_mset encodable (mset (buf (dispatchChan (net y))))"

definition room_jobs :: "PushJob list \<Rightarrow> int" where
  "room_jobs js = int (length (filter (\<lambda>j. pushType j = PushTypeRoom) js))"

definition waiting_jobs :: "sys \<Rightarrow> int" where
  "waiting_jobs y = sum_list (map (\<lambda>ch. int (length (buf ch))) (jobChan (net y))) + sum_list (map busy (dispatchers y))"

definition dispatch_ok :: "sys \<Rightarrow> bool" where
  "dispatch_ok y \<longleftrightarrow>
     (\<forall>k < length (buckets (net y)). job_account k y = filter_mset encodable (mset (accepted y)))
     \<and> (\<forall>job \<in> set (buf (dispatchChan (net y))). wsMsg job = None)
     \<and> (\<forall>ch \<in> set (jobChan (net y)). \<forall>job \<in> set (buf ch). encoded job)
     \<and> (\<forall>d \<in> set (dispatchers y). worker_ok (length (buckets (net y))) d)
     \<and> (\<forall>p \<in> set (handled y). encoded (snd p))
     \<and> DispatchPending (stats (net y)) = i64 (int (length (buf (dispatchChan (net y)))) - room_jobs (accepted y))
     \<and> PushJobPending (stats (net y)) = i64 (waiting_jobs y)"

lemma sum_list_swap:
  fixes f :: "'a \<Rightarrow> 'b :: comm_monoid_add"
  shows "k < length xs \<Longrightarrow> sum_list (map f (xs[k := x])) + f (xs ! k) = sum_list (map f xs) + f x"
  by (induction xs arbitrary: k) (auto split: nat.splits simp: ac_simps)

lemma exchange:
  fixes S :: "'a :: cancel_comm_monoid_add"
  assumes "S' + h = S + d" "h + B = d + B'"
  shows "S' + B' = S + B"
proof -
  have "S' + B' + h = S' + h + B'" by (simp add: ac_simps)
  also have "\<dots> = S + (d + B')" using assms(1) by (simp add: add.assoc)
  also have "\<dots> = S + B + h" using assms(2) [symmetric] by (simp add: ac_simps)
  finally show ?thesis by simp
qed

lemma dispatch_ok_frame:
  assumes "dispatch_ok y" "same_queues (net y) (net y')" "dispatchers y' = dispatchers y"
    "accepted y' = accepted y" "handled y' = handled y"
  shows "dispatch_ok y'"
  using assms by (simp add: dispatch_ok_def job_account_def handled_at_def waiting_jobs_def same_queues_def)

lemma push_dispatch_ok:
  assumes ok: "dispatch_ok y" and w: "buckets w = buckets (net y)" "jobChan w = jobChan (net y)"
      "dispatchChan w = (if e then send job (dispatchChan (net y)) else dispatchChan (net y))"
      "PushJobPending (stats w) = PushJobPending (stats (net y))"
      "DispatchPending (stats w) = (if e \<and> pushType job \<noteq> PushTypeRoom
         then i64 (DispatchPending (stats (net y)) + 1) else DispatchPending (stats (net y)))"
    and job: "wsMsg job = None"
  shows "dispatch_ok (y\<lparr>net := w, accepted := accepted y @ (if e then [job] else [])\<rparr>)"
proof (cases e)
  case False
  with w have "same_queues (net y) w" by (simp add: same_queues_def)
  with False show ?thesis by (intro dispatch_ok_frame [OF ok]) simp_all
next
  case True
  let ?y = "y\<lparr>net := w, accepted := accepted y @ (if e then [job] else [])\<rparr>"
  have "job_account k ?y = filter_mset encodable (mset (accepted ?y))" if "k < length (buckets (net y))" for k
  proof -
    have "job_account k y = filter_mset encodable (mset (accepted y))" using ok that by (simp add: dispatch_ok_def)
    then show ?thesis using True by (simp add: job_account_def handled_at_def w union_ac)
  qed
  moreover have "DispatchPending (stats w) = i64 (int (length (buf (dispatchChan w))) - room_jobs (accepted ?y))"
    using ok True by (simp add: dispatch_ok_def w room_jobs_def algebra_simps)
  ultimately show ?thesis using ok True job by (simp add: dispatch_ok_def w waiting_jobs_def)
qed

lemma in_hand_all: "b < n \<Longrightarrow> in_hand b (Next job [0..<n]) = {#strip_job job#}"
  by simp

lemma strip_job_None: "wsMsg job = None \<Longrightarrow> strip_job job = job"
  by (simp add: strip_job_def)

lemma strip_job_upd [simp]: "strip_job (job\<lparr>wsMsg := m\<rparr>) = strip_job job"
  by (simp add: strip_job_def)

text \<open>A step of a dispatcher: what it moves from one place of the account to the other.\<close>

lemma account_move:
  assumes ok: "dispatch_ok y" and j: "j < length (dispatchers y)" and k: "k < length (buckets (net y))"
    and move: "in_hand k (dispatchers y ! j) + mset (map strip_job (buf (jobChan (net y) ! k)))
        + filter_mset encodable (mset (buf (dispatchChan (net y))))
      = in_hand k d + mset (map strip_job (buf (jobChan w ! k))) + filter_mset encodable (mset (buf (dispatchChan w)))"
  shows "job_account k (y\<lparr>net := w, dispatchers := (dispatchers y)[j := d]\<rparr>) = filter_mset encodable (mset (accepted y))"
proof -
  let ?H = "mset (map strip_job (handled_at k y))" and ?S = "sum_list (map (in_hand k) (dispatchers y))"
    and ?S' = "sum_list (map (in_hand k) ((dispatchers y)[j := d]))"
  let ?B = "mset (map strip_job (buf (jobChan (net y) ! k))) + filter_mset encodable (mset (buf (dispatchChan (net y))))"
    and ?B' = "mset (map strip_job (buf (jobChan w ! k))) + filter_mset encodable (mset (buf (dispatchChan w)))"
  have swap: "?S' + in_hand k (dispatchers y ! j) = ?S + in_hand k d" by (rule sum_list_swap [OF j])
  have "in_hand k (dispatchers y ! j) + ?B = in_hand k d + ?B'" using move by (simp add: union_assoc)
  with swap have "?S' + ?B' = ?S + ?B" by (rule exchange)
  moreover have "?H + ?S + ?B = filter_mset encodable (mset (accepted y))"
    using ok k by (simp add: dispatch_ok_def job_account_def union_ac)
  moreover have "job_account k (y\<lparr>net := w, dispatchers := (dispatchers y)[j := d]\<rparr>) = ?H + (?S' + ?B')"
    by (simp add: job_account_def handled_at_def union_ac)
  ultimately show ?thesis by (simp add: union_assoc)
qed

lemma busy_simps [simp]: "busy Idle = 0" "busy (Next job ks) = 0" "busy (Sending job k ks) = 1"
  by (simp_all add: busy_def)

lemma busy_update:
  "j < length ds \<Longrightarrow> sum_list (map busy (ds[j := d])) = sum_list (map busy ds) + busy d - busy (ds ! j)"
  by (rule sum_list_list_update)

lemma queue_update:
  "k < length chs \<Longrightarrow> sum_list (map (\<lambda>ch. int (length (buf ch))) (chs[k := ch]))
     = sum_list (map (\<lambda>ch. int (length (buf ch))) chs) + int (length (buf ch)) - int (length (buf (chs ! k)))"
  by (rule sum_list_list_update)

lemma dispatch_okD:
  assumes "dispatch_ok y"
  shows "\<And>job. job \<in> set (buf (dispatchChan (net y))) \<Longrightarrow> wsMsg job = None"
    "\<And>ch job. ch \<in> set (jobChan (net y)) \<Longrightarrow> job \<in> set (buf ch) \<Longrightarrow> encoded job"
    "\<And>d. d \<in> set (dispatchers y) \<Longrightarrow> worker_ok (length (buckets (net y))) d"
    "\<And>p. p \<in> set (handled y) \<Longrightarrow> encoded (snd p)"
    "DispatchPending (stats (net y)) = i64 (int (length (buf (dispatchChan (net y)))) - room_jobs (accepted y))"
    "PushJobPending (stats (net y)) = i64 (waiting_jobs y)"
    "\<And>k. k < length (buckets (net y)) \<Longrightarrow> job_account k y = filter_mset encodable (mset (accepted y))"
  using assms by (auto simp: dispatch_ok_def)

lemma dispatch_step:
  assumes ok: "dispatch_ok y" and j: "j < length (dispatchers y)"
    and len: "length (jobChan (net y)) = length (buckets (net y))"
    and st: "dispatchWorkerMain (dispatchers y ! j, net y) = Some (d, w)"
  shows "dispatch_ok (y\<lparr>net := w, dispatchers := (dispatchers y)[j := d]\<rparr>)" (is "dispatch_ok ?y")
proof -
  note o = dispatch_okD [OF ok]
  let ?n = "length (buckets (net y))" and ?d0 = "dispatchers y ! j"
  have d0: "worker_ok ?n ?d0" using o(3) j by simp
  have ds: "worker_ok ?n e" if "worker_ok ?n d" "e \<in> set ((dispatchers y)[j := d])" for e
    using that o(3) set_update_subset_insert [of "dispatchers y" j d] by blast
  from st show ?thesis
  proof (cases rule: dispatch_cases)
    case (take_bad job ch)
    have q: "buf (dispatchChan (net y)) = job # buf ch" using take_bad(2) by (rule recv_Some)
    have "\<not> encodable job" using take_bad(3) by (simp add: encodable_def)
    then have "job_account k ?y = filter_mset encodable (mset (accepted y))" if "k < ?n" for k
      using that by (intro account_move [OF ok j]) (simp_all add: take_bad q)
    moreover have "worker_ok ?n d" by (simp add: take_bad)
    ultimately show ?thesis using o q j ds
      by (auto simp: dispatch_ok_def take_bad DispatchPendingDesc_def waiting_jobs_def busy_update algebra_simps)
  next
    case (take job ch msg)
    have q: "buf (dispatchChan (net y)) = job # buf ch" using take(2) by (rule recv_Some)
    then have job: "wsMsg job = None" "encodable job" using o(1) take(3) by (simp_all add: encodable_def)
    have "job_account k ?y = filter_mset encodable (mset (accepted y))" if "k < ?n" for k
      using that by (intro account_move [OF ok j]) (simp_all add: take q job strip_job_None)
    moreover have "worker_ok ?n d" by (auto simp: take encoded_def)
    ultimately show ?thesis using o q j ds
      by (auto simp: dispatch_ok_def take DispatchPendingDesc_def waiting_jobs_def busy_update algebra_simps)
  next
    case (served job)
    have "job_account k ?y = filter_mset encodable (mset (accepted y))" if "k < ?n" for k
      using that by (intro account_move [OF ok j]) (simp_all add: served)
    with o j ds show ?thesis by (auto simp: dispatch_ok_def served waiting_jobs_def busy_update)
  next
    case (count job k0 ks)
    have "job_account k ?y = filter_mset encodable (mset (accepted y))" if "k < ?n" for k
      using that by (intro account_move [OF ok j]) (simp_all add: count)
    moreover have "worker_ok ?n d" using d0 by (simp add: count)
    ultimately show ?thesis using o j ds
      by (auto simp: dispatch_ok_def count PushJobPendingIncr_def waiting_jobs_def busy_update algebra_simps)
  next
    case (hand job k0 ks)
    have k0: "k0 < ?n" "k0 \<notin> set ks" "encoded job" using d0 by (simp_all add: hand)
    have "job_account k ?y = filter_mset encodable (mset (accepted y))" if "k < ?n" for k
      using that k0 len by (intro account_move [OF ok j]) (auto simp: hand nth_list_update)
    moreover have "worker_ok ?n d" using d0 by (simp add: hand)
    moreover have "encoded job'" if "ch \<in> set (jobChan w)" "job' \<in> set (buf ch)" for ch job'
    proof -
      have jk: "jobChan (net y) ! k0 \<in> set (jobChan (net y))" using k0 len by simp
      have "ch = send job (jobChan (net y) ! k0) \<or> ch \<in> set (jobChan (net y))"
        using that(1) set_update_subset_insert [of "jobChan (net y)" k0 "send job (jobChan (net y) ! k0)"]
        by (auto simp: hand)
      then show ?thesis using that(2) o(2) jk k0(3) by auto
    qed
    ultimately show ?thesis using o j ds k0 len
      by (auto simp: dispatch_ok_def hand waiting_jobs_def busy_update queue_update)
  qed
qed

text \<open>A step of a job worker.\<close>

lemma job_step:
  assumes ok: "dispatch_ok y" and k: "k < length (buckets (net y))"
    and len: "length (jobChan (net y)) = length (buckets (net y))"
    and st: "jobWorkerMain k order (net y) = Some (job, w)"
  shows "dispatch_ok (y\<lparr>net := w, handled := handled y @ [(k, job)]\<rparr>)" (is "dispatch_ok ?y")
proof -
  note o = dispatch_okD [OF ok] and fr = job_frame [OF st]
  obtain ch h s where r: "recv (jobChan (net y) ! k) = Some (job, ch)"
      and w: "w = (net y)\<lparr>jobChan := (jobChan (net y))[k := ch], conns := h, stats := s\<rparr>"
    by (rule job_cases [OF st])
  have q: "buf (jobChan (net y) ! k) = job # buf ch" using r by (rule recv_Some)
  have jk: "jobChan (net y) ! k \<in> set (jobChan (net y))" using k len by simp
  have enc: "encoded job" using o(2) [OF jk, of job] q by simp
  have "job_account k' ?y = job_account k' y" for k'
    using k len by (cases "k' = k") (simp_all add: job_account_def handled_at_def w q)
  moreover have "encoded job'" if "ch' \<in> set (jobChan w)" "job' \<in> set (buf ch')" for ch' job'
  proof -
    have "ch' = ch \<or> ch' \<in> set (jobChan (net y))"
      using that(1) set_update_subset_insert [of "jobChan (net y)" k ch] by (auto simp: w)
    then show ?thesis using o(2) jk q that(2) by auto
  qed
  moreover have "PushJobPending (stats w) = i64 (waiting_jobs ?y)"
  proof -
    have "PushJobPending (stats w) = i64 (waiting_jobs y - 1)" by (simp add: fr(2) o(6))
    also have "waiting_jobs y - 1 = waiting_jobs ?y"
      using k len by (simp add: waiting_jobs_def w queue_update q)
    finally show ?thesis .
  qed
  ultimately show ?thesis using o enc fr(3) by (auto simp: dispatch_ok_def w)
qed

lemma waiting_step:
  assumes "dispatch_ok y"
  shows "dispatch_ok (y\<lparr>net := (net y)\<lparr>dispatchChan := block (dispatchChan (net y))\<rparr>\<rparr>)"
    "k < length (jobChan (net y)) \<Longrightarrow>
     dispatch_ok (y\<lparr>net := (net y)\<lparr>jobChan := (jobChan (net y))[k := block (jobChan (net y) ! k)]\<rparr>\<rparr>)"
proof -
  show "dispatch_ok (y\<lparr>net := (net y)\<lparr>dispatchChan := block (dispatchChan (net y))\<rparr>\<rparr>)"
    using assms by (simp add: dispatch_ok_def job_account_def handled_at_def waiting_jobs_def)
next
  assume k: "k < length (jobChan (net y))"
  let ?w = "(net y)\<lparr>jobChan := (jobChan (net y))[k := block (jobChan (net y) ! k)]\<rparr>"
  have b: "buf (jobChan ?w ! k') = buf (jobChan (net y) ! k')" for k'
    using k by (cases "k' = k") simp_all
  have "\<forall>ch \<in> set (jobChan ?w). \<forall>job \<in> set (buf ch). encoded job"
  proof (intro ballI)
    fix ch job assume "ch \<in> set (jobChan ?w)" "job \<in> set (buf ch)"
    then obtain k' where "k' < length (jobChan (net y))" "job \<in> set (buf (jobChan ?w ! k'))"
      by (auto simp: in_set_conv_nth)
    then show "encoded job" using dispatch_okD(2) [OF assms, of "jobChan (net y) ! k'" job] b by simp
  qed
  moreover have "waiting_jobs (y\<lparr>net := ?w\<rparr>) = waiting_jobs y"
    using k by (simp add: waiting_jobs_def queue_update)
  ultimately show "dispatch_ok (y\<lparr>net := ?w\<rparr>)"
    using dispatch_okD [OF assms] b by (simp add: dispatch_ok_def job_account_def handled_at_def)
qed

lemma sum_list_replicate_empty [simp]: "sum_list (replicate n {#}) = {#}"
  by (induction n) simp_all

lemma ws_init_dispatch: "ws_init cfg i y \<Longrightarrow> dispatch_ok y"
proof -
  assume ini: "ws_init cfg i y"
  then obtain w jw ds where ns: "NewSocket cfg zero_stats = Some (w, jw, ds)"
      and y: "y = \<lparr>net = w, serverId = i, phases = [], dispatchers = ds, accepted = [], handled = []\<rparr>"
    by (auto simp: ws_init_def split: option.splits)
  obtain m where m: "NewConnMgr cfg = Some (m, jw, ds)"
      and w: "w = \<lparr>buckets = buckets m, jobChan = jobChan m, dispatchChan = dispatchChan m, conns = [], stats = zero_stats\<rparr>"
    using ns by (auto simp: NewSocket_def)
  have dc: "buf (dispatchChan m) = []" and ds: "ds = replicate (nat (DispatchWorkerCount cfg)) Idle"
    using m by (auto simp: NewConnMgr_def Let_def make_chan_def split: option.splits if_splits)
  have jc: "\<forall>ch \<in> set (jobChan m). buf ch = []" and len: "length (jobChan m) = length (buckets m)"
    using m by (auto simp: NewConnMgr_def Let_def make_chan_def split: option.splits if_splits)
  have "map (\<lambda>ch. int (length (buf ch))) (jobChan m) = map (\<lambda>_. 0) (jobChan m)"
    using jc by simp
  then have z: "sum_list (map (\<lambda>ch. int (length (buf ch))) (jobChan m)) = 0"
    by (simp only: sum_list_0)
  have "buf (jobChan m ! k) = []" if "k < length (buckets m)" for k
    using jc len that by (metis nth_mem)
  then show ?thesis
    using jc by (simp add: dispatch_ok_def job_account_def handled_at_def waiting_jobs_def y w dc ds z
      room_jobs_def zero_stats_def sum_list_replicate map_replicate_const)
qed

lemma ws_step_dispatch:
  assumes d: "dispatch_ok y" and s: "sys_ok i y" and st: "ws_step cfg conv y y'"
    and n: "length (conns (net y')) < 2 ^ 64"
  shows "dispatch_ok y'"
proof -
  have len: "length (jobChan (net y)) = length (buckets (net y))"
    using s by (simp add: sys_ok_def mgr_ok_def)
  from st show ?thesis
  proof cases
    case (traffic c x t)
    show ?thesis
      by (rule dispatch_ok_frame [OF d]) (use traffic traffic_frame [OF traffic(3)] in simp_all)
  next
    case (to_one pick j m e w)
    show ?thesis
      by (rule dispatch_ok_frame [OF d]) (use to_one PushSession_frame [OF to_one(2)] in simp_all)
  next
    case (to_all m e w)
    show ?thesis
      unfolding to_all(1)
      by (rule push_dispatch_ok [OF d, of w "e = None" "\<lparr>pushType = PushTypeAll, job_room = [], job_Msg = m, wsMsg = None\<rparr>"])
        (use to_all(2) in \<open>auto simp: PushAll_def stats_defs PushTypeAll_def PushTypeRoom_def Let_def split: if_splits\<close>)
  next
    case (to_room r m e w)
    show ?thesis
      unfolding to_room(1)
      by (rule push_dispatch_ok [OF d, of w "e = None" "\<lparr>pushType = PushTypeRoom, job_room = r, job_Msg = m, wsMsg = None\<rparr>"])
        (use to_room(2) in \<open>auto simp: PushRoom_def stats_defs PushTypeAll_def PushTypeRoom_def Let_def split: if_splits\<close>)
  next
    case (dispatching k e w)
    then show ?thesis using dispatch_step [OF d dispatching(2) len dispatching(3)] by simp
  next
    case (working k order job w)
    then show ?thesis using job_step [OF d working(2) len working(3)] by simp
  next
    case waiting_dispatch
    then show ?thesis using waiting_step(1) [OF d] by simp
  next
    case (waiting_job k)
    then show ?thesis using waiting_step(2) [OF d] len by simp
  next
    case (arriving now j w)
    show ?thesis
      by (rule dispatch_ok_frame [OF d]) (use arriving arriving_step [OF s arriving(2)] n in simp_all)
  next
    case (joining c mx req r w)
    show ?thesis
      by (rule dispatch_ok_frame [OF d]) (use joining join_step [OF s joining(2) _ joining(4)] in simp_all)
  next
    case (leaving c req r w)
    show ?thesis
      by (rule dispatch_ok_frame [OF d]) (use leaving handleLeave_step [OF s leaving(2) _ leaving(4)] in simp_all)
  next
    case (failing c)
    show ?thesis
      by (rule dispatch_ok_frame [OF d]) (simp_all add: failing set_conn_def same_queues_def)
  next
    case (parting c r w)
    show ?thesis
      by (rule dispatch_ok_frame [OF d]) (use parting leave_one_step [OF s parting(2) _ parting(5)] in simp_all)
  next
    case (returning c w)
    show ?thesis
      by (rule dispatch_ok_frame [OF d]) (use returning returning_step [OF s] in simp_all)
  next
    case (kicking j e w)
    show ?thesis
      by (rule dispatch_ok_frame [OF d]) (use kicking kicking_step [OF s] in simp_all)
  qed
qed

lemma ws_reachable_dispatch:
  assumes "ws_reachable cfg conv i y" "length (conns (net y)) < 2 ^ 64"
  shows "dispatch_ok y"
proof -
  have "length (conns (net y)) < 2 ^ 64 \<longrightarrow> sys_ok i y \<and> dispatch_ok y"
    using assms(1)
  proof (induction rule: ws_reachable_induct)
    case (init y)
    then show ?case by (simp add: ws_init_ok ws_init_dispatch)
  next
    case (step y y')
    then show ?case
      using ws_step_grows [OF step(2)] ws_step_conns [OF _ step(2)] ws_step_dispatch [OF _ _ step(2)] by force
  qed
  with assms(2) show ?thesis by simp
qed

end
