(* ===== verification/Ws_Props.thy ===== *)
theory Ws_Props
  imports Ws_Dispatch
begin

section \<open>ws: properties of the connection manager\<close>

text \<open>
  The properties of the running system, and two short runs of a small instance that show
  their hypotheses can hold.
\<close>

subsection \<open>Example runs\<close>

definition chat_conv :: "gojson \<Rightarrow> string res" where
  "chat_conv v = (case v of JStr s \<Rightarrow> Inr s | _ \<Rightarrow> Inl json_error)"

definition chat_msg :: MessageReq where
  "chat_msg = \<lparr>Service = ''s'', Action = ''a'', Data = JStr ''lobby''\<rparr>"

definition chat_start :: sys where
  "chat_start = (case NewSocket sample_cfg zero_stats of
     Some (w, jw, ds) \<Rightarrow> \<lparr>net = w, serverId = 7, phases = [], dispatchers = ds, accepted = [], handled = []\<rparr>)"

definition chat_open :: "sys \<Rightarrow> sys" where
  "chat_open y = (case open_connection sample_cfg 0 (serverId y, net y) of
     Some (i, w) \<Rightarrow> y\<lparr>serverId := i, net := w, phases := phases y @ [Serving]\<rparr>)"

definition chat_join :: "sys \<Rightarrow> sys" where
  "chat_join y = (case handleJoin chat_conv 5 chat_msg 0 (net y) of Some (r, w) \<Rightarrow> y\<lparr>net := w\<rparr>)"

definition chat_fail :: "sys \<Rightarrow> sys" where
  "chat_fail y = y\<lparr>net := set_conn 0 (Close (conns (net y) ! 0)) (net y), phases := (phases y)[0 := Leaving]\<rparr>"

definition chat_part :: "sys \<Rightarrow> sys" where
  "chat_part y = (case leave_one ''lobby'' 0 (net y) of Some w \<Rightarrow> y\<lparr>net := w\<rparr>)"

definition chat_return :: "sys \<Rightarrow> sys" where
  "chat_return y = (case DelConn 0 (net y) of Some w \<Rightarrow> y\<lparr>net := w, phases := (phases y)[0 := Gone]\<rparr>)"

definition chat_push :: "sys \<Rightarrow> sys" where
  "chat_push y = (case PushAll chat_msg (net y) of (e, w) \<Rightarrow> y\<lparr>net := w, accepted := accepted y @ (if e = None
      then [\<lparr>pushType = PushTypeAll, job_room = [], job_Msg = chat_msg, wsMsg = None\<rparr>] else [])\<rparr>)"

definition chat_gone :: sys where
  "chat_gone = chat_return (chat_part (chat_fail (chat_join (chat_open chat_start))))"

definition chat_pushed :: sys where
  "chat_pushed = chat_push (chat_open chat_start)"

lemma chat_reachable_start: "ws_reachable sample_cfg chat_conv 7 chat_start"
proof -
  have "ws_init sample_cfg 7 chat_start" by code_simp
  then show ?thesis by (auto simp: ws_reachable_def)
qed

lemma chat_open_reachable:
  assumes "ws_reachable sample_cfg chat_conv 7 y" "open_connection sample_cfg 0 (serverId y, net y) \<noteq> None"
  shows "ws_reachable sample_cfg chat_conv 7 (chat_open y)"
proof -
  obtain i w where o: "open_connection sample_cfg 0 (serverId y, net y) = Some (i, w)" using assms(2) by auto
  show ?thesis
    unfolding chat_open_def o option.case prod.case
    by (rule ws_reachable_step [OF assms(1) ws_step.arriving [OF o]])
qed

lemma chat_opened: "ws_reachable sample_cfg chat_conv 7 (chat_open chat_start)"
  by (rule chat_open_reachable [OF chat_reachable_start]) code_simp

lemma chat_gone_reachable: "ws_reachable sample_cfg chat_conv 7 chat_gone"
proof -
  let ?y1 = "chat_open chat_start" and ?y2 = "chat_join (chat_open chat_start)"
  let ?y3 = "chat_fail ?y2" let ?y4 = "chat_part ?y3"
  have "ws_step sample_cfg chat_conv ?y1 (chat_join ?y1)"
  proof -
    have "handleJoin chat_conv 5 chat_msg 0 (net ?y1) \<noteq> None" by code_simp
    then obtain r w where j: "handleJoin chat_conv 5 chat_msg 0 (net ?y1) = Some (r, w)" by auto
    have "ws_step sample_cfg chat_conv ?y1 (?y1\<lparr>net := w\<rparr>)"
      by (rule ws_step.joining [OF _ _ j]) code_simp+
    then show ?thesis by (simp only: chat_join_def j option.case prod.case)
  qed
  then have y2: "ws_reachable sample_cfg chat_conv 7 ?y2" by (rule ws_reachable_step [OF chat_opened])
  have "ws_step sample_cfg chat_conv ?y2 ?y3"
    unfolding chat_fail_def by (rule ws_step.failing) code_simp+
  with y2 have y3: "ws_reachable sample_cfg chat_conv 7 ?y3" by (rule ws_reachable_step)
  have "ws_step sample_cfg chat_conv ?y3 ?y4"
  proof -
    have "leave_one ''lobby'' 0 (net ?y3) \<noteq> None" by code_simp
    then obtain w where j: "leave_one ''lobby'' 0 (net ?y3) = Some w" by auto
    have "ws_step sample_cfg chat_conv ?y3 (?y3\<lparr>net := w\<rparr>)"
      by (rule ws_step.parting [OF _ _ _ j]) code_simp+
    then show ?thesis by (simp only: chat_part_def j option.case)
  qed
  with y3 have y4: "ws_reachable sample_cfg chat_conv 7 ?y4" by (rule ws_reachable_step)
  have "ws_step sample_cfg chat_conv ?y4 (chat_return ?y4)"
  proof -
    have "DelConn 0 (net ?y4) \<noteq> None" by code_simp
    then obtain w where j: "DelConn 0 (net ?y4) = Some w" by auto
    have "ws_step sample_cfg chat_conv ?y4 (?y4\<lparr>net := w, phases := (phases ?y4)[0 := Gone]\<rparr>)"
      by (rule ws_step.returning [OF _ _ _ j]) code_simp+
    then show ?thesis by (simp only: chat_return_def j option.case)
  qed
  with y4 show ?thesis unfolding chat_gone_def by (rule ws_reachable_step)
qed

lemma chat_pushed_reachable: "ws_reachable sample_cfg chat_conv 7 chat_pushed"
proof -
  let ?y = "chat_open chat_start"
  obtain e w where o: "PushAll chat_msg (net ?y) = (e, w)" by (cases "PushAll chat_msg (net ?y)")
  from ws_step.to_all [OF o] show ?thesis
    unfolding chat_pushed_def chat_push_def o prod.case by (rule ws_reachable_step [OF chat_opened])
qed

lemma chat_pushed_state:
  "length (conns (net chat_pushed)) = 1" "length (buckets (net chat_pushed)) = 2"
  "registered (net chat_pushed) 8 = Some 0" "length (accepted chat_pushed) = 1"
  "int (length (buf (dispatchChan (net chat_pushed)))) - room_jobs (accepted chat_pushed) = 1"
  by code_simp+

lemma chat_gone_state: "length (conns (net chat_gone)) = 1" "phases chat_gone = [Gone]"
  by code_simp+

subsection \<open>Registry and rooms\<close>

text \<open>
  C13. However the goroutines interleave, as long as fewer than 2^64 connections were opened:
  a registered connection stands under its own identifier and its handler has not returned;
  a connection is in a room of the manager exactly when its own list of rooms says so; the
  online counter is the number of handlers that have not returned, and the room counter the
  number of rooms, none of which is empty.
\<close>

theorem registry_consistent:
  assumes "ws_reachable cfg conv i y" "length (conns (net y)) < 2 ^ 64"
  shows "(\<forall>j c. registered (net y) j = Some c \<longrightarrow>
           c < length (conns (net y)) \<and> connId (conns (net y) ! c) = j \<and> phases y ! c \<noteq> Gone)
    \<and> (\<forall>r j c. member (net y) r j = Some c \<longleftrightarrow>
           c < length (conns (net y)) \<and> connId (conns (net y) ! c) = j \<and> r \<in> set (conn_rooms (conns (net y) ! c)))
    \<and> OnlineConnections (stats (net y)) = i64 (live y)
    \<and> RoomCount (stats (net y)) = i64 (total_rooms (buckets (net y)))
    \<and> (\<forall>b \<in> set (buckets (net y)). \<forall>(r, room) \<in> set (rooms b). members room \<noteq> [])"
proof (intro conjI)
  note k = sys_okD [OF ws_reachable_ok [OF assms]]
  show "\<forall>j c. registered (net y) j = Some c \<longrightarrow>
      c < length (conns (net y)) \<and> connId (conns (net y) ! c) = j \<and> phases y ! c \<noteq> Gone"
    using k(1) unfolding registered_ok_def .
  show "\<forall>r j c. member (net y) r j = Some c \<longleftrightarrow>
      c < length (conns (net y)) \<and> connId (conns (net y) ! c) = j \<and> r \<in> set (conn_rooms (conns (net y) ! c))"
    using k(2) unfolding rooms_ok_def .
  show "OnlineConnections (stats (net y)) = i64 (live y)" by (rule k(4))
  show "RoomCount (stats (net y)) = i64 (total_rooms (buckets (net y)))" by (rule mgr_okD(5) [OF k(7)])
  have "bucket_ok b" if "b \<in> set (buckets (net y))" for b
    using k(7) that by (auto simp: mgr_ok_def in_set_conv_nth)
  then show "\<forall>b \<in> set (buckets (net y)). \<forall>(r, room) \<in> set (rooms b). members room \<noteq> []"
    by (fastforce simp: bucket_ok_def room_ok_def)
qed

theorem registry_consistent_witness:
  "registered (net chat_pushed) 8 = Some 0 \<and> connId (conns (net chat_pushed) ! 0) = 8
   \<and> OnlineConnections (stats (net chat_pushed)) = i64 (live chat_pushed)"
proof -
  have n: "length (conns (net chat_pushed)) < 2 ^ 64" by (simp add: chat_pushed_state)
  from registry_consistent [OF chat_pushed_reachable n] chat_pushed_state(3) show ?thesis by blast
qed

text \<open>
  C20. A connection whose handler has returned is closed, registered nowhere and in no room,
  and no connection's close channel is ever closed twice, which would panic.
\<close>

theorem gone_is_forgotten:
  assumes "ws_reachable cfg conv i y" "length (conns (net y)) < 2 ^ 64" "c < length (conns (net y))"
  shows "closeChan (conns (net y) ! c) \<le> 1
    \<and> (phases y ! c = Gone \<longrightarrow> isClosed (conns (net y) ! c) \<and> wsClosed (conns (net y) ! c)
         \<and> (\<forall>j. registered (net y) j \<noteq> Some c) \<and> (\<forall>r j. member (net y) r j \<noteq> Some c))"
proof -
  note k = sys_okD [OF ws_reachable_ok [OF assms(1,2)]]
  have c: "conn_ok (conns (net y) ! c)" "phases y ! c \<noteq> Serving \<longrightarrow> isClosed (conns (net y) ! c)"
      "phases y ! c = Gone \<longrightarrow> conn_rooms (conns (net y) ! c) = []"
    using k(3) assms(3) by (simp_all add: phases_ok_def)
  have "registered (net y) j \<noteq> Some c" if "phases y ! c = Gone" for j
    using k(1) that unfolding registered_ok_def by blast
  moreover have "member (net y) r j \<noteq> Some c" if "phases y ! c = Gone" for r j
    using k(2) c(3) that unfolding rooms_ok_def by force
  ultimately show ?thesis using c by (simp add: conn_ok_def)
qed

theorem gone_is_forgotten_witness:
  "phases chat_gone ! 0 = Gone \<and> (\<forall>j. registered (net chat_gone) j \<noteq> Some 0)"
proof -
  have h: "length (conns (net chat_gone)) < 2 ^ 64" "0 < length (conns (net chat_gone))" "phases chat_gone ! 0 = Gone"
    by (simp_all add: chat_gone_state)
  from gone_is_forgotten [OF chat_gone_reachable h(1,2)] h(3) show ?thesis by blast
qed

text \<open>
  C19. Joining and leaving refine operations on a set of pairs of a room and a connection's
  identifier, over any sequence of calls and however the connections are spread over the
  buckets: no call panics, a second join and a leave without a join change nothing, and
  nothing else of the manager's registry changes.
\<close>

theorem rooms_refine_sets:
  assumes "mgr_ok w"
  shows "\<exists>w'. room_ops JoinRoom LeaveRoom ops w = Some w' \<and> mgr_ok w'
    \<and> room_members w' = set_ops (\<lambda>c. connId (conns w ! c)) ops (room_members w)"
  using rooms.ops_refine_set [OF assms, of ops] by blast

theorem rooms_refine_sets_witness:
  "\<exists>w'. room_ops JoinRoom LeaveRoom [Join ''a'' 0, Join ''a'' 1, Leave ''a'' 0, Join ''a'' 1] (net chat_pushed) = Some w'
     \<and> mgr_ok w' \<and> room_members w' = set_ops (\<lambda>c. connId (conns (net chat_pushed) ! c))
         [Join ''a'' 0, Join ''a'' 1, Leave ''a'' 0, Join ''a'' 1] (room_members (net chat_pushed))"
proof (rule rooms_refine_sets)
  have "length (conns (net chat_pushed)) < 2 ^ 64" by (simp add: chat_pushed_state)
  from ws_reachable_ok [OF chat_pushed_reachable this] show "mgr_ok (net chat_pushed)" by (simp add: sys_ok_def)
qed

subsection \<open>Pushing\<close>



text \<open>
  The pending counters. The jobs pending for the buckets are counted exactly. The jobs
  pending for the dispatchers are not: every push to a room that was ever accepted lowers
  the count by one, because \<open>PushRoom\<close> counts it elsewhere and the dispatcher takes it off.
\<close>

theorem pending_counters:
  assumes "ws_reachable cfg conv i y" "length (conns (net y)) < 2 ^ 64"
  shows "PushJobPending (stats (net y)) = i64 (waiting_jobs y)
    \<and> DispatchPending (stats (net y)) = i64 (int (length (buf (dispatchChan (net y)))) - room_jobs (accepted y))"
  using dispatch_okD(5,6) [OF ws_reachable_dispatch [OF assms]] by blast

theorem pending_counters_witness:
  "DispatchPending (stats (net chat_pushed)) = 1"
proof -
  have h: "length (conns (net chat_pushed)) < 2 ^ 64" by (simp add: chat_pushed_state)
  from pending_counters [OF chat_pushed_reachable h] show ?thesis by (simp add: chat_pushed_state(5) in_i64_def)
qed

text \<open>What a run over some connections does to one of them.\<close>

lemma push_loop_other: "c \<notin> set (map snd cs) \<Longrightarrow> push_loop m cs (h, s) = (h', s') \<Longrightarrow> h' ! c = h ! c"
proof (induction m cs "(h, s)" arbitrary: h s rule: push_loop.induct)
  case (1 m)
  then show ?case by simp
next
  case (2 m pick d cs h s)
  obtain e x t where x: "SendMessage pick m (h ! d, s) = (e, x, t)" by (metis prod_cases3)
  have "h' ! c = h[d := x] ! c" using 2 x by simp
  with "2.prems"(1) show ?case by simp
qed

lemma push_loop_each:
  assumes "distinct (map snd cs)" "c \<in> set (map snd cs)" "c < length h" "push_loop m cs (h, s) = (h', s')"
  shows "\<exists>pick e t t'. SendMessage pick m (h ! c, t) = (e, h' ! c, t')"
  using assms
proof (induction m cs "(h, s)" arbitrary: h s rule: push_loop.induct)
  case (1 m)
  then show ?case by simp
next
  case (2 m pick d cs h s)
  obtain e x t where x: "SendMessage pick m (h ! d, s) = (e, x, t)" by (metis prod_cases3)
  have p: "push_loop m cs (h[d := x], t) = (h', s')" using "2.prems"(4) x by simp
  show ?case
  proof (cases "c = d")
    case True
    have "h' ! c = x" using push_loop_other [OF _ p, of c] "2.prems"(1,3) True by simp
    with x True show ?thesis by blast
  next
    case False
    then show ?thesis using "2.hyps" [OF x [symmetric] refl] p "2.prems"(1-3) by auto
  qed
qed

text \<open>
  C15. When a worker of a bucket takes a job for everybody, every connection registered in
  the bucket at that moment is offered the encoded message exactly once: the message is
  appended to its queue, or it is closed, or its queue is full and it is left as it was. All
  other connections are left alone.
\<close>

theorem broadcast_offers_once:
  assumes r: "ws_reachable cfg conv i y" "length (conns (net y)) < 2 ^ 64" "k < length (buckets (net y))"
    and j: "jobWorkerMain k order (net y) = Some (job, w)" "pushType job = PushTypeAll"
  shows "\<exists>msg. EncodeWsMessage (job_Msg job) = Inr msg \<and> (\<forall>c < length (conns (net y)).
     if c \<in> set (map snd (id2Conn (buckets (net y) ! k)))
     then conns w ! c = (conns (net y) ! c)\<lparr>outChan := send msg (outChan (conns (net y) ! c))\<rparr>
        \<or> closing (conns (net y) ! c) \<and> conns w ! c = conns (net y) ! c
        \<or> \<not> can_send (outChan (conns (net y) ! c)) \<and> conns w ! c = conns (net y) ! c
     else conns w ! c = conns (net y) ! c)"
proof -
  note k = sys_okD [OF ws_reachable_ok [OF r(1,2)]]
  note o = dispatch_okD [OF ws_reachable_dispatch [OF r(1,2)]]
  let ?ids = "id2Conn (buckets (net y) ! k)"
  obtain ch h s where q: "recv (jobChan (net y) ! k) = Some (job, ch)"
      and w: "w = (net y)\<lparr>jobChan := (jobChan (net y))[k := ch], conns := h, stats := s\<rparr>"
      and x: "if pushType job = PushTypeAll then \<exists>msg. wsMsg job = Some msg \<and> enumerates order ?ids
            \<and> (h, s) = push_loop msg order (conns (net y), PushJobPendingDesc (stats (net y)))
          else h = conns (net y) \<and> s = PushJobPendingDesc (stats (net y))"
    by (rule job_cases [OF j(1)])
  from x j(2) obtain msg where m: "wsMsg job = Some msg" and e: "enumerates order ?ids"
      and p: "push_loop msg order (conns (net y), PushJobPendingDesc (stats (net y))) = (h, s)"
    by auto
  have len: "k < length (jobChan (net y))" using k(7) r(3) by (simp add: mgr_ok_def)
  have "encoded job" using o(2) [of "jobChan (net y) ! k" job] recv_Some [OF q] len by simp
  then have enc: "EncodeWsMessage (job_Msg job) = Inr msg" by (simp add: encoded_def m)
  have bk: "bucket_ok (buckets (net y) ! k)" "own_ids (length (buckets (net y))) k (buckets (net y) ! k)"
    using k(7) r(3) by (auto simp: mgr_ok_def)
  have dk: "distinct (map fst ?ids)" using bk(1) by (simp add: bucket_ok_def)
  have reg: "registered (net y) a = Some c" if "(a, c) \<in> set ?ids" for a c
  proof -
    have mp: "map_of ?ids a = Some c" using that dk by simp
    then have "unat a mod length (buckets (net y)) = k" using bk(2) unfolding own_ids_def by blast
    with mp show ?thesis by (simp add: registered_def bucket_of_def)
  qed
  have "connId (conns (net y) ! c) = a" if "(a, c) \<in> set ?ids" for a c
    using k(1) reg [OF that] unfolding registered_ok_def by blast
  then have "inj_on snd (set ?ids)" by (intro inj_onI) (metis prod.collapse)
  then have "distinct (map snd ?ids)" using dk by (simp add: distinct_map)
  moreover have ord: "mset (map snd order) = mset (map snd ?ids)" using e by (simp add: enumerates_def)
  ultimately have dist: "distinct (map snd order)" and st: "set (map snd order) = set (map snd ?ids)"
    by (metis mset_eq_imp_distinct_iff, metis set_mset_mset)
  show ?thesis
  proof (intro exI [of _ msg] conjI enc allI impI)
    fix c assume c: "c < length (conns (net y))"
    show "if c \<in> set (map snd ?ids)
       then conns w ! c = (conns (net y) ! c)\<lparr>outChan := send msg (outChan (conns (net y) ! c))\<rparr>
          \<or> closing (conns (net y) ! c) \<and> conns w ! c = conns (net y) ! c
          \<or> \<not> can_send (outChan (conns (net y) ! c)) \<and> conns w ! c = conns (net y) ! c
       else conns w ! c = conns (net y) ! c"
    proof (cases "c \<in> set (map snd ?ids)")
      case True
      then obtain pick e t t' where "SendMessage pick msg (conns (net y) ! c, t) = (e, h ! c, t')"
        using push_loop_each [OF dist _ c p] st by blast
      then show ?thesis using True by (cases rule: SendMessage_cases) (simp_all add: w)
    next
      case False
      then show ?thesis using push_loop_other [OF _ p] st by (simp add: w)
    qed
  qed
qed

text \<open>The pushed job on its way to the first bucket.\<close>

lemma chat_pushed_net:
  "dispatchers chat_pushed = [Idle]" "jobChan (net chat_pushed) = [\<lparr>buf = [], cap = 2, waiting = 0\<rparr>, \<lparr>buf = [], cap = 2, waiting = 0\<rparr>]"
  "buf (dispatchChan (net chat_pushed)) = [\<lparr>pushType = PushTypeAll, job_room = [], job_Msg = chat_msg, wsMsg = None\<rparr>]"
  "id2Conn (buckets (net chat_pushed) ! 0) = [(8, 0)]"
  "closeChan (conns (net chat_pushed) ! 0) = 0" "can_send (outChan (conns (net chat_pushed) ! 0))"
  by code_simp+

lemma chat_delivering:
  obtains y job where "ws_reachable sample_cfg chat_conv 7 y" "buckets (net y) = buckets (net chat_pushed)"
    "conns (net y) = conns (net chat_pushed)" "buf (jobChan (net y) ! 0) = [job]" "pushType job = PushTypeAll" "wsMsg job \<noteq> None"
proof -
  let ?w = "net chat_pushed"
  have "is_ok (EncodeWsMessage chat_msg)"
    using EncodeWsMessage_ok [of chat_msg] by (simp add: chat_msg_def)
  then obtain msg where msg: "EncodeWsMessage chat_msg = Inr msg" by (rule is_okE)
  let ?a = "\<lparr>pushType = PushTypeAll, job_room = [], job_Msg = chat_msg, wsMsg = None\<rparr>"
  let ?j = "?a\<lparr>wsMsg := Some msg\<rparr>"
  obtain ch where ch: "recv (dispatchChan ?w) = Some (?a, ch)" using recv_head [OF chat_pushed_net(3)] by blast
  let ?w1 = "?w\<lparr>dispatchChan := ch, stats := DispatchPendingDesc (stats ?w)\<rparr>"
  let ?y1 = "chat_pushed\<lparr>net := ?w1, dispatchers := [Next ?j [0, 1]]\<rparr>"
  let ?w2 = "?w1\<lparr>stats := PushJobPendingIncr (stats ?w1)\<rparr>" and ?q = "\<lparr>buf = [], cap = 2, waiting = 0\<rparr>"
  let ?y2 = "?y1\<lparr>net := ?w2, dispatchers := [Sending ?j 0 [1]]\<rparr>"
  let ?w3 = "?w2\<lparr>jobChan := [send ?j ?q, ?q]\<rparr>"
  let ?y3 = "?y2\<lparr>net := ?w3, dispatchers := [Next ?j [1]]\<rparr>"
  have two: "[0..<length (buckets ?w)] = [0, 1]" by (simp add: chat_pushed_state upt_conv_Cons)
  have "dispatchWorkerMain (dispatchers chat_pushed ! 0, ?w) = Some (Next ?j [0, 1], ?w1)"
    by (simp add: dispatchWorkerMain_def chat_pushed_net ch msg two)
  with ws_step.dispatching [of 0 chat_pushed] have "ws_reachable sample_cfg chat_conv 7 ?y1"
    by (intro ws_reachable_step [OF chat_pushed_reachable]) (fastforce simp: chat_pushed_net)
  moreover have "dispatchWorkerMain (dispatchers ?y1 ! 0, net ?y1) = Some (Sending ?j 0 [1], ?w2)"
    by (simp add: dispatchWorkerMain_def)
  from ws_step.dispatching [OF _ this, of sample_cfg chat_conv] have "ws_step sample_cfg chat_conv ?y1 ?y2" by simp
  ultimately have y2: "ws_reachable sample_cfg chat_conv 7 ?y2" by (rule ws_reachable_step)
  have "dispatchWorkerMain (dispatchers ?y2 ! 0, net ?y2) = Some (Next ?j [1], ?w3)"
    by (simp add: dispatchWorkerMain_def chat_pushed_net can_send_def)
  from ws_step.dispatching [OF _ this, of sample_cfg chat_conv] have "ws_step sample_cfg chat_conv ?y2 ?y3" by simp
  with y2 have "ws_reachable sample_cfg chat_conv 7 ?y3" by (rule ws_reachable_step)
  then show ?thesis by (rule that [of ?y3 ?j]) simp_all
qed

theorem broadcast_offers_once_witness:
  "\<exists>y job w msg. ws_reachable sample_cfg chat_conv 7 y \<and> jobWorkerMain 0 [(True, 0)] (net y) = Some (job, w)
     \<and> outChan (conns w ! 0) = send msg (outChan (conns (net y) ! 0))"
proof -
  obtain y job where y: "ws_reachable sample_cfg chat_conv 7 y" "buckets (net y) = buckets (net chat_pushed)"
    "conns (net y) = conns (net chat_pushed)" "buf (jobChan (net y) ! 0) = [job]" "pushType job = PushTypeAll" "wsMsg job \<noteq> None"
    by (rule chat_delivering)
  obtain msg where m: "wsMsg job = Some msg" using y(6) by blast
  obtain ch where ch: "recv (jobChan (net y) ! 0) = Some (job, ch)" using recv_head [OF y(4)] by blast
  have e: "enumerates [(True, 0)] (id2Conn (buckets (net y) ! 0))" by (simp add: enumerates_def y chat_pushed_net)
  obtain h s where p: "push_loop msg [(True, 0)] (conns (net y), PushJobPendingDesc (stats (net y))) = (h, s)"
    by (cases "push_loop msg [(True, 0)] (conns (net y), PushJobPendingDesc (stats (net y)))")
  define w where "w = (net y)\<lparr>jobChan := (jobChan (net y))[0 := ch], conns := h, stats := s\<rparr>"
  have w: "jobWorkerMain 0 [(True, 0)] (net y) = Some (job, w)"
    using p by (simp add: jobWorkerMain_def ch y(5) m Bucket_PushAll_def e Let_def w_def del: push_loop.simps)
  have n: "length (conns (net y)) < 2 ^ 64" "0 < length (buckets (net y))" by (simp_all add: y chat_pushed_state)
  obtain msg' where "\<forall>c < length (conns (net y)).
     if c \<in> set (map snd (id2Conn (buckets (net y) ! 0)))
     then conns w ! c = (conns (net y) ! c)\<lparr>outChan := send msg' (outChan (conns (net y) ! c))\<rparr>
        \<or> closing (conns (net y) ! c) \<and> conns w ! c = conns (net y) ! c
        \<or> \<not> can_send (outChan (conns (net y) ! c)) \<and> conns w ! c = conns (net y) ! c
     else conns w ! c = conns (net y) ! c"
    using broadcast_offers_once [OF y(1) n w y(5)] by blast
  then have "conns w ! 0 = (conns (net y) ! 0)\<lparr>outChan := send msg' (outChan (conns (net y) ! 0))\<rparr>"
    by (simp add: y(2,3) chat_pushed_net chat_pushed_state)
  with y(1) w show ?thesis by (metis Connection.select_convs(4) Connection.surjective Connection.update_convs(4))
qed

text \<open>
  A push to a room reaches nobody: whatever a worker does with such a job, no connection
  changes and only the counter of pending jobs moves; and between being accepted and being
  taken by a dispatcher it leaves the counter of pending dispatches one too low.
\<close>

theorem room_push_lost:
  assumes job: "jobWorkerMain k order w = Some (job, w')" "pushType job = PushTypeRoom"
    and push: "PushRoom r m v = (None, v1)" "buf (dispatchChan v) = []" "dispatchWorkerMain (Idle, v1) = Some (d, v2)"
  shows "conns w' = conns w \<and> stats w' = PushJobPendingDesc (stats w)
    \<and> conns v2 = conns v \<and> DispatchPending (stats v2) = i64 (DispatchPending (stats v) - 1)"
proof -
  have "conns w' = conns w \<and> stats w' = PushJobPendingDesc (stats w)"
    using job by (cases rule: job_cases) (auto simp: PushTypeRoom_def PushTypeAll_def)
  moreover have "conns v1 = conns v" "DispatchPending (stats v1) = DispatchPending (stats v)"
    using push(1) by (auto simp: PushRoom_def Let_def stats_defs split: if_splits)
  with push(3) have "conns v2 = conns v \<and> DispatchPending (stats v2) = i64 (DispatchPending (stats v) - 1)"
    by (cases rule: dispatch_cases) (auto simp: stats_defs)
  ultimately show ?thesis by simp
qed

definition chat_room_job :: PushJob where
  "chat_room_job = \<lparr>pushType = PushTypeRoom, job_room = ''lobby'', job_Msg = chat_msg, wsMsg = None\<rparr>"

definition chat_queued :: hub where
  "chat_queued = (net chat_start)\<lparr>jobChan := [\<lparr>buf = [chat_room_job], cap = 2, waiting = 0\<rparr>, \<lparr>buf = [], cap = 2, waiting = 0\<rparr>]\<rparr>"

definition chat_bad_msg :: MessageReq where
  "chat_bad_msg = \<lparr>Service = [], Action = [], Data = JUnsupported\<rparr>"

theorem room_push_lost_witness:
  "\<exists>w' v1 d v2. jobWorkerMain 0 [] chat_queued = Some (chat_room_job, w') \<and> conns w' = conns chat_queued
     \<and> PushRoom ''lobby'' chat_bad_msg (net chat_start) = (None, v1) \<and> dispatchWorkerMain (Idle, v1) = Some (d, v2)
     \<and> DispatchPending (stats v2) = - 1"
proof -
  have p: "fst (PushRoom ''lobby'' chat_bad_msg (net chat_start)) = None"
    "dispatchWorkerMain (Idle, snd (PushRoom ''lobby'' chat_bad_msg (net chat_start))) \<noteq> None"
    "buf (dispatchChan (net chat_start)) = []" "DispatchPending (stats (net chat_start)) = 0"
    by code_simp+
  obtain v1 where v1: "PushRoom ''lobby'' chat_bad_msg (net chat_start) = (None, v1)"
    using p(1) by (cases "PushRoom ''lobby'' chat_bad_msg (net chat_start)") simp
  obtain d v2 where v2: "dispatchWorkerMain (Idle, v1) = Some (d, v2)" using p(2) v1 by auto
  obtain w' where w': "jobWorkerMain 0 [] chat_queued = Some (chat_room_job, w')"
    by (simp add: jobWorkerMain_def chat_queued_def recv_def chat_room_job_def PushTypeRoom_def PushTypeAll_def Let_def)
  have "pushType chat_room_job = PushTypeRoom" by (simp add: chat_room_job_def)
  from room_push_lost [OF w' this v1 p(3) v2] v1 v2 w' p(4) show ?thesis by (auto simp: in_i64_def)
qed

text \<open>
  C21. A connection that stays silent is dropped: once its last heartbeat is no later than a
  round of the checker, the checker closes the connection within two more rounds, and it
  never closes one whose last heartbeat is at most an interval old.
\<close>

theorem heartbeat_drops_silent:
  assumes "0 < heartbeatInterval c" "2 * (heartbeatInterval c * second) \<le> MaxInt64" "\<not> isClosed c"
    and "lastHeartbeatTime c \<le> now" "now - lastHeartbeatTime c \<le> heartbeatInterval c * second"
  shows "silent_rounds 2 now c = Done (Close c)
    \<and> heartbeatChecker pick True now c = (if closing c \<and> \<not> pick then Done c else Again c)"
proof -
  let ?h = "heartbeatInterval c * second" and ?d = "now - lastHeartbeatTime c"
  have h: "0 < ?h" "i64 ?h = ?h" using assms(1,2) by (auto simp: second_def in_i64_def MaxInt64_def)
  have alive: "IsAlive t c \<longleftrightarrow> t - lastHeartbeatTime c \<le> ?h"
    if "lastHeartbeatTime c \<le> t" for t
    using that h assms(2,3) by (auto simp: IsAlive_def time_Sub_def MaxInt64_def min_def max_def)
  have a1: "IsAlive (now + ?h) c \<longleftrightarrow> ?d \<le> 0"
    by (subst alive) (use h(1) assms(4) in linarith)+
  have a2: "\<not> IsAlive (now + ?h + ?h) c"
    by (subst alive) (use h(1) assms(4) in linarith)+
  have a0: "IsAlive now c"
    by (subst alive) (use assms(4,5) in linarith)+
  show ?thesis using a0 a1 a2 by (simp add: numeral_2_eq_2 heartbeatChecker_def)
qed

theorem heartbeat_drops_silent_witness: "silent_rounds 2 5 sample_conn = Done (Close sample_conn)"
proof -
  have "0 < heartbeatInterval sample_conn" "2 * (heartbeatInterval sample_conn * second) \<le> MaxInt64" "\<not> isClosed sample_conn"
    "lastHeartbeatTime sample_conn \<le> 5" "5 - lastHeartbeatTime sample_conn \<le> heartbeatInterval sample_conn * second"
    by (simp_all add: sample_conn_def second_def MaxInt64_def)
  from heartbeat_drops_silent [OF this] show ?thesis by blast
qed

end
