(* ===== verification/Ws_Merger.thy ===== *)
theory Ws_Merger
  imports Ws_ConnMgr
begin

section \<open>ws: merging broadcasts\<close>

text \<open>
  \<open>pkg/ws/merger.go\<close>: the worker that collects messages into batches and commits a batch
  when it is full or when its timer fires. A pointer to a batch is an index into the list of
  all batches ever made. A timer is armed, or it has fired and its function waits to put the
  batch into \<open>timeoutChan\<close>. \<open>pushed\<close> and \<open>committed\<close> are logs that no code reads: the
  messages accepted, and the contents of the batches handed to \<open>ConnMgr().PushAll\<close>.
\<close>

text \<open>A message is a pointer to raw JSON; \<open>None\<close> is the nil pointer, which encodes as null.\<close>

type_synonym raw = "string option"

definition raw_json :: "raw \<Rightarrow> gojson" where
  "raw_json m = (case m of None \<Rightarrow> JNull | Some s \<Rightarrow> JRaw s)"

record merger =
  mergeType :: int
  contextChan :: "raw chan"
  timeoutChan :: "nat chan"
  batches :: "raw list list"
  allBatch :: "nat option"
  armed :: "nat list"
  firing :: "nat list"
  mhub :: hub
  pushed :: "raw list"
  committed :: "raw list list"

definition initMergeWorker :: "int \<Rightarrow> WsConfig \<Rightarrow> hub \<Rightarrow> merger option" where
  "initMergeWorker ty cfg w =
     (case (make_chan (MergerChannelSize cfg), make_chan (MergerChannelSize cfg)) of
        (Some cc, Some tc) \<Rightarrow> Some \<lparr>mergeType = ty, contextChan = cc, timeoutChan = tc, batches = [],
           allBatch = None, armed = [], firing = [], mhub = w, pushed = [], committed = []\<rparr>
      | _ \<Rightarrow> None)"

text \<open>\<open>make\<close> panics for a negative number of room workers; none is ever started.\<close>

definition NewMerger :: "WsConfig \<Rightarrow> hub \<Rightarrow> merger option" where
  "NewMerger cfg w = (if MergerWorkerCount cfg < 0 then None else initMergeWorker PushTypeAll cfg w)"

definition merger_pushAll :: "raw \<Rightarrow> merger \<Rightarrow> go_error option \<times> merger" where
  "merger_pushAll m s =
     (if can_send (contextChan s)
      then (None, s\<lparr>contextChan := send m (contextChan s), pushed := pushed s @ [m],
             mhub := (mhub s)\<lparr>stats := MergerPendingIncr (stats (mhub s))\<rparr>\<rparr>)
      else (Some ErrMergeChannelFull, s))"

definition merger_PushAll :: "raw \<Rightarrow> merger \<Rightarrow> go_error option \<times> merger" where
  "merger_PushAll m s = merger_pushAll m s"

text \<open>A push to one connection is printed and goes nowhere, without an error.\<close>

definition merger_PushByCid :: "64 word \<Rightarrow> raw \<Rightarrow> merger \<Rightarrow> go_error option \<times> merger" where
  "merger_PushByCid i m s = (None, s)"

definition batch_json :: "raw list \<Rightarrow> gojson" where
  "batch_json items = JObj [(''items'', JArr (map raw_json items))]"

text \<open>
  Only the marshalling error leaves the batch in place. The bytes of the batch become the
  data of a message, which encodes them as base64.
\<close>

definition commitBatch :: "nat \<Rightarrow> merger \<Rightarrow> go_error option \<times> merger" where
  "commitBatch b s =
     (case json_Marshal (batch_json (batches s ! b)) of
        Inl e \<Rightarrow> (Some e, s)
      | Inr bytes \<Rightarrow>
          if mergeType s = PushTypeAll then
            (case PushAll \<lparr>Service = [], Action = [], Data = JBytes bytes\<rparr> (mhub s) of
               (e, w) \<Rightarrow> (e, s\<lparr>allBatch := None, mhub := w, committed := committed s @ [batches s ! b]\<rparr>))
          else (None, s))"

definition commit_count :: "nat \<Rightarrow> go_error option \<times> merger \<Rightarrow> merger" where
  "commit_count b es = (case es of (e, s) \<Rightarrow>
     (let n = int (length (batches s ! b)); st = MergerAllTotalIncr n (stats (mhub s)) in
      s\<lparr>mhub := (mhub s)\<lparr>stats := (if e = None then st else MergerAllFailIncr n st)\<rparr>\<rparr>))"

text \<open>
  The two rounds of \<open>mergeWorkerMain\<close>, \<open>None\<close> when the channel is empty. The worker exists
  for \<open>PushTypeAll\<close> only; with another type its first message would dereference nil.
\<close>

definition merge_context :: "WsConfig \<Rightarrow> merger \<Rightarrow> merger option" where
  "merge_context cfg s = (if mergeType s \<noteq> PushTypeAll then None else
     case recv (contextChan s) of None \<Rightarrow> None
     | Some (m, ch) \<Rightarrow>
         (let s = s\<lparr>contextChan := ch, mhub := (mhub s)\<lparr>stats := MergerPendingDesc (stats (mhub s))\<rparr>\<rparr>;
              (b, s) = (case allBatch s of
                 Some b \<Rightarrow> (b, s)
               | None \<Rightarrow> (length (batches s), s\<lparr>batches := batches s @ [[]], allBatch := Some (length (batches s)),
                                                armed := length (batches s) # armed s\<rparr>));
              s = s\<lparr>batches := (batches s)[b := batches s ! b @ [m]]\<rparr> in
          if int (length (batches s ! b)) < MaxMergerBatchSize cfg then Some s
          else (let s = s\<lparr>armed := removeAll b (armed s)\<rparr> in Some (commit_count b (commitBatch b s)))))"

definition merge_timeout :: "merger \<Rightarrow> merger option" where
  "merge_timeout s = (if mergeType s \<noteq> PushTypeAll then None else
     case recv (timeoutChan s) of None \<Rightarrow> None
     | Some (b, ch) \<Rightarrow>
         (let s = s\<lparr>timeoutChan := ch\<rparr> in
          if allBatch s \<noteq> Some b then Some s else Some (commit_count b (commitBatch b s))))"

text \<open>
  The worker with its callers, its timers, and the other goroutines, which may do anything to
  the rest of the system but count its pending messages.
\<close>

inductive merge_step :: "WsConfig \<Rightarrow> merger \<Rightarrow> merger \<Rightarrow> bool" for cfg where
  push: "merger_pushAll m s = (e, s') \<Longrightarrow> merge_step cfg s s'"
| take: "merge_context cfg s = Some s' \<Longrightarrow> merge_step cfg s s'"
| expire: "merge_timeout s = Some s' \<Longrightarrow> merge_step cfg s s'"
| fire: "b \<in> set (armed s) \<Longrightarrow>
    merge_step cfg s (s\<lparr>armed := removeAll b (armed s), firing := b # firing s\<rparr>)"
| deliver: "b \<in> set (firing s) \<Longrightarrow> can_send (timeoutChan s) \<Longrightarrow>
    merge_step cfg s (s\<lparr>firing := remove1 b (firing s), timeoutChan := send b (timeoutChan s)\<rparr>)"
| other: "MergerPending (stats w) = MergerPending (stats (mhub s)) \<Longrightarrow> merge_step cfg s (s\<lparr>mhub := w\<rparr>)"
| idle: "merge_step cfg s (s\<lparr>contextChan := block (contextChan s), timeoutChan := block (timeoutChan s)\<rparr>)"

definition merge_reachable :: "WsConfig \<Rightarrow> hub \<Rightarrow> merger \<Rightarrow> bool" where
  "merge_reachable cfg w s \<longleftrightarrow> (\<exists>s0. NewMerger cfg w = Some s0 \<and> (merge_step cfg)\<^sup>*\<^sup>* s0 s)"

subsection \<open>The open batch\<close>

definition open_items :: "merger \<Rightarrow> raw list" where
  "open_items s = (case allBatch s of None \<Rightarrow> [] | Some b \<Rightarrow> batches s ! b)"

lemma open_items_upd [simp]:
  "open_items (s\<lparr>armed := a\<rparr>) = open_items s" "open_items (s\<lparr>firing := f\<rparr>) = open_items s"
  "open_items (s\<lparr>timeoutChan := tc\<rparr>) = open_items s" "open_items (s\<lparr>contextChan := cc\<rparr>) = open_items s"
  "open_items (s\<lparr>mhub := w\<rparr>) = open_items s" "open_items (s\<lparr>pushed := p\<rparr>) = open_items s"
  "open_items (s\<lparr>committed := c\<rparr>) = open_items s" "open_items (s\<lparr>allBatch := None\<rparr>) = []"
  by (simp_all add: open_items_def split: option.splits)

lemma open_items_Some: "allBatch s = Some b \<Longrightarrow> open_items s = batches s ! b"
  by (simp add: open_items_def)

definition good :: "raw \<Rightarrow> bool" where
  "good m = json_valid (raw_json m)"

lemma batch_good: "json_valid (batch_json items) \<longleftrightarrow> (\<forall>m \<in> set items. good m)"
  by (simp add: batch_json_def good_def)

text \<open>How a commit ends.\<close>

lemma commit_cases:
  assumes "mergeType s = PushTypeAll" "s' = commit_count b (commitBatch b s)"
  obtains (handed) w where "\<forall>m \<in> set (batches s ! b). good m"
      "s' = s\<lparr>allBatch := None, mhub := w, committed := committed s @ [batches s ! b]\<rparr>"
      "MergerPending (stats w) = MergerPending (stats (mhub s))"
    | (stuck) w where "\<not> (\<forall>m \<in> set (batches s ! b). good m)" "s' = s\<lparr>mhub := w\<rparr>"
      "MergerPending (stats w) = MergerPending (stats (mhub s))"
proof (cases "json_Marshal (batch_json (batches s ! b))")
  case (Inl e)
  then have "\<not> (\<forall>m \<in> set (batches s ! b). good m)"
    using json_Marshal_ok batch_good by fastforce
  with Inl assms show ?thesis
    by (intro stuck [of "mhub s'"]) (simp_all add: commitBatch_def commit_count_def Let_def stats_defs)
next
  case (Inr bytes)
  obtain e w where p: "PushAll \<lparr>Service = [], Action = [], Data = JBytes bytes\<rparr> (mhub s) = (e, w)" by fastforce
  have g: "\<forall>m \<in> set (batches s ! b). good m"
    using Inr json_Marshal_bad [of "batch_json (batches s ! b)"] batch_good by fastforce
  have "MergerPending (stats w) = MergerPending (stats (mhub s))"
    using p by (auto simp: PushAll_def Let_def stats_defs split: if_splits)
  with g Inr p assms show ?thesis
    by (intro handed [of "mhub s'"]) (simp_all add: commitBatch_def commit_count_def Let_def stats_defs)
qed

subsection \<open>The invariants\<close>

text \<open>
  Nothing is lost, doubled or reordered: the committed batches, the open batch and the queue,
  one after the other, are what was pushed.
\<close>

definition merge_ok :: "merger \<Rightarrow> bool" where
  "merge_ok s \<longleftrightarrow> mergeType s = PushTypeAll
     \<and> (\<forall>b. allBatch s = Some b \<longrightarrow> b < length (batches s))
     \<and> concat (committed s) @ open_items s @ buf (contextChan s) = pushed s
     \<and> MergerPending (stats (mhub s)) = i64 (int (length (buf (contextChan s))))"

lemma merge_okD:
  assumes "merge_ok s"
  shows "mergeType s = PushTypeAll" "\<And>b. allBatch s = Some b \<Longrightarrow> b < length (batches s)"
    "concat (committed s) @ open_items s @ buf (contextChan s) = pushed s"
    "MergerPending (stats (mhub s)) = i64 (int (length (buf (contextChan s))))"
  using assms by (simp_all add: merge_ok_def)

text \<open>The first half of a round: the message moves from the queue to the open batch.\<close>

definition collect :: "raw \<Rightarrow> raw chan \<Rightarrow> merger \<Rightarrow> nat \<times> merger" where
  "collect m ch s =
     (let s = s\<lparr>contextChan := ch, mhub := (mhub s)\<lparr>stats := MergerPendingDesc (stats (mhub s))\<rparr>\<rparr>;
          (b, s) = (case allBatch s of
             Some b \<Rightarrow> (b, s)
           | None \<Rightarrow> (length (batches s), s\<lparr>batches := batches s @ [[]], allBatch := Some (length (batches s)),
                                            armed := length (batches s) # armed s\<rparr>)) in
      (b, s\<lparr>batches := (batches s)[b := batches s ! b @ [m]]\<rparr>))"

lemma merge_context_collect:
  assumes "merge_context cfg s = Some s'"
  obtains m ch b t where "recv (contextChan s) = Some (m, ch)" "collect m ch s = (b, t)" "mergeType s = PushTypeAll"
    "s' = (if int (length (batches t ! b)) < MaxMergerBatchSize cfg then t
           else commit_count b (commitBatch b (t\<lparr>armed := removeAll b (armed t)\<rparr>)))"
proof -
  have ty: "mergeType s = PushTypeAll" using assms by (auto simp: merge_context_def split: if_splits)
  obtain m ch where r: "recv (contextChan s) = Some (m, ch)"
    using assms ty by (cases "recv (contextChan s)") (auto simp: merge_context_def)
  obtain b t where c: "collect m ch s = (b, t)" by fastforce
  have "s' = (if int (length (batches t ! b)) < MaxMergerBatchSize cfg then t
           else commit_count b (commitBatch b (t\<lparr>armed := removeAll b (armed t)\<rparr>)))"
    using assms ty r c by (auto simp: merge_context_def collect_def Let_def split: option.splits if_splits)
  with r c ty show ?thesis by (rule that)
qed

lemma collect_effect:
  assumes ok: "merge_ok s" and r: "recv (contextChan s) = Some (m, ch)" and c: "collect m ch s = (b, t)"
  shows "merge_ok t" "allBatch t = Some b" "b < length (batches t)" "batches t ! b = open_items s @ [m]"
    "committed t = committed s" "mergeType t = PushTypeAll" "pushed t = pushed s"
    "timeoutChan t = timeoutChan s" "firing t = firing s"
    "armed t = (if allBatch s = None then b # armed s else armed s)"
    "allBatch s = None \<or> allBatch s = Some b"
proof -
  note o = merge_okD [OF ok]
  have q: "buf (contextChan s) = m # buf ch" using r by (rule recv_Some)
  have f: "allBatch t = Some b \<and> b < length (batches t) \<and> batches t ! b = open_items s @ [m] \<and> committed t = committed s
      \<and> mergeType t = PushTypeAll \<and> pushed t = pushed s \<and> contextChan t = ch \<and> timeoutChan t = timeoutChan s
      \<and> firing t = firing s \<and> armed t = (if allBatch s = None then b # armed s else armed s)
      \<and> (allBatch s = None \<or> allBatch s = Some b)
      \<and> MergerPending (stats (mhub t)) = i64 (MergerPending (stats (mhub s)) - 1)"
    using c o(1,2) by (auto simp: collect_def Let_def open_items_def MergerPendingDesc_def split: option.splits)
  then show "allBatch t = Some b" "b < length (batches t)" "batches t ! b = open_items s @ [m]"
    "committed t = committed s" "mergeType t = PushTypeAll" "pushed t = pushed s"
    "timeoutChan t = timeoutChan s" "firing t = firing s"
    "armed t = (if allBatch s = None then b # armed s else armed s)"
    "allBatch s = None \<or> allBatch s = Some b"
    by blast+
  show "merge_ok t"
    using f o(3,4) q by (simp add: merge_ok_def open_items_Some)
qed

lemma commit_ok:
  assumes ok: "merge_ok s" and b: "allBatch s = Some b" and s': "s' = commit_count b (commitBatch b s)"
  shows "merge_ok s'"
  using merge_okD(1) [OF ok] s'
proof (cases rule: commit_cases)
  case (handed w)
  with merge_okD [OF ok] b show ?thesis by (simp add: merge_ok_def open_items_Some)
next
  case (stuck w)
  with merge_okD [OF ok] b show ?thesis by (simp add: merge_ok_def open_items_Some)
qed

lemma merge_timeout_cases:
  assumes "merge_timeout s = Some s'"
  obtains (late) b ch where "recv (timeoutChan s) = Some (b, ch)" "allBatch s \<noteq> Some b" "s' = s\<lparr>timeoutChan := ch\<rparr>"
    | (due) b ch where "recv (timeoutChan s) = Some (b, ch)" "allBatch s = Some b"
      "s' = commit_count b (commitBatch b (s\<lparr>timeoutChan := ch\<rparr>))"
  using assms by (auto simp: merge_timeout_def Let_def split: if_splits option.splits)

lemma merge_ok_irrelevant [simp]:
  "merge_ok (s\<lparr>armed := x\<rparr>) = merge_ok s" "merge_ok (s\<lparr>firing := y\<rparr>) = merge_ok s"
  "merge_ok (s\<lparr>timeoutChan := z\<rparr>) = merge_ok s"
  by (simp_all add: merge_ok_def)

lemma merge_step_ok:
  assumes "merge_ok s" "merge_step cfg s s'"
  shows "merge_ok s'"
  using assms(2)
proof cases
  case (push m e)
  then show ?thesis using merge_okD [OF assms(1)]
    by (auto simp: merger_pushAll_def merge_ok_def MergerPendingIncr_def algebra_simps split: if_splits)
next
  case take
  then show ?thesis
  proof (cases rule: merge_context_collect)
    case (1 m ch b t)
    note c = collect_effect [OF assms(1) 1(1,2)]
    have "merge_ok (commit_count b (commitBatch b (t\<lparr>armed := removeAll b (armed t)\<rparr>)))"
      by (rule commit_ok [OF _ _ refl]) (simp_all add: c)
    with c(1) show ?thesis by (simp add: 1(4))
  qed
next
  case expire
  then show ?thesis
  proof (cases rule: merge_timeout_cases)
    case (late b ch)
    with assms(1) show ?thesis by simp
  next
    case (due b ch)
    show ?thesis by (rule commit_ok [OF _ _ due(3)]) (use assms(1) due in simp_all)
  qed
next
  case (fire b)
  with assms(1) show ?thesis by simp
next
  case (deliver b)
  with assms(1) show ?thesis by (simp add: merge_ok_def open_items_Some)
next
  case (other w)
  with assms(1) show ?thesis by (simp add: merge_ok_def open_items_Some)
next
  case idle
  with assms(1) show ?thesis by (simp add: merge_ok_def open_items_Some)
qed

text \<open>
  With valid messages only: an open batch is short of the limit and its timer is armed, or
  has fired, or has reached the worker; and the committed batches keep to the limit.
\<close>

definition limit :: "WsConfig \<Rightarrow> int" where
  "limit cfg = max 1 (MaxMergerBatchSize cfg)"

definition timer_alive :: "merger \<Rightarrow> nat \<Rightarrow> bool" where
  "timer_alive s b \<longleftrightarrow> b \<in> set (armed s) \<or> b \<in> set (firing s) \<or> b \<in> set (buf (timeoutChan s))"

definition flow_ok :: "WsConfig \<Rightarrow> merger \<Rightarrow> bool" where
  "flow_ok cfg s \<longleftrightarrow> (\<forall>ms \<in> set (committed s). ms \<noteq> [] \<and> int (length ms) \<le> limit cfg)
     \<and> (\<forall>b. allBatch s = Some b \<longrightarrow> timer_alive s b \<and> open_items s \<noteq> [] \<and> int (length (open_items s)) < limit cfg)"

definition all_good :: "merger \<Rightarrow> bool" where
  "all_good s \<longleftrightarrow> (\<forall>m \<in> set (pushed s). good m)"

lemma commit_pushed: "pushed (commit_count b (commitBatch b s)) = pushed s"
  by (simp add: commit_count_def commitBatch_def Let_def split: sum.splits prod.splits)

lemma collect_pushed: "collect m ch s = (b, t) \<Longrightarrow> pushed t = pushed s"
  by (auto simp: collect_def Let_def split: option.splits)

lemma pushed_grows: "merge_step cfg s s' \<Longrightarrow> set (pushed s) \<subseteq> set (pushed s')"
proof (induction rule: merge_step.induct)
  case (take s s')
  then show ?case
    by (cases rule: merge_context_collect) (auto simp: commit_pushed collect_pushed)
next
  case (expire s s')
  then show ?case
    by (cases rule: merge_timeout_cases) (auto simp: commit_pushed)
qed (auto simp: merger_pushAll_def split: if_splits)

lemma open_good: "merge_ok s \<Longrightarrow> all_good s \<Longrightarrow> m \<in> set (open_items s) \<Longrightarrow> good m"
  using merge_okD(3) [of s] unfolding all_good_def by (metis UnCI set_append)

lemma flow_upd [simp]:
  "flow_ok cfg (s\<lparr>mhub := w\<rparr>) = flow_ok cfg s" "flow_ok cfg (s\<lparr>contextChan := cc\<rparr>) = flow_ok cfg s"
  "flow_ok cfg (s\<lparr>pushed := p\<rparr>) = flow_ok cfg s"
  by (simp_all add: flow_ok_def timer_alive_def)

lemma commit_flow:
  assumes ty: "mergeType s = PushTypeAll" and b: "allBatch s = Some b" and g: "\<forall>m \<in> set (open_items s). good m"
    and c: "\<forall>ms \<in> set (committed s). ms \<noteq> [] \<and> int (length ms) \<le> limit cfg"
    and n: "open_items s \<noteq> []" "int (length (open_items s)) \<le> limit cfg"
  shows "flow_ok cfg (commit_count b (commitBatch b s))" (is "flow_ok cfg ?s'")
proof (cases rule: commit_cases [OF ty refl, of b])
  case (1 w)
  note handed = 1
  have "batches s ! b = open_items s" using b by (simp add: open_items_Some)
  with handed c n show ?thesis by (auto simp: flow_ok_def)
next
  case (2 w)
  with g b show ?thesis by (auto simp: open_items_Some)
qed

lemma flow_step:
  assumes m: "merge_ok s" and g': "all_good s'" and f: "flow_ok cfg s" and st: "merge_step cfg s s'"
  shows "flow_ok cfg s'"
  using st
proof cases
  case (push x e)
  with f show ?thesis by (auto simp: merger_pushAll_def split: if_splits)
next
  case take
  then show ?thesis
  proof (cases rule: merge_context_collect)
    case (1 x ch b t)
    note c = collect_effect [OF m 1(1,2)]
    have gt: "all_good t" using g' 1(4) commit_pushed [of b "t\<lparr>armed := removeAll b (armed t)\<rparr>"]
      by (auto simp: all_good_def split: if_splits)
    have ot: "open_items t = open_items s @ [x]" using c(2,4) by (simp add: open_items_Some)
    have short: "int (length (open_items s)) < limit cfg"
      using f by (cases "allBatch s") (auto simp: flow_ok_def open_items_def limit_def)
    have ct: "\<forall>ms \<in> set (committed t). ms \<noteq> [] \<and> int (length ms) \<le> limit cfg"
      using f by (simp add: flow_ok_def c(5))
    show ?thesis
    proof (cases "int (length (batches t ! b)) < MaxMergerBatchSize cfg")
      case True
      have "timer_alive t b" using f c(8-11) by (auto simp: flow_ok_def timer_alive_def split: if_splits)
      with True 1(4) ct c(2,4) show ?thesis by (auto simp: flow_ok_def ot limit_def)
    next
      case False
      have "flow_ok cfg (commit_count b (commitBatch b (t\<lparr>armed := removeAll b (armed t)\<rparr>)))"
        using open_good [OF c(1) gt] ct short by (intro commit_flow) (simp_all add: c ot)
      with False 1(4) show ?thesis by simp
    qed
  qed
next
  case expire
  then show ?thesis
  proof (cases rule: merge_timeout_cases)
    case (late b ch)
    have "buf (timeoutChan s) = b # buf ch" by (rule recv_Some [OF late(1)])
    with f late show ?thesis by (auto simp: flow_ok_def timer_alive_def)
  next
    case (due b ch)
    have gs: "all_good s" using g' due(3) commit_pushed [of b "s\<lparr>timeoutChan := ch\<rparr>"] by (simp add: all_good_def)
    show ?thesis
      unfolding due(3)
      using f due(2) open_good [OF m gs] merge_okD(1) [OF m]
      by (intro commit_flow) (auto simp: flow_ok_def)
  qed
next
  case (fire b)
  with f show ?thesis by (auto simp: flow_ok_def timer_alive_def)
next
  case (deliver b)
  have "timer_alive s' c" if "timer_alive s c" for c
    using that by (cases "c = b") (auto simp: deliver timer_alive_def)
  with f deliver(1) show ?thesis by (simp add: flow_ok_def)
next
  case (other w)
  with f show ?thesis by simp
next
  case idle
  with f show ?thesis by (simp add: flow_ok_def timer_alive_def)
qed

lemma merge_init: "NewMerger cfg w = Some s \<Longrightarrow> MergerPending (stats w) = 0 \<Longrightarrow> merge_ok s \<and> flow_ok cfg s"
  by (auto simp: NewMerger_def initMergeWorker_def merge_ok_def flow_ok_def open_items_def
    dest!: make_chan_empty split: option.splits if_splits)

lemma merge_reachable_ok:
  assumes "merge_reachable cfg w s" "MergerPending (stats w) = 0"
  shows "merge_ok s \<and> (all_good s \<longrightarrow> flow_ok cfg s)"
proof -
  obtain s0 where s0: "NewMerger cfg w = Some s0" "(merge_step cfg)\<^sup>*\<^sup>* s0 s"
    using assms(1) by (auto simp: merge_reachable_def)
  from s0(2) show ?thesis
  proof (induction rule: rtranclp_induct)
    case base
    show ?case using merge_init [OF s0(1) assms(2)] by simp
  next
    case (step t u)
    have "all_good t" if "all_good u" using that pushed_grows [OF step(2)] by (auto simp: all_good_def)
    then show ?case using merge_step_ok [OF _ step(2)] flow_step [OF _ _ _ step(2)] step(3) by blast
  qed
qed

subsection \<open>Properties\<close>

text \<open>A small worker that takes one message into its open batch.\<close>

definition small_hub :: hub where
  "small_hub = \<lparr>buckets = [], jobChan = [], dispatchChan = \<lparr>buf = [], cap = 2, waiting = 0\<rparr>, conns = [], stats = zero_stats\<rparr>"

definition small_start :: merger where
  "small_start = the (NewMerger sample_cfg small_hub)"

definition small_push :: "raw \<Rightarrow> merger" where
  "small_push m = snd (merger_pushAll m small_start)"

definition small_open :: "raw \<Rightarrow> merger" where
  "small_open m = the (merge_context sample_cfg (small_push m))"

lemma small_state: "NewMerger sample_cfg small_hub = Some small_start"
  "pushed (small_push m) = [m]" "merge_context sample_cfg (small_push m) \<noteq> None"
  "pushed (small_open m) = [m]" "allBatch (small_open m) = Some 0" "open_items (small_open m) = [m]"
  by (simp_all add: small_start_def NewMerger_def initMergeWorker_def make_chan_def sample_cfg_def small_push_def
    merger_pushAll_def can_send_def send_def small_open_def merge_context_def recv_def Let_def open_items_def
    PushTypeAll_def)

lemma small_reachable: "merge_reachable sample_cfg small_hub (small_push m)" "merge_reachable sample_cfg small_hub (small_open m)"
proof -
  obtain e t where p: "merger_pushAll m small_start = (e, t)" by fastforce
  have s1: "merge_step sample_cfg small_start (small_push m)"
    using merge_step.push [OF p] p by (simp add: small_push_def)
  obtain u where u: "merge_context sample_cfg (small_push m) = Some u" using small_state(3) by auto
  have s2: "merge_step sample_cfg (small_push m) (small_open m)"
    using merge_step.take [OF u] u by (simp add: small_open_def)
  show "merge_reachable sample_cfg small_hub (small_push m)" "merge_reachable sample_cfg small_hub (small_open m)"
    using small_state(1) s1 s2 unfolding merge_reachable_def by (meson r_into_rtranclp rtranclp_trans)+
qed

lemma small_idle: "MergerPending (stats small_hub) = 0"
  by (simp add: small_hub_def zero_stats_def)

text \<open>
  C16. The merger neither loses nor doubles nor reorders a broadcast: in every reachable state
  the committed batches, the open batch and the messages in the queue, one after the other,
  are exactly the messages \<open>PushAll\<close> accepted, and the pending counter is the length of the
  queue.
\<close>

theorem merger_keeps_order:
  assumes "merge_reachable cfg w s" "MergerPending (stats w) = 0"
  shows "concat (committed s) @ open_items s @ buf (contextChan s) = pushed s
    \<and> MergerPending (stats (mhub s)) = i64 (int (length (buf (contextChan s))))"
  using merge_reachable_ok [OF assms] merge_okD(3,4) by blast

theorem merger_keeps_order_witness:
  "concat (committed (small_push (Some ''1''))) @ open_items (small_push (Some ''1''))
     @ buf (contextChan (small_push (Some ''1''))) = [Some ''1'']"
  using merger_keeps_order [OF small_reachable(1) small_idle, of "Some ''1''"] by (simp only: small_state)

text \<open>
  C17. As long as every accepted message is valid JSON, a batch that is open has a timer that
  will commit it, and no committed batch is empty or longer than the configured size (a size
  below one counts as one).
\<close>

theorem merger_commits_in_time:
  assumes "merge_reachable cfg w s" "MergerPending (stats w) = 0" "\<forall>m \<in> set (pushed s). good m"
  shows "(\<forall>b. allBatch s = Some b \<longrightarrow> timer_alive s b \<and> 0 < length (open_items s)
        \<and> int (length (open_items s)) < max 1 (MaxMergerBatchSize cfg))
    \<and> (\<forall>ms \<in> set (committed s). ms \<noteq> [] \<and> int (length ms) \<le> max 1 (MaxMergerBatchSize cfg))"
proof -
  have "flow_ok cfg s" using merge_reachable_ok [OF assms(1,2)] assms(3) by (simp add: all_good_def)
  then show ?thesis by (auto simp: flow_ok_def limit_def)
qed

theorem merger_commits_in_time_witness:
  "allBatch (small_open (Some ''1'')) = Some 0 \<and> timer_alive (small_open (Some ''1'')) 0"
proof -
  have "json_parse ''1'' \<noteq> None" by code_simp
  then have g: "\<forall>m \<in> set (pushed (small_open (Some ''1''))). good m"
    by (simp add: small_state good_def raw_json_def)
  from merger_commits_in_time [OF small_reachable(2) small_idle g] show ?thesis by (simp add: small_state)
qed

text \<open>
  One message that is not valid JSON stops all broadcasts for good: once it is in the
  open batch, whatever happens from then on, no batch is ever handed to the manager again and
  the open batch only grows, because a batch that cannot be encoded is not given up.
\<close>

theorem merger_poisoned:
  assumes "merge_ok s" "m \<in> set (open_items s)" "\<not> good m" "(merge_step cfg)\<^sup>*\<^sup>* s s'"
  shows "committed s' = committed s \<and> allBatch s' = allBatch s \<and> (\<exists>rest. open_items s' = open_items s @ rest)"
proof -
  obtain b where b: "allBatch s = Some b" using assms(2) by (cases "allBatch s") (auto simp: open_items_def)
  from assms(4) have "merge_ok s' \<and> committed s' = committed s \<and> allBatch s' = Some b
      \<and> (\<exists>rest. open_items s' = open_items s @ rest)"
  proof (induction rule: rtranclp_induct)
    case base
    show ?case using assms(1) b by simp
  next
    case (step t u)
    then obtain rest where t: "merge_ok t" "committed t = committed s" "allBatch t = Some b"
        "open_items t = open_items s @ rest" by blast
    have bad: "\<not> (\<forall>x \<in> set (open_items t @ xs). good x)" for xs
      using assms(2,3) by (auto simp: t(4))
    have stuck: "\<exists>w. commit_count b (commitBatch b v) = v\<lparr>mhub := w\<rparr>"
      if "mergeType v = PushTypeAll" "\<not> (\<forall>x \<in> set (batches v ! b). good x)" for v
      using that(1) refl by (cases rule: commit_cases [of v _ b]) (use that(2) in auto)
    have "committed u = committed t \<and> allBatch u = Some b \<and> (\<exists>rest. open_items u = open_items t @ rest)"
      using step(2)
    proof cases
      case (push x e)
      with t show ?thesis by (auto simp: merger_pushAll_def split: if_splits)
    next
      case take
      then show ?thesis
      proof (cases rule: merge_context_collect)
        case (1 x ch b' v)
        note c = collect_effect [OF t(1) 1(1,2)]
        have b': "b' = b" using c(11) t(3) by simp
        have ov: "open_items v = open_items t @ [x]" using c(2,4) by (simp add: open_items_Some)
        let ?v = "v\<lparr>armed := removeAll b (armed v)\<rparr>"
        obtain w where w: "commit_count b (commitBatch b ?v) = ?v\<lparr>mhub := w\<rparr>"
          using stuck [of ?v] c(4,6) bad [of "[x]"] b' by auto
        show ?thesis using 1(4) c(2,5) ov w b' by (auto split: if_splits)
      qed
    next
      case expire
      then show ?thesis
      proof (cases rule: merge_timeout_cases)
        case (late b' ch)
        with t show ?thesis by simp
      next
        case (due b' ch)
        have b': "b' = b" using due(2) t(3) by simp
        let ?v = "t\<lparr>timeoutChan := ch\<rparr>"
        obtain w where "commit_count b (commitBatch b ?v) = ?v\<lparr>mhub := w\<rparr>"
          using stuck [of ?v] merge_okD(1) [OF t(1)] bad [of "[]"] t(3) by (auto simp: open_items_Some)
        with due(3) b' t show ?thesis by simp
      qed
    qed (use t in simp_all)
    with t merge_step_ok [OF t(1) step(2)] show ?case by auto
  qed
  with b show ?thesis by simp
qed

definition poisoned_more :: merger where
  "poisoned_more = snd (merger_pushAll (Some ''2'') (small_open (Some ''x'')))"

theorem merger_poisoned_witness:
  "committed poisoned_more = committed (small_open (Some ''x'')) \<and> allBatch poisoned_more = Some 0"
proof -
  have "json_parse ''x'' = None" by code_simp
  then have b: "\<not> good (Some ''x'')" by (simp add: good_def raw_json_def)
  have ok: "merge_ok (small_open (Some ''x''))"
    using merge_reachable_ok [OF small_reachable(2) small_idle] by blast
  have m: "Some ''x'' \<in> set (open_items (small_open (Some ''x'')))" by (simp add: small_state)
  obtain e where "merger_pushAll (Some ''2'') (small_open (Some ''x'')) = (e, poisoned_more)"
    unfolding poisoned_more_def by (metis prod.collapse)
  then have s: "(merge_step sample_cfg)\<^sup>*\<^sup>* (small_open (Some ''x'')) poisoned_more"
    by (blast intro: merge_step.push)
  from merger_poisoned [OF ok m b s] show ?thesis by (simp add: small_state)
qed

end
