(* ===== verification/Sec_Base.thy ===== *)
theory Sec_Base
  imports Codec "HOL-Library.Signed_Division"
begin

section \<open>What the ciphers share\<close>

text \<open>
  The \<open>Crypto\<close> interface of \<open>pkg/security/type.go\<close> as a locale, and the pieces of
  Go the ciphers need: an indexed access that panics out of range, a loop whose body may panic,
  bytes as Go integers, and the cutting of a byte slice into blocks.

  A panic is \<open>None\<close>; a result is an error or a value.
\<close>

subsection \<open>Accesses and loops that may panic\<close>

definition index_at :: "'a list \<Rightarrow> int \<Rightarrow> 'a option" where
  "index_at xs i = (if 0 \<le> i \<and> i < int (length xs) then Some (xs ! nat i) else None)"

primrec mapM :: "('a \<Rightarrow> 'b option) \<Rightarrow> 'a list \<Rightarrow> 'b list option" where
  "mapM f [] = Some []"
| "mapM f (x # xs) = (case f x of None \<Rightarrow> None | Some y \<Rightarrow> map_option (\<lambda>ys. y # ys) (mapM f xs))"

lemma mapM_Some [simp]: "(\<And>x. x \<in> set xs \<Longrightarrow> f x = Some (g x)) \<Longrightarrow> mapM f xs = Some (map g xs)"
  by (induction xs) simp_all

lemma mapM_cong [fundef_cong]:
  "xs = ys \<Longrightarrow> (\<And>x. x \<in> set ys \<Longrightarrow> f x = g x) \<Longrightarrow> mapM f xs = mapM g ys"
  by (induction ys arbitrary: xs) (auto split: option.splits)

lemma mapM_total:
  "(\<And>x. x \<in> set xs \<Longrightarrow> \<exists>y. f x = Some y \<and> P y)
     \<Longrightarrow> \<exists>ys. mapM f xs = Some ys \<and> length ys = length xs \<and> (\<forall>y \<in> set ys. P y)"
proof (induction xs)
  case Nil
  then show ?case by simp
next
  case (Cons x xs)
  obtain y where "f x = Some y" "P y" using Cons.prems by auto
  moreover obtain ys where "mapM f xs = Some ys" "length ys = length xs" "\<forall>y \<in> set ys. P y"
    using Cons by auto
  ultimately show ?case by simp
qed

lemma mapM_None: "x \<in> set xs \<Longrightarrow> f x = None \<Longrightarrow> mapM f xs = None"
  by (induction xs) (auto split: option.splits)

text \<open>What the base64 decoder answers to a text that is not base64.\<close>

definition b64_error :: go_error where
  "b64_error = new_error ''illegal base64 data''"

subsection \<open>Bytes as integers\<close>

definition is_byte :: "int \<Rightarrow> bool" where
  "is_byte x \<longleftrightarrow> 0 \<le> x \<and> x < 256"

lemma is_byte_take_bit: "is_byte x \<longleftrightarrow> take_bit 8 x = x"
  by (simp add: is_byte_def take_bit_int_eq_self_iff)

lemma is_byte_xor [simp]: "is_byte x \<Longrightarrow> is_byte y \<Longrightarrow> is_byte (x XOR y)"
  by (simp add: is_byte_take_bit)

lemma is_byte_and [simp]: "is_byte (x AND 255)"
proof -
  have "x AND 255 = take_bit 8 x" by (simp add: take_bit_eq_mask mask_eq_exp_minus_1)
  then show ?thesis by (simp add: is_byte_take_bit)
qed

lemma is_byte_of_char [simp]: "is_byte (of_char c)"
proof -
  have "(of_char c :: int) = of_char (char_of (of_char c :: int) :: char)" by simp
  also have "\<dots> = of_char c mod 256" by (simp only: of_char_of)
  finally show ?thesis unfolding is_byte_def
    by (metis pos_mod_bound pos_mod_sign zero_less_numeral)
qed

text \<open>A key stream byte is applied twice: the byte comes back, whatever the stream holds.\<close>

definition xor_byte :: "int \<Rightarrow> char \<Rightarrow> char" where
  "xor_byte k c = char_of (k XOR of_char c)"

lemma xor_byte_twice [simp]: "xor_byte k (xor_byte k c) = c"
proof -
  have "(k XOR (k XOR of_char c) mod 256) mod 256 = (of_char c :: int) mod 256"
    unfolding take_bit_eq_mod [of 8, simplified, symmetric] by (simp add: xor.left_commute flip: xor.assoc)
  then have "(char_of (k XOR (k XOR of_char c) mod 256) :: char) = char_of (of_char c :: int)"
    by (metis char_of_mod_256)
  then show ?thesis by (simp add: xor_byte_def)
qed

subsection \<open>Blocks of a byte slice\<close>

text \<open>The index of the last block plus one: \<open>math.Ceil(float64(n) / float64(k))\<close>.\<close>

definition ceil_div :: "nat \<Rightarrow> nat \<Rightarrow> nat" where
  "ceil_div n k = (n + k - 1) div k"

lemma ceil_div_mult: "0 < k \<Longrightarrow> n \<le> k * ceil_div n k"
proof -
  assume k: "0 < k"
  have "(n + k - 1) mod k < k" using k by simp
  moreover have "k * ceil_div n k + (n + k - 1) mod k = n + k - 1"
    unfolding ceil_div_def by (metis mult_div_mod_eq)
  ultimately show ?thesis using k by linarith
qed

lemma ceil_div_less: "0 < k \<Longrightarrow> b < ceil_div n k \<Longrightarrow> k * b < n"
proof -
  assume k: "0 < k" and b: "b < ceil_div n k"
  then have "k * Suc b \<le> k * ceil_div n k" by (intro mult_le_mono2) simp
  also have "\<dots> \<le> n + k - 1" unfolding ceil_div_def by (metis div_times_less_eq_dividend mult.commute)
  finally show ?thesis using k by simp
qed

text \<open>Working block by block is working byte by byte.\<close>

lemma blocks_upto:
  assumes k: "0 < k"
  shows "concat (map (\<lambda>b. map (f b) [0..<min k (n - k * b)]) [0..<m])
     = map (\<lambda>j. f (j div k) (j mod k)) [0..<min n (k * m)]"
proof (induction m)
  case 0
  then show ?case by simp
next
  case (Suc m)
  let ?g = "\<lambda>j. f (j div k) (j mod k)"
  let ?a = "min n (k * m)" and ?b = "min k (n - k * m)"
  have s: "min n (k * Suc m) = ?a + ?b" by (simp add: min_def) linarith
  have "map (f m) [0..<?b] = map ?g [?a..<?a + ?b]"
  proof (rule nth_equalityI)
    show "length (map (f m) [0..<?b]) = length (map ?g [?a..<?a + ?b])" by simp
  next
    fix i assume i: "i < length (map (f m) [0..<?b])"
    then have "?a = k * m" "i < k" by (auto simp: min_def split: if_splits)
    then show "map (f m) [0..<?b] ! i = map ?g [?a..<?a + ?b] ! i"
      using i k by (simp add: div_add1_eq)
  qed
  moreover have "[0..<?a + ?b] = [0..<?a] @ [?a..<?a + ?b]" by (metis le0 upt_add_eq_append)
  ultimately show ?case unfolding s using Suc by simp
qed

lemma blocks_flat:
  assumes "0 < k"
  shows "concat (map (\<lambda>b. map (f b) [0..<min k (n - k * b)]) [0..<ceil_div n k])
     = map (\<lambda>j. f (j div k) (j mod k)) [0..<n]"
  using blocks_upto [OF assms, of f n "ceil_div n k"] ceil_div_mult [OF assms, of n]
  by (simp add: min_absorb1)

lemma slice_map: "take k (drop a xs) = map (\<lambda>i. xs ! (a + i)) [0..<min k (length xs - a)]"
  by (rule nth_equalityI) (auto simp: min.commute)

lemma slices_concat:
  assumes "0 < k"
  shows "concat (map (\<lambda>b. take k (drop (k * b) xs)) [0..<ceil_div (length xs) k]) = xs"
proof -
  have "concat (map (\<lambda>b. take k (drop (k * b) xs)) [0..<ceil_div (length xs) k])
     = map (\<lambda>j. xs ! (k * (j div k) + j mod k)) [0..<length xs]"
    unfolding slice_map by (rule blocks_flat [OF assms])
  then show ?thesis by (simp add: map_nth)
qed

subsection \<open>The \<open>Crypto\<close> interface\<close>

text \<open>
  \<open>Encrypt\<close> draws some randomness (a nonce, a padding); whatever it draws, \<open>Decrypt\<close>
  must give the plaintext back. A client that only sees the interface concludes that different
  plaintexts have different ciphertexts, and that a text can go through two ciphers.
\<close>

locale crypto =
  fixes encrypt :: "'r \<Rightarrow> string \<Rightarrow> string res option"
    and decrypt :: "string \<Rightarrow> string res option"
    and fits :: "string \<Rightarrow> bool"
  assumes total: "fits p \<Longrightarrow> \<exists>c. encrypt r p = Some (Inr c)"
    and inverts: "fits p \<Longrightarrow> encrypt r p = Some (Inr c) \<Longrightarrow> decrypt c = Some (Inr p)"
begin

lemma ciphertexts_differ:
  "fits p \<Longrightarrow> fits q \<Longrightarrow> p \<noteq> q \<Longrightarrow> encrypt r p \<noteq> encrypt r' q"
proof
  assume p: "fits p" and q: "fits q" and ne: "p \<noteq> q" and e: "encrypt r p = encrypt r' q"
  obtain c where c: "encrypt r p = Some (Inr c)" using total [OF p] by blast
  from inverts [OF p c] inverts [OF q c [unfolded e]] ne show False by simp
qed

lemma comes_back: "fits p \<Longrightarrow> \<exists>c. encrypt r p = Some (Inr c) \<and> decrypt c = Some (Inr p)"
  using total [of p r] inverts [of p r] by blast

end

end
