(* ===== verification/Sec_Aes.thy ===== *)
theory Sec_Aes
  imports Sec_Base
begin

section \<open>The AES cipher\<close>

text \<open>
  \<open>pkg/security/aes.go\<close>: AES in counter mode over the URL-escaped plaintext, with a nonce of
  eight bytes in front, in base64. Go's \<open>int\<close> is \<open>int\<close>; nothing overflows. A
  panic (an index outside the S-box, which a key with a rune above 255 causes) is \<open>None\<close>.
  The clock and the random number are arguments.

  The state \<open>[4][4]int\<close> is a list of four rows of four columns, the key schedule
  \<open>[][]int\<close> a list of words of four.
\<close>

subsection \<open>The cipher's data\<close>

definition aes_sBox :: "int list" where
  "aes_sBox = [
   0x63, 0x7c, 0x77, 0x7b, 0xf2, 0x6b, 0x6f, 0xc5, 0x30, 0x01, 0x67, 0x2b, 0xfe, 0xd7, 0xab, 0x76,
   0xca, 0x82, 0xc9, 0x7d, 0xfa, 0x59, 0x47, 0xf0, 0xad, 0xd4, 0xa2, 0xaf, 0x9c, 0xa4, 0x72, 0xc0,
   0xb7, 0xfd, 0x93, 0x26, 0x36, 0x3f, 0xf7, 0xcc, 0x34, 0xa5, 0xe5, 0xf1, 0x71, 0xd8, 0x31, 0x15,
   0x04, 0xc7, 0x23, 0xc3, 0x18, 0x96, 0x05, 0x9a, 0x07, 0x12, 0x80, 0xe2, 0xeb, 0x27, 0xb2, 0x75,
   0x09, 0x83, 0x2c, 0x1a, 0x1b, 0x6e, 0x5a, 0xa0, 0x52, 0x3b, 0xd6, 0xb3, 0x29, 0xe3, 0x2f, 0x84,
   0x53, 0xd1, 0x00, 0xed, 0x20, 0xfc, 0xb1, 0x5b, 0x6a, 0xcb, 0xbe, 0x39, 0x4a, 0x4c, 0x58, 0xcf,
   0xd0, 0xef, 0xaa, 0xfb, 0x43, 0x4d, 0x33, 0x85, 0x45, 0xf9, 0x02, 0x7f, 0x50, 0x3c, 0x9f, 0xa8,
   0x51, 0xa3, 0x40, 0x8f, 0x92, 0x9d, 0x38, 0xf5, 0xbc, 0xb6, 0xda, 0x21, 0x10, 0xff, 0xf3, 0xd2,
   0xcd, 0x0c, 0x13, 0xec, 0x5f, 0x97, 0x44, 0x17, 0xc4, 0xa7, 0x7e, 0x3d, 0x64, 0x5d, 0x19, 0x73,
   0x60, 0x81, 0x4f, 0xdc, 0x22, 0x2a, 0x90, 0x88, 0x46, 0xee, 0xb8, 0x14, 0xde, 0x5e, 0x0b, 0xdb,
   0xe0, 0x32, 0x3a, 0x0a, 0x49, 0x06, 0x24, 0x5c, 0xc2, 0xd3, 0xac, 0x62, 0x91, 0x95, 0xe4, 0x79,
   0xe7, 0xc8, 0x37, 0x6d, 0x8d, 0xd5, 0x4e, 0xa9, 0x6c, 0x56, 0xf4, 0xea, 0x65, 0x7a, 0xae, 0x08,
   0xba, 0x78, 0x25, 0x2e, 0x1c, 0xa6, 0xb4, 0xc6, 0xe8, 0xdd, 0x74, 0x1f, 0x4b, 0xbd, 0x8b, 0x8a,
   0x70, 0x3e, 0xb5, 0x66, 0x48, 0x03, 0xf6, 0x0e, 0x61, 0x35, 0x57, 0xb9, 0x86, 0xc1, 0x1d, 0x9e,
   0xe1, 0xf8, 0x98, 0x11, 0x69, 0xd9, 0x8e, 0x94, 0x9b, 0x1e, 0x87, 0xe9, 0xce, 0x55, 0x28, 0xdf,
   0x8c, 0xa1, 0x89, 0x0d, 0xbf, 0xe6, 0x42, 0x68, 0x41, 0x99, 0x2d, 0x0f, 0xb0, 0x54, 0xbb, 0x16]"

definition aes_rCon :: "int list list" where
  "aes_rCon = [[0x00, 0x00, 0x00, 0x00], [0x01, 0x00, 0x00, 0x00], [0x02, 0x00, 0x00, 0x00],
     [0x04, 0x00, 0x00, 0x00], [0x08, 0x00, 0x00, 0x00], [0x10, 0x00, 0x00, 0x00],
     [0x20, 0x00, 0x00, 0x00], [0x40, 0x00, 0x00, 0x00], [0x80, 0x00, 0x00, 0x00],
     [0x1b, 0x00, 0x00, 0x00], [0x36, 0x00, 0x00, 0x00]]"

definition DefaultAesKey :: string where
  "DefaultAesKey = ''159054a86e3bfb85b5f1991cdb07645e''"

definition aes_BlockSize :: nat where "aes_BlockSize = 16"
definition DefaultAesNBits :: int where "DefaultAesNBits = 256"

record AesCipher =
  aes_key :: string
  aes_nBits :: int
  cipher_sBox :: "int list"
  cipher_rCon :: "int list list"

definition AesKeySizeError :: "int \<Rightarrow> go_error" where
  "AesKeySizeError k =
     new_error (''aes: invalid key size '' @ FormatInt k @ '', standard allows 128/192/256 bit keys'')"

definition NewAesCipher :: "string \<Rightarrow> int \<Rightarrow> AesCipher res" where
  "NewAesCipher key nBits =
     (if nBits \<in> {128, 192, 256}
      then Inr \<lparr>aes_key = key, aes_nBits = nBits, cipher_sBox = aes_sBox, cipher_rCon = aes_rCon\<rparr>
      else Inl (AesKeySizeError nBits))"

subsection \<open>The key schedule\<close>

definition charCodeAt :: "string \<Rightarrow> nat \<Rightarrow> int" where
  "charCodeAt s n = (let rs = runes s in if n < length rs then int (rs ! n) else 0)"

definition rotWord :: "int list \<Rightarrow> int list" where
  "rotWord w = map (\<lambda>i. w ! (i + 1)) [0..<3] @ [w ! 0]"

definition subWord :: "AesCipher \<Rightarrow> int list \<Rightarrow> int list option" where
  "subWord a w = mapM (\<lambda>i. index_at (cipher_sBox a) (w ! i)) [0..<4]"

definition xor_words :: "int list \<Rightarrow> int list \<Rightarrow> int list" where
  "xor_words v w = map (\<lambda>t. v ! t XOR w ! t) [0..<4]"

text \<open>Word \<open>i\<close> of the schedule from the words before it.\<close>

definition next_word :: "AesCipher \<Rightarrow> nat \<Rightarrow> nat \<Rightarrow> int list list \<Rightarrow> int list option" where
  "next_word a Nk i w =
     (let temp = w ! (i - 1) in
      map_option (\<lambda>temp. xor_words (w ! (i - Nk)) temp)
        (if i mod Nk = 0 then
           (case subWord a (rotWord temp) of None \<Rightarrow> None
            | Some temp \<Rightarrow>
                map_option (\<lambda>con. xor_words temp con) (index_at (cipher_rCon a) (int (i div Nk))))
         else if 6 < Nk \<and> i mod Nk = 4 then subWord a temp
         else Some temp))"

fun expand_words :: "AesCipher \<Rightarrow> nat \<Rightarrow> nat list \<Rightarrow> int list list \<Rightarrow> int list list option" where
  "expand_words a Nk [] w = Some w"
| "expand_words a Nk (i # is) w =
     (case next_word a Nk i w of None \<Rightarrow> None | Some v \<Rightarrow> expand_words a Nk is (w @ [v]))"

definition keyExpansion :: "AesCipher \<Rightarrow> int list \<Rightarrow> int list list option" where
  "keyExpansion a key =
     (let Nb = 4; Nk = length key div 4; Nr = Nk + 6 in
      expand_words a Nk [Nk..<Nb * (Nr + 1)]
        (map (\<lambda>i. [key ! (4 * i), key ! (4 * i + 1), key ! (4 * i + 2), key ! (4 * i + 3)]) [0..<Nk]))"

subsection \<open>The rounds\<close>

definition addRoundKey :: "int list list \<Rightarrow> int list list \<Rightarrow> nat \<Rightarrow> int list list" where
  "addRoundKey s w rnd = map (\<lambda>r. map (\<lambda>c. s ! r ! c XOR w ! (rnd * 4 + c) ! r) [0..<4]) [0..<4]"

definition subBytes :: "int list list \<Rightarrow> int list list option" where
  "subBytes s = mapM (\<lambda>r. mapM (\<lambda>c. index_at aes_sBox (s ! r ! c)) [0..<4]) [0..<4]"

definition shiftRows :: "int list list \<Rightarrow> int list list" where
  "shiftRows s = s ! 0 # map (\<lambda>r. map (\<lambda>c. s ! r ! ((c + r) mod 4)) [0..<4]) [1..<4]"

definition times2 :: "int \<Rightarrow> int" where
  "times2 x = (if x AND 0x80 > 0 then push_bit 1 x XOR 0x011b else push_bit 1 x)"

definition mix_column :: "int list \<Rightarrow> int list" where
  "mix_column a =
     (let b = map times2 a in
      [b ! 0 XOR a ! 1 XOR b ! 1 XOR a ! 2 XOR a ! 3,
       a ! 0 XOR b ! 1 XOR a ! 2 XOR b ! 2 XOR a ! 3,
       a ! 0 XOR a ! 1 XOR b ! 2 XOR a ! 3 XOR b ! 3,
       a ! 0 XOR b ! 0 XOR a ! 1 XOR a ! 2 XOR b ! 3])"

definition mixColumns :: "int list list \<Rightarrow> int list list" where
  "mixColumns s =
     (let cols = map (\<lambda>c. mix_column (map (\<lambda>i. s ! i ! c) [0..<4])) [0..<4]
      in map (\<lambda>r. map (\<lambda>c. cols ! c ! r) [0..<4]) [0..<4])"

definition sub_shift :: "int list list \<Rightarrow> int list list option" where
  "sub_shift s = map_option shiftRows (subBytes s)"

fun main_rounds :: "int list list \<Rightarrow> nat list \<Rightarrow> int list list \<Rightarrow> int list list option" where
  "main_rounds w [] s = Some s"
| "main_rounds w (r # rs) s =
     (case sub_shift s of None \<Rightarrow> None
      | Some s' \<Rightarrow> main_rounds w rs (addRoundKey (mixColumns s') w r))"

definition aes_cipher :: "int list \<Rightarrow> int list list \<Rightarrow> int list option" where
  "aes_cipher input w =
     (let Nr = length w div 4 - 1;
          state = map (\<lambda>r. map (\<lambda>c. input ! (4 * c + r)) [0..<4]) [0..<4]
      in case main_rounds w [1..<Nr] (addRoundKey state w 0) of None \<Rightarrow> None
         | Some s \<Rightarrow>
           (case sub_shift s of None \<Rightarrow> None
            | Some s' \<Rightarrow>
                (let out = addRoundKey s' w Nr
                 in Some (map (\<lambda>i. out ! (i mod 4) ! (i div 4)) [0..<16]))))"

subsection \<open>Counter mode\<close>

text \<open>The key for the text: the password encrypted with itself, repeated to the key's length.\<close>

definition aes_schedule :: "AesCipher \<Rightarrow> int list list option" where
  "aes_schedule a =
     (let nBytes = nat (aes_nBits a div 8);
          pwBytes = map (charCodeAt (aes_key a)) [0..<nBytes]
      in case keyExpansion a pwBytes of None \<Rightarrow> None
         | Some t \<Rightarrow>
           (case aes_cipher pwBytes t of None \<Rightarrow> None
            | Some keys \<Rightarrow> keyExpansion a (keys @ take (nBytes - 16) keys)))"

text \<open>The nonce: milliseconds, a random number and seconds, low byte first.\<close>

definition aes_nonce :: "int \<Rightarrow> int \<Rightarrow> int list" where
  "aes_nonce now rnd =
     map (\<lambda>i. drop_bit (i * 8) (now smod 1000) AND 0xff) [0..<2]
     @ map (\<lambda>i. drop_bit (i * 8) rnd AND 0xff) [0..<2]
     @ map (\<lambda>i. drop_bit (i * 8) (now sdiv 1000) AND 0xff) [0..<4]"

definition enc_counter :: "int list \<Rightarrow> nat \<Rightarrow> int list" where
  "enc_counter nonce b = nonce
     @ map (\<lambda>c. drop_bit (c * 8) (int b div 0x100000000)) [3, 2, 1, 0]
     @ map (\<lambda>c. drop_bit (c * 8) (int b) AND 0xff) [3, 2, 1, 0]"

definition dec_counter :: "int list \<Rightarrow> nat \<Rightarrow> int list" where
  "dec_counter nonce b = nonce
     @ map (\<lambda>c. drop_bit (c * 8) ((int b + 1) div 0x100000000) AND 0xff) [3, 2, 1, 0]
     @ map (\<lambda>c. drop_bit (c * 8) (int b) AND 0xff) [3, 2, 1, 0]"

definition enc_block :: "string \<Rightarrow> nat \<Rightarrow> nat \<Rightarrow> int list \<Rightarrow> string" where
  "enc_block plain blockCount b cntr =
     (let blockLength = (if b < blockCount - 1 then aes_BlockSize
                         else (length plain - 1) mod aes_BlockSize + 1)
      in map (\<lambda>i. xor_byte (cntr ! i) (plain ! (b * aes_BlockSize + i))) [0..<blockLength])"

definition aes_Encrypt :: "AesCipher \<Rightarrow> int \<times> int \<Rightarrow> string \<Rightarrow> string res option" where
  "aes_Encrypt a clock plaintext =
     (let plain = QueryEscape plaintext; nonce = aes_nonce (fst clock) (snd clock);
          blockCount = ceil_div (length plain) aes_BlockSize
      in case aes_schedule a of None \<Rightarrow> None
         | Some w \<Rightarrow>
             map_option (\<lambda>bs. Inr (b64_encode b64_std (map char_of nonce @ concat bs)))
               (mapM (\<lambda>b. map_option (enc_block plain blockCount b) (aes_cipher (enc_counter nonce b) w))
                  [0..<blockCount]))"

definition dec_block :: "string \<Rightarrow> int list \<Rightarrow> string" where
  "dec_block ct cntr = map (\<lambda>i. xor_byte (cntr ! i) (ct ! i)) [0..<length ct]"

text \<open>The blocks of the ciphertext after the nonce, the last one possibly short.\<close>

definition cipher_blocks :: "string \<Rightarrow> string list" where
  "cipher_blocks bytes =
     map (\<lambda>b. let start = 8 + b * aes_BlockSize; end' = 8 + b * aes_BlockSize + aes_BlockSize
              in if end' \<le> length bytes then take (end' - start) (drop start bytes) else drop start bytes)
       [0..<ceil_div (length bytes - 8) aes_BlockSize]"

definition aes_Decrypt :: "AesCipher \<Rightarrow> string \<Rightarrow> string res option" where
  "aes_Decrypt a cipherText =
     (case b64_decode b64_std cipherText of None \<Rightarrow> Some (Inl b64_error)
      | Some bytes \<Rightarrow>
        (if length bytes \<le> 8 then Some (Inr [])
         else case aes_schedule a of None \<Rightarrow> None
         | Some w \<Rightarrow>
           (let nonce = map of_char (take 8 bytes); ct = cipher_blocks bytes
            in map_option (\<lambda>bs. Inr (DecodeURIComponent (concat bs)))
                 (mapM (\<lambda>b. map_option (dec_block (ct ! b)) (aes_cipher (dec_counter nonce b) w))
                    [0..<length ct]))))"

subsection \<open>Every value stays a byte\<close>

text \<open>
  A word is four bytes, a state four words. Every operation of the cipher keeps them so, hence
  no access to the S-box ever fails, hence the cipher returns.
\<close>

definition is_word :: "int list \<Rightarrow> bool" where
  "is_word w \<longleftrightarrow> length w = 4 \<and> (\<forall>x \<in> set w. is_byte x)"

definition is_state :: "int list list \<Rightarrow> bool" where
  "is_state s \<longleftrightarrow> length s = 4 \<and> (\<forall>w \<in> set s. is_word w)"

lemma is_word_nth [simp]: "is_word w \<Longrightarrow> i < 4 \<Longrightarrow> is_byte (w ! i)"
  by (simp add: is_word_def)

lemma is_state_nth [simp]: "is_state s \<Longrightarrow> i < 4 \<Longrightarrow> is_word (s ! i)"
  by (simp add: is_state_def)

lemma words_nth [simp]: "\<forall>w \<in> set ws. is_word w \<Longrightarrow> i < length ws \<Longrightarrow> is_word (ws ! i)"
  by simp

lemma is_wordI: "(\<And>i. i < 4 \<Longrightarrow> is_byte (f i)) \<Longrightarrow> is_word (map f [0..<4])"
  by (auto simp: is_word_def)

lemma is_stateI: "(\<And>r c. r < 4 \<Longrightarrow> c < 4 \<Longrightarrow> is_byte (f r c)) \<Longrightarrow> is_state (map (\<lambda>r. map (f r) [0..<4]) [0..<4])"
  by (auto simp: is_state_def is_word_def)

lemma upt_4: "[0..<4] = [0, 1, 2, 3::nat]" "[0..<3] = [0, 1, 2::nat]" "[1..<4] = [1, 2, 3::nat]"
  by (simp_all add: upt_rec)

lemma sBox_table: "length aes_sBox = 256" "\<forall>y \<in> set aes_sBox. is_byte y"
proof -
  show "length aes_sBox = 256" by (simp add: aes_sBox_def)
  have "list_all (\<lambda>y. 0 \<le> y \<and> y < 256) aes_sBox" by code_simp
  then show "\<forall>y \<in> set aes_sBox. is_byte y" by (simp add: list_all_iff is_byte_def)
qed

lemma sBox_at: "is_byte x \<Longrightarrow> \<exists>y. index_at aes_sBox x = Some y \<and> is_byte y"
  using sBox_table by (auto simp: index_at_def is_byte_def)

lemma rCon_at: "0 \<le> i \<Longrightarrow> i < 11 \<Longrightarrow> \<exists>v. index_at aes_rCon i = Some v \<and> is_word v"
proof -
  assume i: "0 \<le> i" "i < 11"
  have "list_all (\<lambda>w. length w = 4 \<and> list_all (\<lambda>y. 0 \<le> y \<and> y < 256) w) aes_rCon" by code_simp
  then have "\<forall>w \<in> set aes_rCon. is_word w" by (simp add: list_all_iff is_word_def is_byte_def)
  moreover have "length aes_rCon = 11" by (simp add: aes_rCon_def)
  ultimately show ?thesis using i by (simp add: index_at_def)
qed

lemma rotWord_word [simp]: "is_word w \<Longrightarrow> is_word (rotWord w)"
  by (auto simp: rotWord_def is_word_def upt_4)

lemma xor_words_word [simp]: "is_word v \<Longrightarrow> is_word w \<Longrightarrow> is_word (xor_words v w)"
  unfolding xor_words_def by (rule is_wordI) simp

lemma subWord_total:
  assumes "cipher_sBox a = aes_sBox" "is_word w"
  shows "\<exists>v. subWord a w = Some v \<and> is_word v"
proof -
  have "\<exists>v. subWord a w = Some v \<and> length v = length [0..<4] \<and> (\<forall>y \<in> set v. is_byte y)"
    unfolding subWord_def assms(1) by (rule mapM_total) (use assms(2) sBox_at in auto)
  then show ?thesis by (auto simp: is_word_def)
qed

definition tables_ok :: "AesCipher \<Rightarrow> bool" where
  "tables_ok a \<longleftrightarrow> cipher_sBox a = aes_sBox \<and> cipher_rCon a = aes_rCon"

lemma next_word_total:
  assumes a: "tables_ok a" and w: "\<forall>v \<in> set w. is_word v" and i: "i = length w" "0 < Nk" "Nk \<le> i"
    and r: "i div Nk < 11"
  shows "\<exists>v. next_word a Nk i w = Some v \<and> is_word v"
proof -
  have t: "is_word (w ! (i - 1))" and p: "is_word (w ! (i - Nk))"
    using w i by auto
  obtain u where u: "subWord a (rotWord (w ! (i - 1))) = Some u" "is_word u"
    using subWord_total [of a "rotWord (w ! (i - 1))"] a t by (auto simp: tables_ok_def)
  obtain v where v: "subWord a (w ! (i - 1)) = Some v" "is_word v"
    using subWord_total [of a "w ! (i - 1)"] a t by (auto simp: tables_ok_def)
  obtain con where c: "index_at (cipher_rCon a) (int (i div Nk)) = Some con" "is_word con"
    using rCon_at [of "int (i div Nk)"] r a by (auto simp: tables_ok_def)
  show ?thesis
    using t p u v c by (simp add: next_word_def Let_def)
qed

lemma expand_words_total:
  assumes "tables_ok a" "0 < Nk" "Nk \<le> length w" "length w \<le> n" "n \<le> 11 * Nk" "\<forall>v \<in> set w. is_word v"
  shows "\<exists>s. expand_words a Nk [length w..<n] w = Some s \<and> length s = n \<and> (\<forall>v \<in> set s. is_word v)"
  using assms
proof (induction "n - length w" arbitrary: w)
  case 0
  then show ?case by simp
next
  case (Suc k)
  then have l: "length w < n" by simp
  with Suc.prems have "length w < 11 * Nk" by simp
  then have "length w div Nk < 11" using Suc.prems(2) by (simp add: less_mult_imp_div_less)
  with Suc.prems obtain v where v: "next_word a Nk (length w) w = Some v" "is_word v"
    using next_word_total [of a w "length w" Nk] by auto
  have "\<exists>s. expand_words a Nk [length (w @ [v])..<n] (w @ [v]) = Some s \<and> length s = n
      \<and> (\<forall>v \<in> set s. is_word v)"
    by (rule Suc.hyps(1)) (use Suc v l in auto)
  then show ?case using l v by (simp add: upt_conv_Cons)
qed

definition key_size :: "nat \<Rightarrow> bool" where
  "key_size n \<longleftrightarrow> n = 16 \<or> n = 24 \<or> n = 32"

definition is_schedule :: "int list list \<Rightarrow> bool" where
  "is_schedule w \<longleftrightarrow> 44 \<le> length w \<and> length w mod 4 = 0 \<and> (\<forall>v \<in> set w. is_word v)"

lemma keyExpansion_length:
  assumes a: "tables_ok a" and k: "key_size (length key)" "\<forall>x \<in> set key. is_byte x"
  shows "\<exists>w. keyExpansion a key = Some w \<and> length w = 4 * (length key div 4 + 7) \<and> (\<forall>v \<in> set w. is_word v)"
proof -
  let ?Nk = "length key div 4"
  let ?w = "map (\<lambda>i. [key ! (4 * i), key ! (4 * i + 1), key ! (4 * i + 2), key ! (4 * i + 3)]) [0..<?Nk]"
  have l: "4 * i + 3 < length key" if "i < ?Nk" for i
    using that by simp
  have w: "\<forall>v \<in> set ?w. is_word v"
    using l k(2) by (fastforce simp: is_word_def)
  obtain s where s: "expand_words a ?Nk [length ?w..<4 * (?Nk + 6 + 1)] ?w = Some s"
      "length s = 4 * (?Nk + 6 + 1)" "\<forall>v \<in> set s. is_word v"
    using expand_words_total [OF a _ _ _ _ w, of ?Nk "4 * (?Nk + 6 + 1)"] k(1) by (auto simp: key_size_def)
  have "keyExpansion a key = Some s" using s(1) by (simp add: keyExpansion_def Let_def)
  then show ?thesis using s(2,3) by simp
qed

lemma keyExpansion_total:
  assumes "tables_ok a" "key_size (length key)" "\<forall>x \<in> set key. is_byte x"
  shows "\<exists>w. keyExpansion a key = Some w \<and> is_schedule w"
  using keyExpansion_length [OF assms] assms(2) by (auto simp: is_schedule_def key_size_def)

lemma subBytes_total: "is_state s \<Longrightarrow> \<exists>t. subBytes s = Some t \<and> is_state t"
proof -
  assume s: "is_state s"
  have "\<exists>w. mapM (\<lambda>c. index_at aes_sBox (s ! r ! c)) [0..<4] = Some w \<and> is_word w" if "r < 4" for r
  proof -
    have "\<exists>w. mapM (\<lambda>c. index_at aes_sBox (s ! r ! c)) [0..<4] = Some w \<and> length w = length [0..<4]
        \<and> (\<forall>y \<in> set w. is_byte y)"
      by (rule mapM_total) (use s that sBox_at in auto)
    then show ?thesis by (auto simp: is_word_def)
  qed
  then have "\<exists>t. subBytes s = Some t \<and> length t = length [0..<4] \<and> (\<forall>w \<in> set t. is_word w)"
    unfolding subBytes_def by (intro mapM_total) auto
  then show ?thesis by (auto simp: is_state_def)
qed

lemma shiftRows_state [simp]: "is_state s \<Longrightarrow> is_state (shiftRows s)"
proof -
  assume s: "is_state s"
  have "is_word (map (\<lambda>c. s ! r ! ((c + r) mod 4)) [0..<4])" if "r < 4" for r
    by (rule is_wordI) (use s that in simp)
  then show ?thesis using s by (auto simp: shiftRows_def is_state_def)
qed

lemma sub_shift_total: "is_state s \<Longrightarrow> \<exists>t. sub_shift s = Some t \<and> is_state t"
  using subBytes_total [of s] by (auto simp: sub_shift_def)

lemma bytes_0_255: "is_byte x \<longleftrightarrow> x \<in> set (map int [0..<256])"
  by (auto simp: is_byte_def image_iff intro: bexI [of _ "nat x"])

lemma times2_byte [simp]: "is_byte x \<Longrightarrow> is_byte (times2 x)"
proof -
  have "list_all (\<lambda>x. 0 \<le> times2 x \<and> times2 x < 256) (map int [0..<256])" by code_simp
  then show "is_byte x \<Longrightarrow> is_byte (times2 x)"
    unfolding list_all_iff bytes_0_255 [of x] by (simp only: is_byte_def)
qed

lemma mix_column_word [simp]: "is_word w \<Longrightarrow> is_word (mix_column w)"
  by (simp add: mix_column_def Let_def is_word_def)

lemma mixColumns_state [simp]: "is_state s \<Longrightarrow> is_state (mixColumns s)"
proof -
  assume s: "is_state s"
  have "is_word (map (\<lambda>i. s ! i ! c) [0..<4])" if "c < 4" for c
    by (rule is_wordI) (use s that in simp)
  then show ?thesis
    unfolding mixColumns_def Let_def by (intro is_stateI) simp
qed

lemma addRoundKey_state [simp]:
  "is_state s \<Longrightarrow> \<forall>v \<in> set w. is_word v \<Longrightarrow> rnd * 4 + 3 < length w \<Longrightarrow> is_state (addRoundKey s w rnd)"
  unfolding addRoundKey_def by (rule is_stateI) simp

lemma main_rounds_total:
  assumes "\<forall>v \<in> set w. is_word v" "is_state s" "\<forall>r \<in> set rs. r * 4 + 3 < length w"
  shows "\<exists>t. main_rounds w rs s = Some t \<and> is_state t"
  using assms
proof (induction rs arbitrary: s)
  case Nil
  then show ?case by simp
next
  case (Cons r rs)
  obtain t where "sub_shift s = Some t" "is_state t" using sub_shift_total Cons.prems by blast
  then show ?case using Cons by simp
qed

lemma aes_cipher_total:
  assumes w: "is_schedule w" and i: "16 \<le> length input" "\<forall>x \<in> set input. is_byte x"
  shows "\<exists>out. aes_cipher input w = Some out \<and> length out = 16 \<and> (\<forall>x \<in> set out. is_byte x)"
proof -
  let ?s = "map (\<lambda>r. map (\<lambda>c. input ! (4 * c + r)) [0..<4]) [0..<4]"
  let ?Nr = "length w div 4 - 1"
  have ws: "\<forall>v \<in> set w. is_word v" and l: "?Nr * 4 + 4 = length w"
    using w by (auto simp: is_schedule_def)
  have "is_state ?s" by (rule is_stateI) (use i in simp)
  then have "is_state (addRoundKey ?s w 0)" using ws l by simp
  then obtain t where t: "main_rounds w [1..<?Nr] (addRoundKey ?s w 0) = Some t" "is_state t"
    using main_rounds_total [OF ws, of "addRoundKey ?s w 0" "[1..<?Nr]"] l by auto
  obtain u where u: "sub_shift t = Some u" "is_state u" using sub_shift_total t(2) by blast
  have o: "is_state (addRoundKey u w ?Nr)" using u ws l by simp
  then have "\<forall>i < 16. is_byte (addRoundKey u w ?Nr ! (i mod 4) ! (i div 4))"
    by simp
  then show ?thesis unfolding aes_cipher_def Let_def t(1) option.case u(1) by auto
qed

end
