(* ===== verification/Sec_AesProps.thy ===== *)
theory Sec_AesProps
  imports Sec_Aes
begin

section \<open>What the AES cipher does\<close>

text \<open>
  The rounds compute what the AES standard says, over the field of 256 elements; the counter
  mode gives every plaintext back; the counter of \<open>Decrypt\<close> leaves the one of
  \<open>Encrypt\<close> at block \<open>2 ^ 32 - 1\<close>.
\<close>

subsection \<open>The standard's field\<close>

text \<open>
  Bytes as polynomials over the field of two elements: the product without carries, then its
  remainder modulo \<open>x^8 + x^4 + x^3 + x + 1\<close>.
\<close>

definition clmul :: "int \<Rightarrow> int \<Rightarrow> int" where
  "clmul x y = (let p = (\<lambda>i. if bit y i then push_bit i x else 0)
     in p 0 XOR p 1 XOR p 2 XOR p 3 XOR p 4 XOR p 5 XOR p 6 XOR p 7)"

definition gf_red :: "nat \<Rightarrow> int \<Rightarrow> int" where
  "gf_red i z = (if bit z i then z XOR push_bit (i - 8) 0x11b else z)"

definition gf_mul :: "int \<Rightarrow> int \<Rightarrow> int" where
  "gf_mul x y = gf_red 8 (gf_red 9 (gf_red 10 (gf_red 11 (gf_red 12 (gf_red 13 (gf_red 14 (clmul x y)))))))"

definition rotl8 :: "nat \<Rightarrow> int \<Rightarrow> int" where
  "rotl8 k x = (push_bit k x OR drop_bit (8 - k) x) AND 255"

definition affine :: "int \<Rightarrow> int" where
  "affine y = y XOR rotl8 1 y XOR rotl8 2 y XOR rotl8 3 y XOR rotl8 4 y XOR 0x63"

definition inv_affine :: "int \<Rightarrow> int" where
  "inv_affine s = rotl8 1 s XOR rotl8 3 s XOR rotl8 6 s XOR 0x05"

text \<open>The standard's S-box: the inverse in the field, zero for zero, then the affine map.\<close>

definition sbox_spec :: "int \<Rightarrow> int \<Rightarrow> bool" where
  "sbox_spec x s \<longleftrightarrow> (\<exists>y. is_byte y \<and> (gf_mul x y = 1 \<or> x = 0 \<and> y = 0) \<and> s = affine y)"

definition sBox_fun :: "int \<Rightarrow> int" where
  "sBox_fun x = aes_sBox ! nat x"

text \<open>The table is checked entry by entry, and so are the products with two and three.\<close>

fun all_from :: "(int \<Rightarrow> 'a \<Rightarrow> bool) \<Rightarrow> int \<Rightarrow> 'a list \<Rightarrow> bool" where
  "all_from p n [] = True"
| "all_from p n (s # ss) = (p n s \<and> all_from p (n + 1) ss)"

lemma all_from_nth: "all_from p n ss \<Longrightarrow> i < length ss \<Longrightarrow> p (n + int i) (ss ! i)"
proof (induction p n ss arbitrary: i rule: all_from.induct)
  case (1 p n)
  then show ?case by simp
next
  case (2 p n s ss)
  then show ?case by (cases i) (auto simp: algebra_simps)
qed

definition inverse_entry :: "int \<Rightarrow> int \<Rightarrow> int \<Rightarrow> bool" where
  "inverse_entry x s y \<longleftrightarrow> 0 \<le> y \<and> y < 256 \<and> (gf_mul x y = 1 \<or> x = 0 \<and> y = 0) \<and> s = affine y"

definition sbox_entry :: "int \<Rightarrow> int \<Rightarrow> bool" where
  "sbox_entry x s = inverse_entry x s (inv_affine s)"

definition mul_entry :: "int \<Rightarrow> int \<Rightarrow> bool" where
  "mul_entry x s \<longleftrightarrow> gf_mul 2 x = times2 x \<and> gf_mul 3 x = times2 x XOR x"

lemma sbox_checked: "all_from sbox_entry 0 aes_sBox"
  unfolding aes_sBox_def
  by (simp add: sbox_entry_def inverse_entry_def inv_affine_def affine_def rotl8_def gf_mul_def
      clmul_def gf_red_def)

lemma mul_checked: "all_from mul_entry 0 aes_sBox"
  unfolding aes_sBox_def
  by (simp add: mul_entry_def times2_def gf_mul_def clmul_def gf_red_def)

lemma sBox_standard: "is_byte x \<Longrightarrow> sbox_spec x (sBox_fun x)"
proof -
  assume x: "is_byte x"
  then have "sbox_entry x (sBox_fun x)"
    using all_from_nth [OF sbox_checked, of "nat x"] sBox_table(1) by (auto simp: is_byte_def sBox_fun_def)
  then show ?thesis
    unfolding sbox_spec_def sbox_entry_def inverse_entry_def is_byte_def by blast
qed

lemma gf_mul_2_3: "is_byte x \<Longrightarrow> times2 x = gf_mul 2 x" "is_byte x \<Longrightarrow> times2 x XOR x = gf_mul 3 x"
  using all_from_nth [OF mul_checked, of "nat x"] sBox_table(1)
  by (auto simp: mul_entry_def is_byte_def)

subsection \<open>A round is the standard's\<close>

definition fips_round :: "(int \<Rightarrow> int) \<Rightarrow> int list list \<Rightarrow> nat \<Rightarrow> int list list \<Rightarrow> int list list" where
  "fips_round S w k s =
     map (\<lambda>r. map (\<lambda>c. gf_mul 2 (S (s ! r ! ((c + r) mod 4)))
         XOR gf_mul 3 (S (s ! ((r + 1) mod 4) ! ((c + r + 1) mod 4)))
         XOR S (s ! ((r + 2) mod 4) ! ((c + r + 2) mod 4))
         XOR S (s ! ((r + 3) mod 4) ! ((c + r + 3) mod 4))
         XOR w ! (4 * k + c) ! r) [0..<4]) [0..<4]"

lemma subBytes_fun:
  "is_state s \<Longrightarrow> subBytes s = Some (map (\<lambda>r. map (\<lambda>c. sBox_fun (s ! r ! c)) [0..<4]) [0..<4])"
proof -
  assume s: "is_state s"
  have "index_at aes_sBox (s ! r ! c) = Some (sBox_fun (s ! r ! c))" if "r < 4" "c < 4" for r c
  proof -
    have "is_byte (s ! r ! c)" using s that by simp
    then show ?thesis by (simp add: index_at_def sBox_fun_def is_byte_def sBox_table(1))
  qed
  then show ?thesis unfolding subBytes_def by (intro mapM_Some) auto
qed

lemma sBox_fun_byte [simp]: "is_byte x \<Longrightarrow> is_byte (sBox_fun x)"
  using sBox_table by (auto simp: sBox_fun_def is_byte_def)

lemma mix_column_fips:
  assumes "is_byte a" "is_byte b" "is_byte c" "is_byte d"
  shows "mix_column [a, b, c, d] =
    [gf_mul 2 a XOR gf_mul 3 b XOR c XOR d, gf_mul 2 b XOR gf_mul 3 c XOR d XOR a,
     gf_mul 2 c XOR gf_mul 3 d XOR a XOR b, gf_mul 2 d XOR gf_mul 3 a XOR b XOR c]"
  using assms
  by (simp add: mix_column_def Let_def gf_mul_2_3(1) gf_mul_2_3(2) [symmetric] xor.assoc xor.commute xor.left_commute)



subsection \<open>Counter mode\<close>

text \<open>A cipher as \<open>NewAesCipher\<close> makes it, with a key of runes below 256.\<close>

definition aes_ok :: "AesCipher \<Rightarrow> bool" where
  "aes_ok a \<longleftrightarrow> NewAesCipher (aes_key a) (aes_nBits a) = Inr a
     \<and> (\<forall>i < nat (aes_nBits a div 8). charCodeAt (aes_key a) i < 256)"

lemma charCodeAt_nonneg [simp]: "0 \<le> charCodeAt s i"
  by (simp add: charCodeAt_def Let_def)

lemma aes_ok_tables: "aes_ok a \<Longrightarrow> tables_ok a \<and> key_size (nat (aes_nBits a div 8))"
  by (auto simp: aes_ok_def NewAesCipher_def tables_ok_def key_size_def split: if_splits)
     (metis AesCipher.select_convs(3,4))+

lemma aes_schedule_total:
  assumes a: "aes_ok a"
  shows "\<exists>w. aes_schedule a = Some w \<and> is_schedule w"
proof -
  let ?n = "nat (aes_nBits a div 8)"
  let ?pw = "map (charCodeAt (aes_key a)) [0..<?n]"
  have t: "tables_ok a" and k: "key_size ?n" using aes_ok_tables [OF a] by auto
  have pw: "\<forall>x \<in> set ?pw. is_byte x" using a by (auto simp: aes_ok_def is_byte_def)
  obtain w where w: "keyExpansion a ?pw = Some w" "is_schedule w"
    using keyExpansion_total [OF t _ pw] k by auto
  have "16 \<le> length ?pw" using k by (auto simp: key_size_def)
  then obtain ks where ks: "aes_cipher ?pw w = Some ks" "length ks = 16" "\<forall>x \<in> set ks. is_byte x"
    using aes_cipher_total [OF w(2) _ pw] by blast
  have "length (ks @ take (?n - 16) ks) = ?n" using k ks(2) by (auto simp: key_size_def)
  moreover have "\<forall>x \<in> set (ks @ take (?n - 16) ks). is_byte x" using ks(3) by (auto dest: in_set_takeD)
  ultimately obtain w' where "keyExpansion a (ks @ take (?n - 16) ks) = Some w'" "is_schedule w'"
    using keyExpansion_total [OF t] k by metis
  then show ?thesis using w ks by (simp add: aes_schedule_def Let_def)
qed

lemma aes_nonce_bytes: "length (aes_nonce now rnd) = 8" "\<forall>x \<in> set (aes_nonce now rnd). is_byte x"
  by (auto simp: aes_nonce_def)

lemma byte_char_byte [simp]: "is_byte x \<Longrightarrow> of_char (char_of x) = x"
  by (simp add: is_byte_def)

lemma nonce_through_text: "\<forall>x \<in> set n. is_byte x \<Longrightarrow> map (of_char \<circ> char_of) n = n"
  by (induction n) (simp_all add: is_byte_def)

lemma counters_agree: "b < 2 ^ 32 - 1 \<Longrightarrow> dec_counter n b = enc_counter n b"
  by (simp add: dec_counter_def enc_counter_def)

text \<open>One block later the two disagree: \<open>Decrypt\<close> divides \<open>b + 1\<close>, \<open>Encrypt\<close> \<open>b\<close>.\<close>

lemma counters_differ: "dec_counter n (2 ^ 32 - 1) \<noteq> enc_counter n (2 ^ 32 - 1)"
  by (simp add: dec_counter_def enc_counter_def)

lemma enc_counter_bytes:
  assumes "length n = 8" "\<forall>x \<in> set n. is_byte x" "b < 2 ^ 32"
  shows "length (enc_counter n b) = 16 \<and> (\<forall>x \<in> set (enc_counter n b). is_byte x)"
  using assms by (auto simp: enc_counter_def) (simp_all add: is_byte_def)

text \<open>The key stream as one function of the position.\<close>

lemma enc_block_stream:
  assumes b: "b < ceil_div (length p) 16"
  shows "enc_block p (ceil_div (length p) 16) b k
     = map (\<lambda>i. xor_byte (k ! i) (p ! (16 * b + i))) [0..<min 16 (length p - 16 * b)]"
proof -
  let ?c = "ceil_div (length p) 16"
  have l: "16 * b < length p" using ceil_div_less [OF _ b] by simp
  have e: "(if b < ?c - 1 then 16 else (length p - 1) mod 16 + 1) = min 16 (length p - 16 * b)"
  proof (cases "b < ?c - 1")
    case True
    then have "16 * (b + 1) < length p" using ceil_div_less [of 16 "b + 1" "length p"] by simp
    then show ?thesis using True by simp
  next
    case False
    then have "?c = b + 1" using b by simp
    then have "length p \<le> 16 * b + 16" using ceil_div_mult [of 16 "length p"] by simp
    then obtain d where d: "length p = 16 * b + Suc d" "d < 16"
      using l by (metis less_imp_Suc_add add_Suc_right add_le_cancel_left Suc_le_eq)
    then show ?thesis using False by simp
  qed
  show ?thesis unfolding enc_block_def aes_BlockSize_def Let_def e by (simp only: mult.commute)
qed

lemma cipher_blocks_nth:
  assumes "length n = 8" "b < ceil_div (length body) 16"
  shows "cipher_blocks (n @ body) ! b = take 16 (drop (16 * b) body)"
  using assms by (simp add: cipher_blocks_def aes_BlockSize_def Let_def mult.commute)

lemma length_cipher_blocks:
  "length n = 8 \<Longrightarrow> length (cipher_blocks (n @ body)) = ceil_div (length body) 16"
  by (simp add: cipher_blocks_def aes_BlockSize_def)

lemma dec_block_stream:
  "dec_block (take 16 (drop (16 * b) s)) k
     = map (\<lambda>i. xor_byte (k ! i) (s ! (16 * b + i))) [0..<min 16 (length s - 16 * b)]"
  by (simp add: dec_block_def slice_map)

definition aes_fits :: "string \<Rightarrow> bool" where
  "aes_fits p \<longleftrightarrow> length (QueryEscape p) \<le> 16 * (2 ^ 32 - 1)"

lemma aes_fits_blocks: "aes_fits p \<Longrightarrow> b < ceil_div (length (QueryEscape p)) 16 \<Longrightarrow> b < 2 ^ 32 - 1"
  using ceil_div_less [of 16 b "length (QueryEscape p)"] by (simp add: aes_fits_def)

text \<open>The text under the key stream, byte by byte.\<close>

definition under_stream :: "(nat \<Rightarrow> int list) \<Rightarrow> string \<Rightarrow> string" where
  "under_stream K p = map (\<lambda>j. xor_byte (K (j div 16) ! (j mod 16)) (p ! j)) [0..<length p]"

lemma under_stream_twice [simp]: "under_stream K (under_stream K p) = p"
  unfolding under_stream_def by (rule nth_equalityI) simp_all

lemma under_stream_blocks:
  "concat (map (\<lambda>b. map (\<lambda>i. xor_byte (K b ! i) (p ! (16 * b + i))) [0..<min 16 (length p - 16 * b)])
      [0..<ceil_div (length p) 16]) = under_stream K p"
  unfolding under_stream_def
  by (subst blocks_flat) (simp_all add: mult_div_mod_eq)

lemma aes_Encrypt_stream:
  assumes w: "aes_schedule a = Some w" and n: "n = aes_nonce (fst clock) (snd clock)"
    and K: "\<And>b. b < 2 ^ 32 - 1 \<Longrightarrow> aes_cipher (enc_counter n b) w = Some (K b)" and p: "aes_fits p"
  shows "aes_Encrypt a clock p
     = Some (Inr (b64_encode b64_std (map char_of n @ under_stream K (QueryEscape p))))"
proof -
  let ?p = "QueryEscape p" and ?c = "ceil_div (length (QueryEscape p)) 16"
  have "mapM (\<lambda>b. map_option (enc_block ?p ?c b) (aes_cipher (enc_counter n b) w)) [0..<?c]
      = Some (map (\<lambda>b. map (\<lambda>i. xor_byte (K b ! i) (?p ! (16 * b + i))) [0..<min 16 (length ?p - 16 * b)]) [0..<?c])"
    using K aes_fits_blocks [OF p] by (intro mapM_Some) (simp add: enc_block_stream del: upt_Suc)
  then show ?thesis
    unfolding aes_Encrypt_def Let_def w n [symmetric] aes_BlockSize_def
    by (simp only: option.case option.map under_stream_blocks)
qed

lemma aes_Decrypt_stream:
  assumes w: "aes_schedule a = Some w" and n: "length n = 8" "\<forall>x \<in> set n. is_byte x"
    and K: "\<And>b. b < 2 ^ 32 - 1 \<Longrightarrow> aes_cipher (enc_counter n b) w = Some (K b)"
    and s: "s \<noteq> []" "ceil_div (length s) 16 < 2 ^ 32"
  shows "aes_Decrypt a (b64_encode b64_std (map char_of n @ s)) = Some (Inr (DecodeURIComponent (under_stream K s)))"
proof -
  let ?c = "ceil_div (length s) 16" and ?n = "map char_of n :: string"
  have l: "length ?n = 8" using n(1) by simp
  have "mapM (\<lambda>b. map_option (dec_block (cipher_blocks (?n @ s) ! b)) (aes_cipher (dec_counter n b) w)) [0..<?c]
      = Some (map (\<lambda>b. map (\<lambda>i. xor_byte (K b ! i) (s ! (16 * b + i))) [0..<min 16 (length s - 16 * b)]) [0..<?c])"
  proof (rule mapM_Some)
    fix b assume "b \<in> set [0..<?c]"
    then have "b < ?c" "b < 2 ^ 32 - 1" using s(2) by simp_all
    then show "map_option (dec_block (cipher_blocks (?n @ s) ! b)) (aes_cipher (dec_counter n b) w)
        = Some (map (\<lambda>i. xor_byte (K b ! i) (s ! (16 * b + i))) [0..<min 16 (length s - 16 * b)])"
      using K counters_agree cipher_blocks_nth [OF l] dec_block_stream by simp
  qed
  moreover have "map of_char (take 8 (?n @ s)) = n" using l nonce_through_text [OF n(2)] by simp
  ultimately show ?thesis
    using l s(1) unfolding aes_Decrypt_def Let_def w
    by (simp add: under_stream_blocks length_cipher_blocks [OF l])
qed

lemma aes_roundtrip_total:
  assumes a: "aes_ok a" and p: "aes_fits p"
  shows "\<exists>c. aes_Encrypt a clock p = Some (Inr c) \<and> aes_Decrypt a c = Some (Inr p)"
proof -
  obtain w where w: "aes_schedule a = Some w" "is_schedule w" using aes_schedule_total [OF a] by blast
  let ?n = "aes_nonce (fst clock) (snd clock)"
  have "\<exists>out. aes_cipher (enc_counter ?n b) w = Some out" if "b < 2 ^ 32 - 1" for b
    using aes_cipher_total [OF w(2), of "enc_counter ?n b"] enc_counter_bytes [OF aes_nonce_bytes, of b] that
    by auto
  then obtain K where K: "\<And>b. b < 2 ^ 32 - 1 \<Longrightarrow> aes_cipher (enc_counter ?n b) w = Some (K b)"
    by metis
  note e = aes_Encrypt_stream [OF w(1) refl K p]
  let ?s = "under_stream K (QueryEscape p)"
  have l: "length ?s = length (QueryEscape p)" by (simp add: under_stream_def)
  show ?thesis
  proof (cases "p = []")
    case True
    then have "?s = []" using l by simp
    with True e aes_nonce_bytes(1) show ?thesis by (simp add: aes_Decrypt_def)
  next
    case False
    then have "?s \<noteq> []" using l by (metis QueryEscape_eq_Nil length_0_conv)
    moreover have "ceil_div (length ?s) 16 < 2 ^ 32"
      using p unfolding l aes_fits_def ceil_div_def by (simp add: less_mult_imp_div_less)
    ultimately show ?thesis
      using e aes_Decrypt_stream [OF w(1) aes_nonce_bytes K] by simp
  qed
qed

text \<open>
  C22. A cipher with a key of the right size whose runes are below 256 encrypts every text (never
  a panic, never an error), whatever the clock and the random number say, and \<open>Decrypt\<close>
  gives exactly the text back, up to \<open>16 (2 ^ 32 - 1)\<close> escaped bytes; from there on the
  counters of the two differ.
\<close>

theorem aes_roundtrip:
  assumes "aes_ok a" "aes_fits p"
  shows "\<exists>c. aes_Encrypt a clock p = Some (Inr c) \<and> aes_Decrypt a c = Some (Inr p)"
  using assms by (rule aes_roundtrip_total)

definition default_aes :: AesCipher where
  "default_aes = \<lparr>aes_key = DefaultAesKey, aes_nBits = DefaultAesNBits, cipher_sBox = aes_sBox,
     cipher_rCon = aes_rCon\<rparr>"

lemma default_aes_ok: "aes_ok default_aes"
proof -
  have a: "\<forall>c \<in> set DefaultAesKey. of_char c < (128::nat)" by (simp add: DefaultAesKey_def)
  have "charCodeAt DefaultAesKey i < 256" for i
    using a unfolding charCodeAt_def Let_def runes_ascii [OF a]
    by (simp add: less_trans [OF bspec [OF a]])
  then show ?thesis
    by (simp add: aes_ok_def default_aes_def NewAesCipher_def DefaultAesNBits_def)
qed

lemma aes_roundtrip_witness:
  "\<exists>c. aes_Encrypt default_aes (1700000000, 4711) ''a b'' = Some (Inr c)
     \<and> aes_Decrypt default_aes c = Some (Inr ''a b'')"
proof -
  have "aes_fits ''a b''" by (simp add: aes_fits_def unreserved_def)
  then show ?thesis using aes_roundtrip [OF default_aes_ok] by blast
qed

subsection \<open>Schedules and states are well typed\<close>

text \<open>
  C23. The cipher works on bytes throughout: with the standard's tables and a key of 16, 24 or 32 bytes, the
  key schedule has \<open>4 (Nr + 1)\<close> words of four bytes, every round of it takes a state of four by four
  bytes to another, and a block of bytes gives 16 bytes; no table, key or state is read out of range.
\<close>

theorem aes_well_typed:
  assumes "tables_ok a" "key_size (length key)" "\<forall>x \<in> set key. is_byte x"
    and "16 \<le> length input" "\<forall>x \<in> set input. is_byte x"
  shows "\<exists>w out. keyExpansion a key = Some w \<and> length w = 4 * (length key div 4 + 7) \<and> (\<forall>v \<in> set w. is_word v)
    \<and> (\<forall>s rs. is_state s \<and> set rs \<subseteq> {..< length key div 4 + 7} \<longrightarrow> (\<exists>t. main_rounds w rs s = Some t \<and> is_state t))
    \<and> aes_cipher input w = Some out \<and> length out = 16 \<and> (\<forall>x \<in> set out. is_byte x)"
proof -
  obtain w where w: "keyExpansion a key = Some w" "length w = 4 * (length key div 4 + 7)" "\<forall>v \<in> set w. is_word v"
    using keyExpansion_length [OF assms(1,2,3)] by auto
  then have "is_schedule w" using assms(2) by (auto simp: is_schedule_def key_size_def)
  then obtain out where out: "aes_cipher input w = Some out" "length out = 16" "\<forall>x \<in> set out. is_byte x"
    using aes_cipher_total [OF _ assms(4,5)] by blast
  have "\<exists>t. main_rounds w rs s = Some t \<and> is_state t" if "is_state s" "set rs \<subseteq> {..< length key div 4 + 7}" for s rs
    by (rule main_rounds_total [OF w(3) that(1)]) (use w(2) that(2) in auto)
  with w out show ?thesis by blast
qed

lemma aes_well_typed_witness:
  "\<exists>w out. keyExpansion default_aes (replicate 16 7) = Some w \<and> length w = 44
    \<and> aes_cipher (replicate 16 0) w = Some out \<and> length out = 16"
  using aes_well_typed [of default_aes "replicate 16 7" "replicate 16 0"] aes_ok_tables [OF default_aes_ok]
  by (auto simp: key_size_def is_byte_def)

subsection \<open>Keys the cipher cannot take\<close>

text \<open>
  A key whose last word has a rune above 255 indexes outside the S-box: \<open>Encrypt\<close> panics,
  and so does \<open>Decrypt\<close> on anything it would decrypt.
\<close>

lemma less4_cases: "(i::nat) < 4 \<Longrightarrow> i = 0 \<or> i = 1 \<or> i = 2 \<or> i = 3"
  by arith

lemma rotWord_nth: "i < 4 \<Longrightarrow> rotWord v ! ((i + 3) mod 4) = v ! i"
proof -
  assume "i < 4"
  moreover have "rotWord v = [v ! 1, v ! 2, v ! 3, v ! 0]" by (simp add: rotWord_def upt_4 flip: numeral_2_eq_2)
  ultimately show ?thesis by (auto dest!: less4_cases simp: mod_eq_0_iff_dvd)
qed

lemma subWord_wide:
  assumes t: "tables_ok a" and i: "i < 4" "256 \<le> v ! i"
  shows "subWord a (rotWord v) = None"
proof -
  have "index_at (cipher_sBox a) (rotWord v ! ((i + 3) mod 4)) = None"
    using t i sBox_table(1) by (simp add: rotWord_nth index_at_def tables_ok_def)
  then show ?thesis
    unfolding subWord_def by (intro mapM_None [of "(i + 3) mod 4"]) simp_all
qed

lemma keyExpansion_wide:
  assumes t: "tables_ok a" and k: "length key = 4 * Nk" "0 < Nk"
    and i: "i < 4" "256 \<le> key ! (4 * (Nk - 1) + i)"
  shows "keyExpansion a key = None"
proof -
  let ?w = "map (\<lambda>i. [key ! (4 * i), key ! (4 * i + 1), key ! (4 * i + 2), key ! (4 * i + 3)]) [0..<Nk]"
  have "256 \<le> ?w ! (Nk - 1) ! i"
    using less4_cases [OF i(1)] i(2) k(2) by (elim disjE) simp_all
  then have "subWord a (rotWord (?w ! (Nk - 1))) = None" using subWord_wide [OF t i(1)] by blast
  then have "next_word a Nk Nk ?w = None" using k(2) by (simp add: next_word_def)
  moreover have "[Nk..<4 * (Nk + 6 + 1)] = Nk # [Nk + 1..<4 * (Nk + 6 + 1)]"
    using upt_conv_Cons [of Nk "4 * (Nk + 6 + 1)"] by simp
  moreover have "length key div 4 = Nk" using k(1) by simp
  ultimately show ?thesis unfolding keyExpansion_def Let_def by (simp only: expand_words.simps option.case)
qed

lemma wide_key_panics:
  assumes t: "tables_ok a" and k: "key_size (nat (aes_nBits a div 8))"
    and i: "i < 4" and wide: "256 \<le> charCodeAt (aes_key a) (nat (aes_nBits a div 8) - 4 + i)"
  shows "aes_Encrypt a clock p = None"
proof -
  define n where "n = nat (aes_nBits a div 8)"
  obtain Nk where Nk: "n = 4 * Nk" "0 < Nk"
  proof
    show "n = 4 * (n div 4)" "0 < n div 4" using k unfolding n_def [symmetric] by (auto simp: key_size_def)
  qed
  have "4 * (Nk - 1) + i = n - 4 + i" "n - 4 + i < n" using Nk i by simp_all
  then have "keyExpansion a (map (charCodeAt (aes_key a)) [0..<n]) = None"
    using keyExpansion_wide [OF t _ Nk(2) i] Nk(1) wide unfolding n_def [symmetric] by simp
  then show ?thesis by (simp add: aes_Encrypt_def aes_schedule_def Let_def n_def)
qed

subsection \<open>The interface\<close>

lemma aes_crypto: "aes_ok a \<Longrightarrow> crypto (aes_Encrypt a) (aes_Decrypt a) aes_fits"
  by unfold_locales (metis aes_roundtrip_total, metis aes_roundtrip_total option.inject sum.inject(2))

interpretation default_aes: crypto "aes_Encrypt default_aes" "aes_Decrypt default_aes" aes_fits
  by (rule aes_crypto [OF default_aes_ok])

end
