(* ===== verification/Sec_Rc4.thy ===== *)
theory Sec_Rc4
  imports Sec_Base
begin

section \<open>The RC4 cipher\<close>

text \<open>
  \<open>pkg/security/rc4.go\<close>, with the \<open>crypto/rc4\<close> of Go's standard library written
  out: the key schedule and the generator over a permutation of the 256 bytes. Random numbers are
  arguments; a panic is \<open>None\<close>.
\<close>

subsection \<open>The stream of the standard library\<close>

definition swap_at :: "nat list \<Rightarrow> nat \<Rightarrow> nat \<Rightarrow> nat list" where
  "swap_at s i j = s[i := s ! j, j := s ! i]"

fun rc4_schedule :: "nat list \<Rightarrow> nat list \<Rightarrow> nat \<times> nat list \<Rightarrow> nat list" where
  "rc4_schedule key [] (j, s) = s"
| "rc4_schedule key (i # is) (j, s) =
     (let j' = (j + s ! i + key ! (i mod length key)) mod 256
      in rc4_schedule key is (j', swap_at s i j'))"

definition rc4_KeySizeError :: "nat \<Rightarrow> go_error" where
  "rc4_KeySizeError k = new_error (''crypto/rc4: invalid key size '' @ FormatInt (int k))"

record rc4_state =
  rc4_s :: "nat list"
  rc4_i :: nat
  rc4_j :: nat

definition rc4_NewCipher :: "nat list \<Rightarrow> rc4_state res" where
  "rc4_NewCipher key =
     (if length key < 1 \<or> 256 < length key then Inl (rc4_KeySizeError (length key))
      else Inr \<lparr>rc4_s = rc4_schedule key [0..<256] (0, [0..<256]), rc4_i = 0, rc4_j = 0\<rparr>)"

fun XORKeyStream :: "rc4_state \<Rightarrow> string \<Rightarrow> string" where
  "XORKeyStream c [] = []"
| "XORKeyStream c (x # xs) =
     (let i = (rc4_i c + 1) mod 256; a = rc4_s c ! i;
          j = (rc4_j c + a) mod 256; b = rc4_s c ! j;
          s = swap_at (rc4_s c) i j
      in xor_byte (int (s ! ((a + b) mod 256))) x
           # XORKeyStream \<lparr>rc4_s = s, rc4_i = i, rc4_j = j\<rparr> xs)"

lemma XORKeyStream_twice [simp]: "XORKeyStream c (XORKeyStream c s) = s"
  by (induction c s rule: XORKeyStream.induct) (simp_all add: Let_def)

lemma length_XORKeyStream [simp]: "length (XORKeyStream c s) = length s"
  by (induction c s rule: XORKeyStream.induct) (simp_all add: Let_def)

subsection \<open>The cipher\<close>

record Rc4Cipher =
  rc4_Key :: string

definition NewRc4Cipher :: "string \<Rightarrow> Rc4Cipher" where
  "NewRc4Cipher key = \<lparr>rc4_Key = key\<rparr>"

definition bytes_of :: "string \<Rightarrow> nat list" where
  "bytes_of s = map of_char s"

definition rc4_Encrypt :: "Rc4Cipher \<Rightarrow> string \<Rightarrow> string res" where
  "rc4_Encrypt r plaintext =
     (case rc4_NewCipher (bytes_of (rc4_Key r)) of Inl e \<Rightarrow> Inl e
      | Inr c \<Rightarrow> Inr (b64_encode b64_std (XORKeyStream c (b64_encode b64_std (QueryEscape plaintext)))))"

definition rc4_Decrypt :: "Rc4Cipher \<Rightarrow> string \<Rightarrow> string res" where
  "rc4_Decrypt r ciphertext =
     (case b64_decode b64_std ciphertext of None \<Rightarrow> Inl b64_error
      | Some src \<Rightarrow>
        (case rc4_NewCipher (bytes_of (rc4_Key r)) of Inl e \<Rightarrow> Inl e
         | Inr c \<Rightarrow>
           (case b64_decode b64_std (XORKeyStream c src) of None \<Rightarrow> Inl b64_error
            | Some str \<Rightarrow> Inr (DecodeURIComponent str))))"

definition hex_error :: go_error where
  "hex_error = new_error ''encoding/hex: invalid byte''"

definition rc4_encrypt_hex :: "Rc4Cipher \<Rightarrow> string \<Rightarrow> string res" where
  "rc4_encrypt_hex r plaintext =
     (case rc4_NewCipher (bytes_of (rc4_Key r)) of Inl e \<Rightarrow> Inl e
      | Inr c \<Rightarrow> Inr (hex_encode (XORKeyStream c plaintext)))"

definition rc4_decrypt_hex :: "Rc4Cipher \<Rightarrow> string \<Rightarrow> string res" where
  "rc4_decrypt_hex r ciphertext =
     (case hex_decode ciphertext of None \<Rightarrow> Inl hex_error
      | Some src \<Rightarrow>
        (case rc4_NewCipher (bytes_of (rc4_Key r)) of Inl e \<Rightarrow> Inl e
         | Inr c \<Rightarrow> Inr (XORKeyStream c src)))"

subsection \<open>The client's file format\<close>

definition rc4_salt :: "8 word" where "rc4_salt = 67"
definition rc4_subLen :: nat where "rc4_subLen = 76"

text \<open>\<open>rand.Intn(n)\<close> is an argument, a number below \<open>n\<close>.\<close>

definition RandInt :: "int \<Rightarrow> int \<Rightarrow> int \<Rightarrow> int" where
  "RandInt min_v max_v draw =
     (if max_v \<le> min_v \<or> min_v = 0 \<or> max_v = 0 then max_v else draw + min_v)"

text \<open>One byte of the key from the byte in the file; \<open>%\<close> by zero panics.\<close>

definition salted :: "8 word \<Rightarrow> nat option" where
  "salted c = (if c = 0 then None else Some (unat ((c XOR rc4_salt) mod c)))"

definition byte_chr :: "8 word \<Rightarrow> char" where
  "byte_chr w = char_of (unat w)"

definition chr_byte :: "char \<Rightarrow> 8 word" where
  "chr_byte c = word_of_nat (of_char c)"

definition Rc4ClientEncrypt :: "(nat \<Rightarrow> int) \<Rightarrow> string \<Rightarrow> string res option" where
  "Rc4ClientEncrypt draw plaintext =
     (let cs = map (\<lambda>i. word_of_int (RandInt 1 256 (draw i)) :: 8 word) [0..<16];
          pad = [CHR 0x02, CHR 0x00, CHR 0x00, CHR 0x00]
      in case mapM salted cs of None \<Rightarrow> None
         | Some key \<Rightarrow>
           (case rc4_NewCipher key of Inl e \<Rightarrow> Some (Inl e)
            | Inr c \<Rightarrow>
                Some (Inr (b64_encode b64_std (pad @ map byte_chr cs @ XORKeyStream c plaintext)))))"

definition Rc4ClientDecrypt :: "string \<Rightarrow> string res option" where
  "Rc4ClientDecrypt ciphertext =
     (case b64_decode b64_std ciphertext of None \<Rightarrow> Some (Inl b64_error)
      | Some src \<Rightarrow>
        (case mapM (\<lambda>i. case index_at src (int i + 4) of None \<Rightarrow> None | Some s \<Rightarrow> salted (chr_byte s)) [0..<16]
         of None \<Rightarrow> None
          | Some key \<Rightarrow>
            (case rc4_NewCipher key of Inl e \<Rightarrow> Some (Inl e)
             | Inr c \<Rightarrow> Some (Inr (XORKeyStream c (drop 20 src))))))"

definition format_piece :: "string \<Rightarrow> nat \<Rightarrow> string" where
  "format_piece c i =
     (if (i + 1) * rc4_subLen < length c
      then take rc4_subLen (drop (i * rc4_subLen) c) @ [CHR 0x0A]
      else drop (i * rc4_subLen) c)"

definition CiphertextFormat :: "string \<Rightarrow> string" where
  "CiphertextFormat c = concat (map (format_piece c) [0..<ceil_div (length c) rc4_subLen])"

definition CiphertextReplace :: "string \<Rightarrow> string" where
  "CiphertextReplace c = filter (\<lambda>x. x \<noteq> CHR 0x0A) c"

subsection \<open>Round trips\<close>

definition rc4_key_ok :: "string \<Rightarrow> bool" where
  "rc4_key_ok k \<longleftrightarrow> k \<noteq> [] \<and> length k \<le> 256"

lemma rc4_NewCipher_iff: "(\<exists>c. rc4_NewCipher (bytes_of k) = Inr c) \<longleftrightarrow> rc4_key_ok k"
  by (auto simp: rc4_NewCipher_def rc4_key_ok_def bytes_of_def not_less Suc_le_eq)

lemma rc4_bad_key: "\<not> rc4_key_ok k \<Longrightarrow> rc4_NewCipher (bytes_of k) = Inl (rc4_KeySizeError (length k))"
  by (cases k) (auto simp: rc4_NewCipher_def rc4_key_ok_def bytes_of_def)

lemma rc4_Decrypt_Encrypt:
  assumes "rc4_key_ok (rc4_Key r)"
  shows "\<exists>c. rc4_Encrypt r p = Inr c \<and> rc4_Decrypt r c = Inr p"
  using assms unfolding rc4_NewCipher_iff [symmetric]
  by (auto simp: rc4_Encrypt_def rc4_Decrypt_def)

text \<open>A key of no bytes or of more than 256 is refused.\<close>

lemma rc4_refuses:
  "\<not> rc4_key_ok (rc4_Key r) \<Longrightarrow> rc4_Encrypt r p = Inl (rc4_KeySizeError (length (rc4_Key r)))"
  by (simp add: rc4_Encrypt_def rc4_bad_key)

lemma rc4_hex_roundtrip:
  assumes "rc4_key_ok (rc4_Key r)"
  shows "\<exists>c. rc4_encrypt_hex r p = Inr c \<and> rc4_decrypt_hex r c = Inr p"
  using assms unfolding rc4_NewCipher_iff [symmetric]
  by (auto simp: rc4_encrypt_hex_def rc4_decrypt_hex_def)

lemma filter_concat_pieces:
  "(\<And>i. i < n \<Longrightarrow> filter P (f i) = filter P (g i))
     \<Longrightarrow> filter P (concat (map f [0..<n])) = filter P (concat (map g [0..<n]))"
  by (induction n) simp_all

text \<open>Formatting only adds line feeds.\<close>

lemma Replace_Format: "CiphertextReplace (CiphertextFormat c) = CiphertextReplace c"
proof -
  let ?n = "ceil_div (length c) rc4_subLen"
  have "filter (\<lambda>x. x \<noteq> CHR 0x0A) (format_piece c i)
      = filter (\<lambda>x. x \<noteq> CHR 0x0A) (take rc4_subLen (drop (rc4_subLen * i) c))" if "i < ?n" for i
  proof (cases "(i + 1) * rc4_subLen < length c")
    case True
    then show ?thesis by (simp add: format_piece_def mult.commute)
  next
    case False
    then have "length (drop (i * rc4_subLen) c) \<le> rc4_subLen" by simp
    with False show ?thesis by (simp add: format_piece_def mult.commute)
  qed
  then have "CiphertextReplace (CiphertextFormat c)
      = filter (\<lambda>x. x \<noteq> CHR 0x0A) (concat (map (\<lambda>b. take rc4_subLen (drop (rc4_subLen * b) c)) [0..<?n]))"
    unfolding CiphertextReplace_def CiphertextFormat_def by (rule filter_concat_pieces)
  then show ?thesis
    using slices_concat [of rc4_subLen c] by (simp add: CiphertextReplace_def rc4_subLen_def)
qed

lemma Replace_b64 [simp]: "CiphertextReplace (b64_encode b64_std s) = b64_encode b64_std s"
  unfolding CiphertextReplace_def
  using b64_encode_set [OF b64_alphabet_std, of _ s] b64_alphabet_std
  by (intro filter_True) (auto simp: b64_alphabet_def)

lemma chr_byte_chr [simp]: "chr_byte (byte_chr w) = w"
proof -
  have "unat w < 256" using unsigned_less [of w, where ?'a = nat] by simp
  then show ?thesis by (simp add: chr_byte_def byte_chr_def)
qed

text \<open>The bytes drawn are never zero.\<close>

lemma RandInt_byte:
  assumes "0 \<le> d" "d < 255"
  shows "(word_of_int (RandInt 1 256 d) :: 8 word) \<noteq> 0"
proof -
  have "(d + 1) mod 256 = d + 1" using assms by simp
  then have "uint (word_of_int (d + 1) :: 8 word) \<noteq> uint (0 :: 8 word)"
    using assms by (simp only: uint_word_of_int uint_0_eq) simp
  then have "(word_of_int (d + 1) :: 8 word) \<noteq> 0" by metis
  then show ?thesis by (simp add: RandInt_def)
qed

text \<open>
  Whatever the random numbers are, the client format encrypts every text, and the text comes
  back also after the ciphertext was broken into lines and joined again.
\<close>

theorem rc4_client_roundtrip:
  assumes d: "\<And>i. 0 \<le> draw i \<and> draw i < 255"
  shows "\<exists>c. Rc4ClientEncrypt draw p = Some (Inr c)
     \<and> Rc4ClientDecrypt (CiphertextReplace (CiphertextFormat c)) = Some (Inr p)"
proof -
  let ?cs = "map (\<lambda>i. word_of_int (RandInt 1 256 (draw i)) :: 8 word) [0..<16]"
  let ?k = "\<lambda>c::8 word. unat ((c XOR rc4_salt) mod c)"
  let ?pad = "[CHR 0x02, CHR 0x00, CHR 0x00, CHR 0x00]"
  have k: "mapM salted ?cs = Some (map ?k ?cs)"
    using d RandInt_byte by (intro mapM_Some) (auto simp: salted_def)
  obtain c where c: "rc4_NewCipher (map ?k ?cs) = Inr c" by (simp add: rc4_NewCipher_def)
  let ?src = "?pad @ map byte_chr ?cs @ XORKeyStream c p"
  have e: "Rc4ClientEncrypt draw p = Some (Inr (b64_encode b64_std ?src))"
    unfolding Rc4ClientEncrypt_def Let_def k option.case c sum.case by simp
  have "index_at ?src (int i + 4) = Some (byte_chr (?cs ! i))" if "i < 16" for i
    using that by (simp add: index_at_def nat_add_distrib nth_append)
  then have "mapM (\<lambda>i. case index_at ?src (int i + 4) of None \<Rightarrow> None | Some s \<Rightarrow> salted (chr_byte s)) [0..<16]
      = Some (map (\<lambda>i. ?k (?cs ! i)) [0..<16])"
    using d RandInt_byte by (intro mapM_Some) (simp add: salted_def)
  then have "mapM (\<lambda>i. case index_at ?src (int i + 4) of None \<Rightarrow> None | Some s \<Rightarrow> salted (chr_byte s)) [0..<16]
      = Some (map ?k ?cs)"
    by (simp add: map_equality_iff)
  moreover have "drop 20 ?src = XORKeyStream c p" by simp
  ultimately have "Rc4ClientDecrypt (b64_encode b64_std ?src) = Some (Inr p)"
    unfolding Rc4ClientDecrypt_def using c by (simp only: b64_roundtrip [OF b64_alphabet_std] option.case sum.case XORKeyStream_twice)
  with e show ?thesis unfolding Replace_Format by (metis Replace_b64)
qed

lemma rc4_client_roundtrip_witness:
  "\<exists>c. Rc4ClientEncrypt (\<lambda>i. int (i mod 7)) ''config: 1'' = Some (Inr c)
     \<and> Rc4ClientDecrypt (CiphertextReplace (CiphertextFormat c)) = Some (Inr ''config: 1'')"
proof (rule rc4_client_roundtrip)
  fix i :: nat
  have "i mod 7 < 7" by simp
  then show "0 \<le> int (i mod 7) \<and> int (i mod 7) < 255" by linarith
qed

text \<open>A short or zeroed client file makes \<open>Rc4ClientDecrypt\<close> panic instead of failing.\<close>

lemma client_decrypt_panics:
  assumes "b64_decode b64_std c = Some src" "length src < 20"
  shows "Rc4ClientDecrypt c = None"
proof -
  have "index_at src (int 15 + 4) = None" using assms(2) by (simp add: index_at_def)
  then have "mapM (\<lambda>i. case index_at src (int i + 4) of None \<Rightarrow> None | Some s \<Rightarrow> salted (chr_byte s)) [0..<16] = None"
    by (intro mapM_None [of 15]) simp_all
  then show ?thesis using assms(1) by (simp add: Rc4ClientDecrypt_def)
qed

subsection \<open>The interface\<close>

definition default_rc4 :: Rc4Cipher where
  "default_rc4 = NewRc4Cipher ''159054a86e3bfb85b5f1991cdb07645e''"

text \<open>RC4 draws no randomness and takes every text.\<close>

interpretation default_rc4: crypto "\<lambda>r p. Some (rc4_Encrypt default_rc4 p)"
  "\<lambda>c. Some (rc4_Decrypt default_rc4 c)" "\<lambda>p. True"
proof -
  have "rc4_key_ok (rc4_Key default_rc4)"
    by (simp add: default_rc4_def NewRc4Cipher_def rc4_key_ok_def)
  then show "crypto (\<lambda>r p. Some (rc4_Encrypt default_rc4 p)) (\<lambda>c. Some (rc4_Decrypt default_rc4 c)) (\<lambda>p. True)"
    by unfold_locales (metis rc4_Decrypt_Encrypt, metis rc4_Decrypt_Encrypt option.inject sum.inject(2))
qed

end
