(* ===== verification/Hash.thy ===== *)
theory Hash
  imports Codec
begin

section \<open>The hash functions the code uses\<close>

text \<open>
  \<open>crypto/sha1\<close>, \<open>crypto/sha512\<close> and \<open>crypto/hmac\<close> over SHA-1, as the
  standards (FIPS 180-4, FIPS 198-1) define them: strings of bytes to strings of bytes.
\<close>

subsection \<open>Blocks and words\<close>

definition be_word :: "string \<Rightarrow> 'a::len word" where
  "be_word s = foldl (\<lambda>w c. push_bit 8 w OR word_of_nat (of_char c)) 0 s"

text \<open>The message, a one bit, zeros, and the length in bits in the last \<open>l\<close> bytes of a block of \<open>b\<close>.\<close>

definition md_pad :: "nat \<Rightarrow> nat \<Rightarrow> string \<Rightarrow> string" where
  "md_pad b l m = m @ CHR 0x80 # replicate ((b - (length m + 1 + l) mod b) mod b) (CHR 0x00)
     @ be_bytes l (8 * length m)"

lemma md_pad_length:
  assumes "0 < b"
  shows "length (md_pad b l m) mod b = 0"
proof -
  let ?n = "length m + 1 + l"
  have "length (md_pad b l m) = ?n + (b - ?n mod b) mod b" by (simp add: md_pad_def)
  also have "\<dots> mod b = (?n mod b + (b - ?n mod b)) mod b" by (metis mod_add_left_eq mod_add_right_eq)
  also have "\<dots> = b mod b" using assms by (metis le_add_diff_inverse mod_less_divisor less_imp_le)
  finally show ?thesis by simp
qed

definition word_at :: "nat \<Rightarrow> string \<Rightarrow> nat \<Rightarrow> 'a::len word" where
  "word_at k block t = be_word (take k (drop (k * t) block))"

text \<open>One block after the other through a compression function.\<close>

function hash_blocks :: "nat \<Rightarrow> ('h \<Rightarrow> string \<Rightarrow> 'h) \<Rightarrow> 'h \<Rightarrow> string \<Rightarrow> 'h" where
  "hash_blocks b f h m =
     (if b = 0 \<or> length m < b then h else hash_blocks b f (f h (take b m)) (drop b m))"
  by pat_completeness auto
termination by (relation "measure (\<lambda>(b, f, h, m). length m)") auto

declare hash_blocks.simps [simp del]

subsection \<open>SHA-1\<close>

definition rotl32 :: "nat \<Rightarrow> 32 word \<Rightarrow> 32 word" where
  "rotl32 k x = push_bit k x OR drop_bit (32 - k) x"

text \<open>The schedule grows to the right; it is kept with its newest word first.\<close>

primrec sha1_extend :: "nat \<Rightarrow> 32 word list \<Rightarrow> 32 word list" where
  "sha1_extend 0 w = w"
| "sha1_extend (Suc n) w = sha1_extend n (rotl32 1 (w ! 2 XOR w ! 7 XOR w ! 13 XOR w ! 15) # w)"

definition sha1_f :: "nat \<Rightarrow> 32 word \<Rightarrow> 32 word \<Rightarrow> 32 word \<Rightarrow> 32 word" where
  "sha1_f t x y z =
     (if t < 20 then (x AND y) XOR (NOT x AND z)
      else if t < 40 then x XOR y XOR z
      else if t < 60 then (x AND y) XOR (x AND z) XOR (y AND z)
      else x XOR y XOR z)"

definition sha1_K :: "nat \<Rightarrow> 32 word" where
  "sha1_K t = (if t < 20 then 0x5a827999 else if t < 40 then 0x6ed9eba1
     else if t < 60 then 0x8f1bbcdc else 0xca62c1d6)"

type_synonym sha1_state = "32 word \<times> 32 word \<times> 32 word \<times> 32 word \<times> 32 word"

definition sha1_step :: "nat \<Rightarrow> 32 word \<Rightarrow> sha1_state \<Rightarrow> sha1_state" where
  "sha1_step t w s = (case s of (a, b, c, d, e) \<Rightarrow>
     (rotl32 5 a + sha1_f t b c d + e + sha1_K t + w, a, rotl32 30 b, c, d))"

fun sha1_rounds :: "nat \<Rightarrow> 32 word list \<Rightarrow> sha1_state \<Rightarrow> sha1_state" where
  "sha1_rounds t [] s = s"
| "sha1_rounds t (w # ws) s = sha1_rounds (t + 1) ws (sha1_step t w s)"

definition sha1_block :: "sha1_state \<Rightarrow> string \<Rightarrow> sha1_state" where
  "sha1_block h block = (case h of (a, b, c, d, e) \<Rightarrow>
     (case sha1_rounds 0 (rev (sha1_extend 64 (rev (map (word_at 4 block) [0..<16])))) h of
        (a', b', c', d', e') \<Rightarrow> (a + a', b + b', c + c', d + d', e + e')))"

definition sha1_init :: sha1_state where
  "sha1_init = (0x67452301, 0xefcdab89, 0x98badcfe, 0x10325476, 0xc3d2e1f0)"

definition sha1_Sum :: "string \<Rightarrow> string" where
  "sha1_Sum m = (case hash_blocks 64 sha1_block sha1_init (md_pad 64 8 m) of
     (a, b, c, d, e) \<Rightarrow> concat (map (\<lambda>w. be_bytes 4 (unat w)) [a, b, c, d, e]))"

lemma length_sha1_Sum [simp]: "length (sha1_Sum m) = 20"
  by (simp add: sha1_Sum_def split: prod.splits)

subsection \<open>HMAC over SHA-1\<close>

definition xor_pad :: "nat \<Rightarrow> string \<Rightarrow> string" where
  "xor_pad k s = map (\<lambda>c. char_of (of_char c XOR k)) s"

definition hmac_key :: "string \<Rightarrow> string" where
  "hmac_key key = (let k = (if 64 < length key then sha1_Sum key else key)
     in k @ replicate (64 - length k) (CHR 0x00))"

definition hmac_sha1 :: "string \<Rightarrow> string \<Rightarrow> string" where
  "hmac_sha1 key msg = (let k = hmac_key key
     in sha1_Sum (xor_pad 0x5c k @ sha1_Sum (xor_pad 0x36 k @ msg)))"

lemma length_hmac_sha1 [simp]: "length (hmac_sha1 key msg) = 20"
  by (simp add: hmac_sha1_def Let_def)

lemma length_hmac_key [simp]: "length (hmac_key key) = 64"
  by (simp add: hmac_key_def Let_def)

subsection \<open>SHA-512\<close>

definition rotr64 :: "nat \<Rightarrow> 64 word \<Rightarrow> 64 word" where
  "rotr64 k x = drop_bit k x OR push_bit (64 - k) x"

text \<open>
  The constants as the standard defines them: the first 64 bits of the fractional parts of the
  cube roots of the first eighty primes, and of the square roots of the first eight.
\<close>

definition first_primes :: "nat \<Rightarrow> nat list" where
  "first_primes n = take n (filter (\<lambda>p. list_all (\<lambda>d. p mod d \<noteq> 0) [2..<p]) [2..<410])"

text \<open>The \<open>k\<close>-th root of \<open>n\<close>, rounded down, bit by bit.\<close>

primrec root_bits :: "nat \<Rightarrow> nat \<Rightarrow> nat \<Rightarrow> nat \<Rightarrow> nat" where
  "root_bits k n 0 r = r"
| "root_bits k n (Suc i) r = root_bits k n i (if (r + 2 ^ i) ^ k \<le> n then r + 2 ^ i else r)"

definition frac_root :: "nat \<Rightarrow> nat \<Rightarrow> 64 word" where
  "frac_root k p = word_of_nat (root_bits k (p * 2 ^ (64 * k)) 72 0)"

definition sha512_K :: "64 word list" where
  "sha512_K = map (frac_root 3) (first_primes 80)"

definition sha512_init :: "64 word list" where
  "sha512_init = map (frac_root 2) (first_primes 8)"

primrec sha512_extend :: "nat \<Rightarrow> 64 word list \<Rightarrow> 64 word list" where
  "sha512_extend 0 w = w"
| "sha512_extend (Suc n) w =
     sha512_extend n
       (((rotr64 19 (w ! 1) XOR rotr64 61 (w ! 1) XOR drop_bit 6 (w ! 1)) + w ! 6
        + (rotr64 1 (w ! 14) XOR rotr64 8 (w ! 14) XOR drop_bit 7 (w ! 14)) + w ! 15) # w)"

definition sha512_step :: "64 word \<Rightarrow> 64 word \<Rightarrow> 64 word list \<Rightarrow> 64 word list" where
  "sha512_step k w s =
     (let a = s ! 0; b = s ! 1; c = s ! 2; d = s ! 3; e = s ! 4; f = s ! 5; g = s ! 6; h = s ! 7;
          t1 = h + (rotr64 14 e XOR rotr64 18 e XOR rotr64 41 e) + ((e AND f) XOR (NOT e AND g)) + k + w;
          t2 = (rotr64 28 a XOR rotr64 34 a XOR rotr64 39 a)
               + ((a AND b) XOR (a AND c) XOR (b AND c))
      in [t1 + t2, a, b, c, d + t1, e, f, g])"

fun sha512_rounds :: "64 word list \<Rightarrow> 64 word list \<Rightarrow> 64 word list \<Rightarrow> 64 word list" where
  "sha512_rounds (k # ks) (w # ws) s = sha512_rounds ks ws (sha512_step k w s)"
| "sha512_rounds _ _ s = s"

definition sha512_block :: "64 word list \<Rightarrow> string \<Rightarrow> 64 word list" where
  "sha512_block h block = map2 (+) h
     (sha512_rounds sha512_K (rev (sha512_extend 64 (rev (map (word_at 8 block) [0..<16])))) h)"

definition sha512_Sum :: "string \<Rightarrow> string" where
  "sha512_Sum m = concat (map (\<lambda>w. be_bytes 8 (unat w))
     (hash_blocks 128 sha512_block sha512_init (md_pad 128 16 m)))"

end
