(* ===== verification/Sec_Password.thy ===== *)
theory Sec_Password
  imports Sec_Base Hash
begin

section \<open>Salted passwords\<close>

text \<open>
  \<open>pkg/security/sha512.go\<close>: the SHA-512 hash of the password followed by the salt, in URL
  base64, and the comparison against a stored hash. The sixteen random bytes of the salt are an
  argument, \<open>None\<close> when the random source fails, which panics.
\<close>

definition saltSize :: nat where "saltSize = 16"

record Encrypt =
  enc_Password :: string
  enc_Salt :: string

definition generateRandomSalt :: "(nat \<Rightarrow> string option) \<Rightarrow> nat \<Rightarrow> string option" where
  "generateRandomSalt rand n = rand n"

definition hashPassword :: "string \<Rightarrow> string \<Rightarrow> string" where
  "hashPassword password salt = b64_encode b64_url (sha512_Sum (password @ salt))"

definition EncryptPassword :: "(nat \<Rightarrow> string option) \<Rightarrow> string \<Rightarrow> Encrypt option" where
  "EncryptPassword rand password =
     (case generateRandomSalt rand saltSize of None \<Rightarrow> None
      | Some saltByte \<Rightarrow> Some \<lparr>enc_Password = hashPassword password saltByte,
                                 enc_Salt = b64_encode b64_url saltByte\<rparr>)"

definition ComparePassword :: "string \<Rightarrow> string \<Rightarrow> string \<Rightarrow> bool" where
  "ComparePassword hashedPassword currPassword saltStr =
     (case b64_decode b64_url saltStr of None \<Rightarrow> False
      | Some salt \<Rightarrow> hashedPassword = hashPassword currPassword salt)"

lemma hashPassword_eq: "hashPassword p s = hashPassword q t \<longleftrightarrow> sha512_Sum (p @ s) = sha512_Sum (q @ t)"
  unfolding hashPassword_def by (metis b64_roundtrip b64_alphabet_url option.inject)

text \<open>
  A stored password is accepted, and so is exactly every other password whose hash under the
  same salt collides with it; a salt that is not base64 is never accepted, and the stored hash
  and salt are only compared as whole strings.
\<close>

theorem password_accepted:
  assumes "EncryptPassword rand p = Some e"
  shows "ComparePassword (enc_Password e) p (enc_Salt e)
     \<and> (\<exists>salt. rand 16 = Some salt \<and> b64_decode b64_url (enc_Salt e) = Some salt
          \<and> (\<forall>q. ComparePassword (enc_Password e) q (enc_Salt e)
                 \<longleftrightarrow> sha512_Sum (p @ salt) = sha512_Sum (q @ salt)))
     \<and> (\<forall>h q s. b64_decode b64_url s = None \<longrightarrow> \<not> ComparePassword h q s)"
  using assms
  by (auto simp: EncryptPassword_def generateRandomSalt_def saltSize_def ComparePassword_def
      hashPassword_eq split: option.splits)

lemma password_accepted_witness:
  "\<exists>e. EncryptPassword (\<lambda>n. Some (replicate n (CHR ''s''))) ''pw'' = Some e
     \<and> ComparePassword (enc_Password e) ''pw'' (enc_Salt e)"
proof -
  have "\<exists>e. EncryptPassword (\<lambda>n. Some (replicate n (CHR ''s''))) ''pw'' = Some e"
    by (simp add: EncryptPassword_def generateRandomSalt_def)
  then show ?thesis using password_accepted by blast
qed

text \<open>
  Without a separator between password and salt, moving bytes from one to the other gives the
  same hash.
\<close>

lemma salt_boundary: "hashPassword (p @ x) s = hashPassword p (x @ s)"
  by (simp add: hashPassword_def)

end
