(* ===== verification/Goauth.thy ===== *)
theory Goauth
  imports Hash "HOL-Library.Signed_Division" "HOL-Library.List_Lexorder" "HOL-Library.Char_ord"
begin

section \<open>One-time passwords: \<open>pkg/goauth\<close>\<close>

text \<open>
  \<open>pkg/goauth/goauth.go\<close>: the six-digit code of a secret and a counter, the configuration of
  a user with its scratch codes, its counter (HOTP) or its list of used time steps (TOTP), and the
  checks that change it. \<open>now\<close> is the Unix time in seconds. Go's \<open>int\<close> has 64 bits.
\<close>

subsection \<open>The code\<close>

text \<open>\<open>binary.Write\<close> of an \<open>int64\<close>, big endian.\<close>

definition be_int64 :: "int \<Rightarrow> string" where
  "be_int64 value = be_bytes 8 (nat (value mod 2 ^ 64))"

definition ComputeCode :: "string \<Rightarrow> int \<Rightarrow> int" where
  "ComputeCode secret value =
     (case b32_decode secret of None \<Rightarrow> - 1
      | Some key \<Rightarrow>
        (let h = hmac_sha1 key (be_int64 value);
             offset = byte_of (h ! 19) AND 0x0f;
             truncated = nat_of_bytes (take 4 (drop offset h)) AND 0x7fffffff
         in int (truncated mod 1000000)))"

subsection \<open>The configuration of a user\<close>

definition ErrInvalidCode :: go_error where
  "ErrInvalidCode = new_error ''invalid code''"

record OTPConfig =
  Secret :: string
  WindowSize :: int
  HotpCounter :: int
  DisallowReuse :: "int list option"
  ScratchCodes :: "int list"
  cfg_UTC :: bool

text \<open>The last code takes the place of the used one, and the list loses its last place.\<close>

fun first_index :: "int \<Rightarrow> int list \<Rightarrow> nat option" where
  "first_index code [] = None"
| "first_index code (v # vs) = (if code = v then Some 0 else map_option Suc (first_index code vs))"

definition checkScratchCodes :: "int \<Rightarrow> OTPConfig \<Rightarrow> bool \<times> OTPConfig" where
  "checkScratchCodes code c =
     (case first_index code (ScratchCodes c) of None \<Rightarrow> (False, c)
      | Some i \<Rightarrow>
        (let l = length (ScratchCodes c) - 1;
             codes = (ScratchCodes c)[i := ScratchCodes c ! l]
         in (True, c\<lparr>ScratchCodes := take l codes\<rparr>)))"

text \<open>The first counter of the window whose code matches.\<close>

definition hotp_match :: "OTPConfig \<Rightarrow> int \<Rightarrow> int option" where
  "hotp_match c code =
     find (\<lambda>i. ComputeCode (Secret c) (i64 (HotpCounter c + i)) = code) [0..WindowSize c - 1]"

definition checkHotpCode :: "int \<Rightarrow> OTPConfig \<Rightarrow> bool \<times> OTPConfig" where
  "checkHotpCode code c =
     (case hotp_match c code of
        Some i \<Rightarrow> (True, c\<lparr>HotpCounter := i64 (HotpCounter c + (i + 1))\<rparr>)
      | None \<Rightarrow> (False, c\<lparr>HotpCounter := i64 (HotpCounter c + 1)\<rparr>))"

definition totp_minT :: "OTPConfig \<Rightarrow> int \<Rightarrow> int" where
  "totp_minT c t0 = i64 (t0 - WindowSize c sdiv 2)"

definition totp_maxT :: "OTPConfig \<Rightarrow> int \<Rightarrow> int" where
  "totp_maxT c t0 = i64 (t0 + WindowSize c sdiv 2)"

definition totp_match :: "OTPConfig \<Rightarrow> int \<Rightarrow> int \<Rightarrow> int option" where
  "totp_match c t0 code =
     find (\<lambda>t. ComputeCode (Secret c) t = code) [totp_minT c t0..totp_maxT c t0]"

text \<open>The used step is appended, the list sorted, and what lies before the window dropped.\<close>

definition remember_step :: "int \<Rightarrow> int \<Rightarrow> int list \<Rightarrow> int list" where
  "remember_step minT t used = dropWhile (\<lambda>x. x < minT) (sort (used @ [t]))"

definition checkTotpCode :: "int \<Rightarrow> int \<Rightarrow> OTPConfig \<Rightarrow> bool \<times> OTPConfig" where
  "checkTotpCode t0 code c =
     (case totp_match c t0 code of None \<Rightarrow> (False, c)
      | Some t \<Rightarrow>
        (case DisallowReuse c of None \<Rightarrow> (True, c)
         | Some used \<Rightarrow>
             (if t \<in> set used then (False, c)
              else (True, c\<lparr>DisallowReuse := Some (remember_step (totp_minT c t0) t used)\<rparr>))))"

definition digit_between :: "char \<Rightarrow> char \<Rightarrow> char \<Rightarrow> bool" where
  "digit_between lo hi c \<longleftrightarrow> byte_of lo \<le> byte_of c \<and> byte_of c \<le> byte_of hi"

text \<open>Six digits are a code, eight that do not start with zero a scratch code: \<open>Some scratch\<close>.\<close>

definition password_kind :: "string \<Rightarrow> bool option" where
  "password_kind p =
     (if length p = 6 \<and> digit_between (CHR ''0'') (CHR ''9'') (p ! 0) then Some False
      else if length p = 8 \<and> digit_between (CHR ''1'') (CHR ''9'') (p ! 0) then Some True
      else None)"

definition time_step :: "int \<Rightarrow> int" where
  "time_step now = now sdiv 30"

definition Authenticate :: "int \<Rightarrow> string \<Rightarrow> OTPConfig \<Rightarrow> bool res \<times> OTPConfig" where
  "Authenticate now password c =
     (case password_kind password of None \<Rightarrow> (Inl ErrInvalidCode, c)
      | Some scratch \<Rightarrow>
        (case ParseInt password of None \<Rightarrow> (Inl ErrInvalidCode, c)
         | Some code \<Rightarrow>
           (if scratch then map_prod Inr id (checkScratchCodes code c)
            else if HotpCounter c > 0 then map_prod Inr id (checkHotpCode code c)
            else map_prod Inr id (checkTotpCode (time_step now) code c))))"

subsection \<open>The address for the app\<close>

text \<open>\<open>url.Values.Encode\<close> of single values: sorted by key, both parts escaped.\<close>

definition values_Encode :: "(string \<times> string) list \<Rightarrow> string" where
  "values_Encode q =
     join_with (CHR ''&'') (map (\<lambda>(k, v). QueryEscape k @ CHR ''='' # QueryEscape v) (sort_key fst q))"

definition ProvisionURIWithIssuer :: "OTPConfig \<Rightarrow> string \<Rightarrow> string \<Rightarrow> string" where
  "ProvisionURIWithIssuer c user issuer =
     (let auth = (if HotpCounter c > 0 then ''hotp/'' else ''totp/'');
          q = (if HotpCounter c > 0 then [(''counter'', FormatInt (HotpCounter c))] else []);
          q = q @ [(''secret'', Secret c)];
          q = (if issuer \<noteq> [] then q @ [(''issuer'', issuer)] else q);
          auth = (if issuer \<noteq> [] then auth @ issuer @ '':'' else auth)
      in ''otpauth://'' @ auth @ user @ ''?'' @ (if q = [] then [] else values_Encode q))"

definition ProvisionURI :: "OTPConfig \<Rightarrow> string \<Rightarrow> string" where
  "ProvisionURI c user = ProvisionURIWithIssuer c user []"

subsection \<open>Scratch codes\<close>

lemma first_index_Some: "first_index code vs = Some i \<Longrightarrow> i < length vs \<and> vs ! i = code"
  by (induction vs arbitrary: i) (auto split: if_splits)

lemma first_index_None: "first_index code vs = None \<longleftrightarrow> code \<notin> set vs"
  by (induction vs) auto

text \<open>A scratch code that is accepted is taken out of the list once; nothing else changes.\<close>

lemma mset_drop_last: "vs \<noteq> [] \<Longrightarrow> mset vs = mset (take (length vs - 1) vs) + {#last vs#}"
  by (metis append_butlast_last_id butlast_conv_take mset.simps mset_append)

lemma remove_scratch:
  assumes "i < length vs"
  shows "mset (take (length vs - 1) (vs[i := vs ! (length vs - 1)])) = mset vs - {#vs ! i#}"
proof -
  let ?l = "length vs - 1"
  let ?ws = "vs[i := vs ! ?l]"
  have ne: "?ws \<noteq> []" using assms by auto
  have "last ?ws = vs ! ?l" using assms unfolding last_conv_nth [OF ne] by (simp add: nth_list_update)
  then have "mset ?ws = mset (take ?l ?ws) + {#vs ! ?l#}" using mset_drop_last [OF ne] by simp
  moreover have "mset ?ws = mset vs - {#vs ! i#} + {#vs ! ?l#}"
    using assms by (simp add: mset_update)
  ultimately show ?thesis by simp
qed

lemma checkScratchCodes_spec:
  "checkScratchCodes code c = (ok, c') \<Longrightarrow>
     (ok \<longleftrightarrow> code \<in> set (ScratchCodes c))
     \<and> mset (ScratchCodes c') = (if ok then mset (ScratchCodes c) - {#code#} else mset (ScratchCodes c))
     \<and> c' = c\<lparr>ScratchCodes := ScratchCodes c'\<rparr>"
  by (auto simp: checkScratchCodes_def Let_def first_index_None remove_scratch [simplified]
      split: option.splits dest!: first_index_Some)

subsection \<open>Steps that are used once\<close>

text \<open>
  A checker that spends numbers (counters or time steps): an accepted attempt spends a number
  that was not spent, and no attempt gives one back. Then no run of attempts accepts a number
  twice.
\<close>

primrec steps_used :: "('e \<Rightarrow> 's \<Rightarrow> int option \<times> 's) \<Rightarrow> 'e list \<Rightarrow> 's \<Rightarrow> int list" where
  "steps_used attempt [] s = []"
| "steps_used attempt (e # es) s =
     (case fst (attempt e s) of None \<Rightarrow> [] | Some t \<Rightarrow> [t]) @ steps_used attempt es (snd (attempt e s))"

primrec run_allowed :: "('e \<Rightarrow> 's \<Rightarrow> int option \<times> 's) \<Rightarrow> ('s \<Rightarrow> 'e \<Rightarrow> bool) \<Rightarrow> 'e list \<Rightarrow> 's \<Rightarrow> bool" where
  "run_allowed attempt allowed [] s = True"
| "run_allowed attempt allowed (e # es) s =
     (allowed s e \<and> run_allowed attempt allowed es (snd (attempt e s)))"

locale one_time =
  fixes attempt :: "'e \<Rightarrow> 's \<Rightarrow> int option \<times> 's"
    and spent :: "'s \<Rightarrow> int \<Rightarrow> bool"
    and inv :: "'s \<Rightarrow> bool"
    and allowed :: "'s \<Rightarrow> 'e \<Rightarrow> bool"
  assumes keeps: "inv s \<Longrightarrow> allowed s e \<Longrightarrow> inv (snd (attempt e s))"
    and spends: "inv s \<Longrightarrow> allowed s e \<Longrightarrow> fst (attempt e s) = Some t
      \<Longrightarrow> \<not> spent s t \<and> spent (snd (attempt e s)) t"
    and stays: "inv s \<Longrightarrow> allowed s e \<Longrightarrow> spent s t \<Longrightarrow> spent (snd (attempt e s)) t"
begin

lemma run_fresh:
  "inv s \<Longrightarrow> run_allowed attempt allowed es s
     \<Longrightarrow> distinct (steps_used attempt es s) \<and> (\<forall>t \<in> set (steps_used attempt es s). \<not> spent s t)"
proof (induction es arbitrary: s)
  case Nil
  then show ?case by simp
next
  case (Cons e es)
  let ?s = "snd (attempt e s)"
  have a: "allowed s e" "run_allowed attempt allowed es ?s" using Cons.prems(2) by simp_all
  have i: "distinct (steps_used attempt es ?s)" "\<forall>t \<in> set (steps_used attempt es ?s). \<not> spent ?s t"
    using Cons.IH [OF keeps [OF Cons.prems(1) a(1)] a(2)] by blast+
  have n: "\<forall>t \<in> set (steps_used attempt es ?s). \<not> spent s t"
    using i(2) stays [OF Cons.prems(1) a(1)] by blast
  show ?case
  proof (cases "fst (attempt e s)")
    case None
    then show ?thesis using i n by simp
  next
    case (Some t)
    with spends [OF Cons.prems(1) a(1)] have "\<not> spent s t" "spent ?s t" by blast+
    then show ?thesis using i n Some by auto
  qed
qed

end

subsection \<open>An attempt to authenticate\<close>

text \<open>The counter or time step with which a password was accepted.\<close>

definition used_step :: "int \<Rightarrow> string \<Rightarrow> OTPConfig \<Rightarrow> int option" where
  "used_step now password c =
     (if password_kind password = Some False \<and> fst (Authenticate now password c) = Inr True
      then (case ParseInt password of None \<Rightarrow> None
            | Some code \<Rightarrow>
              (if HotpCounter c > 0 then map_option (\<lambda>i. i64 (HotpCounter c + i)) (hotp_match c code)
               else totp_match c (time_step now) code))
      else None)"

definition auth_attempt :: "int \<times> string \<Rightarrow> OTPConfig \<Rightarrow> int option \<times> OTPConfig" where
  "auth_attempt e c = (used_step (fst e) (snd e) c, snd (Authenticate (fst e) (snd e) c))"

lemmas attempt_defs = auth_attempt_def Authenticate_def used_step_def

lemma find_SomeD: "find P xs = Some x \<Longrightarrow> x \<in> set xs \<and> P x"
  by (induction xs) (auto split: if_splits)

text \<open>Scratch codes change neither the counter nor the used steps.\<close>

lemma scratch_frame:
  assumes "checkScratchCodes code c = (ok, c')"
  shows "HotpCounter c' = HotpCounter c \<and> DisallowReuse c' = DisallowReuse c
     \<and> WindowSize c' = WindowSize c \<and> Secret c' = Secret c"
proof -
  have "c' = c\<lparr>ScratchCodes := ScratchCodes c'\<rparr>" using checkScratchCodes_spec [OF assms] by blast
  then show ?thesis by (metis OTPConfig.select_convs OTPConfig.update_convs(5) OTPConfig.surjective)
qed

lemma hotp_match_range: "hotp_match c code = Some i \<Longrightarrow> 0 \<le> i \<and> i < WindowSize c"
  unfolding hotp_match_def by (drule find_SomeD) simp

text \<open>An attempt in HOTP mode: refused before the check, a scratch code, accepted at a counter, or
  refused with the counter one further.\<close>

lemma hotp_attempt:
  assumes h: "0 < HotpCounter c" "HotpCounter c + max 1 (WindowSize c) < 2 ^ 63"
    and e: "auth_attempt e c = (u, c')"
  shows "WindowSize c' = WindowSize c \<and> HotpCounter c \<le> HotpCounter c'
     \<and> HotpCounter c' \<le> HotpCounter c + max 1 (WindowSize c)
     \<and> (\<forall>t. u = Some t \<longrightarrow> HotpCounter c \<le> t \<and> t + 1 = HotpCounter c')"
proof -
  have r: "in_i64 (HotpCounter c + d)" if "0 \<le> d" "d \<le> max 1 (WindowSize c)" for d
    using h that by (simp add: in_i64_def)
  show ?thesis
  proof (cases "password_kind (snd e)")
    case None
    with e show ?thesis by (auto simp: attempt_defs)
  next
    case (Some scratch)
    note k = this
    show ?thesis
    proof (cases "ParseInt (snd e)")
      case None
      with e k show ?thesis by (auto simp: attempt_defs)
    next
      case (Some code)
      show ?thesis
      proof (cases scratch)
        case True
        obtain ok d where "checkScratchCodes code c = (ok, d)" by fastforce
        with e k Some True scratch_frame [OF this] show ?thesis
          by (auto simp: attempt_defs)
      next
        case False
        show ?thesis
        proof (cases "hotp_match c code")
          case None
          with e k Some False h r [of 1] show ?thesis
            by (auto simp: attempt_defs checkHotpCode_def)
        next
          case m: (Some i)
          note g = hotp_match_range [OF m]
          with e k Some False h m r [of i] r [of "i + 1"] show ?thesis
            by (auto simp: attempt_defs checkHotpCode_def)
        qed
      qed
    qed
  qed
qed

interpretation hotp: one_time auth_attempt "\<lambda>c t. t < HotpCounter c" "\<lambda>c. 0 < HotpCounter c"
  "\<lambda>c e. HotpCounter c + max 1 (WindowSize c) < 2 ^ 63"
proof
  fix c :: OTPConfig and e assume i: "0 < HotpCounter c" and a: "HotpCounter c + max 1 (WindowSize c) < 2 ^ 63"
  obtain u c' where e: "auth_attempt e c = (u, c')" by fastforce
  note h = hotp_attempt [OF i a e]
  show "0 < HotpCounter (snd (auth_attempt e c))" using h i e by simp
  show "\<not> t < HotpCounter c \<and> t < HotpCounter (snd (auth_attempt e c))"
    if "fst (auth_attempt e c) = Some t" for t using h e that by auto
  show "t < HotpCounter (snd (auth_attempt e c))" if "t < HotpCounter c" for t
    using h e that by auto
qed

lemma hotp_run_allowed:
  "0 < HotpCounter c \<Longrightarrow> HotpCounter c + int (length es) * max 1 (WindowSize c) < 2 ^ 63
     \<Longrightarrow> run_allowed auth_attempt (\<lambda>c e. HotpCounter c + max 1 (WindowSize c) < 2 ^ 63) es c"
proof (induction es arbitrary: c)
  case Nil
  then show ?case by simp
next
  case (Cons e es)
  let ?m = "max 1 (WindowSize c)"
  have p: "0 \<le> int (length es) * ?m" by simp
  have l: "int (length (e # es)) * ?m = ?m + int (length es) * ?m" by (simp add: distrib_right)
  have a: "HotpCounter c + ?m < 2 ^ 63" using Cons.prems(2) p unfolding l by linarith
  obtain u c' where e: "auth_attempt e c = (u, c')" by fastforce
  note h = hotp_attempt [OF Cons.prems(1) a e]
  have "HotpCounter c' + int (length es) * max 1 (WindowSize c') < 2 ^ 63"
    using h Cons.prems(2) unfolding l by auto
  then show ?case using Cons.IH [of c'] h Cons.prems(1) a e by simp
qed

text \<open>
  C26. In HOTP mode no counter is ever accepted twice: over any sequence of attempts, right and
  wrong passwords and scratch codes mixed, the counters that passwords were accepted with are
  all different and none lies before the counter at the start, as long as the counter stays in
  its 64 bits.
\<close>

theorem hotp_never_reused:
  assumes "0 < HotpCounter c" "HotpCounter c + int (length es) * max 1 (WindowSize c) < 2 ^ 63"
  shows "distinct (steps_used auth_attempt es c)
     \<and> (\<forall>t \<in> set (steps_used auth_attempt es c). HotpCounter c \<le> t)"
  using hotp.run_fresh [OF assms(1) hotp_run_allowed [OF assms]] by (auto simp: not_less)

definition demo_otp :: OTPConfig where
  "demo_otp = \<lparr>Secret = ''GEZDGNBVGY3TQOJQGEZDGNBVGY3TQOJQ'', WindowSize = 3, HotpCounter = 1,
     DisallowReuse = Some [], ScratchCodes = [12345678], cfg_UTC = True\<rparr>"

lemma hotp_never_reused_witness:
  "distinct (steps_used auth_attempt [(0, ''287082''), (0, ''287082''), (0, ''12345678'')] demo_otp)"
  using hotp_never_reused [of demo_otp "[(0, ''287082''), (0, ''287082''), (0, ''12345678'')]"]
  by (simp add: demo_otp_def del: steps_used.simps)

subsection \<open>Time steps\<close>

lemma remember_keeps: "minT \<le> t \<Longrightarrow> x \<in> set (remember_step minT t used)
    \<longleftrightarrow> (x = t \<or> x \<in> set used) \<and> minT \<le> x"
proof -
  have "x \<in> set (dropWhile (\<lambda>x. x < m) xs) \<longleftrightarrow> x \<in> set xs \<and> m \<le> x" if "sorted xs" for m :: int and xs
    using that by (induction xs) auto
  then show ?thesis by (simp add: remember_step_def)
qed

text \<open>
  The state with the time step of the last attempt beside it. The clock does not go back, and
  times and windows are below \<open>2 ^ 61\<close>.
\<close>

definition totp_attempt :: "int \<times> string \<Rightarrow> int \<times> OTPConfig \<Rightarrow> int option \<times> int \<times> OTPConfig" where
  "totp_attempt e s = (case auth_attempt e (snd s) of (u, c') \<Rightarrow> (u, time_step (fst e), c'))"

definition totp_inv :: "int \<times> OTPConfig \<Rightarrow> bool" where
  "totp_inv s \<longleftrightarrow> HotpCounter (snd s) \<le> 0 \<and> DisallowReuse (snd s) \<noteq> None
     \<and> 0 \<le> WindowSize (snd s) \<and> WindowSize (snd s) < 2 ^ 61"

definition totp_spent :: "int \<times> OTPConfig \<Rightarrow> int \<Rightarrow> bool" where
  "totp_spent s t \<longleftrightarrow> t \<in> set (the (DisallowReuse (snd s))) \<or> t < fst s - WindowSize (snd s) div 2"

definition clock_ok :: "int \<times> OTPConfig \<Rightarrow> int \<times> string \<Rightarrow> bool" where
  "clock_ok s e \<longleftrightarrow> fst s \<le> time_step (fst e) \<and> 0 \<le> time_step (fst e) \<and> time_step (fst e) < 2 ^ 61"

lemma totp_window:
  assumes "totp_inv (k, c)" "0 \<le> t0" "t0 < 2 ^ 61"
  shows "totp_minT c t0 = t0 - WindowSize c div 2"
proof -
  have "WindowSize c sdiv 2 = WindowSize c div 2" using assms(1) by (cases "WindowSize c = 0") (auto simp: totp_inv_def signed_divide_int_def)
  moreover have "0 \<le> WindowSize c div 2" "WindowSize c div 2 < 2 ^ 61" using assms(1) by (auto simp: totp_inv_def)
  ultimately show ?thesis using assms(2,3) by (simp add: totp_minT_def in_i64_def)
qed

lemma totp_step:
  assumes i: "totp_inv s" and a: "clock_ok s e" and e: "totp_attempt e s = (u, s')"
  shows "totp_inv s' \<and> (\<forall>t. u = Some t \<longrightarrow> \<not> totp_spent s t \<and> totp_spent s' t)
     \<and> (\<forall>t. totp_spent s t \<longrightarrow> totp_spent s' t)"
proof -
  obtain k c where s: "s = (k, c)" by fastforce
  obtain used where used: "DisallowReuse c = Some used" using i by (auto simp: totp_inv_def s)
  let ?t0 = "time_step (fst e)"
  have w: "totp_minT c ?t0 = ?t0 - WindowSize c div 2" and k: "k \<le> ?t0"
    using totp_window [of k c ?t0] i a by (simp_all add: clock_ok_def s)
  have h: "\<not> 0 < HotpCounter c" using i by (simp add: totp_inv_def s)
  have same: ?thesis if "u = None" "snd s' = c" "fst s' = ?t0"
    using i used k that by (auto simp: totp_inv_def totp_spent_def s)
  have scr: ?thesis if "u = None" "s' = (?t0, c')" "checkScratchCodes code c = (ok, c')" for c' ok code
    using i used k that scratch_frame [OF that(3)] by (auto simp: totp_inv_def totp_spent_def s)
  consider "password_kind (snd e) = None \<or> ParseInt (snd e) = None"
    | code where "password_kind (snd e) = Some True" "ParseInt (snd e) = Some code"
    | code where "password_kind (snd e) = Some False" "ParseInt (snd e) = Some code"
    by (cases "password_kind (snd e)"; cases "ParseInt (snd e)") auto
  then show ?thesis
  proof cases
    case 1
    with e s show ?thesis by (intro same) (auto simp: attempt_defs totp_attempt_def split: option.splits)
  next
    case 2
    obtain ok c' where c': "checkScratchCodes code c = (ok, c')" by fastforce
    with e s 2 show ?thesis by (intro scr [OF _ _ c']) (auto simp: attempt_defs totp_attempt_def)
  next
    case 3
    show ?thesis
    proof (cases "totp_match c ?t0 code")
      case None
      with e s 3 h show ?thesis by (intro same) (auto simp: attempt_defs totp_attempt_def checkTotpCode_def)
    next
      case (Some t)
      then have t: "totp_minT c ?t0 \<le> t" unfolding totp_match_def by (auto dest: find_SomeD)
      show ?thesis
      proof (cases "t \<in> set used")
        case True
        with e s 3 h Some used show ?thesis
          by (intro same) (auto simp: attempt_defs totp_attempt_def checkTotpCode_def)
      next
        case False
        with e s 3 h Some used have
          "u = Some t" "s' = (?t0, c\<lparr>DisallowReuse := Some (remember_step (totp_minT c ?t0) t used)\<rparr>)"
          by (auto simp: attempt_defs totp_attempt_def checkTotpCode_def)
        then show ?thesis using i used k t w False
          by (auto simp: totp_inv_def totp_spent_def s remember_keeps not_le)
      qed
    qed
  qed
qed

interpretation totp: one_time totp_attempt totp_spent totp_inv clock_ok
proof
  fix s e assume i: "totp_inv s" and a: "clock_ok s e"
  obtain u s' where e: "totp_attempt e s = (u, s')" by (cases "totp_attempt e s")
  note h = totp_step [OF i a e]
  show "totp_inv (snd (totp_attempt e s))" using h e by simp
  show "\<not> totp_spent s t \<and> totp_spent (snd (totp_attempt e s)) t"
    if "fst (totp_attempt e s) = Some t" for t using h e that by simp
  show "totp_spent (snd (totp_attempt e s)) t" if "totp_spent s t" for t using h e that by simp
qed

lemma totp_steps: "steps_used totp_attempt es (k, c) = steps_used auth_attempt es c"
  by (induction es arbitrary: k c) (simp_all add: totp_attempt_def split: prod.splits)

lemma totp_run_allowed:
  "sorted (k # map (\<lambda>e. time_step (fst e)) es) \<Longrightarrow> 0 \<le> k
     \<Longrightarrow> \<forall>e \<in> set es. time_step (fst e) < 2 ^ 61 \<Longrightarrow> run_allowed totp_attempt clock_ok es (k, c)"
  by (induction es arbitrary: k c) (auto simp: clock_ok_def totp_attempt_def split: prod.splits)

text \<open>
  C27. In TOTP mode with a list of used steps no time step is ever accepted twice: over any
  sequence of attempts whose clock does not go back, the steps that passwords were accepted with
  are all different and none is on the list at the start, even though steps that have left the
  window are dropped from the list.
\<close>

theorem totp_never_reused:
  assumes "HotpCounter c \<le> 0" "DisallowReuse c = Some used" "0 \<le> WindowSize c" "WindowSize c < 2 ^ 61"
    and "0 \<le> k" "sorted (k # map (\<lambda>e. time_step (fst e)) es)" "\<forall>e \<in> set es. time_step (fst e) < 2 ^ 61"
  shows "distinct (steps_used auth_attempt es c) \<and> set (steps_used auth_attempt es c) \<inter> set used = {}"
proof -
  have i: "totp_inv (k, c)" using assms(1-4) by (simp add: totp_inv_def)
  from totp.run_fresh [OF i totp_run_allowed [OF assms(6,5,7)]] show ?thesis
    unfolding totp_steps using assms(2) by (auto simp: totp_spent_def)
qed

lemma totp_never_reused_witness:
  "distinct (steps_used auth_attempt [(59, ''287082''), (61, ''287082'')] (demo_otp\<lparr>HotpCounter := 0\<rparr>))"
  using totp_never_reused [of "demo_otp\<lparr>HotpCounter := 0\<rparr>" "[]" 0 "[(59, ''287082''), (61, ''287082'')]"]
  by (simp add: demo_otp_def time_step_def signed_divide_int_def del: steps_used.simps)

end
