(* ===== verification/Otp.thy ===== *)
theory Otp
  imports Goauth
begin

section \<open>One-time passwords: \<open>pkg/otp\<close>\<close>

text \<open>
  \<open>pkg/otp/auth.go\<close>: secrets and time-based codes as strings. The clock is an argument, and
  so are the table of \<open>unicode.ToUpper\<close> and the QR encoder. The logger is left out. The codes
  are those of \<open>pkg/goauth\<close>, computed in another way.
\<close>

subsection \<open>Upper case\<close>

definition is_ascii :: "string \<Rightarrow> bool" where
  "is_ascii s \<longleftrightarrow> list_all (\<lambda>c. byte_of c < 128) s"

definition ascii_upper :: "char \<Rightarrow> char" where
  "ascii_upper c = (if digit_between (CHR ''a'') (CHR ''z'') c then char_of (byte_of c - 32) else c)"

definition ToUpper :: "(nat \<Rightarrow> nat) \<Rightarrow> string \<Rightarrow> string" where
  "ToUpper uni s =
     (if is_ascii s then map ascii_upper s else concat (map (\<lambda>r. utf8_encode (uni r)) (runes s)))"

subsection \<open>The operations\<close>

record Auth =
  auth_UTC :: bool
  OTPIssuer :: string

definition NewAuth :: "string \<Rightarrow> bool \<Rightarrow> Auth" where
  "NewAuth issuer utc = \<lparr>auth_UTC = utc, OTPIssuer = issuer\<rparr>"

definition otp_URIWithIssuer :: "string \<Rightarrow> string \<Rightarrow> string \<Rightarrow> string" where
  "otp_URIWithIssuer user secret issuer =
     (let q = (''secret'', secret) # (if issuer \<noteq> [] then [(''issuer'', issuer)] else []);
          auth = (if issuer \<noteq> [] then ''totp/'' @ issuer @ '':'' else ''totp/'')
      in ''otpauth://'' @ auth @ user @ ''?'' @ values_Encode q)"

definition otp_URI :: "Auth \<Rightarrow> string \<Rightarrow> string \<Rightarrow> string" where
  "otp_URI s user secret = otp_URIWithIssuer user secret (OTPIssuer s)"

text \<open>\<open>nano\<close> is \<open>time.Now().UnixNano()\<close>.\<close>

definition otp_un :: "int \<Rightarrow> int" where
  "otp_un nano = nano sdiv 1000 sdiv 30"

definition GetSecret :: "(nat \<Rightarrow> nat) \<Rightarrow> int \<Rightarrow> string" where
  "GetSecret uni nano = ToUpper uni (b32_encode (hmac_sha1 (be_int64 (otp_un nano)) []))"

definition toBytes :: "int \<Rightarrow> string" where
  "toBytes value = map (\<lambda>shift. char_of (nat (drop_bit shift value AND 0xFF))) [56, 48, 40, 32, 24, 16, 8, 0]"

definition toUint32 :: "nat list \<Rightarrow> 32 word" where
  "toUint32 bts = push_bit 24 (word_of_nat (bts ! 0)) + push_bit 16 (word_of_nat (bts ! 1))
     + push_bit 8 (word_of_nat (bts ! 2)) + word_of_nat (bts ! 3)"

definition oneTimePassword :: "string \<Rightarrow> string \<Rightarrow> 32 word" where
  "oneTimePassword key data =
     (let hash = hmac_sha1 key data;
          offset = byte_of (hash ! (length hash - 1)) AND 0x0F;
          parts = map of_char (take 4 (drop offset hash));
          parts = parts[0 := parts ! 0 AND 0x7F]
      in toUint32 parts mod 1000000)"

definition b32_error :: go_error where
  "b32_error = new_error ''illegal base32 data''"

text \<open>\<open>fmt.Sprintf\<close> of \<open>%06d\<close>.\<close>

definition six_digits :: "nat \<Rightarrow> string" where
  "six_digits n = replicate (6 - length (nat_digits n)) (CHR ''0'') @ nat_digits n"

definition GetCode :: "(nat \<Rightarrow> nat) \<Rightarrow> int \<Rightarrow> string \<Rightarrow> string res" where
  "GetCode uni now secret =
     (case b32_decode (ToUpper uni secret) of None \<Rightarrow> Inl b32_error
      | Some key \<Rightarrow> Inr (six_digits (unat (oneTimePassword key (toBytes (time_step now))))))"

definition VerifyCode :: "(nat \<Rightarrow> nat) \<Rightarrow> int \<Rightarrow> string \<Rightarrow> string \<Rightarrow> bool res" where
  "VerifyCode uni now secret code =
     (case GetCode uni now secret of Inl e \<Rightarrow> Inl e | Inr c \<Rightarrow> Inr (c = code))"

definition imgBase64Str :: "string \<Rightarrow> string" where
  "imgBase64Str s = ''data:image/png;base64,'' @ s"

definition imageToBase64 :: "string \<Rightarrow> string" where
  "imageToBase64 img = imgBase64Str (b64_encode b64_std img)"

definition GetQrcode :: "(string \<Rightarrow> string res) \<Rightarrow> string \<Rightarrow> string res" where
  "GetQrcode qr url = (case qr url of Inl e \<Rightarrow> Inl e | Inr png \<Rightarrow> Inr (imageToBase64 png))"

subsection \<open>Both packages compute one code\<close>

lemma to_digits_8:
  "to_digits 256 8 n = map (\<lambda>s. n div 2 ^ s mod 256) [56, 48, 40, 32, 24, 16, 8, 0]"
proof -
  have e: "8 = Suc (Suc (Suc (Suc (Suc (Suc (Suc (Suc 0)))))))" by simp
  show ?thesis unfolding e to_digits.simps by (simp flip: div_mult2_eq)
qed

lemma shifted_byte:
  assumes "s \<le> 56"
  shows "nat (drop_bit s value AND 0xFF) = nat (value mod 2 ^ 64) div 2 ^ s mod 256"
proof -
  have "drop_bit s value AND 0xFF = take_bit 8 (drop_bit s value)"
    by (simp add: take_bit_eq_mask mask_eq_exp_minus_1)
  also have "\<dots> = take_bit 8 (drop_bit s (take_bit 64 value))"
    using assms by (simp add: drop_bit_take_bit min_def) linarith
  also have "\<dots> = (value mod 2 ^ 64 div 2 ^ s) mod 256"
    by (simp add: take_bit_eq_mod drop_bit_eq_div)
  finally show ?thesis
    by (simp add: nat_mod_distrib nat_div_distrib nat_power_eq pos_imp_zdiv_nonneg_iff)
qed

lemma toBytes_be: "toBytes value = be_int64 value"
  unfolding toBytes_def be_int64_def be_bytes_def to_digits_8 map_map
  by (rule map_cong [OF refl], unfold o_apply, subst shifted_byte) (force, rule refl)

lemma toUint32_nat:
  assumes "a < 128" "b < 256" "c < 256" "d < 256"
  shows "unat (toUint32 [a, b, c, d]) = a * 2 ^ 24 + b * 2 ^ 16 + c * 2 ^ 8 + d"
proof -
  let ?n = "a * 2 ^ 24 + b * 2 ^ 16 + c * 2 ^ 8 + d"
  have "toUint32 [a, b, c, d] = word_of_nat ?n"
    by (simp add: toUint32_def push_bit_eq_mult mult.commute)
  moreover have "?n < 2 ^ LENGTH(32)" using assms by simp
  ultimately show ?thesis by (simp only: unat_of_nat mod_less)
qed

lemma and_mask_nat: "(n::nat) AND 0x0F = n mod 2 ^ 4" "n AND 0x7F = n mod 2 ^ 7"
  "n AND 0x7fffffff = n mod 2 ^ 31"
proof -
  have "n AND 0x0F = take_bit 4 n" "n AND 0x7F = take_bit 7 n" "n AND 0x7fffffff = take_bit 31 n"
    by (simp_all add: take_bit_eq_mask mask_eq_exp_minus_1)
  then show "n AND 0x0F = n mod 2 ^ 4" "n AND 0x7F = n mod 2 ^ 7" "n AND 0x7fffffff = n mod 2 ^ 31"
    by (simp_all only: take_bit_eq_mod)
qed

lemma truncated_nat:
  assumes "a < 256" "b < 256" "c < 256" "d < 256"
  shows "(a * 2 ^ 24 + b * 2 ^ 16 + c * 2 ^ 8 + d) AND 0x7fffffff
     = (a AND 0x7F) * 2 ^ 24 + b * 2 ^ 16 + c * 2 ^ 8 + (d::nat)"
proof -
  let ?r = "b * 2 ^ 16 + c * 2 ^ 8 + d"
  have r: "?r < 2 ^ 24" using assms by simp
  define q m where "q = a div 2 ^ 7" and "m = a mod 2 ^ 7"
  have "a = 128 * q + m" using mult_div_mod_eq [of "2 ^ 7" a] by (simp add: q_def m_def)
  then have "a * 2 ^ 24 + ?r = q * 2 ^ 31 + (m * 2 ^ 24 + ?r)" by simp
  then have "a * 2 ^ 24 + ?r = a div 2 ^ 7 * 2 ^ 31 + (a mod 2 ^ 7 * 2 ^ 24 + ?r)" by (simp only: q_def m_def)
  moreover have "a mod 2 ^ 7 * 2 ^ 24 + ?r < 2 ^ 31"
    using r mod_less_divisor [of "2 ^ 7" a] by simp
  ultimately have "(a * 2 ^ 24 + ?r) mod 2 ^ 31 = a mod 2 ^ 7 * 2 ^ 24 + ?r"
    by (metis mod_less mod_mult_self3)
  then show ?thesis by (simp only: and_mask_nat add.assoc)
qed

lemma list4: "length xs = 4 \<Longrightarrow> xs = [xs ! 0, xs ! 1, xs ! 2, xs ! 3]"
  by (auto simp: numeral_eq_Suc length_Suc_conv)

lemma nat_of_bytes_4:
  "nat_of_bytes [a, b, c, d] = byte_of a * 2 ^ 24 + byte_of b * 2 ^ 16 + byte_of c * 2 ^ 8 + byte_of d"
  by (simp add: nat_of_bytes_def from_digits_def)

text \<open>The code as a number: the same from the word of \<open>pkg/otp\<close> and from \<open>pkg/goauth\<close>.\<close>

lemma one_code:
  assumes "b32_decode secret = Some key"
  shows "int (unat (oneTimePassword key (toBytes t))) = ComputeCode secret t"
proof -
  let ?h = "hmac_sha1 key (be_int64 t)"
  let ?o = "byte_of (?h ! 19) AND 0x0F"
  let ?q = "take 4 (drop ?o ?h)"
  have "?o < 16" by (simp add: and_mask_nat)
  then have l: "length ?q = 4" by simp
  define a b c d where "a = ?q ! 0" and "b = ?q ! 1" and "c = ?q ! 2" and "d = ?q ! 3"
  have q: "?q = [a, b, c, d]" unfolding a_def b_def c_def d_def by (rule list4 [OF l])
  have m: "byte_of a AND 0x7F < 128" by (simp add: and_mask_nat)
  have "nat_of_bytes ?q AND 0x7fffffff = unat (toUint32 [byte_of a AND 0x7F, byte_of b, byte_of c, byte_of d])"
    unfolding q nat_of_bytes_4 by (simp only: truncated_nat byte_of_less toUint32_nat [OF m])
  then show ?thesis
    using assms by (simp add: ComputeCode_def oneTimePassword_def Let_def toBytes_be q unat_mod)
qed

subsection \<open>Codes as strings\<close>

lemma nat_digits_length: "n < 10 ^ Suc k \<Longrightarrow> length (nat_digits n) \<le> Suc k"
proof (induction k arbitrary: n)
  case 0
  then show ?case by (simp add: nat_digits.simps)
next
  case (Suc k)
  show ?case
  proof (cases "n < 10")
    case True
    then show ?thesis by (simp add: nat_digits.simps)
  next
    case False
    have "n div 10 < 10 ^ Suc k" using Suc.prems by (simp add: less_mult_imp_div_less mult.commute)
    with Suc.IH [of "n div 10"] False show ?thesis by (subst nat_digits.simps) simp
  qed
qed

lemma zero_digit: "digit_val (CHR ''0'') = Some 0"
  by (simp add: digit_val_def)

lemma parse_zeros: "parse_digits 0 (replicate k (CHR ''0'') @ s) = parse_digits 0 s"
  by (induction k) (simp_all add: zero_digit)

lemma nat_digits_set: "c \<in> set (nat_digits n) \<Longrightarrow> digit_val c \<noteq> None"
proof (induction n rule: nat_digits.induct)
  case (1 n)
  then show ?case by (subst (asm) (2) nat_digits.simps) (auto split: if_splits)
qed

lemma six_digits_facts:
  assumes "n < 1000000"
  shows "length (six_digits n) = 6" "ParseInt (six_digits n) = Some (int n)"
    "password_kind (six_digits n) = Some False"
proof -
  have l: "length (nat_digits n) \<le> 6" using nat_digits_length [of n 5] assms by simp
  then show len: "length (six_digits n) = 6" by (simp add: six_digits_def)
  have d: "digit_val c \<noteq> None" if "c \<in> set (six_digits n)" for c
    using that nat_digits_set by (auto simp: six_digits_def zero_digit)
  have ne: "six_digits n \<noteq> []" using len by auto
  then have h: "digit_val (hd (six_digits n)) \<noteq> None" by (intro d) simp
  then have "hd (six_digits n) \<noteq> CHR ''-''" "hd (six_digits n) \<noteq> CHR ''+''" by auto
  then show "ParseInt (six_digits n) = Some (int n)"
    using ne assms by (simp add: ParseInt_def six_digits_def parse_zeros parse_nat_digits Let_def)
  have "digit_between (CHR ''0'') (CHR ''9'') (six_digits n ! 0)"
    using h ne by (auto simp: digit_val_def digit_between_def Let_def hd_conv_nth split: if_splits)
  then show "password_kind (six_digits n) = Some False" using len by (simp add: password_kind_def)
qed

lemma code_range: "0 \<le> ComputeCode secret t \<Longrightarrow> ComputeCode secret t < 1000000"
  by (auto simp: ComputeCode_def Let_def split: option.splits)

lemma GetCode_ComputeCode:
  assumes "b32_decode (ToUpper uni secret) = Some key"
  shows "\<exists>n. n < 1000000 \<and> GetCode uni now secret = Inr (six_digits n)
     \<and> int n = ComputeCode (ToUpper uni secret) (time_step now)"
proof -
  let ?n = "unat (oneTimePassword key (toBytes (time_step now)))"
  have c: "int ?n = ComputeCode (ToUpper uni secret) (time_step now)" by (rule one_code [OF assms])
  moreover have "?n < 1000000"
  proof -
    have "int ?n < 1000000" unfolding c by (rule code_range) (metis c of_nat_0_le_iff)
    then show ?thesis by linarith
  qed
  ultimately show ?thesis using assms by (intro exI [of _ ?n]) (simp add: GetCode_def)
qed

text \<open>
  C28. The two packages agree: for a secret that is base32 once in upper case, the string
  \<open>pkg/otp\<close> shows is six digits long and is the decimal form of the code \<open>pkg/goauth\<close>
  computes for the same time step.
\<close>

theorem otp_agrees:
  assumes "b32_decode (ToUpper uni secret) = Some key"
  shows "\<exists>code. GetCode uni now secret = Inr code \<and> length code = 6
     \<and> ParseInt code = Some (ComputeCode (ToUpper uni secret) (time_step now))"
  using GetCode_ComputeCode [OF assms, of now] six_digits_facts by metis

lemma b32_upper: "is_ascii (b32_encode s) \<and> map ascii_upper (b32_encode s) = b32_encode s"
proof -
  have a: "list_all (\<lambda>c. byte_of c < 128 \<and> ascii_upper c = c) (CHR ''='' # b32_std)" by code_simp
  have "c \<in> set (CHR ''='' # b32_std)" if "c \<in> set (b32_group g)" for c g
    using that to_digits_less [of 32] b32_alphabet(1) by (auto simp: b32_group_def Let_def)
  then have "c \<in> set (CHR ''='' # b32_std)" if "c \<in> set (b32_encode s)" for c
    using that by (induction s rule: b32_encode.induct) auto
  with a have "\<forall>c \<in> set (b32_encode s). byte_of c < 128 \<and> ascii_upper c = c" unfolding list_all_iff by blast
  then show ?thesis by (simp add: is_ascii_def list_all_iff map_idI)
qed

lemma ToUpper_b32 [simp]: "ToUpper uni (b32_encode s) = b32_encode s"
  using b32_upper by (simp add: ToUpper_def)

lemma GetSecret_decodes: "b32_decode (ToUpper uni (GetSecret uni nano)) = Some (hmac_sha1 (be_int64 (otp_un nano)) [])"
  by (simp add: GetSecret_def)

text \<open>
  C29. The packages work together: a code that \<open>pkg/otp\<close> shows for a secret it has itself
  made is accepted by a time-based configuration of \<open>pkg/goauth\<close> with that secret and no
  list of used steps, at any time whose window contains the step of the code.
\<close>

theorem otp_code_accepted:
  assumes "Secret c = GetSecret uni nano" "HotpCounter c \<le> 0" "DisallowReuse c = None"
    and "0 \<le> WindowSize c" "WindowSize c < 2 ^ 61" "0 \<le> time_step now" "time_step now < 2 ^ 61"
    and "\<bar>time_step now' - time_step now\<bar> \<le> WindowSize c div 2"
  shows "\<exists>code. GetCode uni now' (GetSecret uni nano) = Inr code \<and> Authenticate now code c = (Inr True, c)"
proof -
  obtain n where n: "n < 1000000" "GetCode uni now' (GetSecret uni nano) = Inr (six_digits n)"
    "int n = ComputeCode (GetSecret uni nano) (time_step now')"
    using GetCode_ComputeCode [OF GetSecret_decodes] by (metis GetSecret_def ToUpper_b32)
  have w: "WindowSize c sdiv 2 = WindowSize c div 2"
    using assms(4) by (cases "WindowSize c = 0") (auto simp: signed_divide_int_def)
  have "0 \<le> WindowSize c div 2" "WindowSize c div 2 < 2 ^ 61" using assms(4,5) by auto
  moreover have "time_step now - WindowSize c div 2 \<le> time_step now'
      \<and> time_step now' \<le> time_step now + WindowSize c div 2" using assms(8) by linarith
  ultimately have "time_step now' \<in> set [totp_minT c (time_step now)..totp_maxT c (time_step now)]"
    using assms(6,7) by (simp add: totp_minT_def totp_maxT_def w in_i64_def)
  then have "totp_match c (time_step now) (int n) \<noteq> None"
    unfolding totp_match_def find_None_iff using n(3) assms(1) by auto
  then have "Authenticate now (six_digits n) c = (Inr True, c)"
    using assms(2,3) six_digits_facts [OF n(1)] by (auto simp: Authenticate_def checkTotpCode_def)
  with n(2) show ?thesis by blast
qed

lemma otp_code_accepted_witness:
  "\<exists>code. GetCode (\<lambda>r. r) 75 (GetSecret (\<lambda>r. r) 5) = Inr code
     \<and> Authenticate 45 code \<lparr>Secret = GetSecret (\<lambda>r. r) 5, WindowSize = 3, HotpCounter = 0,
          DisallowReuse = None, ScratchCodes = [], cfg_UTC = True\<rparr>
       = (Inr True, \<lparr>Secret = GetSecret (\<lambda>r. r) 5, WindowSize = 3, HotpCounter = 0,
          DisallowReuse = None, ScratchCodes = [], cfg_UTC = True\<rparr>)"
  by (rule otp_code_accepted) (simp_all add: time_step_def signed_divide_int_def)

lemma otp_agrees_witness:
  "\<exists>code. GetCode (\<lambda>r. r) 59 (GetSecret (\<lambda>r. r) 5) = Inr code \<and> length code = 6
     \<and> ParseInt code = Some (ComputeCode (ToUpper (\<lambda>r. r) (GetSecret (\<lambda>r. r) 5)) (time_step 59))"
  by (rule otp_agrees [OF GetSecret_decodes])

end
