(* ===== verification/Export_Reflect.thy ===== *)
theory Export_Reflect
  imports GoStr
begin

section \<open>Fields and tags of Go values\<close>

text \<open>
  The helpers of \<open>pkg/export.go\<close> that look at a value through \<open>reflect\<close>: the tags of a
  struct, of what a pointer points to, or of the first element of a slice. A panic of
  \<open>reflect\<close> is \<open>None\<close>. A tag is the function \<open>Tag.Get\<close>.
\<close>

subsection \<open>Values as \<open>reflect\<close> sees them\<close>

datatype rtype = TStruct "(string \<Rightarrow> string) list" | TPtr rtype | TSlice rtype | TInterface | TOther

text \<open>
  A field is its tags, whether it is exported, and its value. A pointer, a slice or an interface
  may be nil; \<open>VOther\<close> is any other value, with its being the zero of its type.
\<close>

datatype rvalue =
    VStruct "((string \<Rightarrow> string) \<times> bool \<times> rvalue) list"
  | VPtr rtype "rvalue option"
  | VSlice rtype "rvalue list option"
  | VInterface "rvalue option"
  | VString string
  | VOther nat bool

fun type_of :: "rvalue \<Rightarrow> rtype" where
  "type_of (VStruct fs) = TStruct (map fst fs)"
| "type_of (VPtr t v) = TPtr t"
| "type_of (VSlice t vs) = TSlice t"
| "type_of (VInterface v) = TInterface"
| "type_of (VString s) = TOther"
| "type_of (VOther n z) = TOther"

text \<open>\<open>reflect.DeepEqual\<close> with the zero of the type.\<close>

fun isEmpty :: "rvalue \<Rightarrow> bool" where
  "isEmpty (VStruct fs) = list_all (\<lambda>f. isEmpty (snd (snd f))) fs"
| "isEmpty (VPtr t v) = (v = None)"
| "isEmpty (VSlice t vs) = (vs = None)"
| "isEmpty (VInterface v) = (v = None)"
| "isEmpty (VString s) = (s = [])"
| "isEmpty (VOther n z) = z"

subsection \<open>The walk to a struct\<close>

text \<open>
  What the three functions have in common: they end at an error, or at the fields of a struct
  type with, where there is one, the struct itself.
\<close>

datatype walked = NotStruct | EmptySlice | NotStructSlice
  | Fields "(string \<Rightarrow> string) list" "((string \<Rightarrow> string) \<times> bool \<times> rvalue) list option"

definition bad_pointer :: "rtype \<Rightarrow> bool" where
  "bad_pointer t = (case t of TPtr (TStruct _) \<Rightarrow> False | TPtr (TSlice _) \<Rightarrow> False | TPtr _ \<Rightarrow> True | _ \<Rightarrow> False)"

text \<open>\<open>NumField\<close> of anything but a struct panics.\<close>

definition fields_of :: "rtype \<Rightarrow> rvalue option \<Rightarrow> walked option" where
  "fields_of t v = (case t of
     TStruct tags \<Rightarrow> Some (Fields tags (case v of Some (VStruct fs) \<Rightarrow> Some fs | _ \<Rightarrow> None))
   | _ \<Rightarrow> None)"

text \<open>The first element of a slice: a pointer to a struct and an interface are followed once.\<close>

definition walk_element :: "rvalue \<Rightarrow> walked option" where
  "walk_element v =
     (case v of
        VPtr _ (Some (VStruct fs)) \<Rightarrow> fields_of (TStruct (map fst fs)) (Some (VStruct fs))
      | VInterface None \<Rightarrow> None
      | VInterface (Some u) \<Rightarrow>
          (case type_of u of TStruct tags \<Rightarrow> fields_of (TStruct tags) (Some u) | _ \<Rightarrow> Some NotStructSlice)
      | VStruct fs \<Rightarrow> fields_of (TStruct (map fst fs)) (Some (VStruct fs))
      | _ \<Rightarrow> Some NotStructSlice)"

definition walk :: "rvalue \<Rightarrow> walked option" where
  "walk obj =
     (let t = type_of obj;
          v = (case obj of VPtr _ p \<Rightarrow> p | _ \<Rightarrow> Some obj);
          t' = (case t of TPtr e \<Rightarrow> e | _ \<Rightarrow> t)
      in if bad_pointer t then Some NotStruct
         else case v of
           Some (VSlice _ vs) \<Rightarrow>
             (case vs of None \<Rightarrow> Some EmptySlice | Some [] \<Rightarrow> Some EmptySlice
              | Some (u # us) \<Rightarrow> walk_element u)
         | _ \<Rightarrow> fields_of t' v)"

definition has_tag :: "string \<Rightarrow> (string \<Rightarrow> string) \<Rightarrow> bool" where
  "has_tag tagName f \<longleftrightarrow> f tagName \<noteq> [] \<and> f tagName \<noteq> ''-''"

subsection \<open>Tags and fields\<close>

text \<open>The outer option is the panic, the inner one Go's nil.\<close>

definition GetTags :: "rvalue \<Rightarrow> string \<Rightarrow> string list option option" where
  "GetTags obj tagName = map_option
     (\<lambda>w. case w of Fields tags _ \<Rightarrow> Some (map (\<lambda>f. f tagName) (filter (has_tag tagName) tags))
      | _ \<Rightarrow> None) (walk obj)"

definition GetTagsMap :: "rvalue \<Rightarrow> string \<Rightarrow> string \<Rightarrow> (string \<rightharpoonup> string) option option" where
  "GetTagsMap obj tagName vTagName = map_option
     (\<lambda>w. case w of
        Fields tags _ \<Rightarrow>
          Some (foldl (\<lambda>m f. if has_tag tagName f then m(f tagName \<mapsto> f vTagName) else m) Map.empty tags)
      | _ \<Rightarrow> None) (walk obj)"

definition not_struct_error :: go_error where
  "not_struct_error = new_error ''obj must be a struct or a pointer to a struct''"

definition empty_slice_error :: go_error where
  "empty_slice_error = new_error ''obj must be a slice len than 0''"

definition slice_error :: go_error where
  "slice_error = new_error ''obj must be a slice of struct or interface''"

text \<open>
  The map of the tags of the fields that are not zero, here as an association list in the order of
  the fields. A struct type without a struct (a nil pointer) panics at its first tagged field.
\<close>

fun add_field :: "string \<Rightarrow> (string \<times> rvalue) list \<Rightarrow> (string \<Rightarrow> string) \<times> bool \<times> rvalue \<Rightarrow> (string \<times> rvalue) list" where
  "add_field tagName m (f, exported, v) =
     (if has_tag tagName f \<and> exported \<and> \<not> isEmpty v then AList.update (f tagName) v m else m)"

definition GetNonEmptyFields :: "rvalue \<Rightarrow> string \<Rightarrow> (string \<times> rvalue) list res option" where
  "GetNonEmptyFields obj tagName =
     (case walk obj of None \<Rightarrow> None
      | Some NotStruct \<Rightarrow> Some (Inl not_struct_error)
      | Some EmptySlice \<Rightarrow> Some (Inl empty_slice_error)
      | Some NotStructSlice \<Rightarrow> Some (Inl slice_error)
      | Some (Fields tags None) \<Rightarrow> if list_ex (has_tag tagName) tags then None else Some (Inr [])
      | Some (Fields tags (Some fs)) \<Rightarrow> Some (Inr (foldl (add_field tagName) [] fs)))"

definition InSlice :: "string \<Rightarrow> string list \<Rightarrow> bool" where
  "InSlice needle haystack = list_ex (\<lambda>item. item = needle) haystack"

text \<open>A nil interface has no type.\<close>

definition IsSlice :: "rvalue option \<Rightarrow> bool" where
  "IsSlice obj = (case obj of None \<Rightarrow> False
     | Some v \<Rightarrow> (case type_of v of TSlice _ \<Rightarrow> True | TPtr (TSlice _) \<Rightarrow> True | _ \<Rightarrow> False))"

subsection \<open>What they agree on\<close>

lemma InSlice_iff [simp]: "InSlice x xs \<longleftrightarrow> x \<in> set xs"
  by (induction xs) (auto simp: InSlice_def)

text \<open>Where \<open>GetTags\<close> finds tags, \<open>GetTagsMap\<close> has exactly these as its keys.\<close>

lemma foldl_tags_dom:
  "dom (foldl (\<lambda>m f. if has_tag tag f then m(f tag \<mapsto> f d) else m) m0 tags)
     = dom m0 \<union> set (map (\<lambda>f. f tag) (filter (has_tag tag) tags))"
  by (induction tags arbitrary: m0) auto

lemma GetTags_Map_dom:
  assumes "GetTags obj tag = Some (Some ts)"
  shows "\<exists>m. GetTagsMap obj tag d = Some (Some m) \<and> dom m = set ts"
proof (cases "walk obj")
  case None
  with assms show ?thesis by (simp add: GetTags_def)
next
  case (Some w)
  with assms show ?thesis
    by (cases w) (simp_all add: GetTags_def GetTagsMap_def foldl_tags_dom)
qed

text \<open>The fields that are not zero are among the tags, and their values are not zero.\<close>

lemma foldl_fields:
  "x \<in> set (foldl (add_field tag) m0 fs) \<Longrightarrow>
     x \<in> set m0 \<or> (\<exists>f e. (f, e, snd x) \<in> set fs \<and> has_tag tag f \<and> fst x = f tag \<and> \<not> isEmpty (snd x))"
proof (induction fs arbitrary: m0)
  case Nil
  then show ?case by simp
next
  case (Cons g fs)
  obtain f e v where g: "g = (f, e, v)" by (cases g)
  have upd: "x \<in> set (AList.update k w m) \<Longrightarrow> x = (k, w) \<or> x \<in> set m" for k w m
    by (induction m) (auto split: if_splits)
  have "x \<in> set (add_field tag m0 g) \<or>
      (\<exists>f e. (f, e, snd x) \<in> set fs \<and> has_tag tag f \<and> fst x = f tag \<and> \<not> isEmpty (snd x))"
    using Cons.IH [of "add_field tag m0 g"] Cons.prems by simp
  then show ?case
  proof
    assume *: "x \<in> set (add_field tag m0 g)"
    show ?thesis
    proof (cases "has_tag tag f \<and> e \<and> \<not> isEmpty v")
      case True
      with * have "x \<in> set (AList.update (f tag) v m0)" by (simp add: g)
      from upd [OF this] show ?thesis
      proof
        assume "x = (f tag, v)"
        then have "snd x = v" "fst x = f tag" by simp_all
        with True have "(f, e, snd x) \<in> set (g # fs) \<and> has_tag tag f \<and> fst x = f tag \<and> \<not> isEmpty (snd x)"
          by (simp only: g list.set insert_iff simp_thms)
        then show ?thesis by blast
      qed blast
    next
      case False
      with * have "x \<in> set m0" by (simp add: g split: if_splits)
      then show ?thesis by blast
    qed
  next
    assume "\<exists>f e. (f, e, snd x) \<in> set fs \<and> has_tag tag f \<and> fst x = f tag \<and> \<not> isEmpty (snd x)"
    then show ?thesis by (metis list.set_intros(2))
  qed
qed

lemma GetNonEmptyFields_fields:
  assumes "GetNonEmptyFields obj tag = Some (Inr m)" "x \<in> set m"
  shows "\<exists>tags fs. walk obj = Some (Fields tags (Some fs)) \<and> m = foldl (add_field tag) [] fs"
proof (cases "walk obj")
  case None
  with assms show ?thesis by (simp add: GetNonEmptyFields_def)
next
  case (Some w)
  show ?thesis
  proof (cases w)
    case (Fields tags v)
    with Some assms show ?thesis by (cases v) (simp_all add: GetNonEmptyFields_def split: if_splits)
  qed (use Some assms in \<open>simp_all add: GetNonEmptyFields_def\<close>)
qed

lemma GetNonEmptyFields_tags:
  assumes m: "GetNonEmptyFields obj tag = Some (Inr m)" and x: "x \<in> set m"
  shows "fst x \<noteq> [] \<and> fst x \<noteq> ''-'' \<and> \<not> isEmpty (snd x)"
proof -
  obtain tags fs where "m = foldl (add_field tag) [] fs"
    using GetNonEmptyFields_fields [OF m x] by blast
  with x have "\<exists>f e. (f, e, snd x) \<in> set fs \<and> has_tag tag f \<and> fst x = f tag \<and> \<not> isEmpty (snd x)"
    using foldl_fields [of x tag "[]" fs] by simp
  then show ?thesis by (auto simp only: has_tag_def)
qed

end
