(* ===== verification/Export_Base.thy ===== *)
theory Export_Base
  imports Export_Reflect
begin

section \<open>The exporter: options and the workbook\<close>

text \<open>
  The data of \<open>pkg/export.go\<close>. The spreadsheet package is not part of the repository: a workbook
  is the sequence of the calls made on it, and what a call answers is a function of the calls
  before it (\<open>x_err\<close>, \<open>x_int\<close>), given with the other outside functions in a record \<open>xl\<close>. A
  callback is called at most once with the same arguments, apart from the translation and the
  picture callback, so each is a plain function of its arguments. An \<open>any\<close> is the value of an
  interface, \<open>None\<close> being nil.
\<close>

subsection \<open>Calls on the workbook\<close>

type_synonym any = "rvalue option"

datatype xentry = Cell int any | Raw any

record xstyle =
  style_Bold :: bool
  style_Family :: string
  style_Size :: nat
  style_Horizontal :: string
  style_Vertical :: string

datatype xcall = NewFile | NewStyle xstyle | NewSheet string | SetActiveSheet int | NewStreamWriter string
  | SetRow string "xentry list" "nat option" | Flush | AddPicture string string string any
  | DeleteSheet string | SaveAs string | CloseFile

text \<open>
  \<open>x_cell\<close> is \<open>CoordinatesToCellName\<close>, \<open>x_order\<close> the order in which \<open>range\<close> visits the keys of a
  map, and \<open>x_nan\<close> what the conversion of an infinite or undefined quotient to \<open>int\<close> gives on the
  platform.
\<close>

record xl =
  x_err :: "xcall list \<Rightarrow> xcall \<Rightarrow> go_error option"
  x_int :: "xcall list \<Rightarrow> xcall \<Rightarrow> int"
  x_cell :: "int \<Rightarrow> int \<Rightarrow> string res"
  x_Map :: "any \<Rightarrow> string \<Rightarrow> string \<rightharpoonup> any"
  x_String :: "any \<Rightarrow> string"
  x_SliceAny :: "any \<Rightarrow> any list"
  x_order :: "xcall list \<Rightarrow> string list \<Rightarrow> string list"
  x_nan :: "int \<Rightarrow> int"

subsection \<open>Options\<close>

definition DefaultTagName :: string where "DefaultTagName = ''json''"
definition DefaultDescTag :: string where "DefaultDescTag = ''description''"
definition DefaultPageSize :: int where "DefaultPageSize = 5000"
definition DefaultSheetSize :: int where "DefaultSheetSize = 100000"
definition DefaultLimitSize :: int where "DefaultLimitSize = 100000"
definition DefaultSheetName :: string where "DefaultSheetName = ''Sheet''"

text \<open>
  A callback that is not set is \<open>None\<close>. \<open>HeaderFunc\<close> gets the workbook: it answers with the calls it
  makes on it, the columns and an error.
\<close>

record ExportOptions =
  FileName :: string
  PageSize :: int
  SheetSize :: int
  LimitSize :: int
  SheetPrefix :: string
  TagName :: string
  DescTag :: string
  PictureKeys :: "string list"
  FieldFunc :: "string list option"
  TranslateFunc :: "(string \<rightharpoonup> string) option"
  StatusFunc :: "(string \<rightharpoonup> (string \<rightharpoonup> string)) option"
  HeaderFunc :: "(xcall list \<Rightarrow> xcall list \<times> xentry list \<times> go_error option) option"
  TotalFunc :: "(int \<times> go_error option) option"
  ListFunc :: "(int \<Rightarrow> int \<Rightarrow> any list res) option"
  SummaryFunc :: "any res option"
  ParamsFunc :: "any res option"
  FinishFunc :: "go_error option option"
  ErrorFunc :: "(go_error \<Rightarrow> go_error option) option"
  PictureFunc :: "(string \<Rightarrow> string) option"
  i18n :: "(string \<Rightarrow> string) option"
  GraphicOptions :: "rvalue option"

definition getDefaultExportOptions :: ExportOptions where
  "getDefaultExportOptions = \<lparr>FileName = ''export.xlsx'', PageSize = DefaultPageSize,
     SheetSize = DefaultSheetSize, LimitSize = DefaultLimitSize, SheetPrefix = DefaultSheetName,
     TagName = [], DescTag = [], PictureKeys = [], FieldFunc = None, TranslateFunc = None,
     StatusFunc = None, HeaderFunc = None, TotalFunc = None, ListFunc = None, SummaryFunc = None,
     ParamsFunc = None, FinishFunc = None, ErrorFunc = None, PictureFunc = None, i18n = None,
     GraphicOptions = None\<rparr>"

type_synonym optionFunc = "ExportOptions \<Rightarrow> ExportOptions"

definition WithExportOptionsFileName :: "string \<Rightarrow> optionFunc" where
  "WithExportOptionsFileName fileName options = options\<lparr>FileName := fileName\<rparr>"
definition WithExportOptionsSheetPrefix :: "string \<Rightarrow> optionFunc" where
  "WithExportOptionsSheetPrefix prefix options = options\<lparr>SheetPrefix := prefix\<rparr>"
definition WithExportOptionsDescTag :: "string \<Rightarrow> optionFunc" where
  "WithExportOptionsDescTag tag options = options\<lparr>DescTag := tag\<rparr>"
definition WithExportOptionsTagName :: "string \<Rightarrow> optionFunc" where
  "WithExportOptionsTagName tag options = options\<lparr>TagName := tag\<rparr>"
definition WithExportOptionsPictureKeys :: "string list \<Rightarrow> optionFunc" where
  "WithExportOptionsPictureKeys keys options = options\<lparr>PictureKeys := keys\<rparr>"
definition WithExportOptionsPageSize :: "int \<Rightarrow> optionFunc" where
  "WithExportOptionsPageSize pageSize options = options\<lparr>PageSize := pageSize\<rparr>"
definition WithExportOptionsSheetSize :: "int \<Rightarrow> optionFunc" where
  "WithExportOptionsSheetSize sheetSize options = options\<lparr>SheetSize := sheetSize\<rparr>"
definition WithExportOptionsLimitSize :: "int \<Rightarrow> optionFunc" where
  "WithExportOptionsLimitSize lim options = options\<lparr>LimitSize := lim\<rparr>"
definition WithExportOptionsFieldFunc :: "string list \<Rightarrow> optionFunc" where
  "WithExportOptionsFieldFunc f options = options\<lparr>FieldFunc := Some f\<rparr>"
definition WithExportOptionsTranslateFunc :: "(string \<rightharpoonup> string) \<Rightarrow> optionFunc" where
  "WithExportOptionsTranslateFunc f options = options\<lparr>TranslateFunc := Some f\<rparr>"
definition WithExportOptionsStatusFunc :: "(string \<rightharpoonup> (string \<rightharpoonup> string)) \<Rightarrow> optionFunc" where
  "WithExportOptionsStatusFunc f options = options\<lparr>StatusFunc := Some f\<rparr>"
definition WithExportOptionsHeaderFunc ::
  "(xcall list \<Rightarrow> xcall list \<times> xentry list \<times> go_error option) \<Rightarrow> optionFunc" where
  "WithExportOptionsHeaderFunc f options = options\<lparr>HeaderFunc := Some f\<rparr>"
definition WithExportOptionsTotalFunc :: "int \<times> go_error option \<Rightarrow> optionFunc" where
  "WithExportOptionsTotalFunc f options = options\<lparr>TotalFunc := Some f\<rparr>"
definition WithExportOptionsListFunc :: "(int \<Rightarrow> int \<Rightarrow> any list res) \<Rightarrow> optionFunc" where
  "WithExportOptionsListFunc f options = options\<lparr>ListFunc := Some f\<rparr>"
definition WithExportOptionsSummaryFunc :: "any res \<Rightarrow> optionFunc" where
  "WithExportOptionsSummaryFunc f options = options\<lparr>SummaryFunc := Some f\<rparr>"
definition WithExportOptionsParamsFunc :: "any res \<Rightarrow> optionFunc" where
  "WithExportOptionsParamsFunc f options = options\<lparr>ParamsFunc := Some f\<rparr>"
definition WithExportOptionsFinishFunc :: "go_error option \<Rightarrow> optionFunc" where
  "WithExportOptionsFinishFunc f options = options\<lparr>FinishFunc := Some f\<rparr>"
definition WithExportOptionsErrorFunc :: "(go_error \<Rightarrow> go_error option) \<Rightarrow> optionFunc" where
  "WithExportOptionsErrorFunc f options = options\<lparr>ErrorFunc := Some f\<rparr>"
definition WithExportOptionsI18n :: "(string \<Rightarrow> string) option \<Rightarrow> optionFunc" where
  "WithExportOptionsI18n i options = options\<lparr>i18n := i\<rparr>"
definition WithExportOptionsPictureFunc :: "(string \<Rightarrow> string) \<Rightarrow> optionFunc" where
  "WithExportOptionsPictureFunc f options = options\<lparr>PictureFunc := Some f\<rparr>"
definition WithExportOptionsGraphicOptions :: "rvalue option \<Rightarrow> optionFunc" where
  "WithExportOptionsGraphicOptions g options = options\<lparr>GraphicOptions := g\<rparr>"

subsection \<open>The state of an export\<close>

text \<open>The fields of \<open>Export\<close>; \<open>calls\<close> is the workbook with the stream writer.\<close>

record Export =
  options :: ExportOptions
  calls :: "xcall list"
  fieldList :: "string list"
  pictureMap :: "(string \<times> string) list"
  statusEnums :: "string \<rightharpoonup> (string \<rightharpoonup> string)"
  translates :: "string \<rightharpoonup> string"
  headerCols :: "xentry list"
  offset :: int
  total :: int
  page :: int
  pageTotal :: int
  sheetTotal :: int
  bodyStyleId :: int
  count :: int
  limit :: bool

definition NewExport :: "optionFunc list \<Rightarrow> Export" where
  "NewExport optionFuncs =
     (let opts = foldl (\<lambda>os f. f os) getDefaultExportOptions optionFuncs;
          opts = (if SheetSize opts < PageSize opts then opts\<lparr>SheetSize := PageSize opts\<rparr> else opts);
          opts = (if TagName opts = [] then opts\<lparr>TagName := DefaultTagName\<rparr> else opts);
          opts = (if DescTag opts = [] then opts\<lparr>DescTag := DefaultDescTag\<rparr> else opts)
      in \<lparr>options = opts, calls = [], fieldList = [], pictureMap = [], statusEnums = Map.empty,
          translates = Map.empty, headerCols = [], offset = 0, total = 0, page = 0, pageTotal = 0,
          sheetTotal = 0, bodyStyleId = 0, count = 0, limit = False\<rparr>)"

text \<open>A step of an export may panic (\<open>None\<close>), fail, or return a value.\<close>

type_synonym 'a step = "Export \<Rightarrow> ('a res \<times> Export) option"

definition ret :: "'a \<Rightarrow> 'a step" where "ret a e = Some (Inr a, e)"
definition fail :: "go_error \<Rightarrow> 'a step" where "fail err e = Some (Inl err, e)"

definition bind :: "'a step \<Rightarrow> ('a \<Rightarrow> 'b step) \<Rightarrow> 'b step" where
  "bind m f e = (case m e of None \<Rightarrow> None | Some (Inl err, e') \<Rightarrow> Some (Inl err, e') | Some (Inr a, e') \<Rightarrow> f a e')"

definition lift :: "'a res \<Rightarrow> 'a step" where
  "lift r e = Some (r, e)"

definition call :: "xl \<Rightarrow> xcall \<Rightarrow> int step" where
  "call x c e = Some (case x_err x (calls e) c of Some err \<Rightarrow> Inl err | None \<Rightarrow> Inr (x_int x (calls e) c),
     e\<lparr>calls := calls e @ [c]\<rparr>)"

text \<open>A call without an error among its results.\<close>

definition do_call :: "xcall \<Rightarrow> unit step" where
  "do_call c e = Some (Inr (), e\<lparr>calls := calls e @ [c]\<rparr>)"

lemma step_simps [simp]: "ret a e = Some (Inr a, e)" "fail err e = Some (Inl err, e)"
  "lift r e = Some (r, e)"
  by (simp_all add: ret_def fail_def lift_def)

definition lang :: "ExportOptions \<Rightarrow> string \<Rightarrow> string" where
  "lang opts key = (case i18n opts of Some translate \<Rightarrow> translate key | None \<Rightarrow> key)"

text \<open>\<open>int(math.Ceil(float64(a) / float64(b)))\<close>, for operands that a double holds exactly.\<close>

definition ceil_quot :: "xl \<Rightarrow> int \<Rightarrow> int \<Rightarrow> int" where
  "ceil_quot x a b = (if b = 0 then x_nan x a else - ((- a) div b))"

definition i32 :: "int \<Rightarrow> int" where
  "i32 n = (n + 2 ^ 31) mod 2 ^ 32 - 2 ^ 31"

lemma i32_id [simp]: "- (2 ^ 31) \<le> n \<Longrightarrow> n < 2 ^ 31 \<Longrightarrow> i32 n = n"
  by (simp add: i32_def)

text \<open>A rounded-up quotient is the number of parts of at most \<open>b\<close> that \<open>a\<close> is cut into.\<close>

lemma ceil_quot_bounds:
  assumes "0 < b"
  shows "a \<le> ceil_quot x a b * b" "(ceil_quot x a b - 1) * b < a"
proof -
  define q r where "q = (- a) div b" and "r = (- a) mod b"
  have "- a = q * b + r" "0 \<le> r" "r < b" using assms by (simp_all add: q_def r_def)
  moreover have "ceil_quot x a b = - q" using assms by (simp add: ceil_quot_def q_def)
  ultimately show "a \<le> ceil_quot x a b * b" "(ceil_quot x a b - 1) * b < a"
    by (simp_all add: algebra_simps)
qed

lemma ceil_quot_le:
  assumes "0 < b" "a \<le> k * b"
  shows "ceil_quot x a b \<le> k"
proof (rule ccontr)
  assume "\<not> ?thesis"
  then have "k * b \<le> (ceil_quot x a b - 1) * b" using assms(1) by (intro mult_right_mono) auto
  with ceil_quot_bounds(2) [OF assms(1), of x a] assms(2) show False by simp
qed

lemma ceil_quot_pos: "0 < b \<Longrightarrow> 0 < a \<Longrightarrow> 0 < ceil_quot x a b"
  using ceil_quot_bounds(1) [of b a x] by (smt (verit) mult_nonneg_nonpos2 mult_minus_left)

end
