(* ===== verification/Export_Run.thy ===== *)
theory Export_Run
  imports Export_Base
begin

section \<open>The exporter: its operations\<close>

text \<open>
  The methods of \<open>Export\<close> in the order of \<open>pkg/export.go\<close>: status enumerations and header, the
  summary sheets, the list of one page, the loop over the pages of a sheet and over the sheets,
  and \<open>Run\<close>. Logging is left out.
\<close>

subsection \<open>Status enumerations and header\<close>

text \<open>A translation \<open>name:0=off,1=on\<close> carries the values of an enumeration after the colon.\<close>

definition status_items :: "string \<Rightarrow> string list" where
  "status_items v = (if CHR '':'' \<in> set v
     then (case split_on CHR '':'' v of [_, es] \<Rightarrow> split_on CHR '','' es | _ \<Rightarrow> []) else [])"

definition add_status :: "(string \<Rightarrow> string) \<Rightarrow> string \<Rightarrow> (string \<rightharpoonup> (string \<rightharpoonup> string)) \<Rightarrow> string
    \<Rightarrow> (string \<rightharpoonup> (string \<rightharpoonup> string))" where
  "add_status l key statuses s = (case split_on CHR ''='' s of
     [v, k] \<Rightarrow> statuses(key \<mapsto> (case statuses key of None \<Rightarrow> Map.empty | Some m \<Rightarrow> m)(v \<mapsto> l k))
   | _ \<Rightarrow> statuses)"

definition lookup :: "(string \<rightharpoonup> string) \<Rightarrow> string \<Rightarrow> string" where
  "lookup m k = (case m k of Some v \<Rightarrow> v | None \<Rightarrow> [])"

definition DefaultStatusFunc ::
  "(string \<Rightarrow> string) \<Rightarrow> string list \<Rightarrow> (string \<rightharpoonup> string) \<Rightarrow> string \<rightharpoonup> (string \<rightharpoonup> string)" where
  "DefaultStatusFunc l keys translateMap = foldl
     (\<lambda>statuses key. foldl (add_status l key) statuses (status_items (lookup translateMap key))) Map.empty keys"

definition header_style :: xstyle where
  "header_style = \<lparr>style_Bold = True, style_Family = map char_of [0xE5::nat, 0xAE, 0x8B, 0xE4, 0xBD, 0x93],
     style_Size = 11, style_Horizontal = ''center'', style_Vertical = ''center''\<rparr>"

definition body_style :: xstyle where
  "body_style = \<lparr>style_Bold = False, style_Family = ''Calibri'', style_Size = 11,
     style_Horizontal = ''center'', style_Vertical = ''center''\<rparr>"

definition column_title :: "string \<Rightarrow> string" where
  "column_title v = (if CHR '':'' \<in> set v then hd (split_on CHR '':'' v) else v)"

definition DefaultHeaderFunc ::
  "xl \<Rightarrow> (string \<Rightarrow> string) \<Rightarrow> string list \<Rightarrow> (string \<rightharpoonup> string) \<Rightarrow> xentry list step" where
  "DefaultHeaderFunc x l keys translateMap = bind (call x (NewStyle header_style))
     (\<lambda>styleID. ret (map (\<lambda>key. Cell styleID (Some (VString (l (column_title (lookup translateMap key)))))) keys))"

definition DefaultFieldFunc :: "rvalue \<Rightarrow> string \<Rightarrow> string list option option" where
  "DefaultFieldFunc obj tag = GetTags obj tag"

definition DefaultTranslateFunc :: "rvalue \<Rightarrow> string \<Rightarrow> string \<Rightarrow> (string \<rightharpoonup> string) option option" where
  "DefaultTranslateFunc obj tag desc = GetTagsMap obj tag desc"

subsection \<open>Pages and sheets\<close>

definition before :: "xl \<Rightarrow> unit step" where
  "before x e =
     (let e = e\<lparr>calls := [NewFile]\<rparr>; opts = options e;
          e = (case TotalFunc opts of Some (n, _) \<Rightarrow> e\<lparr>total := n\<rparr> | None \<Rightarrow> e)
      in case TotalFunc opts of
           Some (_, Some err) \<Rightarrow> fail err e
         | _ \<Rightarrow>
           (let pages = (if LimitSize opts \<le> total e then ceil_quot x (LimitSize opts) (PageSize opts)
                         else ceil_quot x (total e) (PageSize opts));
                sheets = (if LimitSize opts \<le> total e then ceil_quot x (LimitSize opts) (SheetSize opts)
                          else ceil_quot x (total e) (SheetSize opts))
            in ret () (e\<lparr>pageTotal := (if pages = 0 then 1 else pages), sheetTotal := sheets, page := 0\<rparr>)))"

subsection \<open>Summary sheets\<close>

record RawStruct =
  FieldList :: "string list"
  HeaderCols :: "xentry list"
  StatusEnums :: "string \<rightharpoonup> (string \<rightharpoonup> string)"
  Obj :: any

text \<open>\<open>mapObj[v]\<close> is nil for a key that is missing.\<close>

definition field_value :: "(string \<rightharpoonup> any) \<Rightarrow> string \<Rightarrow> any" where
  "field_value m v = (case m v of Some a \<Rightarrow> a | None \<Rightarrow> None)"

definition shown_value :: "xl \<Rightarrow> (string \<rightharpoonup> (string \<rightharpoonup> string)) \<Rightarrow> (string \<rightharpoonup> any) \<Rightarrow> string \<Rightarrow> any" where
  "shown_value x statuses m v = (case statuses v of
     Some enum \<Rightarrow> Some (VString (lookup enum (x_String x (field_value m v))))
   | None \<Rightarrow> field_value m v)"

definition raw_row :: "xl \<Rightarrow> RawStruct \<Rightarrow> Export \<Rightarrow> any \<Rightarrow> xentry list" where
  "raw_row x r e item = (let mapObj = x_Map x item (TagName (options e))
     in map (\<lambda>v. Cell (bodyStyleId e) (shown_value x (StatusEnums r) mapObj v)) (FieldList r))"

fun raw_rows :: "xl \<Rightarrow> RawStruct \<Rightarrow> int \<Rightarrow> any list \<Rightarrow> unit step" where
  "raw_rows x r i [] e = ret () e"
| "raw_rows x r i (item # items) e = bind (lift (x_cell x 1 (i + 2)))
     (\<lambda>cell. bind (call x (SetRow cell (raw_row x r e item) None)) (\<lambda>_. raw_rows x r (i + 1) items)) e"

definition processorRaw :: "xl \<Rightarrow> string \<Rightarrow> RawStruct \<Rightarrow> unit step" where
  "processorRaw x name r e =
     (if FieldList r = [] \<or> HeaderCols r = [] then ret () e
      else bind (lift (x_cell x 1 1)) (\<lambda>cell.
           bind (call x (NewSheet name)) (\<lambda>sheet.
           bind (do_call (SetActiveSheet sheet)) (\<lambda>_.
           bind (call x (NewStreamWriter name)) (\<lambda>_.
           bind (call x (SetRow cell (HeaderCols r) (Some 1))) (\<lambda>_.
           bind (if Obj r = None then ret ()
                 else if IsSlice (Obj r) then raw_rows x r 0 (x_SliceAny x (Obj r))
                 else (\<lambda>e. bind (lift (x_cell x 1 2)) (\<lambda>cell.
                   bind (call x (SetRow cell (raw_row x r e (Obj r)) None)) (\<lambda>_. ret ())) e)) (\<lambda>_.
           bind (call x Flush) (\<lambda>_. ret ()))))))) e)"

definition preProcessor :: "xl \<Rightarrow> any \<Rightarrow> RawStruct step" where
  "preProcessor x ptr e =
     (case ptr of None \<Rightarrow> None
      | Some obj \<Rightarrow>
        (case GetNonEmptyFields obj (TagName (options e)) of None \<Rightarrow> None
         | Some (Inl err) \<Rightarrow> fail err e
         | Some (Inr found) \<Rightarrow>
           (case GetTagsMap obj (TagName (options e)) (DescTag (options e)) of None \<Rightarrow> None
            | Some tm \<Rightarrow>
              (let l = lang (options e); translateMap = (case tm of Some m \<Rightarrow> m | None \<Rightarrow> Map.empty);
                   keys = x_order x (calls e) (map fst found);
                   statuses = DefaultStatusFunc l keys translateMap
               in bind (DefaultHeaderFunc x l keys translateMap) (\<lambda>cols.
                    ret \<lparr>FieldList = keys, HeaderCols = cols, StatusEnums = statuses, Obj = ptr\<rparr>) e))))"

subsection \<open>The header of the list\<close>

text \<open>
  What \<open>HeaderFunc\<close> answers is kept with its error, which the next assignment to \<open>err\<close>
  overwrites.
\<close>

definition header_cols :: "xl \<Rightarrow> Export \<Rightarrow> Export" where
  "header_cols x e = (case HeaderFunc (options e) of
     Some f \<Rightarrow> (case f (calls e) of (cs, cols, _) \<Rightarrow> e\<lparr>calls := calls e @ cs, headerCols := cols\<rparr>)
   | None \<Rightarrow> (case DefaultHeaderFunc x (lang (options e)) (fieldList e) (translates e) e of
       Some (Inr cols, e') \<Rightarrow> e'\<lparr>headerCols := cols\<rparr>
     | Some (Inl _, e') \<Rightarrow> e'\<lparr>headerCols := []\<rparr>
     | None \<Rightarrow> e))"

definition preBuildHeader :: "xl \<Rightarrow> any list \<Rightarrow> unit step" where
  "preBuildHeader x list e =
     (let obj = VSlice TInterface (Some (map VInterface list)); opts = options e;
          fl = (case FieldFunc opts of Some l \<Rightarrow> Some (Some l) | None \<Rightarrow> DefaultFieldFunc obj (TagName opts));
          tm = (case TranslateFunc opts of Some m \<Rightarrow> Some (Some m)
                   | None \<Rightarrow> DefaultTranslateFunc obj (TagName opts) (DescTag opts))
      in case (fl, tm) of
           (Some fl, Some tm) \<Rightarrow>
             (let fl = (case fl of Some l \<Rightarrow> l | None \<Rightarrow> []);
                  tm = (case tm of Some m \<Rightarrow> m | None \<Rightarrow> Map.empty);
                  statuses = (case StatusFunc opts of Some s \<Rightarrow> s | None \<Rightarrow> DefaultStatusFunc (lang opts) fl tm)
              in bind (call x (NewStyle body_style)) (\<lambda>styleId e. ret () (e\<lparr>bodyStyleId := styleId\<rparr>))
                   (header_cols x (e\<lparr>fieldList := fl, translates := tm, statusEnums := statuses\<rparr>)))
         | _ \<Rightarrow> None)"

subsection \<open>One page\<close>

text \<open>
  The cells of a row, with the pictures they leave. The value of a picture's cell is empty; its
  path is kept under the name of the cell.
\<close>

fun body_cells :: "xl \<Rightarrow> (string \<rightharpoonup> any) \<Rightarrow> int \<Rightarrow> string list \<Rightarrow> xentry list step" where
  "body_cells x mapObj k [] e = ret [] e"
| "body_cells x mapObj k (v # vs) e =
     (let value = shown_value x (statusEnums e) mapObj v
      in case PictureFunc (options e) of
           Some pic \<Rightarrow>
             if InSlice v (PictureKeys (options e))
             then (case x_cell x (k + 1) (offset e) of
                     Inl err \<Rightarrow> fail err e
                   | Inr colName \<Rightarrow>
                     bind (body_cells x mapObj (k + 1) vs)
                       (\<lambda>cols. ret (Cell (bodyStyleId e) (Some (VString [])) # cols))
                       (e\<lparr>pictureMap := AList.update colName (pic (x_String x (field_value mapObj v))) (pictureMap e)\<rparr>))
             else bind (body_cells x mapObj (k + 1) vs) (\<lambda>cols. ret (Cell (bodyStyleId e) value # cols)) e
         | None \<Rightarrow> bind (body_cells x mapObj (k + 1) vs) (\<lambda>cols. ret (Cell (bodyStyleId e) value # cols)) e)"

fun exportList :: "xl \<Rightarrow> any list \<Rightarrow> unit step" where
  "exportList x [] e = ret () e"
| "exportList x (item # list) e =
     (if i32 (LimitSize (options e)) \<le> count e then ret () (e\<lparr>limit := True\<rparr>)
      else bind (lift (x_cell x 1 (offset e + 1))) (\<lambda>cell.
           bind (\<lambda>e. body_cells x (x_Map x item (TagName (options e))) 0 (fieldList e) e) (\<lambda>row.
           bind (call x (SetRow cell row None)) (\<lambda>_ e.
             exportList x list (e\<lparr>count := i32 (count e + 1)\<rparr>))))
        (e\<lparr>offset := offset e + 1\<rparr>))"

subsection \<open>Pages of a sheet\<close>

text \<open>\<open>list_page\<close> is the body of the loop; a \<open>ListFunc\<close> that is not set is a call of nil.\<close>

definition list_page :: "xl \<Rightarrow> string \<Rightarrow> bool \<Rightarrow> bool \<Rightarrow> unit step" where
  "list_page x cell isBuildHeader isSetHeader e =
     (case ListFunc (options e) of None \<Rightarrow> None
      | Some f \<Rightarrow>
        (let e = e\<lparr>page := page e + 1\<rparr>
         in bind (lift (f (page e) (PageSize (options e)))) (\<lambda>list.
            bind (if isBuildHeader then ret () else preBuildHeader x list) (\<lambda>_.
            bind (if isSetHeader then ret ()
                  else (\<lambda>e. bind (call x (SetRow cell (headerCols e) (Some 1))) (\<lambda>_. ret ()) e)) (\<lambda>_.
            exportList x list))) e))"

text \<open>The loop over the pages, with \<open>s\<close> counting down from the number of pages of a sheet.\<close>

fun pages :: "xl \<Rightarrow> string \<Rightarrow> nat \<Rightarrow> bool \<Rightarrow> bool \<Rightarrow> bool step" where
  "pages x cell s isBuildHeader isSetHeader e =
     (case s of 0 \<Rightarrow> ret isBuildHeader e
      | Suc s' \<Rightarrow>
        if page e < pageTotal e \<and> \<not> limit e
        then bind (list_page x cell isBuildHeader isSetHeader)
          (\<lambda>_. pages x cell s' True True) e
        else ret isBuildHeader e)"

declare pages.simps [simp del]

fun add_pictures :: "xl \<Rightarrow> string \<Rightarrow> string list \<Rightarrow> unit step" where
  "add_pictures x sheetName [] e = ret () e"
| "add_pictures x sheetName (col # cols) e =
     bind (call x (AddPicture sheetName col (lookup (map_of (pictureMap e)) col) (GraphicOptions (options e))))
       (\<lambda>_. add_pictures x sheetName cols) e"

definition sheet_name :: "Export \<Rightarrow> int \<Rightarrow> string" where
  "sheet_name e currentSheet = SheetPrefix (options e) @ FormatInt currentSheet"

definition one_sheet :: "xl \<Rightarrow> int \<Rightarrow> bool \<Rightarrow> bool step" where
  "one_sheet x currentSheet isBuildHeader e =
     (let sheetName = sheet_name e currentSheet
      in bind (lift (x_cell x 1 1)) (\<lambda>cell.
         bind (call x (NewSheet sheetName)) (\<lambda>sheet.
         bind (do_call (SetActiveSheet sheet)) (\<lambda>_.
         bind (call x (NewStreamWriter sheetName)) (\<lambda>_.
         bind (\<lambda>e. pages x cell (nat (ceil_quot x (pageTotal e) (sheetTotal e))) isBuildHeader False
                (e\<lparr>pictureMap := []\<rparr>)) (\<lambda>built.
         bind (\<lambda>e. add_pictures x sheetName (x_order x (calls e) (map fst (pictureMap e))) e) (\<lambda>_.
         bind (call x Flush) (\<lambda>_. ret built))))))) (e\<lparr>offset := 1\<rparr>))"

text \<open>
  The loop over the sheets, with the number of sheets left: no step changes \<open>sheetTotal\<close>. The
  flag says whether the header has been built.
\<close>

fun sheets :: "xl \<Rightarrow> nat \<Rightarrow> int \<Rightarrow> bool \<Rightarrow> unit step" where
  "sheets x n currentSheet isBuildHeader e =
     (case n of 0 \<Rightarrow> ret () e
      | Suc n' \<Rightarrow>
        if \<not> limit e
        then bind (one_sheet x currentSheet isBuildHeader) (\<lambda>built. sheets x n' (currentSheet + 1) built) e
        else ret () e)"

declare sheets.simps [simp del]

subsection \<open>The whole export\<close>

definition extra_sheet :: "xl \<Rightarrow> string \<Rightarrow> any res option \<Rightarrow> unit step" where
  "extra_sheet x name f = (case f of None \<Rightarrow> ret ()
     | Some r \<Rightarrow> bind (lift r) (\<lambda>ptr. bind (preProcessor x ptr) (\<lambda>raw. processorRaw x name raw)))"

definition processor :: "xl \<Rightarrow> unit step" where
  "processor x e =
     bind (\<lambda>e. sheets x (nat (sheetTotal e)) 1 False e) (\<lambda>_.
     bind (\<lambda>e. extra_sheet x ''summary'' (SummaryFunc (options e)) e) (\<lambda>_.
     bind (\<lambda>e. extra_sheet x ''params'' (ParamsFunc (options e)) e) (\<lambda>_.
     bind (\<lambda>e. if SheetPrefix (options e) \<noteq> ''Sheet''
               then bind (call x (DeleteSheet ''Sheet1'')) (\<lambda>_. ret ()) e else ret () e) (\<lambda>_.
     bind (do_call (SetActiveSheet 0)) (\<lambda>_.
     bind (\<lambda>e. call x (SaveAs (FileName (options e))) e) (\<lambda>_ e.
       case FinishFunc (options e) of Some (Some err) \<Rightarrow> fail err e | _ \<Rightarrow> ret () e))))))
     (e\<lparr>limit := False\<rparr>)"

definition after :: "xl \<Rightarrow> unit step" where
  "after x = bind (call x CloseFile) (\<lambda>_. ret ())"

text \<open>
  The result of \<open>Run\<close> is the error it returns. The deferred close runs after a successful
  \<open>processor\<close> only; its error is returned as it is, whatever \<open>ErrorFunc\<close> answers to it.
\<close>

definition report :: "Export \<Rightarrow> go_error \<Rightarrow> go_error option" where
  "report e err = (case ErrorFunc (options e) of Some f \<Rightarrow> f err | None \<Rightarrow> Some err)"

definition Run :: "xl \<Rightarrow> Export \<Rightarrow> (go_error option \<times> Export) option" where
  "Run x e =
     (case before x e of None \<Rightarrow> None
      | Some (Inl err, e) \<Rightarrow> Some (report e err, e)
      | Some (Inr _, e) \<Rightarrow>
        (case processor x e of None \<Rightarrow> None
         | Some (Inl err, e) \<Rightarrow> Some (report e err, e)
         | Some (Inr _, e) \<Rightarrow>
           (case after x e of None \<Rightarrow> None
            | Some (Inl err, e) \<Rightarrow> Some (Some err, e)
            | Some (Inr _, e) \<Rightarrow> Some (None, e))))"

end
