(* ===== verification/Export_Props.thy ===== *)
theory Export_Props
  imports Export_Run
begin

section \<open>The exporter: what is exported\<close>

text \<open>
  The contents of a workbook are read off the calls made on it. With a spreadsheet package that
  does not fail and a \<open>ListFunc\<close> that pages through a list, every row up to the limit arrives
  exactly once, in order, under a header; how the rows are spread over the sheets is given exactly.
\<close>

subsection \<open>Contents of a workbook\<close>

text \<open>A sheet is its name with its rows: cell, columns and outline level.\<close>

type_synonym sheet = "string \<times> (string \<times> xentry list \<times> nat option) list"

fun add_call :: "sheet list \<Rightarrow> xcall \<Rightarrow> sheet list" where
  "add_call ss (NewStreamWriter name) = ss @ [(name, [])]"
| "add_call ss (SetRow cell row level) =
     (if ss = [] then [] else butlast ss @ [(fst (last ss), snd (last ss) @ [(cell, row, level)])])"
| "add_call ss _ = ss"

definition sheets_of :: "xcall list \<Rightarrow> sheet list" where
  "sheets_of cs = foldl add_call [] cs"

abbreviation contents :: "Export \<Rightarrow> sheet list" where
  "contents e \<equiv> sheets_of (calls e)"

lemma sheets_of_Nil [simp]: "sheets_of [] = []"
  by (simp add: sheets_of_def)

lemma sheets_of_snoc [simp]: "sheets_of (cs @ [c]) = add_call (sheets_of cs) c"
  by (simp add: sheets_of_def)

lemma sheets_of_append: "sheets_of (cs @ ds) = foldl add_call (sheets_of cs) ds"
  by (simp add: sheets_of_def)

definition is_style :: "xcall \<Rightarrow> bool" where
  "is_style c = (case c of NewStyle _ \<Rightarrow> True | _ \<Rightarrow> False)"

lemma sheets_of_styles: "list_all is_style ds \<Longrightarrow> foldl add_call ss ds = ss"
  by (induction ds) (auto simp: is_style_def split: xcall.splits)

subsection \<open>A package that does not fail\<close>

definition quiet :: "xl \<Rightarrow> bool" where
  "quiet x \<longleftrightarrow> (\<forall>cs c. x_err x cs c = None)
     \<and> (\<forall>col row. 1 \<le> col \<and> col \<le> 16384 \<and> 1 \<le> row \<longrightarrow> is_ok (x_cell x col row))"

definition cell_at :: "xl \<Rightarrow> int \<Rightarrow> int \<Rightarrow> string" where
  "cell_at x col row = (case x_cell x col row of Inr c \<Rightarrow> c | Inl _ \<Rightarrow> [])"

lemma quiet_call: "quiet x \<Longrightarrow> call x c e = Some (Inr (x_int x (calls e) c), e\<lparr>calls := calls e @ [c]\<rparr>)"
  by (simp add: quiet_def call_def)

lemma quiet_cell:
  assumes "quiet x" "1 \<le> col" "col \<le> 16384" "1 \<le> row"
  shows "x_cell x col row = Inr (cell_at x col row)"
proof -
  have "is_ok (x_cell x col row)" using assms by (simp add: quiet_def)
  then show ?thesis by (cases "x_cell x col row") (simp_all add: cell_at_def is_ok_def)
qed

lemma bind_Inr: "m e = Some (Inr a, e') \<Longrightarrow> bind m f e = f a e'"
  by (simp add: bind_def)

lemma bind_ret [simp]: "bind (ret a) f e = f a e"
  by (simp add: bind_def)

lemma bind_lift_Inr [simp]: "bind (lift (Inr a)) f e = f a e"
  by (simp add: bind_def)

lemma bind_do_call [simp]: "bind (do_call c) f e = f () (e\<lparr>calls := calls e @ [c]\<rparr>)"
  by (simp add: bind_def do_call_def)

lemma bind_call: "quiet x \<Longrightarrow> bind (call x c) f e = f (x_int x (calls e) c) (e\<lparr>calls := calls e @ [c]\<rparr>)"
  by (simp add: bind_def quiet_call)

subsection \<open>Rows\<close>

definition is_picture :: "ExportOptions \<Rightarrow> string \<Rightarrow> bool" where
  "is_picture opts v \<longleftrightarrow> PictureFunc opts \<noteq> None \<and> v \<in> set (PictureKeys opts)"

text \<open>The cell of a field: the picture's is empty, a status is translated, all else is the value.\<close>

definition body_cell :: "xl \<Rightarrow> Export \<Rightarrow> any \<Rightarrow> string \<Rightarrow> xentry" where
  "body_cell x e item v = Cell (bodyStyleId e)
     (if is_picture (options e) v then Some (VString [])
      else shown_value x (statusEnums e) (x_Map x item (TagName (options e))) v)"

definition row_of :: "xl \<Rightarrow> Export \<Rightarrow> any \<Rightarrow> xentry list" where
  "row_of x e item = map (body_cell x e item) (fieldList e)"

lemma body_cells_quiet:
  assumes "quiet x" "0 \<le> k" "k + int (length vs) \<le> 16384" "1 \<le> offset e"
  shows "\<exists>pm. body_cells x (x_Map x item (TagName (options e))) k vs e
     = Some (Inr (map (body_cell x e item) vs), e\<lparr>pictureMap := pm\<rparr>)"
  using assms
proof (induction vs arbitrary: k e)
  case Nil
  show ?case by (rule exI [of _ "pictureMap e"]) simp
next
  case (Cons v vs)
  have cell: "body_cell x (e\<lparr>pictureMap := pm\<rparr>) item = body_cell x e item" for pm
    by (rule ext) (simp add: body_cell_def)
  show ?case
  proof (cases "is_picture (options e) v")
    case True
    then obtain pic where pic: "PictureFunc (options e) = Some pic" "v \<in> set (PictureKeys (options e))"
      by (auto simp: is_picture_def)
    have c: "x_cell x (k + 1) (offset e) = Inr (cell_at x (k + 1) (offset e))"
      using Cons.prems by (intro quiet_cell) auto
    define e1 where "e1 = e\<lparr>pictureMap := AList.update (cell_at x (k + 1) (offset e))
      (pic (x_String x (field_value (x_Map x item (TagName (options e))) v))) (pictureMap e)\<rparr>"
    obtain pm where "body_cells x (x_Map x item (TagName (options e1))) (k + 1) vs e1
        = Some (Inr (map (body_cell x e1 item) vs), e1\<lparr>pictureMap := pm\<rparr>)"
      using Cons.IH [of "k + 1" e1] Cons.prems by (auto simp: e1_def)
    then have "body_cells x (x_Map x item (TagName (options e))) (k + 1) vs e1
        = Some (Inr (map (body_cell x e item) vs), e\<lparr>pictureMap := pm\<rparr>)"
      by (simp add: e1_def cell)
    then show ?thesis
      by (intro exI [of _ pm]) (use pic c True in \<open>simp add: e1_def [symmetric] bind_def body_cell_def\<close>)
  next
    case False
    obtain pm where "body_cells x (x_Map x item (TagName (options e))) (k + 1) vs e
        = Some (Inr (map (body_cell x e item) vs), e\<lparr>pictureMap := pm\<rparr>)"
      using Cons.IH [of "k + 1" e] Cons.prems by auto
    then show ?thesis
      using False by (auto simp: bind_def body_cell_def is_picture_def Let_def split: option.splits)
  qed
qed

text \<open>Rows in consecutive cells of the first column.\<close>

fun numbered :: "xl \<Rightarrow> int \<Rightarrow> xentry list list \<Rightarrow> (string \<times> xentry list \<times> nat option) list" where
  "numbered x i [] = []"
| "numbered x i (r # rs) = (cell_at x 1 i, r, None) # numbered x (i + 1) rs"

lemma numbered_append: "numbered x i (rs @ ts) = numbered x i rs @ numbered x (i + int (length rs)) ts"
  by (induction rs arbitrary: i) (simp_all add: add.assoc add.commute)

lemma exportList_quiet:
  assumes "quiet x" "int (length (fieldList e)) \<le> 16384" "1 \<le> offset e"
    and "0 \<le> LimitSize (options e)" "LimitSize (options e) < 2 ^ 31"
    and "0 \<le> count e" "count e \<le> LimitSize (options e)"
    and "contents e = ss @ [(nm, rs)]"
    and "n = min (length list) (nat (LimitSize (options e) - count e))"
  shows "\<exists>pm cs. exportList x list e = Some (Inr (), e\<lparr>offset := offset e + int n, count := count e + int n,
       limit := limit e \<or> n < length list, pictureMap := pm, calls := cs\<rparr>)
     \<and> sheets_of cs = ss @ [(nm, rs @ numbered x (offset e + 1) (map (row_of x e) (take n list)))]"
  using assms
proof (induction list arbitrary: e rs n)
  case Nil
  show ?case by (rule exI [of _ "pictureMap e"], rule exI [of _ "calls e"]) (use Nil.prems in simp)
next
  case (Cons item list)
  show ?case
  proof (cases "LimitSize (options e) \<le> count e")
    case True
    then show ?thesis
      by (intro exI [of _ "pictureMap e"] exI [of _ "calls e"]) (use Cons.prems in simp)
  next
    case False
    define e1 where "e1 = e\<lparr>offset := offset e + 1\<rparr>"
    have r: "row_of x (e'\<lparr>offset := i, pictureMap := pm, calls := cs, count := c\<rparr>) = row_of x e'"
      for e' i pm cs c by (rule ext) (simp add: row_of_def body_cell_def [abs_def])
    obtain pm where pm: "body_cells x (x_Map x item (TagName (options e1))) 0 (fieldList e1) e1
        = Some (Inr (map (body_cell x e1 item) (fieldList e1)), e1\<lparr>pictureMap := pm\<rparr>)"
      using body_cells_quiet [of x 0 "fieldList e1" e1 item] Cons.prems by (auto simp: e1_def)
    have row: "map (body_cell x e1 item) (fieldList e1) = row_of x e item"
      by (simp add: e1_def row_of_def body_cell_def [abs_def])
    define cell where "cell = cell_at x 1 (offset e + 1)"
    have c: "x_cell x 1 (offset e + 1) = Inr cell"
      unfolding cell_def using Cons.prems by (intro quiet_cell) auto
    define e2 where "e2 = e1\<lparr>pictureMap := pm, calls := calls e @ [SetRow cell (row_of x e item) None],
        count := count e + 1\<rparr>"
    have e2: "fieldList e2 = fieldList e" "offset e2 = offset e + 1" "options e2 = options e"
      "count e2 = count e + 1" "limit e2 = limit e"
      by (simp_all add: e2_def e1_def)
    have row2: "row_of x e2 = row_of x e"
      by (rule ext) (simp add: row_of_def body_cell_def [abs_def] e2_def e1_def)
    have lim: "i32 (LimitSize (options e)) = LimitSize (options e)" "i32 (count e + 1) = count e + 1"
      using Cons.prems(4-7) False by (intro i32_id; simp)+
    have "call x (SetRow cell (row_of x e item) None) (e1\<lparr>pictureMap := pm\<rparr>)
        = Some (Inr (x_int x (calls e) (SetRow cell (row_of x e item) None)), e2\<lparr>count := count e\<rparr>)"
      using Cons.prems(1) by (simp add: quiet_call e2_def e1_def)
    then have step: "exportList x (item # list) e = exportList x list e2"
      using False pm c unfolding exportList.simps lim
      by (simp add: e1_def [symmetric] row bind_def lim e2_def)
    have cont: "contents e2 = ss @ [(nm, rs @ [(cell, row_of x e item, None)])]"
      using Cons.prems(8) by (simp add: e2_def e1_def)
    have n: "n = Suc (n - 1)" "n - 1 = min (length list) (nat (LimitSize (options e2) - count e2))"
      using Cons.prems(9) False by (simp_all add: e2)
    have "\<exists>pm' cs. exportList x list e2 = Some (Inr (), e2\<lparr>offset := offset e2 + int (n - 1),
        count := count e2 + int (n - 1), limit := limit e2 \<or> n - 1 < length list, pictureMap := pm', calls := cs\<rparr>)
      \<and> sheets_of cs = ss @ [(nm, (rs @ [(cell, row_of x e item, None)])
         @ numbered x (offset e2 + 1) (map (row_of x e2) (take (n - 1) list)))]"
      by (rule Cons.IH [OF Cons.prems(1) _ _ _ _ _ _ cont n(2)]) (use Cons.prems False in \<open>simp_all add: e2\<close>)
    then obtain pm' cs where IH: "exportList x list e2 = Some (Inr (), e2\<lparr>offset := offset e2 + int (n - 1),
        count := count e2 + int (n - 1), limit := limit e2 \<or> n - 1 < length list, pictureMap := pm', calls := cs\<rparr>)"
      "sheets_of cs = ss @ [(nm, (rs @ [(cell, row_of x e item, None)])
         @ numbered x (offset e2 + 1) (map (row_of x e2) (take (n - 1) list)))]" by blast
    have "e2\<lparr>offset := offset e2 + int (n - 1), count := count e2 + int (n - 1),
        limit := limit e2 \<or> n - 1 < length list, pictureMap := pm', calls := cs\<rparr>
      = e\<lparr>offset := offset e + int n, count := count e + int n, limit := limit e \<or> n < length (item # list),
          pictureMap := pm', calls := cs\<rparr>"
    proof -
      have "(n - Suc 0 < length list) = (n < Suc (length list))" using n(1) by linarith
      then show ?thesis using n(1) by (simp add: e2_def e1_def)
    qed
    moreover have "sheets_of cs = ss @ [(nm, rs @ numbered x (offset e + 1) (map (row_of x e) (take n (item # list))))]"
      using IH(2) by (subst n(1)) (simp add: e2 row2 cell_def add.assoc)
    ultimately show ?thesis using step IH(1) by (intro exI [of _ pm'] exI [of _ cs]) simp
  qed
qed

subsection \<open>Paging\<close>

text \<open>A \<open>ListFunc\<close> that pages through a list, and a header that can be built from its first page.\<close>

definition pages_through :: "ExportOptions \<Rightarrow> any list \<Rightarrow> bool" where
  "pages_through opts items \<longleftrightarrow> ListFunc opts
     = Some (\<lambda>p n. Inr (take (nat n) (drop (nat ((p - 1) * n)) items)))"

definition header_ready :: "ExportOptions \<Rightarrow> any list \<Rightarrow> bool" where
  "header_ready opts items \<longleftrightarrow>
     (let obj = VSlice TInterface (Some (map VInterface items));
          fl = (case FieldFunc opts of Some l \<Rightarrow> Some (Some l) | None \<Rightarrow> GetTags obj (TagName opts))
      in (case fl of None \<Rightarrow> False | Some None \<Rightarrow> True | Some (Some l) \<Rightarrow> int (length l) \<le> 16384)
       \<and> (TranslateFunc opts = None \<longrightarrow> GetTagsMap obj (TagName opts) (DescTag opts) \<noteq> None)
       \<and> (case HeaderFunc opts of None \<Rightarrow> True | Some f \<Rightarrow> \<forall>cs. list_all is_style (fst (f cs))))"

text \<open>What the first page settles for all rows.\<close>

definition look :: "Export \<Rightarrow> xentry list \<times> string list \<times> (string \<rightharpoonup> (string \<rightharpoonup> string)) \<times> int \<times> ExportOptions" where
  "look e = (headerCols e, fieldList e, statusEnums e, bodyStyleId e, options e)"

lemma look_sel: "look e' = look e \<Longrightarrow> headerCols e' = headerCols e \<and> fieldList e' = fieldList e
    \<and> statusEnums e' = statusEnums e \<and> bodyStyleId e' = bodyStyleId e \<and> options e' = options e"
  by (simp add: look_def)

lemma look_row_of: "look e' = look e \<Longrightarrow> row_of x e' = row_of x e"
  by (rule ext) (simp add: row_of_def body_cell_def [abs_def] look_def)

text \<open>What a step of the list leaves alone.\<close>

definition same_plan :: "Export \<Rightarrow> Export \<Rightarrow> bool" where
  "same_plan e e' \<longleftrightarrow> options e' = options e \<and> pageTotal e' = pageTotal e \<and> sheetTotal e' = sheetTotal e"

lemma same_plan_refl [simp]: "same_plan e e"
  by (simp add: same_plan_def)

lemma same_plan_trans [trans]: "same_plan e e' \<Longrightarrow> same_plan e' e'' \<Longrightarrow> same_plan e e''"
  by (simp add: same_plan_def)

lemma header_cols_quiet:
  assumes "quiet x" "case HeaderFunc (options e) of None \<Rightarrow> True | Some f \<Rightarrow> \<forall>cs. list_all is_style (fst (f cs))"
  shows "\<exists>cs cols. header_cols x e = e\<lparr>calls := calls e @ cs, headerCols := cols\<rparr> \<and> list_all is_style cs"
proof (cases "HeaderFunc (options e)")
  case None
  then show ?thesis
    using assms(1) by (auto simp: header_cols_def DefaultHeaderFunc_def bind_call is_style_def)
next
  case (Some f)
  obtain cs cols er where "f (calls e) = (cs, cols, er)" by (cases "f (calls e)")
  with Some assms(2) show ?thesis
    by (intro exI [of _ cs] exI [of _ cols]) (auto simp: header_cols_def dest: spec [of _ "calls e"])
qed

lemma preBuildHeader_quiet:
  assumes "quiet x" "header_ready (options e) items"
  shows "\<exists>fl tm st cs cols sid. preBuildHeader x items e = Some (Inr (), e\<lparr>fieldList := fl, translates := tm,
       statusEnums := st, calls := cs, headerCols := cols, bodyStyleId := sid\<rparr>)
     \<and> sheets_of cs = contents e \<and> int (length fl) \<le> 16384"
proof -
  let ?obj = "VSlice TInterface (Some (map VInterface items))"
  obtain ofl where fl: "(case FieldFunc (options e) of Some l \<Rightarrow> Some (Some l)
      | None \<Rightarrow> DefaultFieldFunc ?obj (TagName (options e))) = Some ofl"
    "int (length (case ofl of Some l \<Rightarrow> l | None \<Rightarrow> [])) \<le> 16384"
    using assms(2) by (auto simp: header_ready_def DefaultFieldFunc_def Let_def split: option.splits)
  have "\<exists>otm. (case TranslateFunc (options e) of Some m \<Rightarrow> Some (Some m)
      | None \<Rightarrow> DefaultTranslateFunc ?obj (TagName (options e)) (DescTag (options e))) = Some otm"
    using assms(2)
    by (cases "TranslateFunc (options e)") (auto simp: header_ready_def DefaultTranslateFunc_def Let_def)
  then obtain otm where tm: "(case TranslateFunc (options e) of Some m \<Rightarrow> Some (Some m)
      | None \<Rightarrow> DefaultTranslateFunc ?obj (TagName (options e)) (DescTag (options e))) = Some otm"
    by blast
  define fl' where "fl' = (case ofl of Some l \<Rightarrow> l | None \<Rightarrow> [])"
  define tm' where "tm' = (case otm of Some m \<Rightarrow> m | None \<Rightarrow> Map.empty)"
  define st where "st = (case StatusFunc (options e) of Some s \<Rightarrow> s | None \<Rightarrow> DefaultStatusFunc (lang (options e)) fl' tm')"
  define e1 where "e1 = e\<lparr>fieldList := fl', translates := tm', statusEnums := st\<rparr>"
  obtain cs cols where h: "header_cols x e1 = e1\<lparr>calls := calls e1 @ cs, headerCols := cols\<rparr>" "list_all is_style cs"
    using header_cols_quiet [of x e1] assms by (auto simp: header_ready_def e1_def Let_def)
  have "preBuildHeader x items e = Some (Inr (), e\<lparr>fieldList := fl', translates := tm', statusEnums := st,
      calls := calls e @ cs @ [NewStyle body_style], headerCols := cols,
      bodyStyleId := x_int x (calls e @ cs) (NewStyle body_style)\<rparr>)"
    unfolding preBuildHeader_def Let_def fl(1) tm option.case prod.case
      fl'_def [symmetric] tm'_def [symmetric] st_def [symmetric] e1_def [symmetric] h(1)
    by (simp add: bind_call [OF assms(1)]) (simp add: e1_def)
  moreover have "sheets_of (calls e @ cs @ [NewStyle body_style]) = contents e"
    unfolding sheets_of_append using sheets_of_styles [of "cs @ [NewStyle body_style]"] h(2)
    by (simp add: is_style_def)
  ultimately show ?thesis using fl(2) unfolding fl'_def by blast
qed

text \<open>A sheet with rows has the header first; one without rows has nothing.\<close>

definition sheet_rows :: "xl \<Rightarrow> Export \<Rightarrow> any list \<Rightarrow> (string \<times> xentry list \<times> nat option) list" where
  "sheet_rows x e rows = (if rows = [] then []
     else (cell_at x 1 1, headerCols e, Some 1) # numbered x 2 (map (row_of x e) rows))"

lemma look_sheet_rows:
  assumes "look e' = look e"
  shows "sheet_rows x e' = sheet_rows x e"
proof -
  have "headerCols e' = headerCols e" using look_sel [OF assms] by blast
  then show ?thesis by (intro ext) (simp only: sheet_rows_def look_row_of [OF assms])
qed

definition page_size :: "ExportOptions \<Rightarrow> nat" where "page_size opts = nat (PageSize opts)"

text \<open>The rows to export, and the rows of \<open>k\<close> pages after the first \<open>p\<close>.\<close>

definition kept :: "ExportOptions \<Rightarrow> any list \<Rightarrow> any list" where
  "kept opts items = take (nat (LimitSize opts)) items"

definition rows_after :: "ExportOptions \<Rightarrow> any list \<Rightarrow> nat \<Rightarrow> nat \<Rightarrow> any list" where
  "rows_after opts items p k = take (k * page_size opts) (drop (p * page_size opts) (kept opts items))"

definition planned :: "xl \<Rightarrow> any list \<Rightarrow> nat \<Rightarrow> Export \<Rightarrow> bool" where
  "planned x items pT e \<longleftrightarrow> quiet x \<and> pages_through (options e) items \<and> 0 < PageSize (options e)
     \<and> 0 < LimitSize (options e) \<and> LimitSize (options e) < 2 ^ 31 \<and> pageTotal e = int pT
     \<and> (pT - 1) * page_size (options e) < length (kept (options e) items)
     \<and> length (kept (options e) items) \<le> pT * page_size (options e)
     \<and> header_ready (options e) (take (page_size (options e)) items)"

lemma planned_same: "planned x items pT e \<Longrightarrow> same_plan e e' \<Longrightarrow> planned x items pT e'"
  by (simp add: planned_def same_plan_def)

text \<open>Where the loop over the pages is: \<open>p\<close> pages read, \<open>done\<close> the rows of this sheet.\<close>

definition at_page :: "xl \<Rightarrow> any list \<Rightarrow> sheet list \<Rightarrow> string \<Rightarrow> nat \<Rightarrow> any list \<Rightarrow> Export \<Rightarrow> bool" where
  "at_page x items ss nm p ready e \<longleftrightarrow> page e = int p
     \<and> count e = int (min (length (kept (options e) items)) (p * page_size (options e)))
     \<and> offset e = 1 + int (length ready)
     \<and> contents e = ss @ [(nm, sheet_rows x e ready)]"

lemma page_rows:
  assumes "0 \<le> l" "p * P \<le> min (nat l) (length items)"
  defines "list \<equiv> take P (drop (p * P) items)" and "R \<equiv> take (nat l) items"
  defines "n \<equiv> min (length list) (nat (l - int (p * P)))"
  shows "take n list = take P (drop (p * P) R)" "p * P + n = min (length R) (Suc p * P)"
    "n < length list \<Longrightarrow> length R < Suc p * P"
proof -
  have l: "nat (l - int (p * P)) = nat l - p * P"
    using nat_diff_distrib' [OF assms(1), of "int (p * P)"] by (simp del: of_nat_mult)
  have "take n list = take (nat l - p * P) list" unfolding n_def l by (simp add: min_def)
  then show "take n list = take P (drop (p * P) R)" by (simp add: list_def R_def drop_take min.commute)
  show "p * P + n = min (length R) (Suc p * P)"
    using assms(2) unfolding n_def l by (simp add: list_def R_def) linarith
  then show "n < length list \<Longrightarrow> length R < Suc p * P"
    by (simp add: list_def R_def) linarith
qed

lemma list_page_quiet:
  assumes pl: "planned x items pT e" and at: "at_page x items ss nm p ready e" and p: "p < pT"
    and h: "isSetHeader \<longleftrightarrow> ready \<noteq> []" and built: "isBuildHeader \<Longrightarrow> int (length (fieldList e)) \<le> 16384"
    and unbuilt: "\<not> isBuildHeader \<Longrightarrow> p = 0 \<and> ready = []" and lim: "\<not> limit e"
  shows "\<exists>e'. list_page x (cell_at x 1 1) isBuildHeader isSetHeader e = Some (Inr (), e') \<and> same_plan e e'
     \<and> at_page x items ss nm (Suc p) (ready @ rows_after (options e) items p 1) e'
     \<and> (isBuildHeader \<longrightarrow> look e' = look e) \<and> int (length (fieldList e')) \<le> 16384
     \<and> (limit e' \<longrightarrow> Suc p = pT) \<and> rows_after (options e) items p 1 \<noteq> []"
proof -
  define P where "P = page_size (options e)"
  define R where "R = kept (options e) items"
  define list where "list = take P (drop (p * P) items)"
  have q: "quiet x" and P: "0 < P" "PageSize (options e) = int P"
    and L: "0 < LimitSize (options e)" "LimitSize (options e) < 2 ^ 31"
    and T: "(pT - 1) * P < length R" "length R \<le> pT * P"
    using pl by (simp_all add: planned_def P_def R_def page_size_def)
  have pP: "p * P < length R"
  proof -
    have "p * P \<le> (pT - 1) * P" using p by (intro mult_right_mono) auto
    with T(1) show ?thesis by linarith
  qed
  have a: "page e = int p" "count e = int (p * P)" "offset e = 1 + int (length ready)"
    "contents e = ss @ [(nm, sheet_rows x e ready)]"
    using at pP by (simp_all add: at_page_def P_def R_def)
  define e1 where "e1 = e\<lparr>page := page e + 1\<rparr>"
  have lf: "ListFunc (options e) = Some (\<lambda>p n. Inr (take (nat n) (drop (nat ((p - 1) * n)) items)))"
    using pl by (simp add: planned_def pages_through_def)
  have nn: "nat (int p * int P) = p * P" by (simp add: nat_mult_distrib)
  have build: "\<exists>e2. (if isBuildHeader then ret () else preBuildHeader x list) e1 = Some (Inr (), e2)
      \<and> same_plan e e2 \<and> page e2 = 1 + int p \<and> count e2 = count e \<and> offset e2 = offset e \<and> limit e2 = limit e
      \<and> contents e2 = ss @ [(nm, sheet_rows x e2 ready)] \<and> int (length (fieldList e2)) \<le> 16384
      \<and> (isBuildHeader \<longrightarrow> look e2 = look e)"
  proof (cases isBuildHeader)
    case True
    have "look e1 = look e" by (simp add: e1_def look_def)
    then have "sheet_rows x e1 ready = sheet_rows x e ready" by (simp only: look_sheet_rows [of e1 e])
    with True built a show ?thesis by (simp add: e1_def same_plan_def look_def)
  next
    case False
    then have "header_ready (options e1) list" "ready = []"
      using pl unbuilt by (simp_all add: planned_def list_def e1_def P_def)
    with preBuildHeader_quiet [OF q, of e1 list] False a show ?thesis
      by (auto simp: e1_def same_plan_def sheet_rows_def)
  qed
  then obtain e2 where e2: "(if isBuildHeader then ret () else preBuildHeader x list) e1 = Some (Inr (), e2)"
    "same_plan e e2" "page e2 = 1 + int p" "count e2 = count e" "offset e2 = offset e" "limit e2 = limit e"
    "contents e2 = ss @ [(nm, sheet_rows x e2 ready)]" "int (length (fieldList e2)) \<le> 16384"
    "isBuildHeader \<longrightarrow> look e2 = look e" by blast
  define e3 where "e3 = (if isSetHeader then e2
    else e2\<lparr>calls := calls e2 @ [SetRow (cell_at x 1 1) (headerCols e2) (Some 1)]\<rparr>)"
  define hdr where "hdr = (cell_at x 1 1, headerCols e2, Some (1::nat))"
  have set: "(if isSetHeader then ret () else (\<lambda>e. bind (call x (SetRow (cell_at x 1 1) (headerCols e) (Some 1)))
      (\<lambda>_. ret ()) e)) e2 = Some (Inr (), e3)"
    by (simp add: e3_def bind_call [OF q])
  have c3: "contents e3 = ss @ [(nm, hdr # numbered x 2 (map (row_of x e2) ready))]"
    using e2(7) h by (auto simp: e3_def sheet_rows_def hdr_def)
  have l3: "look e3 = look e2" "options e3 = options e" "count e3 = int (p * P)" "offset e3 = 1 + int (length ready)"
    "limit e3 = limit e" "fieldList e3 = fieldList e2" "same_plan e e3" "page e3 = 1 + int p"
    using e2 a by (simp_all add: e3_def look_def same_plan_def)
  define n where "n = min (length list) (nat (LimitSize (options e) - int (p * P)))"
  have R: "R = take (nat (LimitSize (options e))) items" by (simp add: R_def kept_def)
  note pr = page_rows [of "LimitSize (options e)" p P items, folded list_def R, folded n_def]
  have le: "p * P \<le> min (nat (LimitSize (options e))) (length items)" using pP by (simp add: R)
  have le': "int p * int P \<le> LimitSize (options e)"
    using le L(1) by (simp add: le_nat_iff)
  have n3: "n = min (length list) (nat (LimitSize (options e3) - count e3))" by (simp add: n_def l3)
  have "\<exists>pm cs. exportList x list e3 = Some (Inr (), e3\<lparr>offset := offset e3 + int n, count := count e3 + int n,
       limit := limit e3 \<or> n < length list, pictureMap := pm, calls := cs\<rparr>)
     \<and> sheets_of cs = ss @ [(nm, (hdr # numbered x 2 (map (row_of x e2) ready))
         @ numbered x (offset e3 + 1) (map (row_of x e3) (take n list)))]"
    by (rule exportList_quiet [OF q _ _ _ _ _ _ c3 n3]) (use e2(8) L le' in \<open>simp_all add: l3\<close>)
  then obtain pm cs where x: "exportList x list e3 = Some (Inr (), e3\<lparr>offset := offset e3 + int n,
       count := count e3 + int n, limit := limit e3 \<or> n < length list, pictureMap := pm, calls := cs\<rparr>)"
     "sheets_of cs = ss @ [(nm, (hdr # numbered x 2 (map (row_of x e2) ready))
         @ numbered x (offset e3 + 1) (map (row_of x e3) (take n list)))]" by blast
  define e4 where "e4 = e3\<lparr>offset := offset e3 + int n,
       count := count e3 + int n, limit := limit e3 \<or> n < length list, pictureMap := pm, calls := cs\<rparr>"
  have pg: "take n list = rows_after (options e) items p 1"
    using pr(1) L le by (simp add: rows_after_def P_def R_def)
  have lr: "length (take n list) = n" by (simp add: n_def)
  have l4: "look e4 = look e2" "same_plan e e4" using l3 by (simp_all add: e4_def look_def same_plan_def)
  have n: "0 < n" using pr(2) L le pP P(1) by simp
  have ne: "list \<noteq> []" using n by (auto simp: n_def)
  have run: "list_page x (cell_at x 1 1) isBuildHeader isSetHeader e = Some (Inr (), e4)"
    unfolding list_page_def lf option.case Let_def e1_def [symmetric]
    using e2(1) set x(1) by (simp add: e1_def a P nn list_def [symmetric] bind_def e4_def del: One_nat_def)
  have cont: "contents e4 = ss @ [(nm, sheet_rows x e4 (ready @ take n list))]"
    using x(2) n ne lr l3(4) look_row_of [OF l4(1)] look_row_of [OF l3(1)] look_sel [OF l4(1)]
    by (simp add: e4_def sheet_rows_def hdr_def numbered_append add.commute)
  have "at_page x items ss nm (Suc p) (ready @ take n list) e4"
  proof -
    have o: "options e4 = options e" using l3(2) by (simp add: e4_def)
    have c: "count e4 = int (p * P) + int n" using l3(3) by (simp add: e4_def)
    have pn: "p * P + n = min (length R) (Suc p * P)" using pr(2) L(1) le by simp
    have "count e4 = int (min (length R) (Suc p * P))" unfolding c pn [symmetric] by simp
    moreover have "page e4 = int (Suc p)" "offset e4 = 1 + int (length (ready @ take n list))"
      using l3(4,8) lr by (simp_all add: e4_def)
    ultimately show ?thesis using cont unfolding at_page_def o R_def P_def by blast
  qed
  moreover have "limit e4 \<longrightarrow> Suc p = pT"
  proof
    assume "limit e4"
    then have "length R < Suc p * P" using pr(3) L le l3(5) lim by (simp add: e4_def)
    with T(1) have "(pT - 1) * P < Suc p * P" by linarith
    then have "pT - 1 < Suc p" by (simp only: mult_less_cancel2)
    with p show "Suc p = pT" by simp
  qed
  moreover have "take n list \<noteq> []" using lr n by auto
  moreover have "isBuildHeader \<longrightarrow> look e4 = look e" using e2(9) l4(1) by simp
  moreover have "int (length (fieldList e4)) \<le> 16384" using e2(8) look_sel [OF l4(1)] by simp
  ultimately show ?thesis using run l4(2) pg by (intro exI [of _ e4]) simp
qed

lemma rows_after_add: "rows_after opts items p j @ rows_after opts items (p + j) k = rows_after opts items p (j + k)"
  by (simp add: rows_after_def add_mult_distrib take_add add.commute)

lemma rows_after_none: "length (kept opts items) \<le> p * page_size opts \<Longrightarrow> rows_after opts items p k = []"
  by (simp add: rows_after_def)

text \<open>Pages past the last one add no rows.\<close>

lemma rows_after_min:
  assumes "length (kept opts items) \<le> pT * page_size opts"
  shows "rows_after opts items (min p pT) (min (min p pT + m) pT - min p pT) = rows_after opts items p m"
proof (cases "p \<le> pT")
  case True
  have "rows_after opts items p (min (p + m) pT - p) @ rows_after opts items (min (p + m) pT) (p + m - min (p + m) pT)
      = rows_after opts items p m"
    using rows_after_add [of opts items p "min (p + m) pT - p" "p + m - min (p + m) pT"] True by (simp add: min_def)
  moreover have "rows_after opts items (min (p + m) pT) (p + m - min (p + m) pT) = []"
    using assms by (cases "p + m \<le> pT") (simp_all add: rows_after_none rows_after_def [of _ _ _ 0])
  ultimately show ?thesis using True by (simp add: min_def)
next
  case False
  then have "length (kept opts items) \<le> p * page_size opts"
    using assms by (meson le_trans mult_le_mono1 nat_le_linear)
  with False show ?thesis by (simp add: rows_after_none rows_after_def [of _ _ _ 0])
qed

lemma pages_quiet:
  assumes "planned x items pT e" "at_page x items ss nm p ready e" "p \<le> pT"
    and "isSetHeader \<longleftrightarrow> ready \<noteq> []" "isBuildHeader \<Longrightarrow> int (length (fieldList e)) \<le> 16384"
    and "\<not> isBuildHeader \<Longrightarrow> p = 0 \<and> ready = []" "limit e \<Longrightarrow> p = pT"
  shows "\<exists>e'. pages x (cell_at x 1 1) s isBuildHeader isSetHeader e
         = Some (Inr (isBuildHeader \<or> (0 < s \<and> p < pT)), e')
     \<and> same_plan e e'
     \<and> at_page x items ss nm (min (p + s) pT) (ready @ rows_after (options e) items p (min (p + s) pT - p)) e'
     \<and> (isBuildHeader \<longrightarrow> look e' = look e)
     \<and> (isBuildHeader \<or> (0 < s \<and> p < pT) \<longrightarrow> int (length (fieldList e')) \<le> 16384)
     \<and> (limit e' \<longrightarrow> min (p + s) pT = pT)"
  using assms
proof (induction s arbitrary: p ready isBuildHeader isSetHeader e)
  case 0
  then show ?case by (simp add: pages.simps rows_after_def)
next
  case (Suc s)
  have pt: "page e = int p" "pageTotal e = int pT" using Suc.prems(1,2) by (simp_all add: planned_def at_page_def)
  show ?case
  proof (cases "p < pT \<and> \<not> limit e")
    case False
    then have "p = pT" using Suc.prems(3,7) by auto
    then show ?thesis using Suc.prems False pt by (simp add: pages.simps rows_after_def)
  next
    case True
    obtain e1 where e1: "list_page x (cell_at x 1 1) isBuildHeader isSetHeader e = Some (Inr (), e1)"
      "same_plan e e1" "at_page x items ss nm (Suc p) (ready @ rows_after (options e) items p 1) e1"
      "isBuildHeader \<longrightarrow> look e1 = look e" "int (length (fieldList e1)) \<le> 16384" "limit e1 \<longrightarrow> Suc p = pT"
      "rows_after (options e) items p 1 \<noteq> []"
      using list_page_quiet [OF Suc.prems(1,2) _ Suc.prems(4-6)] True by blast
    have o: "options e1 = options e" using e1(2) by (simp add: same_plan_def)
    have step: "pages x (cell_at x 1 1) (Suc s) isBuildHeader isSetHeader e = pages x (cell_at x 1 1) s True True e1"
      using True pt e1(1) by (subst pages.simps) (simp add: bind_def)
    obtain e2 where e2: "pages x (cell_at x 1 1) s True True e1 = Some (Inr True, e2)" "same_plan e1 e2"
      "at_page x items ss nm (min (Suc p + s) pT)
        ((ready @ rows_after (options e) items p 1) @ rows_after (options e1) items (Suc p) (min (Suc p + s) pT - Suc p)) e2"
      "look e2 = look e1" "int (length (fieldList e2)) \<le> 16384" "limit e2 \<longrightarrow> min (Suc p + s) pT = pT"
      using Suc.IH [OF planned_same [OF Suc.prems(1) e1(2)] e1(3), of True True] True e1(5-7) by auto
    have "(ready @ rows_after (options e) items p 1) @ rows_after (options e1) items (Suc p) (min (Suc p + s) pT - Suc p)
        = ready @ rows_after (options e) items p (min (p + Suc s) pT - p)"
    proof -
      have "1 + (min (Suc p + s) pT - Suc p) = min (p + Suc s) pT - p" using True by (simp add: min_def) linarith
      then show ?thesis using rows_after_add [of "options e" items p 1] by (simp add: o)
    qed
    then show ?thesis
      using step e2 e1(2,4) True same_plan_trans [OF e1(2) e2(2)] by (intro exI [of _ e2]) auto
  qed
qed

subsection \<open>Sheets\<close>

lemma add_pictures_quiet:
  assumes "quiet x"
  shows "\<exists>cs. add_pictures x nm cols e = Some (Inr (), e\<lparr>calls := cs\<rparr>) \<and> sheets_of cs = contents e"
proof (induction cols arbitrary: e)
  case Nil
  show ?case by (rule exI [of _ "calls e"]) simp
next
  case (Cons col cols)
  define c where "c = AddPicture nm col (lookup (map_of (pictureMap e)) col) (GraphicOptions (options e))"
  obtain cs where "add_pictures x nm cols (e\<lparr>calls := calls e @ [c]\<rparr>) = Some (Inr (), e\<lparr>calls := cs\<rparr>)"
    "sheets_of cs = contents e"
    using Cons.IH [of "e\<lparr>calls := calls e @ [c]\<rparr>"] by (auto simp: c_def)
  then show ?case
    by (intro exI [of _ cs]) (simp add: bind_call [OF assms] c_def)
qed

text \<open>The \<open>j\<close>-th sheet, with the rows of the pages \<open>(j - 1) * m\<close> to \<open>j * m\<close>.\<close>

definition sheet_at :: "xl \<Rightarrow> Export \<Rightarrow> any list \<Rightarrow> nat \<Rightarrow> nat \<Rightarrow> sheet" where
  "sheet_at x e items m j = (sheet_name e (int j), sheet_rows x e (rows_after (options e) items ((j - 1) * m) m))"

lemma look_sheet_at:
  assumes "look e' = look e"
  shows "sheet_at x e' items m = sheet_at x e items m"
proof -
  have "options e' = options e" using look_sel [OF assms] by blast
  then show ?thesis by (intro ext) (simp only: sheet_at_def sheet_name_def look_sheet_rows [OF assms])
qed

text \<open>Where the loop over the sheets is: \<open>j\<close> sheets written.\<close>

definition at_sheet :: "xl \<Rightarrow> any list \<Rightarrow> nat \<Rightarrow> nat \<Rightarrow> nat \<Rightarrow> bool \<Rightarrow> Export \<Rightarrow> bool" where
  "at_sheet x items pT m j built e \<longleftrightarrow> page e = int (min (j * m) pT)
     \<and> count e = int (min (length (kept (options e) items)) (min (j * m) pT * page_size (options e)))
     \<and> contents e = map (sheet_at x e items m) [1..<Suc j]
     \<and> (if built then int (length (fieldList e)) \<le> 16384 else j = 0)"

lemma one_sheet_quiet:
  assumes pl: "planned x items pT e" and at: "at_sheet x items pT m j built e" and lim: "\<not> limit e"
    and m: "nat (ceil_quot x (pageTotal e) (sheetTotal e)) = m" "0 < m" and pT: "0 < pT"
  shows "\<exists>e'. one_sheet x (int (Suc j)) built e = Some (Inr True, e') \<and> same_plan e e'
     \<and> at_sheet x items pT m (Suc j) True e' \<and> (limit e' \<longrightarrow> pT \<le> Suc j * m)"
proof -
  define nm where "nm = sheet_name e (int (Suc j))"
  define p where "p = min (j * m) pT"
  have q: "quiet x" using pl by (simp add: planned_def)
  have a: "page e = int p" "count e = int (min (length (kept (options e) items)) (p * page_size (options e)))"
    "contents e = map (sheet_at x e items m) [1..<Suc j]" "if built then int (length (fieldList e)) \<le> 16384 else j = 0"
    using at unfolding at_sheet_def p_def by blast+
  define sheet where "sheet = x_int x (calls e) (NewSheet nm)"
  define e1 where "e1 = e\<lparr>offset := 1, calls := calls e @ [NewSheet nm, SetActiveSheet sheet, NewStreamWriter nm],
    pictureMap := []\<rparr>"
  have e1: "same_plan e e1" "look e1 = look e" "limit e1 = limit e" "fieldList e1 = fieldList e" "options e1 = options e"
    by (simp_all add: e1_def same_plan_def look_def)
  have at1: "at_page x items (contents e) nm p [] e1"
  proof -
    have "contents e1 = contents e @ [(nm, [])]" by (simp add: e1_def sheets_of_append)
    moreover have "page e1 = page e" "count e1 = count e" "offset e1 = 1" by (simp_all add: e1_def)
    ultimately show ?thesis using a(1,2) e1(5) by (simp add: at_page_def sheet_rows_def)
  qed
  have unb: "\<not> built \<Longrightarrow> p = 0 \<and> [] = []" using a(4) by (simp add: p_def split: if_splits)
  have bui: "built \<Longrightarrow> int (length (fieldList e1)) \<le> 16384" using a(4) e1(4) by simp
  define e' where "e' = min (p + m) pT"
  obtain e2 where e2: "pages x (cell_at x 1 1) m built False e1 = Some (Inr (built \<or> (0 < m \<and> p < pT)), e2)"
    "same_plan e1 e2" "at_page x items (contents e) nm e' ([] @ rows_after (options e1) items p (e' - p)) e2"
    "built \<longrightarrow> look e2 = look e1" "built \<or> (0 < m \<and> p < pT) \<longrightarrow> int (length (fieldList e2)) \<le> 16384"
    "limit e2 \<longrightarrow> e' = pT"
    unfolding e'_def using pages_quiet [OF planned_same [OF pl e1(1)] at1 _ _ bui unb, of False] lim e1(3)
    by (auto simp: p_def)
  have b: "(built \<or> (0 < m \<and> p < pT)) = True" using unb pT m(2) by (cases built) auto
  obtain cs where cs: "add_pictures x nm (x_order x (calls e2) (map fst (pictureMap e2))) e2 = Some (Inr (), e2\<lparr>calls := cs\<rparr>)"
    "sheets_of cs = contents e2"
    using add_pictures_quiet [OF q] by blast
  define e3 where "e3 = e2\<lparr>calls := cs @ [Flush]\<rparr>"
  have run: "one_sheet x (int (Suc j)) built e = Some (Inr True, e3)"
  proof -
    have "one_sheet x (int (Suc j)) built e = bind (\<lambda>e. pages x (cell_at x 1 1) m built False (e\<lparr>pictureMap := []\<rparr>))
        (\<lambda>built. bind (\<lambda>e. add_pictures x nm (x_order x (calls e) (map fst (pictureMap e))) e) (\<lambda>_.
         bind (call x Flush) (\<lambda>_. ret built)))
        (e\<lparr>offset := 1, calls := calls e @ [NewSheet nm, SetActiveSheet sheet, NewStreamWriter nm]\<rparr>)"
      unfolding one_sheet_def Let_def nm_def [symmetric] quiet_cell [OF q, of 1 1, simplified]
      by (simp add: bind_call [OF q] sheet_def) (simp add: bind_def m)
    also have "\<dots> = Some (Inr True, e3)"
      using e2(1) cs(1) b by (simp add: bind_def e1_def [symmetric] quiet_call [OF q] e3_def)
    finally show ?thesis .
  qed
  have sp: "same_plan e e3" using e1(1) e2(2) by (simp add: same_plan_def e3_def)
  have l3: "look e3 = look e2" "options e3 = options e" using sp by (simp_all add: look_def e3_def same_plan_def)
  have e'j: "e' = min (Suc j * m) pT" by (simp add: e'_def p_def min_def)
  have le: "length (kept (options e) items) \<le> pT * page_size (options e)" using pl by (simp add: planned_def)
  have rows: "rows_after (options e) items p (e' - p) = rows_after (options e) items (j * m) m"
    using rows_after_min [OF le, of "j * m" m] by (simp add: p_def e'_def)
  have cont: "contents e3 = contents e @ [(nm, sheet_rows x e3 (rows_after (options e) items (j * m) m))]"
    using e2(3) cs(2) rows look_sheet_rows [OF l3(1)] e1(5) by (simp add: at_page_def e3_def)
  have "contents e = map (sheet_at x e3 items m) [1..<Suc j]"
  proof (cases built)
    case True
    then have "look e3 = look e" using l3(1) e2(4) e1(2) by simp
    then show ?thesis using a(3) look_sheet_at [of e3 e] by simp
  next
    case False
    then show ?thesis using a(3,4) by simp
  qed
  with cont have "contents e3 = map (sheet_at x e3 items m) [1..<Suc (Suc j)]"
    by (simp add: sheet_at_def l3(2) nm_def sheet_name_def)
  moreover have "page e3 = int e'" "count e3 = int (min (length (kept (options e) items)) (e' * page_size (options e)))"
    "int (length (fieldList e3)) \<le> 16384"
    using e2(3,5) b e2(2) e1(5) by (simp_all add: e3_def at_page_def same_plan_def)
  ultimately have "at_sheet x items pT m (Suc j) True e3" unfolding at_sheet_def l3(2) e'j by simp
  moreover have "limit e3 \<longrightarrow> pT \<le> Suc j * m" using e2(6) by (simp add: e3_def e'j min_def split: if_splits)
  ultimately show ?thesis using run sp by blast
qed

lemma sheets_quiet:
  assumes "planned x items pT e" "at_sheet x items pT m j built e" "limit e \<longrightarrow> pT \<le> j * m"
    and "nat (ceil_quot x (pageTotal e) (sheetTotal e)) = m" "0 < m" "0 < pT"
  shows "\<exists>e' k. sheets x n (int (Suc j)) built e = Some (Inr (), e') \<and> same_plan e e' \<and> k \<le> n
     \<and> (\<exists>b. at_sheet x items pT m (j + k) b e') \<and> (k = n \<or> pT \<le> (j + k) * m)"
  using assms
proof (induction n arbitrary: j built e)
  case 0
  then show ?case by (auto simp: sheets.simps)
next
  case (Suc n)
  show ?case
  proof (cases "limit e")
    case True
    then show ?thesis using Suc.prems by (intro exI [of _ e] exI [of _ 0]) (auto simp: sheets.simps)
  next
    case False
    obtain e1 where e1: "one_sheet x (int (Suc j)) built e = Some (Inr True, e1)" "same_plan e e1"
      "at_sheet x items pT m (Suc j) True e1" "limit e1 \<longrightarrow> pT \<le> Suc j * m"
      using one_sheet_quiet [OF Suc.prems(1,2) False Suc.prems(4-6)] by blast
    have "nat (ceil_quot x (pageTotal e1) (sheetTotal e1)) = m"
      using e1(2) Suc.prems(4) by (simp add: same_plan_def)
    from Suc.IH [OF planned_same [OF Suc.prems(1) e1(2)] e1(3,4) this Suc.prems(5,6)]
    obtain e' k b where e': "sheets x n (int (Suc (Suc j))) True e1 = Some (Inr (), e')" "same_plan e1 e'" "k \<le> n"
      "at_sheet x items pT m (Suc j + k) b e'" "k = n \<or> pT \<le> (Suc j + k) * m" by blast
    have "sheets x (Suc n) (int (Suc j)) built e = Some (Inr (), e')"
      using False e1(1) e'(1) by (subst sheets.simps) (simp add: bind_def add.commute)
    with e' same_plan_trans [OF e1(2) e'(2)] show ?thesis
      by (intro exI [of _ e'] exI [of _ "Suc k"]) auto
  qed
qed

subsection \<open>The whole export\<close>

text \<open>
  What an export of \<open>items\<close> needs: a package that does not fail, a \<open>ListFunc\<close> and a \<open>TotalFunc\<close> that
  tell the truth, positive sizes, and a header.
\<close>

definition export_job :: "xl \<Rightarrow> ExportOptions \<Rightarrow> any list \<Rightarrow> bool" where
  "export_job x opts items \<longleftrightarrow> quiet x \<and> pages_through opts items
     \<and> TotalFunc opts = Some (int (length items), None) \<and> items \<noteq> []
     \<and> 0 < PageSize opts \<and> 0 < LimitSize opts \<and> LimitSize opts < 2 ^ 31
     \<and> header_ready opts (take (page_size opts) items)
     \<and> SummaryFunc opts = None \<and> ParamsFunc opts = None \<and> FinishFunc opts \<in> {None, Some None}"

definition sheet_count :: "xl \<Rightarrow> ExportOptions \<Rightarrow> any list \<Rightarrow> nat" where
  "sheet_count x opts items = nat (ceil_quot x (int (length (kept opts items))) (SheetSize opts))"

definition page_count :: "xl \<Rightarrow> ExportOptions \<Rightarrow> any list \<Rightarrow> nat" where
  "page_count x opts items = nat (ceil_quot x (int (length (kept opts items))) (PageSize opts))"

text \<open>The pages of a sheet.\<close>

definition share :: "xl \<Rightarrow> ExportOptions \<Rightarrow> any list \<Rightarrow> nat" where
  "share x opts items = nat (ceil_quot x (int (page_count x opts items)) (int (sheet_count x opts items)))"

lemma nat_ceil_quot:
  assumes "0 < a" "0 < b"
  shows "0 < nat (ceil_quot x (int a) (int b))" "a \<le> nat (ceil_quot x (int a) (int b)) * b"
    "(nat (ceil_quot x (int a) (int b)) - 1) * b < a"
proof -
  have p: "0 < ceil_quot x (int a) (int b)" using assms by (intro ceil_quot_pos) simp_all
  then obtain n where n: "ceil_quot x (int a) (int b) = int n" "0 < n" by (metis of_nat_0_less_iff zero_less_imp_eq_int)
  note b = ceil_quot_bounds [where b = "int b" and a = "int a" and x = x, unfolded n(1)]
  show "0 < nat (ceil_quot x (int a) (int b))" using p by simp
  have "int a \<le> int n * int b" using b(1) assms by simp
  then show "a \<le> nat (ceil_quot x (int a) (int b)) * b" unfolding n(1) by (simp flip: of_nat_mult)
  have "int (n - 1) * int b < int a" using b(2) assms n(2) by (simp add: of_nat_diff)
  then show "(nat (ceil_quot x (int a) (int b)) - 1) * b < a" unfolding n(1) by (simp flip: of_nat_mult)
qed

lemma NewExport_sizes: "PageSize (options (NewExport fs)) \<le> SheetSize (options (NewExport fs))"
  by (simp add: NewExport_def Let_def)

lemma NewExport_count [simp]: "count (NewExport fs) = 0"
  by (simp add: NewExport_def Let_def)

lemma kept_pos: "export_job x opts items \<Longrightarrow> 0 < length (kept opts items)"
  by (auto simp: export_job_def kept_def)

lemma job_counts:
  assumes "export_job x opts items" "PageSize opts \<le> SheetSize opts"
  shows "0 < page_count x opts items" "0 < sheet_count x opts items" "0 < share x opts items"
    "page_count x opts items \<le> sheet_count x opts items * share x opts items"
    "length (kept opts items) \<le> page_count x opts items * page_size opts"
    "(page_count x opts items - 1) * page_size opts < length (kept opts items)"
proof -
  have P: "PageSize opts = int (page_size opts)" "0 < page_size opts"
    and S: "SheetSize opts = int (nat (SheetSize opts))" "0 < nat (SheetSize opts)"
    using assms by (simp_all add: export_job_def page_size_def)
  note p = nat_ceil_quot [OF kept_pos [OF assms(1)] P(2), of x, folded P(1), folded page_count_def]
  note s = nat_ceil_quot [OF kept_pos [OF assms(1)] S(2), of x, folded S(1), folded sheet_count_def]
  note m = nat_ceil_quot [OF p(1) s(1), of x, folded share_def]
  show "0 < page_count x opts items" "0 < sheet_count x opts items" "0 < share x opts items"
    "page_count x opts items \<le> sheet_count x opts items * share x opts items"
    "length (kept opts items) \<le> page_count x opts items * page_size opts"
    "(page_count x opts items - 1) * page_size opts < length (kept opts items)"
    using p s(1) m by (simp_all add: mult.commute)
qed

lemma before_quiet:
  assumes "export_job x (options e) items" "PageSize (options e) \<le> SheetSize (options e)"
  shows "before x e = Some (Inr (), e\<lparr>calls := [NewFile], total := int (length items),
     pageTotal := int (page_count x (options e) items), sheetTotal := int (sheet_count x (options e) items), page := 0\<rparr>)"
proof -
  have N: "(if LimitSize (options e) \<le> int (length items) then ceil_quot x (LimitSize (options e)) b
      else ceil_quot x (int (length items)) b) = ceil_quot x (int (length (kept (options e) items))) b" for b
  proof -
    have "0 < LimitSize (options e)" using assms(1) by (simp add: export_job_def)
    then have "(if LimitSize (options e) \<le> int (length items) then LimitSize (options e) else int (length items))
        = int (length (kept (options e) items))" by (simp add: kept_def min_def) linarith
    then show ?thesis by (simp split: if_splits)
  qed
  have "0 < page_count x (options e) items" "0 < sheet_count x (options e) items"
    using job_counts [OF assms] by blast+
  then have n: "ceil_quot x (int (length (kept (options e) items))) (PageSize (options e)) = int (page_count x (options e) items)"
    "ceil_quot x (int (length (kept (options e) items))) (SheetSize (options e)) = int (sheet_count x (options e) items)"
    "0 < page_count x (options e) items"
    by (simp_all add: page_count_def sheet_count_def)
  have T: "TotalFunc (options e) = Some (int (length items), None)" using assms(1) by (simp add: export_job_def)
  show ?thesis
  proof (cases "LimitSize (options e) \<le> int (length items)")
    case True
    then show ?thesis using T n N [of "PageSize (options e)"] N [of "SheetSize (options e)"]
      by (simp add: before_def Let_def)
  next
    case False
    then show ?thesis using T n N [of "PageSize (options e)"] N [of "SheetSize (options e)"]
      by (simp add: before_def Let_def)
  qed
qed

lemma run_quiet:
  assumes job: "export_job x (options e) items" and S: "PageSize (options e) \<le> SheetSize (options e)"
    and c: "count e = 0"
  defines "m \<equiv> share x (options e) items" and "q \<equiv> sheet_count x (options e) items"
    and "pT \<equiv> page_count x (options e) items"
  shows "\<exists>e' k cs. Run x e = Some (None, e') \<and> options e' = options e \<and> k \<le> q \<and> pT \<le> k * m \<and> (k = q \<or> pT \<le> k * m)
     \<and> contents e' = map (sheet_at x e' items m) [1..<Suc k]
     \<and> calls e' = cs @ [SaveAs (FileName (options e)), CloseFile]"
proof -
  have q: "quiet x" using job by (simp add: export_job_def)
  define e1 where "e1 = e\<lparr>calls := [NewFile], total := int (length items), pageTotal := int pT, sheetTotal := int q,
      page := 0, limit := False\<rparr>"
  have o1: "options e1 = options e" by (simp add: e1_def)
  note jc = job_counts [OF job S, folded m_def q_def pT_def]
  have pl: "planned x items pT e1"
    using job jc(5,6) by (simp add: planned_def o1 export_job_def) (simp add: e1_def)
  have at: "at_sheet x items pT m 0 False e1"
    by (simp add: at_sheet_def e1_def c sheets_of_def)
  have "nat (ceil_quot x (pageTotal e1) (sheetTotal e1)) = m"
    by (simp add: e1_def m_def share_def pT_def q_def)
  from sheets_quiet [OF pl at _ this jc(3,1), of q]
  obtain e2 k b where e2: "sheets x q 1 False e1 = Some (Inr (), e2)" "same_plan e1 e2" "k \<le> q"
    "at_sheet x items pT m k b e2" "k = q \<or> pT \<le> k * m"
    by (auto simp: e1_def)
  have o2: "options e2 = options e" using e2(2) o1 by (simp add: same_plan_def)
  have km: "pT \<le> k * m" using e2(5) jc(4) by auto
  have c2: "contents e2 = map (sheet_at x e2 items m) [1..<Suc k]" using e2(4) by (simp add: at_sheet_def)
  define cs where "cs = (calls e2 @ (if SheetPrefix (options e) \<noteq> ''Sheet'' then [DeleteSheet ''Sheet1''] else []))
      @ [SetActiveSheet 0]"
  define e3 where "e3 = e2\<lparr>calls := cs @ [SaveAs (FileName (options e))]\<rparr>"
  have opt: "SummaryFunc (options e) = None" "ParamsFunc (options e) = None" "FinishFunc (options e) \<in> {None, Some None}"
    using job by (simp_all add: export_job_def)
  define e0 where "e0 = e\<lparr>calls := [NewFile], total := int (length items), pageTotal := int pT, sheetTotal := int q,
      page := 0\<rparr>"
  have b: "before x e = Some (Inr (), e0)" using before_quiet [OF job S] by (simp add: e0_def pT_def q_def)
  have e01: "e0\<lparr>limit := False\<rparr> = e1" "sheetTotal e1 = int q" by (simp_all add: e0_def e1_def)
  have "processor x e0 = Some (Inr (), e3)"
    using e2(1) opt unfolding processor_def e01
    by (auto simp: bind_def e01 o2 extra_sheet_def quiet_call [OF q] e3_def cs_def do_call_def)
  moreover have "after x e3 = Some (Inr (), e3\<lparr>calls := calls e3 @ [CloseFile]\<rparr>)"
    by (simp add: after_def bind_call [OF q])
  ultimately have run: "Run x e = Some (None, e3\<lparr>calls := calls e3 @ [CloseFile]\<rparr>)"
    using b by (simp add: Run_def)
  define e4 where "e4 = e3\<lparr>calls := calls e3 @ [CloseFile]\<rparr>"
  have l: "look e4 = look e2" by (simp add: e4_def e3_def look_def)
  have cont: "contents e4 = contents e2"
    by (simp add: e4_def e3_def cs_def sheets_of_append)
  have "contents e4 = map (sheet_at x e4 items m) [1..<Suc k]"
    unfolding cont look_sheet_at [OF l] by (rule c2)
  moreover have "calls e4 = cs @ [SaveAs (FileName (options e)), CloseFile]" "options e4 = options e"
    by (simp_all add: e4_def e3_def o2)
  ultimately show ?thesis using run e2(3,5) km unfolding e4_def [symmetric] by blast
qed

end
