(* ===== verification/Export_Exact.thy ===== *)
theory Export_Exact
  imports Export_Props
begin

section \<open>The exporter: its properties\<close>

text \<open>
  What arrives in the workbook for an export that nothing fails in, how it is cut into sheets,
  the cases in which the sheet size is not kept or nothing is exported, and what is left of the
  workbook when something fails.
\<close>

subsection \<open>Every row, once, in order\<close>

definition body_rows :: "sheet \<Rightarrow> xentry list list" where
  "body_rows s = map (\<lambda>(cell, row, level). row) (filter (\<lambda>(cell, row, level). level = None) (snd s))"

lemma body_rows_numbered: "body_rows (nm, numbered x i rs) = rs"
  by (induction rs arbitrary: i) (auto simp: body_rows_def)

lemma body_rows_sheet [simp]: "body_rows (nm, sheet_rows x e rows) = map (row_of x e) rows"
  using body_rows_numbered [of nm x 2 "map (row_of x e) rows"]
  by (simp add: sheet_rows_def body_rows_def)

lemma shares_concat: "concat (map (\<lambda>j. rows_after opts items ((j - 1) * m) m) [1..<Suc k]) = rows_after opts items 0 (k * m)"
proof (induction k)
  case 0
  then show ?case by (simp add: rows_after_def)
next
  case (Suc k)
  then show ?case using rows_after_add [of opts items 0 "k * m" m] by (simp add: add.commute)
qed

lemma rows_after_all: "length (kept opts items) \<le> k * page_size opts \<Longrightarrow> rows_after opts items 0 k = kept opts items"
  by (simp add: rows_after_def)

lemma sheet_at_rows: "concat (map body_rows (map (sheet_at x e items m) js))
   = map (row_of x e) (concat (map (\<lambda>j. rows_after (options e) items ((j - 1) * m) m) js))"
  by (induction js) (simp_all add: sheet_at_def)

text \<open>
  C30. An export writes every row exactly once and in order: with a spreadsheet package that does
  not fail, a list that is paged through as \<open>ListFunc\<close> is meant to and its true total, \<open>Run\<close>
  succeeds, and the body rows of all sheets together are the rows of the first \<open>LimitSize\<close>
  items; the workbook is saved under its name and closed at the end.
\<close>

theorem export_exact:
  assumes "export_job x (options (NewExport fs)) items"
  shows "\<exists>e' cs. Run x (NewExport fs) = Some (None, e')
     \<and> concat (map body_rows (contents e'))
         = map (row_of x e') (take (nat (LimitSize (options (NewExport fs)))) items)
     \<and> calls e' = cs @ [SaveAs (FileName (options (NewExport fs))), CloseFile]"
proof -
  let ?o = "options (NewExport fs)"
  define m where "m = share x ?o items"
  obtain e' k cs where e': "Run x (NewExport fs) = Some (None, e')" "options e' = ?o"
    "page_count x ?o items \<le> k * m" "contents e' = map (sheet_at x e' items m) [1..<Suc k]"
    "calls e' = cs @ [SaveAs (FileName ?o), CloseFile]"
    unfolding m_def using run_quiet [OF assms NewExport_sizes NewExport_count] by blast
  have "length (kept ?o items) \<le> page_count x ?o items * page_size ?o"
    using job_counts(5) [OF assms NewExport_sizes] .
  also have "\<dots> \<le> k * m * page_size ?o" using e'(3) by (intro mult_le_mono1)
  finally have "rows_after ?o items 0 (k * m) = kept ?o items" by (rule rows_after_all)
  then have "concat (map body_rows (contents e')) = map (row_of x e') (kept ?o items)"
    unfolding e'(4) sheet_at_rows e'(2) shares_concat by simp
  then show ?thesis using e'(1,5) unfolding kept_def by blast
qed

text \<open>
  C31. When the sheet size is a multiple of the page size the rows are spread over as few sheets
  as hold them: the sheets are numbered from one, each has the header in its first row and its
  rows below in consecutive rows, none is empty and none has more rows than \<open>SheetSize\<close>.
\<close>

theorem export_sheets:
  assumes job: "export_job x (options (NewExport fs)) items"
    and S: "SheetSize (options (NewExport fs)) = int k * PageSize (options (NewExport fs))"
  shows "\<exists>e' chunks. Run x (NewExport fs) = Some (None, e')
     \<and> contents e' = map (\<lambda>(j, c). (SheetPrefix (options (NewExport fs)) @ FormatInt (int j), sheet_rows x e' c))
         (zip [1..<Suc (length chunks)] chunks)
     \<and> concat chunks = take (nat (LimitSize (options (NewExport fs)))) items
     \<and> list_all (\<lambda>c. c \<noteq> [] \<and> int (length c) \<le> SheetSize (options (NewExport fs))) chunks
     \<and> length chunks = sheet_count x (options (NewExport fs)) items"
proof -
  let ?o = "options (NewExport fs)"
  define m q pT where "m = share x ?o items" and "q = sheet_count x ?o items" and "pT = page_count x ?o items"
  define P R where "P = page_size ?o" and "R = kept ?o items"
  obtain e' n cs where e': "Run x (NewExport fs) = Some (None, e')" "options e' = ?o" "n \<le> q"
    "pT \<le> n * m" "contents e' = map (sheet_at x e' items m) [1..<Suc n]"
    unfolding m_def q_def pT_def using run_quiet [OF job NewExport_sizes NewExport_count] by blast
  note jc = job_counts [OF job NewExport_sizes, folded m_def q_def pT_def P_def R_def]
  have P: "PageSize ?o = int P" "0 < P" using job by (simp_all add: export_job_def P_def page_size_def)
  have S': "SheetSize ?o = int (k * P)" using S P by simp
  have k: "0 < k" using NewExport_sizes [of fs] S' P by (cases k) auto
  have R: "0 < length R" using kept_pos [OF job] by (simp add: R_def)
  have q: "q = nat (ceil_quot x (int (length R)) (int (k * P)))" by (simp add: q_def sheet_count_def R_def S')
  have qk: "length R \<le> q * (k * P)" "(q - 1) * (k * P) < length R"
    unfolding q using nat_ceil_quot [OF R, of "k * P" x] k P(2) by simp_all
  have m: "m \<le> k"
  proof -
    have "(pT - 1) * P < (q * k) * P" using jc(6) qk(1) unfolding mult.assoc by linarith
    then have "pT \<le> q * k" by (simp only: mult_less_cancel2) linarith
    then have "ceil_quot x (int pT) (int q) \<le> int k"
      using jc(2) by (intro ceil_quot_le) (simp_all add: mult.commute flip: of_nat_mult)
    then show ?thesis by (simp add: m_def share_def pT_def q_def)
  qed
  have before: "(q - 1) * m * P < length R"
  proof -
    have "(q - 1) * m * P \<le> (q - 1) * k * P" using m by (intro mult_le_mono1 mult_le_mono2)
    with qk(2) show ?thesis unfolding mult.assoc by linarith
  qed
  have "n = q"
  proof (rule ccontr)
    assume "n \<noteq> q"
    then have "n \<le> q - 1" using e'(3) by simp
    then have "pT * P \<le> (q - 1) * m * P" using e'(4) by (meson le_trans mult_le_mono1)
    with before jc(5) show False by linarith
  qed
  define chunk where "chunk j = rows_after ?o items ((j - 1) * m) m" for j
  define chunks where "chunks = map chunk [1..<Suc q]"
  have len: "length chunks = q" by (simp add: chunks_def)
  have "contents e' = map (\<lambda>(j, c). (SheetPrefix ?o @ FormatInt (int j), sheet_rows x e' c))
      (zip [1..<Suc (length chunks)] chunks)"
    unfolding e'(5) \<open>n = q\<close> len unfolding chunks_def
    by (simp add: zip_map2 zip_same_conv_map sheet_at_def sheet_name_def chunk_def e'(2) del: upt_Suc)
  moreover have "concat chunks = kept ?o items"
  proof -
    have "length (kept ?o items) \<le> q * m * page_size ?o"
      using jc(4,5) unfolding P_def [symmetric] R_def [symmetric] by (meson le_trans mult_le_mono1)
    then show ?thesis unfolding chunks_def chunk_def shares_concat by (rule rows_after_all)
  qed
  moreover have "list_all (\<lambda>c. c \<noteq> [] \<and> int (length c) \<le> SheetSize ?o) chunks"
    unfolding list_all_iff
  proof
    fix c assume "c \<in> set chunks"
    then obtain j where j: "1 \<le> j" "j \<le> q" "c = chunk j" unfolding chunks_def by (auto simp: less_Suc_eq_le simp del: upt_Suc)
    have "(j - 1) * m * P \<le> (q - 1) * m * P" using j by (intro mult_le_mono1) simp
    then have lt: "(j - 1) * m * P < length R" using before by linarith
    then have "c \<noteq> []" using jc(3) P(2)
      by (simp add: j(3) chunk_def rows_after_def P_def [symmetric] R_def [symmetric])
    moreover have "length c \<le> m * P" by (simp add: j(3) chunk_def rows_after_def P_def)
    then have "int (length c) \<le> SheetSize ?o" unfolding S' using m by (simp only: of_nat_le_iff) (meson le_trans mult_le_mono1)
    ultimately show "c \<noteq> [] \<and> int (length c) \<le> SheetSize ?o" ..
  qed
  ultimately show ?thesis using e'(1) len unfolding kept_def q_def by blast
qed

subsection \<open>An example\<close>

definition demo_xl :: xl where
  "demo_xl = \<lparr>x_err = (\<lambda>cs c. None), x_int = (\<lambda>cs c. 1),
     x_cell = (\<lambda>col row. Inr (FormatInt col @ '':'' @ FormatInt row)),
     x_Map = (\<lambda>a tag. [''name'' \<mapsto> a]), x_String = (\<lambda>a. []), x_SliceAny = (\<lambda>a. []),
     x_order = (\<lambda>cs keys. keys), x_nan = (\<lambda>a. - (2 ^ 63))\<rparr>"

definition demo_items :: "nat \<Rightarrow> any list" where
  "demo_items n = map (\<lambda>i. Some (VOther i False)) [0..<n]"

definition demo_list :: "any list \<Rightarrow> int \<Rightarrow> int \<Rightarrow> any list res" where
  "demo_list items p n = Inr (take (nat n) (drop (nat ((p - 1) * n)) items))"

lemma length_demo_items [simp]: "length (demo_items n) = n"
  by (simp add: demo_items_def)

text \<open>An export of the given items, with sizes for a page, a sheet and the whole.\<close>

definition demo_export :: "any list \<Rightarrow> int \<Rightarrow> int \<Rightarrow> int \<Rightarrow> optionFunc list" where
  "demo_export items pageSize sheetSize lim =
     [WithExportOptionsPageSize pageSize, WithExportOptionsSheetSize sheetSize, WithExportOptionsLimitSize lim,
      WithExportOptionsFieldFunc [''name''], WithExportOptionsTranslateFunc Map.empty,
      WithExportOptionsTotalFunc (int (length items), None), WithExportOptionsListFunc (demo_list items)]"

lemmas With_defs = WithExportOptionsPageSize_def WithExportOptionsSheetSize_def WithExportOptionsLimitSize_def
  WithExportOptionsFieldFunc_def WithExportOptionsTranslateFunc_def WithExportOptionsTotalFunc_def
  WithExportOptionsListFunc_def

lemma quiet_demo [simp]: "quiet demo_xl"
  by (simp add: quiet_def demo_xl_def)

lemma demo_options:
  assumes "pageSize \<le> sheetSize"
  shows "options (NewExport (demo_export items pageSize sheetSize lim)) = getDefaultExportOptions
     \<lparr>PageSize := pageSize, SheetSize := sheetSize, LimitSize := lim, TagName := ''json'', DescTag := ''description'',
      FieldFunc := Some [''name''], TranslateFunc := Some Map.empty,
      TotalFunc := Some (int (length items), None), ListFunc := Some (demo_list items)\<rparr>"
  using assms by (simp add: NewExport_def demo_export_def With_defs Let_def getDefaultExportOptions_def
    DefaultTagName_def DefaultDescTag_def)

lemma demo_job:
  assumes "0 < pageSize" "pageSize \<le> sheetSize" "0 < lim" "lim < 2 ^ 31" "items \<noteq> []"
  shows "export_job demo_xl (options (NewExport (demo_export items pageSize sheetSize lim))) items"
  unfolding demo_options [OF assms(2)] export_job_def
  using assms by (simp add: pages_through_def demo_list_def [abs_def] header_ready_def getDefaultExportOptions_def)

lemma export_exact_witness:
  "\<exists>e' cs. Run demo_xl (NewExport (demo_export (demo_items 5) 2 4 3)) = Some (None, e')
     \<and> concat (map body_rows (contents e')) = map (row_of demo_xl e') (demo_items 3)
     \<and> calls e' = cs @ [SaveAs ''export.xlsx'', CloseFile]"
proof -
  have "demo_items 5 \<noteq> []" by (simp add: demo_items_def)
  then have job: "export_job demo_xl (options (NewExport (demo_export (demo_items 5) 2 4 3))) (demo_items 5)"
    by (intro demo_job) simp_all
  have "take 3 (demo_items 5) = demo_items 3" by (simp add: demo_items_def upt_rec)
  with export_exact [OF job] show ?thesis
    by (simp add: demo_options getDefaultExportOptions_def)
qed

lemma export_sheets_witness:
  "\<exists>e' chunks. Run demo_xl (NewExport (demo_export (demo_items 5) 2 4 3)) = Some (None, e')
     \<and> concat chunks = demo_items 3 \<and> list_all (\<lambda>c. c \<noteq> [] \<and> int (length c) \<le> 4) chunks \<and> length chunks = 1"
proof -
  have "demo_items 5 \<noteq> []" by (simp add: demo_items_def)
  then have job: "export_job demo_xl (options (NewExport (demo_export (demo_items 5) 2 4 3))) (demo_items 5)"
    by (intro demo_job) simp_all
  have t: "take 3 (demo_items 5) = demo_items 3" by (simp add: demo_items_def upt_rec)
  have "SheetSize (options (NewExport (demo_export (demo_items 5) 2 4 3)))
      = int 2 * PageSize (options (NewExport (demo_export (demo_items 5) 2 4 3)))"
    by (simp add: demo_options)
  from export_sheets [OF job this] show ?thesis
    using t by (auto simp: demo_options getDefaultExportOptions_def sheet_count_def kept_def ceil_quot_def)
qed

text \<open>
  Without the assumption on the sizes the sheet size is not kept: six rows in pages of two, with
  three rows allowed on a sheet, give two sheets of four and two rows.
\<close>

lemma sheet_size_exceeded:
  "map_option (\<lambda>(r, e'). map (\<lambda>s. length (body_rows s)) (contents e'))
     (Run demo_xl (NewExport (demo_export (demo_items 6) 2 3 100))) = Some [4, 2]"
  by code_simp

text \<open>
  Without a \<open>TotalFunc\<close>, or with the total zero, nothing is exported and \<open>ListFunc\<close> is never
  called, though one page has been planned.
\<close>

lemma export_without_total:
  assumes "quiet x" "TotalFunc (options (NewExport fs)) = None" "0 < PageSize (options (NewExport fs))"
    "0 < LimitSize (options (NewExport fs))" "SummaryFunc (options (NewExport fs)) = None"
    "ParamsFunc (options (NewExport fs)) = None" "FinishFunc (options (NewExport fs)) = None"
  shows "\<exists>e'. Run x (NewExport fs) = Some (None, e') \<and> contents e' = [] \<and> pageTotal e' = 1"
proof -
  have "0 < SheetSize (options (NewExport fs))" "total (NewExport fs) = 0"
    using NewExport_sizes [of fs] assms(3) by (simp_all add: NewExport_def Let_def)
  then show ?thesis
    using assms unfolding Run_def before_def processor_def
    by (auto simp: Let_def bind_def ceil_quot_def sheets.simps [where n = 0] extra_sheet_def after_def
      quiet_call do_call_def sheets_of_def)
qed

subsection \<open>What is left of the workbook\<close>

text \<open>\<open>grown P e r\<close>: a step from \<open>e\<close> with the result \<open>r\<close> only adds calls that \<open>P\<close> allows.\<close>

definition grown :: "(xcall \<Rightarrow> bool) \<Rightarrow> Export \<Rightarrow> ('a res \<times> Export) option \<Rightarrow> bool" where
  "grown P e r = (case r of None \<Rightarrow> True
     | Some (_, e') \<Rightarrow> options e' = options e \<and> (\<exists>cs. calls e' = calls e @ cs \<and> list_all P cs))"

definition unsaved :: "xcall \<Rightarrow> bool" where
  "unsaved c = (case c of SaveAs _ \<Rightarrow> False | CloseFile \<Rightarrow> False | _ \<Rightarrow> True)"

lemma unsaved_simps [simp]: "unsaved (NewStyle st)" "unsaved (NewSheet nm)" "unsaved (SetActiveSheet i)"
  "unsaved (NewStreamWriter nm)" "unsaved (SetRow c row l)" "unsaved Flush" "unsaved (AddPicture a b c g)"
  "unsaved (DeleteSheet nm)" "unsaved NewFile" "\<not> unsaved (SaveAs nm)" "\<not> unsaved CloseFile"
  by (simp_all add: unsaved_def)

lemma grown_same [simp]: "calls e' = calls e \<Longrightarrow> options e' = options e \<Longrightarrow> grown P e (Some (r, e'))"
  by (simp add: grown_def)

lemma grown_None [simp]: "grown P e None"
  by (simp add: grown_def)

lemma grown_bind:
  assumes "grown P e (m e)" "\<And>a e'. options e' = options e \<Longrightarrow> grown P e' (f a e')"
  shows "grown P e (bind m f e)"
proof (cases "m e")
  case None
  then show ?thesis by (simp add: bind_def)
next
  case (Some re)
  obtain r e' where r: "re = (r, e')" by (cases re)
  from assms(1) obtain cs where cs: "options e' = options e" "calls e' = calls e @ cs" "list_all P cs"
    unfolding Some r grown_def by auto
  show ?thesis
  proof (cases r)
    case (Inl er)
    then show ?thesis using Some r cs by (auto simp: bind_def grown_def)
  next
    case (Inr a)
    then have b: "bind m f e = f a e'" using Some r by (simp add: bind_def)
    have "grown P e' (f a e')" by (rule assms(2) [OF cs(1)])
    with cs show ?thesis unfolding b grown_def
      by (cases "f a e'") (auto simp: case_prod_beta)
  qed
qed

lemma grown_from:
  assumes "calls e1 = calls e" "options e1 = options e" "grown P e1 r"
  shows "grown P e r"
  using assms by (auto simp: grown_def split: option.splits)

lemma grown_call: "P c \<Longrightarrow> grown P e (call x c e)" "P c \<Longrightarrow> grown P e (do_call c e)"
  by (simp_all add: grown_def call_def do_call_def)

lemma grown_header: "grown unsaved e (DefaultHeaderFunc x l keys tm e)"
  unfolding DefaultHeaderFunc_def by (intro grown_bind grown_call) simp_all

lemma grown_raw_rows: "grown unsaved e (raw_rows x r i items e)"
proof (induction items arbitrary: i e)
  case Nil
  show ?case by simp
next
  case (Cons item items)
  show ?case unfolding raw_rows.simps by (intro grown_bind grown_call Cons.IH) simp_all
qed

lemma grown_processorRaw: "grown unsaved e (processorRaw x nm r e)"
  unfolding processorRaw_def
  by (auto intro!: grown_bind grown_call grown_raw_rows)

lemma grown_preProcessor: "grown unsaved e (preProcessor x ptr e)"
  unfolding preProcessor_def
  by (auto simp: Let_def intro!: grown_bind grown_header split: option.split sum.split)

lemma grown_extra: "grown unsaved e (extra_sheet x nm f e)"
  unfolding extra_sheet_def
  by (cases f) (auto intro!: grown_bind grown_preProcessor grown_processorRaw)

definition header_unsaved :: "ExportOptions \<Rightarrow> bool" where
  "header_unsaved opts = (case HeaderFunc opts of None \<Rightarrow> True | Some f \<Rightarrow> \<forall>cs. list_all unsaved (fst (f cs)))"

lemma header_cols_grown:
  assumes "header_unsaved (options e)"
  shows "\<exists>cs. calls (header_cols x e) = calls e @ cs \<and> list_all unsaved cs \<and> options (header_cols x e) = options e"
proof (cases "HeaderFunc (options e)")
  case None
  then show ?thesis by (simp add: header_cols_def DefaultHeaderFunc_def bind_def call_def split: option.split)
next
  case (Some f)
  obtain cs cols er where "f (calls e) = (cs, cols, er)" by (cases "f (calls e)")
  with Some assms show ?thesis
    by (intro exI [of _ cs]) (auto simp: header_cols_def header_unsaved_def dest: spec [of _ "calls e"])
qed

lemma grown_trans:
  assumes "calls e1 = calls e @ cs" "list_all P cs" "options e1 = options e" "grown P e1 r"
  shows "grown P e r"
  using assms by (auto simp: grown_def split: option.splits)

lemma grown_preBuild:
  assumes "header_unsaved (options e)"
  shows "grown unsaved e (preBuildHeader x list e)"
proof -
  have "grown unsaved e (bind (call x (NewStyle body_style)) (\<lambda>styleId e. ret () (e\<lparr>bodyStyleId := styleId\<rparr>))
      (header_cols x (e\<lparr>fieldList := fl, translates := tm, statusEnums := st\<rparr>)))" for fl tm st
  proof -
    let ?e = "e\<lparr>fieldList := fl, translates := tm, statusEnums := st\<rparr>"
    obtain cs where "calls (header_cols x ?e) = calls ?e @ cs" "list_all unsaved cs" "options (header_cols x ?e) = options ?e"
      using header_cols_grown [of ?e] assms by auto
    then show ?thesis
      by (intro grown_trans [of "header_cols x ?e" e cs] grown_bind grown_call) simp_all
  qed
  then show ?thesis
    unfolding preBuildHeader_def by (auto simp: Let_def split: option.split)
qed

lemma grown_body_cells: "grown unsaved e (body_cells x m k vs e)"
proof (induction vs arbitrary: k e)
  case Nil
  show ?case by simp
next
  case (Cons v vs)
  have c: "grown unsaved e' (bind (body_cells x m (k + 1) vs) (\<lambda>cols. ret (Cell i (w i) # cols)) e')" for e' i w
    by (intro grown_bind Cons.IH) simp_all
  have "grown unsaved e (bind (body_cells x m (k + 1) vs) (\<lambda>cols. ret (Cell i (w i) # cols)) (e\<lparr>pictureMap := pm\<rparr>))"
    for i w pm by (rule grown_from [OF _ _ c]) simp_all
  with c show ?case by (auto simp: Let_def split: option.split sum.split)
qed

lemma grown_exportList: "grown unsaved e (exportList x list e)"
proof (induction list arbitrary: e)
  case Nil
  show ?case by simp
next
  case (Cons item list)
  have "grown unsaved e' (exportList x list (e'\<lparr>count := c\<rparr>))" for e' c
    by (rule grown_from [OF _ _ Cons.IH]) simp_all
  then show ?case unfolding exportList.simps
    by (auto intro!: grown_bind grown_call grown_body_cells grown_from [of "e\<lparr>offset := offset e + 1\<rparr>" e])
qed

lemma grown_list_page:
  assumes "header_unsaved (options e)"
  shows "grown unsaved e (list_page x cell b h e)"
  unfolding list_page_def
  by (auto simp: Let_def assms intro!: grown_bind grown_call grown_preBuild grown_exportList
      grown_from [of "e\<lparr>page := page e + 1\<rparr>" e] split: option.split)

lemma grown_pages: "header_unsaved (options e) \<Longrightarrow> grown unsaved e (pages x cell s b h e)"
proof (induction s arbitrary: b h e)
  case 0
  show ?case by (simp add: pages.simps)
next
  case (Suc s)
  then show ?case by (subst pages.simps) (auto intro!: grown_bind grown_list_page)
qed

lemma grown_pictures: "grown unsaved e (add_pictures x nm cols e)"
proof (induction cols arbitrary: e)
  case Nil
  show ?case by simp
next
  case (Cons col cols)
  show ?case unfolding add_pictures.simps by (intro grown_bind grown_call Cons.IH) simp_all
qed

lemma grown_one_sheet: "header_unsaved (options e) \<Longrightarrow> grown unsaved e (one_sheet x i b e)"
  unfolding one_sheet_def Let_def
  by (rule grown_from [of "e\<lparr>offset := 1\<rparr>"])
    (auto intro!: grown_bind grown_call grown_pictures intro: grown_from [OF _ _ grown_pages])

lemma grown_sheets: "header_unsaved (options e) \<Longrightarrow> grown unsaved e (sheets x n i b e)"
proof (induction n arbitrary: i b e)
  case 0
  show ?case by (simp add: sheets.simps)
next
  case (Suc n)
  then show ?case by (subst sheets.simps) (auto intro!: grown_bind grown_one_sheet)
qed

text \<open>How \<open>processor\<close> ends: saved without an error, or failed and not closed.\<close>

definition ends :: "xl \<Rightarrow> Export \<Rightarrow> (unit res \<times> Export) option \<Rightarrow> bool" where
  "ends x e r = (case r of None \<Rightarrow> True
     | Some (Inl _, e') \<Rightarrow> options e' = options e \<and> (\<exists>cs. calls e' = calls e @ cs \<and> CloseFile \<notin> set cs)
     | Some (Inr _, e') \<Rightarrow> options e' = options e \<and> (\<exists>cs. list_all unsaved cs
         \<and> calls e' = calls e @ cs @ [SaveAs (FileName (options e))]
         \<and> x_err x (calls e @ cs) (SaveAs (FileName (options e))) = None))"

lemma unsaved_open: "list_all unsaved cs \<Longrightarrow> CloseFile \<notin> set cs"
  by (auto simp: list_all_iff)

lemma ends_bind:
  assumes "grown unsaved e (m e)" "\<And>a e'. options e' = options e \<Longrightarrow> ends x e' (f a e')"
  shows "ends x e (bind m f e)"
proof (cases "m e")
  case None
  then show ?thesis by (simp add: bind_def ends_def)
next
  case (Some re)
  obtain r e' where r: "re = (r, e')" by (cases re)
  from assms(1) obtain cs where cs: "options e' = options e" "calls e' = calls e @ cs" "list_all unsaved cs"
    unfolding Some r grown_def by auto
  show ?thesis
  proof (cases r)
    case (Inl er)
    then show ?thesis using Some r cs unsaved_open [OF cs(3)] by (auto simp: bind_def ends_def)
  next
    case (Inr a)
    then have b: "bind m f e = f a e'" using Some r by (simp add: bind_def)
    have E: "ends x e' (f a e')" by (rule assms(2) [OF cs(1)])
    show ?thesis
    proof (cases "f a e'")
      case None
      then show ?thesis by (simp add: b ends_def)
    next
      case (Some se)
      obtain s e'' where s: "se = (s, e'')" by (cases se)
      show ?thesis
      proof (cases s)
        case (Inl er)
        then show ?thesis using E Some s cs unsaved_open [OF cs(3)] by (auto simp: b ends_def)
      next
        case (Inr u)
        then obtain ds where "options e'' = options e'" "list_all unsaved ds"
          "calls e'' = calls e' @ ds @ [SaveAs (FileName (options e'))]"
          "x_err x (calls e' @ ds) (SaveAs (FileName (options e'))) = None"
          using E Some s by (auto simp: ends_def)
        then show ?thesis using Inr Some s cs by (auto simp: b ends_def intro!: exI [of _ "cs @ ds"])
      qed
    qed
  qed
qed

lemma processor_ends:
  assumes "header_unsaved (options e)"
  shows "ends x e (processor x e)"
proof -
  let ?save = "bind (\<lambda>e. call x (SaveAs (FileName (options e))) e) (\<lambda>_ e.
       case FinishFunc (options e) of Some (Some err) \<Rightarrow> fail err e | _ \<Rightarrow> ret () e)"
  have save: "ends x e' (?save e')" for e'
    by (auto simp: bind_def call_def ends_def split: option.split)
  let ?e = "e\<lparr>limit := False\<rparr>"
  have "ends x ?e (processor x e)"
    unfolding processor_def
    by (intro ends_bind save grown_sheets grown_extra grown_call)
      (auto simp: assms intro!: grown_bind grown_call)
  then show ?thesis by (simp add: ends_def split: option.splits prod.splits sum.splits)
qed

lemma before_total: "\<exists>b e1. before x e = Some (b, e1) \<and> options e1 = options e \<and> calls e1 = [NewFile]"
proof (cases "TotalFunc (options e)")
  case None
  then show ?thesis by (simp add: before_def Let_def)
next
  case (Some t)
  obtain n er where "t = (n, er)" by (cases t)
  with Some show ?thesis by (cases er) (simp_all add: before_def Let_def)
qed

text \<open>
  C32. \<open>Run\<close> either saves the workbook under its name as the last thing but closing it, both once,
  and answers what closing answers; or it answers an error that occurred, through \<open>ErrorFunc\<close> where
  there is one, and then the workbook has not been closed.
\<close>

theorem export_closed:
  assumes "header_unsaved (options e)" "Run x e = Some (r, e')"
  shows "(\<exists>cs. list_all unsaved cs \<and> calls e' = cs @ [SaveAs (FileName (options e)), CloseFile]
       \<and> x_err x cs (SaveAs (FileName (options e))) = None
       \<and> r = x_err x (cs @ [SaveAs (FileName (options e))]) CloseFile)
     \<or> ((\<exists>err. r = report e err) \<and> CloseFile \<notin> set (calls e'))"
proof -
  obtain b e1 where b: "before x e = Some (b, e1)" and e1: "options e1 = options e" "calls e1 = [NewFile]"
    using before_total by blast
  show ?thesis
  proof (cases b)
    case (Inl err)
    then show ?thesis using assms(2) b e1 by (auto simp: Run_def report_def)
  next
    case (Inr u)
    then obtain pr e2 where p: "processor x e1 = Some (pr, e2)"
      using assms(2) b by (auto simp: Run_def split: option.splits)
    have E: "ends x e1 (Some (pr, e2))"
      using processor_ends [of e1 x] assms(1) e1(1) p by simp
    show ?thesis
    proof (cases pr)
      case (Inl err)
      then show ?thesis using assms(2) b Inr p e1 E by (auto simp: Run_def report_def ends_def)
    next
      case (Inr v)
      then obtain cs where cs: "options e2 = options e1" "list_all unsaved cs"
        "calls e2 = calls e1 @ cs @ [SaveAs (FileName (options e1))]"
        "x_err x (calls e1 @ cs) (SaveAs (FileName (options e1))) = None"
        using E by (auto simp: ends_def)
      then show ?thesis
        using assms(2) b \<open>b = Inr u\<close> p Inr e1
        by (intro disjI1 exI [of _ "NewFile # cs"])
          (auto simp: Run_def after_def bind_def call_def split: option.splits)
    qed
  qed
qed

lemma export_closed_witness:
  "\<exists>r e'. Run demo_xl (NewExport (demo_export (demo_items 5) 2 4 3)) = Some (r, e')
     \<and> ((\<exists>cs. list_all unsaved cs \<and> calls e' = cs @ [SaveAs ''export.xlsx'', CloseFile] \<and> r = None)
        \<or> ((\<exists>err. r = report (NewExport (demo_export (demo_items 5) 2 4 3)) err) \<and> CloseFile \<notin> set (calls e')))"
proof -
  let ?e = "NewExport (demo_export (demo_items 5) 2 4 3)"
  have "demo_items 5 \<noteq> []" by (simp add: demo_items_def)
  then have job: "export_job demo_xl (options ?e) (demo_items 5)" by (intro demo_job) simp_all
  obtain q k cs where run: "Run demo_xl ?e = Some (None, q)"
    using run_quiet [OF job NewExport_sizes NewExport_count] by blast
  have "header_unsaved (options ?e)" by (simp add: demo_options header_unsaved_def getDefaultExportOptions_def)
  from export_closed [OF this run] run show ?thesis
    by (auto simp: demo_options getDefaultExportOptions_def demo_xl_def)
qed

end
