(* ===== verification/Sdk_Message.thy ===== *)
theory Sdk_Message
  imports Prelude "HOL-Library.Word"
begin

section \<open>Messages and registries\<close>

text \<open>
  The message of the queues (\<open>sdk/message\<close>) and the generic registry (\<open>sdk/registry\<close>) in which the
  application keeps its components (\<open>sdk/runtime\<close>).
\<close>

subsection \<open>Messages\<close>

text \<open>A value of a message is a string or something else; the map may be nil.\<close>

datatype mvalue = MString string | MOther nat

record QueueMessage =
  Id :: string
  RoutingKey :: string
  Values :: "(string \<rightharpoonup> mvalue) option"
  GroupId :: string
  ErrorCount :: "64 word"

definition PrefixKey :: string where "PrefixKey = ''__host''"

definition new_message :: QueueMessage where
  "new_message = \<lparr>Id = [], RoutingKey = [], Values = None, GroupId = [], ErrorCount = 0\<rparr>"

definition SetId :: "string \<Rightarrow> QueueMessage \<Rightarrow> QueueMessage" where "SetId i m = m\<lparr>Id := i\<rparr>"
definition SetRoutingKey :: "string \<Rightarrow> QueueMessage \<Rightarrow> QueueMessage" where "SetRoutingKey k m = m\<lparr>RoutingKey := k\<rparr>"
definition SetValues :: "(string \<rightharpoonup> mvalue) option \<Rightarrow> QueueMessage \<Rightarrow> QueueMessage" where "SetValues vs m = m\<lparr>Values := vs\<rparr>"
definition SetErrorIncr :: "QueueMessage \<Rightarrow> QueueMessage" where "SetErrorIncr m = m\<lparr>ErrorCount := ErrorCount m + 1\<rparr>"
definition SetErrorCount :: "64 word \<Rightarrow> QueueMessage \<Rightarrow> QueueMessage" where "SetErrorCount n m = m\<lparr>ErrorCount := n\<rparr>"

definition GetPrefix :: "QueueMessage \<Rightarrow> string" where
  "GetPrefix m = (case Values m of None \<Rightarrow> []
     | Some vs \<Rightarrow> (case vs PrefixKey of Some (MString p) \<Rightarrow> p | _ \<Rightarrow> []))"

definition SetPrefix :: "string \<Rightarrow> QueueMessage \<Rightarrow> QueueMessage" where
  "SetPrefix p m = m\<lparr>Values := Some ((case Values m of None \<Rightarrow> Map.empty | Some vs \<Rightarrow> vs)(PrefixKey \<mapsto> MString p))\<rparr>"

lemma GetPrefix_SetPrefix [simp]: "GetPrefix (SetPrefix p m) = p"
  by (simp add: GetPrefix_def SetPrefix_def)

text \<open>\<open>GetQueueMessage\<close> of the application.\<close>

definition GetQueueMessage :: "string \<Rightarrow> string \<Rightarrow> (string \<rightharpoonup> mvalue) option \<Rightarrow> QueueMessage" where
  "GetQueueMessage i routingKey vs = SetValues vs (SetRoutingKey routingKey (SetId i new_message))"

subsection \<open>Registries\<close>

text \<open>
  A registry is its \<open>sync.Map\<close>, every operation one atomic step. \<open>Unregister\<close> closes what can be
  closed: \<open>closes\<close> tells which objects those are, and the answer lists what was closed.
\<close>

type_synonym 'o registry = "string \<rightharpoonup> 'o"

definition Default :: string where "Default = ''default''"

definition registry_name :: "string \<Rightarrow> string" where
  "registry_name name = (if name = [] then Default else name)"

definition Register :: "string \<Rightarrow> 'o \<Rightarrow> 'o registry \<Rightarrow> go_error option \<times> 'o registry" where
  "Register name v r = (case r (registry_name name) of
     Some _ \<Rightarrow> (Some (new_error ''registry: duplicate object''), r)
   | None \<Rightarrow> (None, r(registry_name name \<mapsto> v)))"

definition Unregister :: "('o \<Rightarrow> bool) \<Rightarrow> string \<Rightarrow> 'o registry \<Rightarrow> 'o list \<times> 'o registry" where
  "Unregister closes name r = (case r name of
     Some v \<Rightarrow> (if closes v then [v] else [], r(name := None))
   | None \<Rightarrow> ([], r))"

definition IsRegistered :: "string \<Rightarrow> 'o registry \<Rightarrow> bool" where
  "IsRegistered name r \<longleftrightarrow> r name \<noteq> None"

definition registry_Get :: "string \<Rightarrow> 'o registry \<Rightarrow> 'o option" where
  "registry_Get name r = r (registry_name name)"

definition registry_GetAll :: "'o registry \<Rightarrow> (string \<rightharpoonup> 'o)" where
  "registry_GetAll r = r"

text \<open>The registries of the application.\<close>

record 'o Application =
  botReg :: "'o registry"
  cacheReg :: "'o registry"
  casBinReg :: "'o registry"
  configReg :: "'o registry"
  crontabReg :: "'o registry"
  jwtReg :: "'o registry"
  languageReg :: "'o registry"
  lockerReg :: "'o registry"
  memoryServiceReg :: "'o registry"
  metricsReg :: "'o registry"
  queueReg :: "'o registry"
  rabbitMqServiceReg :: "'o registry"
  rocketMqServiceReg :: "'o registry"
  serverReg :: "'o registry"
  taskServiceReg :: "'o registry"
  tusReg :: "'o registry"
  websocketReg :: "'o registry"

definition NewConfig :: "'o Application" where
  "NewConfig = \<lparr>botReg = Map.empty, cacheReg = Map.empty, casBinReg = Map.empty, configReg = Map.empty,
     crontabReg = Map.empty, jwtReg = Map.empty, languageReg = Map.empty, lockerReg = Map.empty,
     memoryServiceReg = Map.empty, metricsReg = Map.empty, queueReg = Map.empty, rabbitMqServiceReg = Map.empty,
     rocketMqServiceReg = Map.empty, serverReg = Map.empty, taskServiceReg = Map.empty, tusReg = Map.empty,
     websocketReg = Map.empty\<rparr>"

subsection \<open>What a registry promises\<close>

text \<open>
  The first object registered under a name stays until it is unregistered; a name that is taken
  is refused and nothing changes; other names are not touched.
\<close>

lemma Register_Get:
  assumes "Register name v r = (e, r')"
  shows "e = None \<longleftrightarrow> registry_Get name r = None"
    and "registry_Get name r' = (case registry_Get name r of None \<Rightarrow> Some v | Some w \<Rightarrow> Some w)"
    and "registry_name other \<noteq> registry_name name \<Longrightarrow> registry_Get other r' = registry_Get other r"
  using assms by (auto simp: Register_def registry_Get_def split: option.splits)

lemma Unregister_Get:
  assumes "name \<noteq> []" "Unregister closes name r = (cs, r')"
  shows "registry_Get name r' = None" "set cs = {v. registry_Get name r = Some v \<and> closes v}"
    and "registry_name other \<noteq> name \<Longrightarrow> registry_Get other r' = registry_Get other r"
  using assms by (auto simp: Unregister_def registry_Get_def registry_name_def split: option.splits)

text \<open>
  The empty name is the default name for \<open>Register\<close> and \<open>Get\<close> only: \<open>Unregister\<close> and
  \<open>IsRegistered\<close> look for the empty name itself and never find it.
\<close>

lemma empty_name_lost:
  assumes "Register [] v Map.empty = (e, r)"
  shows "registry_Get [] r = Some v" "\<not> IsRegistered [] r" "Unregister closes [] r = ([], r)"
  using assms by (auto simp: Register_def registry_Get_def registry_name_def Default_def IsRegistered_def Unregister_def)

end
