(* ===== verification/Sdk_Queue.thy ===== *)
theory Sdk_Queue
  imports Sdk_Message "HOL-Library.Multiset"
begin

section \<open>The memory queue\<close>

text \<open>
  The queue of \<open>sdk/queue/memory\<close> with its goroutines. A channel is its buffer and is referred to
  by its index; \<open>queues\<close> is the \<open>sync.Map\<close> from routing keys to channels. A \<open>Publish\<close> leaves a
  goroutine that is about to send, kept in \<open>senders\<close>; a \<open>Consumer\<close> leaves a worker, which waits,
  runs its handler on a message, or is about to put a message back whose handler failed.
\<close>

datatype worker_state = Waiting | Handling QueueMessage | Returning QueueMessage

record worker =
  w_name :: string
  w_chan :: nat
  w_phase :: worker_state

record Memory =
  queues :: "string \<rightharpoonup> nat"
  chans :: "QueueMessage list list"
  senders :: "(nat \<times> QueueMessage) list"
  workers :: "worker list"
  PoolNum :: nat
  published :: "QueueMessage list"
  handled :: "(string \<times> QueueMessage) list"

text \<open>\<open>published\<close> and \<open>handled\<close> record what has been sent and what a worker's handler accepted.\<close>

definition NewMemory :: "nat \<Rightarrow> Memory" where
  "NewMemory poolNum = \<lparr>queues = Map.empty, chans = [], senders = [], workers = [], PoolNum = poolNum,
     published = [], handled = []\<rparr>"

text \<open>A new channel; every channel of a queue has the same capacity \<open>PoolNum\<close>, zero for none.\<close>

definition makeQueue :: "Memory \<Rightarrow> nat \<times> Memory" where
  "makeQueue q = (length (chans q), q\<lparr>chans := chans q @ [[]]\<rparr>)"

subsection \<open>Publish and Consumer\<close>

text \<open>
  Both first load the channel of the key and store a new one if there was none. As the lock is
  only held for reading, other calls may come between: the two parts are separate steps.
\<close>

definition load_queue :: "string \<Rightarrow> Memory \<Rightarrow> nat option" where
  "load_queue key q = queues q key"

definition store_queue :: "string \<Rightarrow> nat option \<Rightarrow> Memory \<Rightarrow> nat \<times> Memory" where
  "store_queue key v q = (case v of Some c \<Rightarrow> (c, q)
     | None \<Rightarrow> (case makeQueue q of (c, q') \<Rightarrow> (c, q'\<lparr>queues := (queues q')(key \<mapsto> c)\<rparr>)))"

text \<open>The copy that is sent: a fresh message, so its error count is zero before it is raised.\<close>

definition memory_message :: "QueueMessage \<Rightarrow> nat option \<Rightarrow> QueueMessage" where
  "memory_message msg v =
     (let m = SetValues (Values msg) (SetRoutingKey (RoutingKey msg) (SetId (Id msg) new_message))
      in if v = None \<and> ErrorCount m < 5 then SetErrorIncr m else m)"

text \<open>The goroutine gives the message a new identifier \<open>uid\<close> before it sends.\<close>

definition publish_rest :: "string \<Rightarrow> QueueMessage \<Rightarrow> nat option \<Rightarrow> Memory \<Rightarrow> Memory" where
  "publish_rest uid msg v q =
     (case store_queue (RoutingKey msg) v q of (c, q') \<Rightarrow>
        let m = SetId uid (memory_message msg v)
        in q'\<lparr>senders := senders q' @ [(c, m)], published := published q' @ [m]\<rparr>)"

definition Publish :: "string \<Rightarrow> QueueMessage \<Rightarrow> Memory \<Rightarrow> Memory" where
  "Publish uid msg q = publish_rest uid msg (load_queue (RoutingKey msg) q) q"

definition consumer_rest :: "string \<Rightarrow> nat option \<Rightarrow> Memory \<Rightarrow> Memory" where
  "consumer_rest name v q =
     (case store_queue name v q of (c, q') \<Rightarrow>
        q'\<lparr>workers := workers q' @ [\<lparr>w_name = name, w_chan = c, w_phase = Waiting\<rparr>]\<rparr>)"

definition Consumer :: "string \<Rightarrow> Memory \<Rightarrow> Memory" where
  "Consumer name q = consumer_rest name (load_queue name q) q"

subsection \<open>Steps of the goroutines\<close>

definition set_phase :: "nat \<Rightarrow> worker_state \<Rightarrow> Memory \<Rightarrow> Memory" where
  "set_phase i p q = q\<lparr>workers := (workers q)[i := (workers q ! i)\<lparr>w_phase := p\<rparr>]\<rparr>"

definition set_chan :: "nat \<Rightarrow> QueueMessage list \<Rightarrow> Memory \<Rightarrow> Memory" where
  "set_chan c ms q = q\<lparr>chans := (chans q)[c := ms]\<rparr>"

text \<open>Sending to channel \<open>c\<close>: into its buffer when there is room.\<close>

definition has_room :: "nat \<Rightarrow> Memory \<Rightarrow> bool" where
  "has_room c q \<longleftrightarrow> length (chans q ! c) < PoolNum q"

definition push_chan :: "nat \<Rightarrow> QueueMessage \<Rightarrow> Memory \<Rightarrow> Memory" where
  "push_chan c m q = set_chan c (chans q ! c @ [m]) q"

definition waits_on :: "nat \<Rightarrow> nat \<Rightarrow> Memory \<Rightarrow> bool" where
  "waits_on j c q \<longleftrightarrow> j < length (workers q) \<and> w_chan (workers q ! j) = c \<and> w_phase (workers q ! j) = Waiting"

definition drop_nth :: "nat \<Rightarrow> 'a list \<Rightarrow> 'a list" where
  "drop_nth i xs = take i xs @ drop (Suc i) xs"

text \<open>
  On a channel without a buffer a send meets a worker that waits. A handler's answer is free: it
  may accept (\<open>accept\<close>) or fail (\<open>refuse\<close>) any message.
\<close>

inductive queue_step :: "Memory \<Rightarrow> Memory \<Rightarrow> bool" where
  publish: "queue_step q (Publish uid msg q)"
| consumer: "queue_step q (Consumer name q)"
| send: "i < length (senders q) \<Longrightarrow> senders q ! i = (c, m) \<Longrightarrow> has_room c q \<Longrightarrow>
    queue_step q (push_chan c m (q\<lparr>senders := drop_nth i (senders q)\<rparr>))"
| send_direct: "i < length (senders q) \<Longrightarrow> senders q ! i = (c, m) \<Longrightarrow> PoolNum q = 0 \<Longrightarrow> waits_on j c q \<Longrightarrow>
    queue_step q (set_phase j (Handling m) (q\<lparr>senders := drop_nth i (senders q)\<rparr>))"
| receive: "waits_on j c q \<Longrightarrow> chans q ! c = m # ms \<Longrightarrow> queue_step q (set_phase j (Handling m) (set_chan c ms q))"
| accept: "j < length (workers q) \<Longrightarrow> w_phase (workers q ! j) = Handling m \<Longrightarrow>
    queue_step q (set_phase j Waiting (q\<lparr>handled := handled q @ [(w_name (workers q ! j), m)]\<rparr>))"
| refuse: "j < length (workers q) \<Longrightarrow> w_phase (workers q ! j) = Handling m \<Longrightarrow>
    queue_step q (set_phase j (Returning m) q)"
| requeue: "j < length (workers q) \<Longrightarrow> w_phase (workers q ! j) = Returning m \<Longrightarrow> w_chan (workers q ! j) = c \<Longrightarrow>
    has_room c q \<Longrightarrow> queue_step q (set_phase j Waiting (push_chan c m q))"
| requeue_direct: "j < length (workers q) \<Longrightarrow> w_phase (workers q ! j) = Returning m \<Longrightarrow> w_chan (workers q ! j) = c \<Longrightarrow>
    PoolNum q = 0 \<Longrightarrow> waits_on k c q \<Longrightarrow> queue_step q (set_phase j Waiting (set_phase k (Handling m) q))"

definition queue_reachable :: "nat \<Rightarrow> Memory \<Rightarrow> bool" where
  "queue_reachable n q \<longleftrightarrow> queue_step\<^sup>*\<^sup>* (NewMemory n) q"

subsection \<open>No message is lost or doubled\<close>

definition held :: "worker \<Rightarrow> QueueMessage multiset" where
  "held w = (case w_phase w of Waiting \<Rightarrow> {#} | Handling m \<Rightarrow> {#m#} | Returning m \<Rightarrow> {#m#})"

definition in_flight :: "Memory \<Rightarrow> QueueMessage multiset" where
  "in_flight q = mset (map snd (senders q)) + \<Sum>\<^sub># (mset (map mset (chans q))) + \<Sum>\<^sub># (mset (map held (workers q)))"

text \<open>
  Channels and keys belong together: a key has one channel, and whatever is on its way to it,
  in it or taken from it carries this key.
\<close>

definition routed :: "Memory \<Rightarrow> QueueMessage \<Rightarrow> nat \<Rightarrow> bool" where
  "routed q m c \<longleftrightarrow> queues q (RoutingKey m) = Some c"

definition conserved :: "Memory \<Rightarrow> bool" where
  "conserved q \<longleftrightarrow> mset (published q) = in_flight q + mset (map snd (handled q))"

definition table_ok :: "Memory \<Rightarrow> bool" where
  "table_ok q \<longleftrightarrow> inj_on (queues q) (dom (queues q)) \<and> (\<forall>k c. queues q k = Some c \<longrightarrow> c < length (chans q))"

definition routes_ok :: "Memory \<Rightarrow> bool" where
  "routes_ok q \<longleftrightarrow> (\<forall>(c, m) \<in> set (senders q). routed q m c)
     \<and> (\<forall>c < length (chans q). \<forall>m \<in> set (chans q ! c). routed q m c)
     \<and> (\<forall>w \<in> set (workers q). queues q (w_name w) = Some (w_chan w) \<and> (\<forall>m \<in># held w. RoutingKey m = w_name w))
     \<and> (\<forall>(nm, m) \<in> set (handled q). RoutingKey m = nm)"

definition bounded :: "Memory \<Rightarrow> bool" where
  "bounded q \<longleftrightarrow> (\<forall>ms \<in> set (chans q). length ms \<le> PoolNum q)"

definition queue_ok :: "Memory \<Rightarrow> bool" where
  "queue_ok q \<longleftrightarrow> conserved q \<and> table_ok q \<and> routes_ok q \<and> bounded q"

lemma mset_drop_nth: "i < length xs \<Longrightarrow> mset xs = add_mset (xs ! i) (mset (drop_nth i xs))"
  by (subst id_take_nth_drop [of i xs]) (simp_all add: drop_nth_def)

lemma set_drop_nth: "set (drop_nth i xs) \<subseteq> set xs"
  unfolding drop_nth_def using set_take_subset [of i xs] set_drop_subset [of "Suc i" xs] by auto

text \<open>A sum over a list, seen from the place that is updated.\<close>

lemma sum_mset_place:
  assumes "i < length xs"
  obtains R where "\<Sum>\<^sub># (mset (map f xs)) = R + f (xs ! i)" "\<And>y. \<Sum>\<^sub># (mset (map f (xs[i := y]))) = R + f y"
proof
  let ?R = "\<Sum>\<^sub># (mset (map f (take i xs))) + \<Sum>\<^sub># (mset (map f (drop (Suc i) xs)))"
  show "\<Sum>\<^sub># (mset (map f xs)) = ?R + f (xs ! i)"
    by (subst (1) id_take_nth_drop [OF assms]) (simp add: ac_simps)
  show "\<Sum>\<^sub># (mset (map f (xs[i := y]))) = ?R + f y" for y
    by (simp add: upd_conv_take_nth_drop [OF assms] ac_simps)
qed

lemma queue_sel [simp]:
  "chans (set_phase i p q) = chans q" "queues (set_phase i p q) = queues q" "senders (set_phase i p q) = senders q"
  "published (set_phase i p q) = published q" "handled (set_phase i p q) = handled q" "PoolNum (set_phase i p q) = PoolNum q"
  "workers (set_phase i p q) = (workers q)[i := (workers q ! i)\<lparr>w_phase := p\<rparr>]"
  "queues (set_chan c ms q) = queues q" "senders (set_chan c ms q) = senders q" "workers (set_chan c ms q) = workers q"
  "published (set_chan c ms q) = published q" "handled (set_chan c ms q) = handled q" "PoolNum (set_chan c ms q) = PoolNum q"
  "chans (set_chan c ms q) = (chans q)[c := ms]"
  by (simp_all add: set_phase_def set_chan_def)

lemma held_sel [simp]: "held (w\<lparr>w_phase := Waiting\<rparr>) = {#}" "held (w\<lparr>w_phase := Handling m\<rparr>) = {#m#}"
  "held (w\<lparr>w_phase := Returning m\<rparr>) = {#m#}"
  by (simp_all add: held_def)

lemma held_eq: "w_phase w = Waiting \<Longrightarrow> held w = {#}" "w_phase w = Handling m \<Longrightarrow> held w = {#m#}"
  "w_phase w = Returning m \<Longrightarrow> held w = {#m#}"
  by (simp_all add: held_def)

text \<open>What a change of one worker and of one channel does to the messages under way.\<close>

lemma in_flight_phase:
  assumes "j < length (workers q)"
  shows "in_flight (set_phase j p q) + held (workers q ! j) = in_flight q + held ((workers q ! j)\<lparr>w_phase := p\<rparr>)"
  by (rule sum_mset_place [OF assms, of held]) (simp add: in_flight_def ac_simps)

lemma in_flight_chan:
  assumes "c < length (chans q)"
  shows "in_flight (set_chan c ms q) + mset (chans q ! c) = in_flight q + mset ms"
  by (rule sum_mset_place [OF assms, of mset]) (simp add: in_flight_def ac_simps)

lemma in_flight_senders:
  assumes "i < length (senders q)" "senders q ! i = (c, m)"
  shows "in_flight q = add_mset m (in_flight (q\<lparr>senders := drop_nth i (senders q)\<rparr>))"
proof -
  have "mset (map snd (senders q)) = add_mset m (mset (map snd (drop_nth i (senders q))))"
    using mset_drop_nth [OF assms(1)] assms(2) by (metis image_mset_add_mset mset_map snd_conv)
  then show ?thesis by (simp add: in_flight_def)
qed

lemma in_flight_handled [simp]: "in_flight (q\<lparr>handled := hs\<rparr>) = in_flight q"
  by (simp add: in_flight_def)

subsection \<open>Every step keeps the queue in order\<close>

lemma store_queue_cases:
  assumes "store_queue key (load_queue key q) q = (c, q')"
  shows "queues q key = Some c \<and> q' = q
    \<or> queues q key = None \<and> c = length (chans q)
      \<and> q' = q\<lparr>chans := chans q @ [[]], queues := (queues q)(key \<mapsto> c)\<rparr>"
  using assms by (auto simp: store_queue_def load_queue_def makeQueue_def split: option.splits)

lemma store_queue_ok:
  assumes "queue_ok q" "store_queue key (load_queue key q) q = (c, q')"
  shows "queue_ok q' \<and> queues q' key = Some c \<and> in_flight q' = in_flight q \<and> c < length (chans q')"
  using store_queue_cases [OF assms(2)]
proof
  assume "queues q key = Some c \<and> q' = q"
  then show ?thesis using assms(1) by (auto simp: queue_ok_def table_ok_def)
next
  assume new: "queues q key = None \<and> c = length (chans q)
      \<and> q' = q\<lparr>chans := chans q @ [[]], queues := (queues q)(key \<mapsto> c)\<rparr>"
  have ok: "conserved q" "table_ok q" "routes_ok q" "bounded q" using assms(1) by (simp_all add: queue_ok_def)
  have fl: "in_flight q' = in_flight q" using new by (simp add: in_flight_def)
  have "table_ok q'"
  proof -
    have "Some c \<notin> queues q ` dom (queues q)" using ok(2) new by (force simp: table_ok_def)
    then have "inj_on (queues q') (dom (queues q'))"
      using ok(2) new by (auto simp: table_ok_def inj_on_def)
    then show ?thesis using ok(2) new by (auto simp: table_ok_def less_Suc_eq)
  qed
  moreover have mono: "routed q m d \<Longrightarrow> routed q' m d" for m d using new by (auto simp: routed_def)
  have "routes_ok q'"
    using ok(3) new mono unfolding routes_ok_def
    by (auto simp: nth_append less_Suc_eq) 
  moreover have "bounded q'" using ok(4) new by (auto simp: bounded_def)
  moreover have "conserved q'" using ok(1) new fl by (simp add: conserved_def)
  ultimately show ?thesis using new fl by (simp add: queue_ok_def)
qed

lemma routes_okD:
  assumes "routes_ok q"
  shows "(c, m) \<in> set (senders q) \<Longrightarrow> routed q m c"
    "c < length (chans q) \<Longrightarrow> m \<in> set (chans q ! c) \<Longrightarrow> routed q m c"
    "w \<in> set (workers q) \<Longrightarrow> queues q (w_name w) = Some (w_chan w)"
    "w \<in> set (workers q) \<Longrightarrow> m \<in># held w \<Longrightarrow> RoutingKey m = w_name w"
    "(nm, m) \<in> set (handled q) \<Longrightarrow> RoutingKey m = nm"
  using assms by (auto simp: routes_ok_def)

lemma queue_okD: "queue_ok q \<Longrightarrow> conserved q" "queue_ok q \<Longrightarrow> table_ok q" "queue_ok q \<Longrightarrow> routes_ok q" "queue_ok q \<Longrightarrow> bounded q"
  by (simp_all add: queue_ok_def)

text \<open>Changing a worker's phase, a channel or the senders keeps the routes when it moves messages of the right key.\<close>

lemma routes_phase:
  assumes "routes_ok q" "j < length (workers q)" "\<forall>m \<in># held ((workers q ! j)\<lparr>w_phase := p\<rparr>). RoutingKey m = w_name (workers q ! j)"
  shows "routes_ok (set_phase j p q)"
proof -
  have "queues q (w_name w) = Some (w_chan w) \<and> (\<forall>m \<in># held w. RoutingKey m = w_name w)"
    if w: "w \<in> set ((workers q)[j := (workers q ! j)\<lparr>w_phase := p\<rparr>])" for w
  proof -
    consider "w = (workers q ! j)\<lparr>w_phase := p\<rparr>" | "w \<in> set (workers q)"
      using w set_update_subset_insert [of "workers q" j "(workers q ! j)\<lparr>w_phase := p\<rparr>"] by blast
    then show ?thesis
    proof cases
      case 1
      then show ?thesis using assms(3) routes_okD(3) [OF assms(1) nth_mem [OF assms(2)]] by simp
    next
      case 2
      then show ?thesis using routes_okD(3,4) [OF assms(1)] by blast
    qed
  qed
  then show ?thesis using assms(1) by (simp add: routes_ok_def routed_def)
qed

lemma routes_chan:
  assumes "routes_ok q" "\<forall>m \<in> set ms. routed q m c"
  shows "routes_ok (set_chan c ms q)"
proof -
  have "queues q (RoutingKey m) = Some d" if "d < length (chans q)" "m \<in> set ((chans q)[c := ms] ! d)" for m d
    using that assms routes_okD(2) [OF assms(1)] by (cases "c = d") (auto simp: routed_def)
  then show ?thesis using assms(1) by (auto simp: routes_ok_def routed_def)
qed

lemma routes_senders:
  assumes "routes_ok q"
  shows "routes_ok (q\<lparr>senders := drop_nth i (senders q)\<rparr>)"
  using assms set_drop_nth [of i "senders q"] by (auto simp: routes_ok_def routed_def)

lemma table_same: "table_ok q \<Longrightarrow> table_ok (set_phase j p q)" "table_ok q \<Longrightarrow> table_ok (set_chan c ms q)"
  "table_ok q \<Longrightarrow> table_ok (q\<lparr>senders := ss\<rparr>)" "table_ok q \<Longrightarrow> table_ok (q\<lparr>handled := hs\<rparr>)"
  by (simp_all add: table_ok_def)

lemma bounded_same: "bounded q \<Longrightarrow> bounded (set_phase j p q)" "bounded q \<Longrightarrow> bounded (q\<lparr>senders := ss\<rparr>)"
  "bounded q \<Longrightarrow> bounded (q\<lparr>handled := hs\<rparr>)"
  by (simp_all add: bounded_def)

lemma bounded_chan: "bounded q \<Longrightarrow> length ms \<le> PoolNum q \<Longrightarrow> bounded (set_chan c ms q)"
  using set_update_subset_insert [of "chans q" c ms] by (auto simp: bounded_def dest!: subsetD)

lemma worker_chan:
  assumes "queue_ok q" "j < length (workers q)"
  shows "w_chan (workers q ! j) < length (chans q)"
  using routes_okD(3) [OF queue_okD(3) [OF assms(1)] nth_mem [OF assms(2)]] queue_okD(2) [OF assms(1)]
  by (auto simp: table_ok_def)

lemma sender_chan:
  assumes "queue_ok q" "i < length (senders q)" "senders q ! i = (c, m)"
  shows "routed q m c \<and> c < length (chans q)"
proof -
  have "routed q m c" using routes_okD(1) [OF queue_okD(3) [OF assms(1)]] nth_mem [OF assms(2)] assms(3) by simp
  then show ?thesis using queue_okD(2) [OF assms(1)] by (auto simp: routed_def table_ok_def)
qed

lemma held_key:
  assumes "queue_ok q" "j < length (workers q)" "m \<in># held (workers q ! j)"
  shows "RoutingKey m = w_name (workers q ! j) \<and> routed q m (w_chan (workers q ! j))"
  using routes_okD(3,4) [OF queue_okD(3) [OF assms(1)] nth_mem [OF assms(2)]] assms(3) by (simp add: routed_def)

text \<open>A message routed to a worker's channel carries the worker's key.\<close>

lemma key_of_chan:
  assumes "queue_ok q" "j < length (workers q)" "routed q m (w_chan (workers q ! j))"
  shows "RoutingKey m = w_name (workers q ! j)"
  using queue_okD(2) [OF assms(1)] routes_okD(3) [OF queue_okD(3) [OF assms(1)] nth_mem [OF assms(2)]] assms(3)
  unfolding table_ok_def routed_def inj_on_def by (metis domI)

lemma queue_step_ok: "queue_step q q' \<Longrightarrow> queue_ok q \<Longrightarrow> queue_ok q'"
proof (induction rule: queue_step.induct)
  case (publish q uid msg)
  obtain c q1 where s: "store_queue (RoutingKey msg) (load_queue (RoutingKey msg) q) q = (c, q1)"
    by (metis surj_pair)
  note ok = store_queue_ok [OF publish s]
  define m where "m = SetId uid (memory_message msg (load_queue (RoutingKey msg) q))"
  have m: "RoutingKey m = RoutingKey msg"
    by (simp add: m_def SetId_def memory_message_def SetRoutingKey_def SetValues_def SetErrorIncr_def Let_def)
  have q': "Publish uid msg q = q1\<lparr>senders := senders q1 @ [(c, m)], published := published q1 @ [m]\<rparr>"
    by (simp add: Publish_def publish_rest_def s m_def Let_def)
  have "routed q1 m c" using ok m by (simp add: routed_def)
  then have "routes_ok (Publish uid msg q)"
    using ok unfolding q' queue_ok_def by (auto simp: routes_ok_def routed_def)
  moreover have "conserved (Publish uid msg q)" using ok unfolding q' queue_ok_def
    by (simp add: conserved_def in_flight_def)
  ultimately show ?case using ok unfolding q' queue_ok_def by (simp add: table_ok_def bounded_def)
next
  case (consumer q name)
  obtain c q1 where s: "store_queue name (load_queue name q) q = (c, q1)" by (metis surj_pair)
  note ok = store_queue_ok [OF consumer s]
  have q': "Consumer name q = q1\<lparr>workers := workers q1 @ [\<lparr>w_name = name, w_chan = c, w_phase = Waiting\<rparr>]\<rparr>"
    by (simp add: Consumer_def consumer_rest_def s)
  show ?case using ok unfolding q' queue_ok_def
    by (auto simp: conserved_def in_flight_def held_def table_ok_def routes_ok_def routed_def bounded_def)
next
  case (send i q c m)
  let ?q = "q\<lparr>senders := drop_nth i (senders q)\<rparr>"
  have c: "routed q m c" "c < length (chans q)" using sender_chan [OF send(4,1,2)] by simp_all
  have "in_flight (push_chan c m ?q) = in_flight q"
    using in_flight_chan [of c ?q "chans q ! c @ [m]"] in_flight_senders [OF send(1,2)] c(2)
    by (simp add: push_chan_def)
  then have "conserved (push_chan c m ?q)" using queue_okD(1) [OF send(4)] by (simp add: conserved_def push_chan_def)
  moreover have "routes_ok (push_chan c m ?q)" unfolding push_chan_def
    using c routes_okD(2) [OF queue_okD(3) [OF send(4)] c(2)]
    by (intro routes_chan routes_senders queue_okD(3) [OF send(4)]) (auto simp: routed_def)
  moreover have "bounded (push_chan c m ?q)" unfolding push_chan_def
    using send(3) by (intro bounded_chan bounded_same queue_okD(4) [OF send(4)]) (simp add: has_room_def)
  ultimately show ?case using queue_okD(2) [OF send(4)] unfolding queue_ok_def push_chan_def
    by (simp add: table_same)
next
  case (send_direct i q c m j)
  let ?q = "q\<lparr>senders := drop_nth i (senders q)\<rparr>"
  have j: "j < length (workers q)" "w_chan (workers q ! j) = c" "w_phase (workers q ! j) = Waiting"
    using send_direct(4) by (simp_all add: waits_on_def)
  have "routed q m (w_chan (workers q ! j))" using sender_chan [OF send_direct(5,1,2)] j by simp
  then have k: "RoutingKey m = w_name (workers q ! j)" by (rule key_of_chan [OF send_direct(5) j(1)])
  have "in_flight (set_phase j (Handling m) ?q) = in_flight q"
    using in_flight_phase [of j ?q "Handling m"] in_flight_senders [OF send_direct(1,2)] j by (simp add: held_eq)
  then have "conserved (set_phase j (Handling m) ?q)"
    using queue_okD(1) [OF send_direct(5)] by (simp add: conserved_def)
  moreover have "routes_ok (set_phase j (Handling m) ?q)"
    using j k by (intro routes_phase routes_senders queue_okD(3) [OF send_direct(5)]) simp_all
  ultimately show ?case using queue_okD(2,4) [OF send_direct(5)] unfolding queue_ok_def
    by (simp add: table_same bounded_same)
next
  case (receive j c q m ms)
  have j: "j < length (workers q)" "w_chan (workers q ! j) = c" "w_phase (workers q ! j) = Waiting"
    using receive(1) by (simp_all add: waits_on_def)
  have c: "c < length (chans q)" using worker_chan [OF receive(3) j(1)] j(2) by simp
  have r: "routed q x c" if "x \<in> set (m # ms)" for x
    using routes_okD(2) [OF queue_okD(3) [OF receive(3)] c] that receive(2) by simp
  have k: "RoutingKey m = w_name (workers q ! j)" using key_of_chan [OF receive(3) j(1)] r j(2) by simp
  have "in_flight (set_phase j (Handling m) (set_chan c ms q)) = in_flight q"
    using in_flight_phase [of j "set_chan c ms q" "Handling m"] in_flight_chan [OF c, of ms] j receive(2)
    by (simp add: held_eq)
  then have "conserved (set_phase j (Handling m) (set_chan c ms q))"
    using queue_okD(1) [OF receive(3)] by (simp add: conserved_def)
  moreover have "routes_ok (set_phase j (Handling m) (set_chan c ms q))"
    using j k r by (intro routes_phase routes_chan queue_okD(3) [OF receive(3)]) simp_all
  moreover have "length (chans q ! c) \<le> PoolNum q" using queue_okD(4) [OF receive(3)] c by (simp add: bounded_def)
  then have "bounded (set_phase j (Handling m) (set_chan c ms q))"
    using receive(2) by (intro bounded_same bounded_chan queue_okD(4) [OF receive(3)]) simp
  ultimately show ?case using queue_okD(2) [OF receive(3)] unfolding queue_ok_def by (simp add: table_same)
next
  case (accept j q m)
  have h: "held (workers q ! j) = {#m#}" using accept(2) by (rule held_eq)
  have k: "RoutingKey m = w_name (workers q ! j)" using held_key [OF accept(3,1)] h by simp
  let ?q = "q\<lparr>handled := handled q @ [(w_name (workers q ! j), m)]\<rparr>"
  have "add_mset m (in_flight (set_phase j Waiting ?q)) = in_flight q"
    using in_flight_phase [of j ?q Waiting] accept(1) h by simp
  then have "conserved (set_phase j Waiting ?q)"
    using queue_okD(1) [OF accept(3)] by (simp add: conserved_def ac_simps)
  moreover have "routes_ok ?q" using queue_okD(3) [OF accept(3)] k by (auto simp: routes_ok_def routed_def)
  then have "routes_ok (set_phase j Waiting ?q)" using accept(1) by (intro routes_phase) simp_all
  ultimately show ?case using queue_okD(2,4) [OF accept(3)] unfolding queue_ok_def
    by (simp add: table_same bounded_same)
next
  case (refuse j q m)
  have h: "held (workers q ! j) = {#m#}" using refuse(2) by (rule held_eq)
  have k: "RoutingKey m = w_name (workers q ! j)" using held_key [OF refuse(3,1)] h by simp
  have "in_flight (set_phase j (Returning m) q) = in_flight q"
    using in_flight_phase [OF refuse(1), of "Returning m"] h by simp
  then have "conserved (set_phase j (Returning m) q)" using queue_okD(1) [OF refuse(3)] by (simp add: conserved_def)
  moreover have "routes_ok (set_phase j (Returning m) q)"
    using refuse(1) k by (intro routes_phase queue_okD(3) [OF refuse(3)]) simp_all
  ultimately show ?case using queue_okD(2,4) [OF refuse(3)] unfolding queue_ok_def
    by (simp add: table_same bounded_same)
next
  case (requeue j q m c)
  have h: "held (workers q ! j) = {#m#}" using requeue(2) by (rule held_eq)
  have r: "routed q m c" using held_key [OF requeue(5,1)] h requeue(3) by simp
  have c: "c < length (chans q)" using worker_chan [OF requeue(5,1)] requeue(3) by simp
  have "in_flight (set_phase j Waiting (push_chan c m q)) = in_flight q"
    using in_flight_phase [of j "push_chan c m q" Waiting] in_flight_chan [OF c, of "chans q ! c @ [m]"] requeue(1) h
    by (simp add: push_chan_def)
  then have "conserved (set_phase j Waiting (push_chan c m q))"
    using queue_okD(1) [OF requeue(5)] by (simp add: conserved_def push_chan_def)
  moreover have "routes_ok (set_phase j Waiting (push_chan c m q))" unfolding push_chan_def
    using requeue(1) r routes_okD(2) [OF queue_okD(3) [OF requeue(5)] c]
    by (intro routes_phase routes_chan queue_okD(3) [OF requeue(5)]) auto
  moreover have "bounded (set_phase j Waiting (push_chan c m q))" unfolding push_chan_def
    using requeue(4) by (intro bounded_same bounded_chan queue_okD(4) [OF requeue(5)]) (simp add: has_room_def)
  ultimately show ?case using queue_okD(2) [OF requeue(5)] unfolding queue_ok_def push_chan_def
    by (simp add: table_same)
next
  case (requeue_direct j q m c k)
  have h: "held (workers q ! j) = {#m#}" using requeue_direct(2) by (rule held_eq)
  have r: "routed q m c" using held_key [OF requeue_direct(6,1)] h requeue_direct(3) by simp
  have k: "k < length (workers q)" "w_chan (workers q ! k) = c" "w_phase (workers q ! k) = Waiting"
    using requeue_direct(5) by (simp_all add: waits_on_def)
  have jk: "j \<noteq> k" using requeue_direct(2) k(3) by auto
  have key: "RoutingKey m = w_name (workers q ! k)" using key_of_chan [OF requeue_direct(6) k(1)] r k(2) by simp
  let ?q = "set_phase k (Handling m) q"
  have "in_flight (set_phase j Waiting ?q) = in_flight q"
    using in_flight_phase [of j ?q Waiting] in_flight_phase [OF k(1), of "Handling m"] requeue_direct(1) h k jk
    by (simp add: held_eq)
  then have "conserved (set_phase j Waiting ?q)" using queue_okD(1) [OF requeue_direct(6)] by (simp add: conserved_def)
  moreover have "routes_ok (set_phase j Waiting ?q)"
    using requeue_direct(1) k(1) key by (intro routes_phase queue_okD(3) [OF requeue_direct(6)]) simp_all
  ultimately show ?case using queue_okD(2,4) [OF requeue_direct(6)] unfolding queue_ok_def
    by (simp add: table_same bounded_same)
qed

lemma queue_init_ok: "queue_ok (NewMemory n)"
  by (simp add: NewMemory_def queue_ok_def conserved_def in_flight_def table_ok_def routes_ok_def bounded_def)

lemma queue_steps_ok: "queue_step\<^sup>*\<^sup>* q q' \<Longrightarrow> queue_ok q \<Longrightarrow> queue_ok q'"
  by (induction rule: rtranclp_induct) (auto intro: queue_step_ok)

lemma queue_reachable_ok: "queue_reachable n q \<Longrightarrow> queue_ok q"
  unfolding queue_reachable_def using queue_steps_ok queue_init_ok by blast

subsection \<open>Properties\<close>


definition demo_message :: QueueMessage where
  "demo_message = GetQueueMessage ''1'' ''mail'' None"

text \<open>A consumer, a message handed to it, and its handler failing.\<close>

definition demo_queue :: Memory where
  "demo_queue = set_phase 0 (Returning (SetId ''u'' (memory_message demo_message (Some 0))))
     (set_phase 0 (Handling (SetId ''u'' (memory_message demo_message (Some 0))))
       ((Publish ''u'' demo_message (Consumer ''mail'' (NewMemory 0)))\<lparr>senders := []\<rparr>))"

lemmas queue_defs = Publish_def publish_rest_def Consumer_def consumer_rest_def store_queue_def load_queue_def
  makeQueue_def NewMemory_def

lemma demo_key: "RoutingKey demo_message = ''mail''"
  by (simp add: demo_message_def GetQueueMessage_def SetValues_def SetRoutingKey_def SetId_def)

lemma demo_queue_reachable: "queue_reachable 0 demo_queue"
proof -
  let ?q1 = "Consumer ''mail'' (NewMemory 0)"
  let ?q2 = "Publish ''u'' demo_message ?q1"
  let ?m = "SetId ''u'' (memory_message demo_message (Some 0))"
  let ?q3 = "set_phase 0 (Handling ?m) (?q2\<lparr>senders := []\<rparr>)"
  have "queue_step (NewMemory 0) ?q1" by (rule consumer)
  moreover have "queue_step ?q1 ?q2" by (rule publish)
  moreover have "queue_step ?q2 ?q3"
    using send_direct [of 0 ?q2 0 ?m 0]
    by (simp add: queue_defs demo_key waits_on_def drop_nth_def Let_def)
  moreover have "queue_step ?q3 demo_queue" unfolding demo_queue_def
    by (rule refuse) (simp_all add: queue_defs demo_key Let_def)
  ultimately show ?thesis unfolding queue_reachable_def
    by (meson converse_rtranclp_into_rtranclp rtranclp.rtrancl_refl)
qed


text \<open>A worker that is alone on its key and puts a message back into a full channel.\<close>

definition stuck :: "nat \<Rightarrow> QueueMessage \<Rightarrow> string \<Rightarrow> Memory \<Rightarrow> bool" where
  "stuck j m k q \<longleftrightarrow> j < length (workers q) \<and> w_name (workers q ! j) = k \<and> w_phase (workers q ! j) = Returning m
     \<and> \<not> has_room (w_chan (workers q ! j)) q
     \<and> (\<forall>i < length (workers q). w_name (workers q ! i) = k \<longrightarrow> i = j)"

definition accepted_as :: "string \<Rightarrow> Memory \<Rightarrow> (string \<times> QueueMessage) list" where
  "accepted_as k q = filter (\<lambda>(nm, m). nm = k) (handled q)"

lemma waits_not_stuck:
  assumes "queue_ok q" "stuck j m k q" "waits_on i c q"
  shows "i \<noteq> j \<and> c \<noteq> w_chan (workers q ! j)"
proof -
  have i: "i < length (workers q)" "w_chan (workers q ! i) = c" "w_phase (workers q ! i) = Waiting"
    using assms(3) by (simp_all add: waits_on_def)
  then have ij: "i \<noteq> j" using assms(2) by (auto simp: stuck_def)
  have "w_name (workers q ! i) \<noteq> w_name (workers q ! j)" using assms(2) i(1) ij by (auto simp: stuck_def)
  moreover have "queues q (w_name (workers q ! i)) = Some (w_chan (workers q ! i))"
    "queues q (w_name (workers q ! j)) = Some (w_chan (workers q ! j))"
    using routes_okD(3) [OF queue_okD(3) [OF assms(1)] nth_mem] i(1) assms(2) by (auto simp: stuck_def)
  moreover have "inj_on (queues q) (dom (queues q))" using queue_okD(2) [OF assms(1)] by (simp add: table_ok_def)
  ultimately have "c \<noteq> w_chan (workers q ! j)" using i(2) by (metis domI inj_onD)
  with ij show ?thesis by simp
qed

lemma w_name_phase [simp]: "w_name (ws[i := (ws ! i)\<lparr>w_phase := p\<rparr>] ! l) = w_name (ws ! l)"
  by (cases "i < length ws"; cases "i = l") (simp_all add: list_update_beyond)

lemma stuck_other:
  assumes "stuck j m k q" "i \<noteq> j"
  shows "stuck j m k (set_phase i p q)"
  using assms by (simp add: stuck_def has_room_def)

lemma stuck_chan:
  assumes "stuck j m k q" "c \<noteq> w_chan (workers q ! j)"
  shows "stuck j m k (set_chan c ms q)"
  using assms by (simp add: stuck_def has_room_def)

definition workers_of :: "string \<Rightarrow> Memory \<Rightarrow> nat" where
  "workers_of k q = length (filter (\<lambda>w. w_name w = k) (workers q))"

lemma stuck_step:
  assumes "queue_step q q'" "queue_ok q" "stuck j m k q" "workers_of k q' = 1"
  shows "stuck j m k q' \<and> accepted_as k q' = accepted_as k q"
  using assms
proof (cases rule: queue_step.cases)
  case (publish uid msg)
  obtain c q1 where s: "store_queue (RoutingKey msg) (load_queue (RoutingKey msg) q) q = (c, q1)"
    by (metis surj_pair)
  have "workers q' = workers q" "PoolNum q' = PoolNum q" "handled q' = handled q"
    "d < length (chans q) \<Longrightarrow> chans q' ! d = chans q ! d" for d
    using store_queue_cases [OF s] by (auto simp: publish(1) Publish_def publish_rest_def s Let_def nth_append)
  moreover have "w_chan (workers q ! j) < length (chans q)"
    using assms(3) by (intro worker_chan [OF assms(2)]) (simp add: stuck_def)
  ultimately show ?thesis using assms(3) by (simp add: stuck_def has_room_def accepted_as_def)
next
  case (consumer name)
  obtain c q1 where s: "store_queue name (load_queue name q) q = (c, q1)" by (metis surj_pair)
  have w: "workers q' = workers q @ [\<lparr>w_name = name, w_chan = c, w_phase = Waiting\<rparr>]" "PoolNum q' = PoolNum q"
    "handled q' = handled q" "d < length (chans q) \<Longrightarrow> chans q' ! d = chans q ! d" for d
    using store_queue_cases [OF s] by (auto simp: consumer(1) Consumer_def consumer_rest_def s nth_append)
  have "w_chan (workers q ! j) < length (chans q)"
    using assms(3) by (intro worker_chan [OF assms(2)]) (simp add: stuck_def)
  moreover have "name \<noteq> k"
  proof
    assume "name = k"
    then have "filter (\<lambda>w. w_name w = k) (workers q) = []" using assms(4) w(1) by (simp add: workers_of_def)
    then have "w_name (workers q ! j) \<noteq> k" using assms(3) nth_mem [of j "workers q"]
      unfolding filter_empty_conv stuck_def by blast
    then show False using assms(3) by (simp add: stuck_def)
  qed
  ultimately show ?thesis using assms(3) w
    by (auto simp: stuck_def has_room_def accepted_as_def nth_append less_Suc_eq)
next
  case (send i c x)
  then have "c \<noteq> w_chan (workers q ! j)" using assms(3) by (auto simp: stuck_def)
  then show ?thesis using assms(3) unfolding send(1) push_chan_def
    by (auto simp: stuck_def has_room_def accepted_as_def)
next
  case (send_direct i c x l)
  have "l \<noteq> j" using waits_not_stuck [OF assms(2,3) send_direct(5)] by simp
  moreover have "stuck j m k (q\<lparr>senders := drop_nth i (senders q)\<rparr>)" using assms(3) by (simp add: stuck_def has_room_def)
  ultimately show ?thesis unfolding send_direct(1) by (simp add: stuck_other accepted_as_def)
next
  case (receive l c x ms)
  have "l \<noteq> j" "c \<noteq> w_chan (workers q ! j)" using waits_not_stuck [OF assms(2,3) receive(2)] by simp_all
  then show ?thesis using assms(3) unfolding receive(1) by (simp add: stuck_other stuck_chan accepted_as_def)
next
  case (accept l x)
  have lj: "l \<noteq> j" using accept(3) assms(3) by (auto simp: stuck_def)
  then have "w_name (workers q ! l) \<noteq> k" using accept(2) assms(3) by (auto simp: stuck_def)
  moreover have "stuck j m k (q\<lparr>handled := hs\<rparr>)" for hs using assms(3) by (simp add: stuck_def has_room_def)
  ultimately show ?thesis using lj unfolding accept(1) by (simp add: stuck_other accepted_as_def)
next
  case (refuse l x)
  have "l \<noteq> j" using refuse(3) assms(3) by (auto simp: stuck_def)
  then show ?thesis using assms(3) unfolding refuse(1) by (simp add: stuck_other accepted_as_def)
next
  case (requeue l x c)
  have c: "c \<noteq> w_chan (workers q ! j)" using requeue(5) assms(3) by (auto simp: stuck_def)
  then have "l \<noteq> j" using requeue(4) by auto
  with c show ?thesis using assms(3) unfolding requeue(1) push_chan_def
    by (simp add: stuck_other stuck_chan accepted_as_def)
next
  case (requeue_direct l x c i)
  have n: "i \<noteq> j" "c \<noteq> w_chan (workers q ! j)" using waits_not_stuck [OF assms(2,3) requeue_direct(6)] by simp_all
  then have "l \<noteq> j" using requeue_direct(4) by auto
  with n show ?thesis using assms(3) unfolding requeue_direct(1) by (simp add: stuck_other accepted_as_def)
qed

lemma workers_of_phase [simp]: "workers_of k (set_phase i p q) = workers_of k q"
proof -
  have "map w_name ((workers q)[i := (workers q ! i)\<lparr>w_phase := p\<rparr>]) = map w_name (workers q)"
    by (rule nth_equalityI) simp_all
  moreover have w: "workers_of k r = length (filter (\<lambda>n. n = k) (map w_name (workers r)))" for r
    by (simp add: workers_of_def filter_map comp_def)
  ultimately show ?thesis unfolding w by (simp only: queue_sel)
qed

lemma workers_of_step: "queue_step q q' \<Longrightarrow> workers_of k q \<le> workers_of k q'"
proof (induction rule: queue_step.induct)
  case (publish q uid msg)
  obtain c q1 where s: "store_queue (RoutingKey msg) (load_queue (RoutingKey msg) q) q = (c, q1)"
    by (metis surj_pair)
  show ?case using store_queue_cases [OF s]
    by (auto simp: Publish_def publish_rest_def s workers_of_def Let_def)
next
  case (consumer q name)
  obtain c q1 where s: "store_queue name (load_queue name q) q = (c, q1)" by (metis surj_pair)
  show ?case using store_queue_cases [OF s] by (auto simp: Consumer_def consumer_rest_def s workers_of_def)
qed (simp_all add: push_chan_def, simp_all add: workers_of_def)

lemma stuck_worker:
  assumes "stuck j m k q"
  shows "1 \<le> workers_of k q"
proof -
  have "workers q ! j \<in> set (filter (\<lambda>w. w_name w = k) (workers q))" using assms by (simp add: stuck_def)
  then show ?thesis unfolding workers_of_def by (cases "filter (\<lambda>w. w_name w = k) (workers q)") auto
qed



text \<open>
  The lock is held for reading only, so a \<open>Consumer\<close> and a \<open>Publish\<close> for a new key can both find no
  channel: the message then waits in one that the worker does not read.
\<close>

lemma publish_race:
  "let q0 = NewMemory 1; v = load_queue ''mail'' q0; w = load_queue (RoutingKey demo_message) q0;
       q = publish_rest ''u'' demo_message w (consumer_rest ''mail'' v q0)
   in map w_chan (workers q) = [0] \<and> map fst (senders q) = [1] \<and> queues q ''mail'' = Some 1"
  by (simp add: queue_defs demo_key Let_def)

end
