(* ===== verification/Core_Options.thy ===== *)
theory Core_Options
  imports Prelude
begin

section \<open>Options of the queues\<close>

text \<open>
  The option records of \<open>core/queue\<close> with their setters. The binding exchange is a pointer that may
  be nil.
\<close>

record BindingExchangeOptions =
  be_Name :: string
  be_Kind :: string

record ConsumeOptions =
  BindingRoutingKeys :: "string list"
  BindingExchange :: "BindingExchangeOptions option"
  Concurrency :: int
  QOSPrefetch :: int
  ConsumerName :: string
  ConsumerAutoAck :: bool
  co_GroupName :: string
  MaxReconsumeTimes :: int
  AutoCommit :: bool

record PublishOptions =
  Exchange :: string
  ContentType :: string
  ReplyTo :: string
  MessageID :: string
  UserID :: string
  AppID :: string
  po_GroupName :: string
  RetryTimes :: int

definition default_exchange :: BindingExchangeOptions where
  "default_exchange = \<lparr>be_Name = [], be_Kind = ''direct''\<rparr>"

definition GetDefaultConsumeOptions :: ConsumeOptions where
  "GetDefaultConsumeOptions = \<lparr>BindingRoutingKeys = [], BindingExchange = Some default_exchange, Concurrency = 1,
     QOSPrefetch = 0, ConsumerName = [], ConsumerAutoAck = False, co_GroupName = [], MaxReconsumeTimes = 0,
     AutoCommit = False\<rparr>"

definition WithRabbitMqConsumeOptionsBindingRoutingKeys :: "string list \<Rightarrow> ConsumeOptions \<Rightarrow> ConsumeOptions" where
  "WithRabbitMqConsumeOptionsBindingRoutingKeys keys o' = o'\<lparr>BindingRoutingKeys := keys\<rparr>"

definition getBindingExchangeOptionsOrSetDefault :: "ConsumeOptions \<Rightarrow> BindingExchangeOptions" where
  "getBindingExchangeOptionsOrSetDefault o' = (case BindingExchange o' of Some b \<Rightarrow> b | None \<Rightarrow> default_exchange)"

definition WithRabbitMqConsumeOptionsBindingExchangeName :: "string \<Rightarrow> ConsumeOptions \<Rightarrow> ConsumeOptions" where
  "WithRabbitMqConsumeOptionsBindingExchangeName name o' =
     o'\<lparr>BindingExchange := Some ((getBindingExchangeOptionsOrSetDefault o')\<lparr>be_Name := name\<rparr>)\<rparr>"

definition WithRabbitMqConsumeOptionsBindingExchangeType :: "string \<Rightarrow> ConsumeOptions \<Rightarrow> ConsumeOptions" where
  "WithRabbitMqConsumeOptionsBindingExchangeType kind o' =
     o'\<lparr>BindingExchange := Some ((getBindingExchangeOptionsOrSetDefault o')\<lparr>be_Kind := kind\<rparr>)\<rparr>"

definition WithRabbitMqConsumeOptionsConcurrency :: "int \<Rightarrow> ConsumeOptions \<Rightarrow> ConsumeOptions" where
  "WithRabbitMqConsumeOptionsConcurrency n o' = o'\<lparr>Concurrency := n\<rparr>"

definition WithRabbitMqConsumeOptionsQOSPrefetch :: "int \<Rightarrow> ConsumeOptions \<Rightarrow> ConsumeOptions" where
  "WithRabbitMqConsumeOptionsQOSPrefetch n o' = o'\<lparr>QOSPrefetch := n\<rparr>"

definition WithRabbitMqConsumeOptionsConsumerName :: "string \<Rightarrow> ConsumeOptions \<Rightarrow> ConsumeOptions" where
  "WithRabbitMqConsumeOptionsConsumerName name o' = o'\<lparr>ConsumerName := name\<rparr>"

definition WithRabbitMqConsumeOptionsConsumerAutoAck :: "bool \<Rightarrow> ConsumeOptions \<Rightarrow> ConsumeOptions" where
  "WithRabbitMqConsumeOptionsConsumerAutoAck b o' = o'\<lparr>ConsumerAutoAck := b\<rparr>"

definition WithRocketMqGroupName :: "string \<Rightarrow> ConsumeOptions \<Rightarrow> ConsumeOptions" where
  "WithRocketMqGroupName name o' = (if name = [] then o' else o'\<lparr>co_GroupName := name\<rparr>)"

definition WithRocketMqMaxReconsumeTimes :: "int \<Rightarrow> ConsumeOptions \<Rightarrow> ConsumeOptions" where
  "WithRocketMqMaxReconsumeTimes n o' = o'\<lparr>MaxReconsumeTimes := n\<rparr>"

definition WithRocketMqAutoCommit :: "bool \<Rightarrow> ConsumeOptions \<Rightarrow> ConsumeOptions" where
  "WithRocketMqAutoCommit b o' = o'\<lparr>AutoCommit := b\<rparr>"

definition WithRabbitMqPublishOptionsExchange :: "string \<Rightarrow> PublishOptions \<Rightarrow> PublishOptions" where
  "WithRabbitMqPublishOptionsExchange s o' = o'\<lparr>Exchange := s\<rparr>"

definition WithRabbitMqPublishOptionsContentType :: "string \<Rightarrow> PublishOptions \<Rightarrow> PublishOptions" where
  "WithRabbitMqPublishOptionsContentType s o' = o'\<lparr>ContentType := s\<rparr>"

definition WithRabbitMqPublishOptionsReplyTo :: "string \<Rightarrow> PublishOptions \<Rightarrow> PublishOptions" where
  "WithRabbitMqPublishOptionsReplyTo s o' = o'\<lparr>ReplyTo := s\<rparr>"

definition WithRabbitMqPublishOptionsMessageID :: "string \<Rightarrow> PublishOptions \<Rightarrow> PublishOptions" where
  "WithRabbitMqPublishOptionsMessageID s o' = o'\<lparr>MessageID := s\<rparr>"

definition WithRabbitMqPublishOptionsUserID :: "string \<Rightarrow> PublishOptions \<Rightarrow> PublishOptions" where
  "WithRabbitMqPublishOptionsUserID s o' = o'\<lparr>UserID := s\<rparr>"

definition WithRabbitMqPublishOptionsAppID :: "string \<Rightarrow> PublishOptions \<Rightarrow> PublishOptions" where
  "WithRabbitMqPublishOptionsAppID s o' = o'\<lparr>AppID := s\<rparr>"

definition WithRocketMqPublishGroupName :: "string \<Rightarrow> PublishOptions \<Rightarrow> PublishOptions" where
  "WithRocketMqPublishGroupName name o' = (if name = [] then o' else o'\<lparr>po_GroupName := name\<rparr>)"

definition WithRocketMqPublishRetry :: "int \<Rightarrow> PublishOptions \<Rightarrow> PublishOptions" where
  "WithRocketMqPublishRetry n o' = o'\<lparr>RetryTimes := n\<rparr>"

text \<open>The two setters of the binding exchange do not disturb each other, even from a nil pointer.\<close>

lemma exchange_setters:
  "BindingExchange (WithRabbitMqConsumeOptionsBindingExchangeName name
     (WithRabbitMqConsumeOptionsBindingExchangeType kind o')) = Some \<lparr>be_Name = name, be_Kind = kind\<rparr>"
  "BindingExchange (WithRabbitMqConsumeOptionsBindingExchangeType kind
     (WithRabbitMqConsumeOptionsBindingExchangeName name o')) = Some \<lparr>be_Name = name, be_Kind = kind\<rparr>"
  by (simp_all add: WithRabbitMqConsumeOptionsBindingExchangeName_def WithRabbitMqConsumeOptionsBindingExchangeType_def
    getBindingExchangeOptionsOrSetDefault_def)

end
