(* ===== verification/Sdk_Service.thy ===== *)
theory Sdk_Service
  imports Sdk_Queue Sec_Base GoStr Core_Options
begin

section \<open>Services on the queues, jobs and the encrypting middleware\<close>

text \<open>
  The task services of \<open>sdk/task\<close> and \<open>core/task\<close> that start the consumers of a queue, the table of
  cron jobs of \<open>sdk/cron\<close>, and the middleware of \<open>sdk/middleware\<close> that decrypts requests and
  encrypts responses.
\<close>

subsection \<open>Task services\<close>

text \<open>A handler is known by its routing key; a sub-task is its key.\<close>

record RabbitMqSpec =
  rs_TaskName :: string
  rs_RoutingKey :: string
  rs_Exchange :: string
  rs_ExchangeType :: string
  rs_QueueName :: string
  rs_SubTasks :: "string list"
  rs_ConsumerNum :: int
  rs_CoroutineNum :: int
  rs_Prefetch :: int
  rs_AutoAck :: bool

definition GetRoutingKeys :: "RabbitMqSpec \<Rightarrow> string list" where
  "GetRoutingKeys r = (if rs_RoutingKey r \<noteq> [] then [rs_RoutingKey r] else []) @ rs_SubTasks r"

text \<open>The handler of a key: the position of the first sub-task with it.\<close>

fun route_from :: "nat \<Rightarrow> string \<Rightarrow> string list \<Rightarrow> nat option" where
  "route_from i k [] = None"
| "route_from i k (s # ss) = (if s = k then Some i else route_from (Suc i) k ss)"

definition Route :: "RabbitMqSpec \<Rightarrow> string \<Rightarrow> nat option" where
  "Route r k = route_from 0 k (rs_SubTasks r)"

record RocketMqSpec =
  ro_GroupName :: string
  ro_TopicName :: string
  ro_SubTasks :: "string list"
  ro_ConsumerNum :: int
  ro_MaxReconsumeTimes :: int
  ro_AutoCommit :: bool

definition rocket_Route :: "RocketMqSpec \<Rightarrow> string \<Rightarrow> nat option" where
  "rocket_Route r k = route_from 0 k (ro_SubTasks r)"

definition MemoryQueueName :: string where "MemoryQueueName = ''memory''"

text \<open>
  The memory service starts one consumer for each task on the queue that is registered under its
  name; without a queue nothing happens.
\<close>

definition memory_Start :: "Memory registry \<Rightarrow> string list \<Rightarrow> Memory option" where
  "memory_Start reg routers =
     (case registry_Get MemoryQueueName reg of None \<Rightarrow> None
      | Some q \<Rightarrow> Some (foldl (\<lambda>q key. Consumer key q) q routers))"

text \<open>The tasks of a service are those of the last call: earlier ones are replaced.\<close>

definition memory_AddTasks :: "'t list \<Rightarrow> 't list \<Rightarrow> 't list" where "memory_AddTasks tasks routers = tasks"
definition rabbit_AddTasks :: "'t list \<Rightarrow> 't list \<Rightarrow> 't list" where "rabbit_AddTasks tasks routers = tasks"
definition rocket_AddTasks :: "'t list \<Rightarrow> 't list \<Rightarrow> 't list" where "rocket_AddTasks tasks routers = tasks"
definition nsq_AddTasks :: "'t list \<Rightarrow> 't list \<Rightarrow> 't list" where "nsq_AddTasks tasks routers = tasks"

text \<open>
  The calls of \<open>Consumer\<close> the other services make, in order: queue or topic, the task's handler, and
  the setters of the options, first to last. Without a queue the services for \<open>RabbitMQ\<close> and \<open>RocketMQ\<close>
  panic (\<open>None\<close>). The one for \<open>NSQ\<close> sets its queue to nil and starts nothing.
\<close>

type_synonym 'h consumer_call = "string \<times> 'h \<times> (ConsumeOptions \<Rightarrow> ConsumeOptions) list"

definition two_digits :: "int \<Rightarrow> string" where
  "two_digits i = (if 0 \<le> i \<and> i < 10 then CHR ''0'' # FormatInt i else FormatInt i)"

definition rabbit_options :: "RabbitMqSpec \<Rightarrow> int \<Rightarrow> (ConsumeOptions \<Rightarrow> ConsumeOptions) list" where
  "rabbit_options r i =
     [WithRabbitMqConsumeOptionsBindingRoutingKeys (GetRoutingKeys r),
      WithRabbitMqConsumeOptionsBindingExchangeName (rs_Exchange r),
      WithRabbitMqConsumeOptionsBindingExchangeType (rs_ExchangeType r),
      WithRabbitMqConsumeOptionsConcurrency (rs_CoroutineNum r),
      WithRabbitMqConsumeOptionsConsumerName (rs_TaskName r @ ''.'' @ two_digits (i + 1)),
      WithRabbitMqConsumeOptionsConsumerAutoAck (rs_AutoAck r),
      WithRabbitMqConsumeOptionsQOSPrefetch (rs_Prefetch r)]"

definition rabbit_Start :: "bool \<Rightarrow> (RabbitMqSpec option \<times> 'h) list \<Rightarrow> 'h consumer_call list option" where
  "rabbit_Start queue routers = (if \<not> queue then None else Some (concat (map
     (\<lambda>(spec, h). case spec of None \<Rightarrow> []
        | Some r \<Rightarrow> map (\<lambda>i. (rs_QueueName r, h, rabbit_options r i)) [0..rs_ConsumerNum r - 1]) routers)))"

definition rocket_options :: "RocketMqSpec \<Rightarrow> (ConsumeOptions \<Rightarrow> ConsumeOptions) list" where
  "rocket_options r = [WithRocketMqGroupName (ro_GroupName r), WithRocketMqAutoCommit (ro_AutoCommit r),
     WithRocketMqMaxReconsumeTimes (ro_MaxReconsumeTimes r)]"

definition rocket_Start :: "bool \<Rightarrow> (RocketMqSpec option \<times> 'h) list \<Rightarrow> 'h consumer_call list option" where
  "rocket_Start queue routers = (if \<not> queue then None else Some (concat (map
     (\<lambda>(spec, h). case spec of None \<Rightarrow> []
        | Some r \<Rightarrow> replicate (nat (ro_ConsumerNum r)) (ro_TopicName r, h, rocket_options r)) routers)))"

definition nsq_Start :: "string option list \<Rightarrow> string list" where
  "nsq_Start routers = (let queue = (None :: nat option) in
     case queue of None \<Rightarrow> [] | Some _ \<Rightarrow> concat (map (\<lambda>s. case s of None \<Rightarrow> [] | Some n \<Rightarrow> [n]) routers))"

text \<open>Every key the consumer is bound to finds its handler, apart from the key of the task itself.\<close>

lemma route_from_None: "route_from i k ss = None \<longleftrightarrow> k \<notin> set ss"
  by (induction i k ss rule: route_from.induct) auto

lemma route_from_Some: "route_from i k ss = Some j \<Longrightarrow> i \<le> j \<and> j - i < length ss \<and> ss ! (j - i) = k"
proof (induction i k ss rule: route_from.induct)
  case (2 i k s ss)
  then show ?case by (auto simp: nth_Cons' Suc_diff_le split: if_splits)
qed simp

lemma bound_keys_routed:
  assumes "k \<in> set (GetRoutingKeys r)"
  shows "Route r k = None \<longleftrightarrow> k = rs_RoutingKey r \<and> k \<notin> set (rs_SubTasks r)"
  using assms by (auto simp: GetRoutingKeys_def Route_def route_from_None split: if_splits)

text \<open>
  After the memory service has started, each of its tasks has a worker on the channel that messages
  with its key are sent to, and this stays so whatever the queue does.
\<close>

definition served :: "string \<Rightarrow> Memory \<Rightarrow> bool" where
  "served k q \<longleftrightarrow> (\<exists>w \<in> set (workers q). w_name w = k \<and> queues q k = Some (w_chan w))"

lemma Consumer_workers: "\<exists>w. workers (Consumer k q) = workers q @ [w] \<and> w_name w = k"
proof -
  obtain c q1 where s: "store_queue k (load_queue k q) q = (c, q1)" by (metis surj_pair)
  show ?thesis using store_queue_cases [OF s] by (auto simp: Consumer_def consumer_rest_def s)
qed

lemma served_iff: "queue_ok q \<Longrightarrow> served k q \<longleftrightarrow> (\<exists>w \<in> set (workers q). w_name w = k)"
  using routes_okD(3) [OF queue_okD(3)] unfolding served_def by metis

lemma start_serves:
  assumes "queue_ok q"
  shows "queue_ok (foldl (\<lambda>q key. Consumer key q) q keys)
     \<and> (\<forall>k. k \<in> set keys \<or> served k q \<longrightarrow> served k (foldl (\<lambda>q key. Consumer key q) q keys))"
  using assms
proof (induction keys arbitrary: q)
  case Nil
  then show ?case by simp
next
  case (Cons key keys)
  have ok: "queue_ok (Consumer key q)" using queue_step_ok [OF queue_step.consumer Cons.prems] .
  obtain w where w: "workers (Consumer key q) = workers q @ [w]" "w_name w = key"
    using Consumer_workers by blast
  have "served k (Consumer key q)" if "k = key \<or> served k q" for k
    unfolding served_iff [OF ok] w(1) using that w(2) served_iff [OF Cons.prems] by auto
  then show ?case using Cons.IH [OF ok] by auto
qed

lemma memory_tasks_served:
  assumes "registry_Get MemoryQueueName r = Some q" "queue_ok q" "memory_Start r keys = Some q'" "k \<in> set keys"
  shows "served k q' \<and> queue_ok q'"
  using assms start_serves [OF assms(2), of keys] by (auto simp: memory_Start_def)

lemma nsq_starts_nothing: "nsq_Start routers = []"
  by (simp add: nsq_Start_def)

subsection \<open>Cron jobs\<close>

text \<open>
  A job is its name and pattern. Adding an entry to the scheduler is outside (\<open>add\<close>); \<open>runs\<close> tells
  which entries the service has started or stopped last.
\<close>

record crontab =
  Jobs :: "(string \<times> string) list"
  Workers :: "string \<rightharpoonup> nat"
  runs :: "nat \<rightharpoonup> bool"

definition AddJobs :: "(string \<times> string) list \<Rightarrow> crontab \<Rightarrow> crontab" where
  "AddJobs jobs t = t\<lparr>Jobs := jobs\<rparr>"

definition StartJob :: "string \<Rightarrow> crontab \<Rightarrow> bool \<times> crontab" where
  "StartJob jobName t = (case Workers t jobName of
     Some e \<Rightarrow> (True, t\<lparr>runs := (runs t)(e \<mapsto> True)\<rparr>) | None \<Rightarrow> (False, t))"

definition StopJob :: "string \<Rightarrow> crontab \<Rightarrow> bool \<times> crontab" where
  "StopJob jobName t = (case Workers t jobName of
     Some e \<Rightarrow> (True, t\<lparr>runs := (runs t)(e \<mapsto> False)\<rparr>) | None \<Rightarrow> (False, t))"

definition cron_Start :: "(string \<Rightarrow> string \<Rightarrow> nat option) \<Rightarrow> crontab \<Rightarrow> crontab" where
  "cron_Start add t = foldl (\<lambda>t (name, pattern). case add pattern name of
     None \<Rightarrow> t | Some e \<Rightarrow> t\<lparr>Workers := (Workers t)(name \<mapsto> e), runs := (runs t)(e \<mapsto> True)\<rparr>) t (Jobs t)"

definition cron_Stop :: "crontab \<Rightarrow> crontab" where
  "cron_Stop t = t\<lparr>runs := (\<lambda>e. if e \<in> ran (Workers t) then Some False else runs t e)\<rparr>"

text \<open>A job can be stopped by its name exactly when the scheduler took it, now or before.\<close>

lemma cron_Start_fold: "Workers (foldl (\<lambda>t (name, pattern). case add pattern name of
     None \<Rightarrow> t | Some e \<Rightarrow> t\<lparr>Workers := (Workers t)(name \<mapsto> e), runs := (runs t)(e \<mapsto> True)\<rparr>) t jobs) name \<noteq> None
   \<longleftrightarrow> Workers t name \<noteq> None \<or> (\<exists>pattern. (name, pattern) \<in> set jobs \<and> add pattern name \<noteq> None)"
proof (induction jobs arbitrary: t)
  case Nil
  then show ?case by simp
next
  case (Cons j jobs)
  obtain n p where "j = (n, p)" by (cases j)
  then show ?case using Cons by (cases "add p n") auto
qed

lemma jobs_stoppable:
  "fst (StopJob name (cron_Start add t)) \<longleftrightarrow>
     Workers t name \<noteq> None \<or> (\<exists>pattern. (name, pattern) \<in> set (Jobs t) \<and> add pattern name \<noteq> None)"
  unfolding cron_Start_fold [symmetric] cron_Start_def
  by (simp add: StopJob_def split: option.split)

subsection \<open>The encrypting middleware\<close>

text \<open>A request is its body and its declared length; reading the body drains it.\<close>

record crypto_request =
  Body :: string
  ContentLength :: int

text \<open>
  The middleware is one object for the whole process, here its cipher: whoever asked for it earlier works with the
  cipher that was given last.
\<close>

definition Crypto :: "'c \<Rightarrow> 'c option \<Rightarrow> 'c option" where
  "Crypto cipher insCrypto = Some cipher"

lemma Crypto_shared: "foldl (\<lambda>i c. Crypto c i) i (cs @ [c]) = Some c"
  by (simp add: Crypto_def)

definition DecryptRequest :: "(string \<Rightarrow> string res option) \<Rightarrow> crypto_request \<Rightarrow> crypto_request option" where
  "DecryptRequest decrypt r = (case decrypt (Body r) of
     None \<Rightarrow> None
   | Some (Inl err) \<Rightarrow> Some (r\<lparr>Body := []\<rparr>)
   | Some (Inr plain) \<Rightarrow> Some (r\<lparr>Body := plain, ContentLength := int (length plain)\<rparr>))"

text \<open>The response of the application, with its data as text; reading it is \<open>parse\<close>, writing it \<open>render\<close>.\<close>

record JsonRes =
  jr_Code :: int
  jr_Message :: string
  jr_Data :: string
  jr_Redirect :: string
  jr_RequestId :: string

definition no_res :: JsonRes where
  "no_res = \<lparr>jr_Code = 0, jr_Message = [], jr_Data = [], jr_Redirect = [], jr_RequestId = []\<rparr>"

definition EncryptResponse ::
  "(string \<Rightarrow> string res option) \<Rightarrow> (string \<Rightarrow> JsonRes option) \<Rightarrow> (JsonRes \<Rightarrow> string) \<Rightarrow> string \<Rightarrow> string option" where
  "EncryptResponse encrypt parse render buffer =
     (let res = (case parse buffer of Some r \<Rightarrow> r | None \<Rightarrow> no_res)
      in case encrypt (jr_Data res) of None \<Rightarrow> None
         | Some (Inl err) \<Rightarrow> Some (render res)
         | Some (Inr c) \<Rightarrow> Some (render (res\<lparr>jr_Data := c\<rparr>)))"

context crypto
begin

text \<open>
  A request that a client encrypts reaches the handler as the plain text with its length, and a
  response that the client decrypts is the handler's.
\<close>

lemma request_decrypted:
  assumes "fits p" "encrypt r p = Some (Inr c)"
  shows "DecryptRequest decrypt (req\<lparr>Body := c\<rparr>) = Some (req\<lparr>Body := p, ContentLength := int (length p)\<rparr>)"
  using inverts [OF assms] by (simp add: DecryptRequest_def)

lemma response_encrypted:
  assumes "parse buffer = Some res" "fits (jr_Data res)"
    and "\<And>d. parse (render (res\<lparr>jr_Data := d\<rparr>)) = Some (res\<lparr>jr_Data := d\<rparr>)"
  shows "\<exists>out out_res. EncryptResponse (encrypt r) parse render buffer = Some out \<and> parse out = Some out_res
     \<and> decrypt (jr_Data out_res) = Some (Inr (jr_Data res)) \<and> out_res\<lparr>jr_Data := jr_Data res\<rparr> = res"
proof -
  obtain c where c: "encrypt r (jr_Data res) = Some (Inr c)" using total [OF assms(2)] by blast
  then have "EncryptResponse (encrypt r) parse render buffer = Some (render (res\<lparr>jr_Data := c\<rparr>))"
    by (simp add: EncryptResponse_def assms(1))
  with inverts [OF assms(2) c] show ?thesis by (simp add: assms(3))
qed

end

text \<open>When the body cannot be decrypted the request goes on with an empty body and its old length.\<close>

lemma undecryptable_body_lost:
  "decrypt (Body r) = Some (Inl err) \<Longrightarrow> DecryptRequest decrypt r = Some (r\<lparr>Body := []\<rparr>)"
  by (simp add: DecryptRequest_def)

end
