(* ===== verification/Sdk_Broker.thy ===== *)
theory Sdk_Broker
  imports Sdk_Service
begin

section \<open>Queues on brokers\<close>

text \<open>
  The queues of \<open>sdk/queue\<close> on RabbitMQ, RocketMQ, NSQ and Redis, and the wrappers of \<open>core/task\<close>
  around handlers. The client libraries are outside the repository: the calls the code makes of
  them are parameters that act on an environment \<open>'w\<close>, their connections, producers and consumers
  are numbers. A handler is a function of the message and the environment; \<open>None\<close> is a panic.
\<close>

type_synonym 'w ConsumerFunc = "QueueMessage \<Rightarrow> 'w \<Rightarrow> go_error option \<times> 'w"

text \<open>Setters of options are applied from the first to the last.\<close>

definition apply_options :: "('o \<Rightarrow> 'o) list \<Rightarrow> 'o \<Rightarrow> 'o" where
  "apply_options fs o' = foldl (\<lambda>o' f. f o') o' fs"

lemma apply_options_simps [simp]:
  "apply_options [] o' = o'" "apply_options (f # fs) o' = apply_options fs (f o')"
  by (simp_all add: apply_options_def)

subsection \<open>Wrapped handlers\<close>

text \<open>A sub-task answers data and possibly an error; \<open>callback\<close> gets the data in any case.\<close>

type_synonym ('d, 'w) sub_handler = "QueueMessage \<Rightarrow> 'w \<Rightarrow> ('d \<times> go_error option) \<times> 'w"

definition WrapHandler :: "('d, 'w) sub_handler \<Rightarrow> 'w ConsumerFunc" where
  "WrapHandler handler msg w = (case handler msg w of ((_, err), w') \<Rightarrow> (err, w'))"

definition CallbackWrapHandler ::
  "('d, 'w) sub_handler \<Rightarrow> ('d \<Rightarrow> 'w \<Rightarrow> go_error option \<times> 'w) \<Rightarrow> 'w ConsumerFunc" where
  "CallbackWrapHandler handler callback msg w = (case handler msg w of ((data, _), w') \<Rightarrow> callback data w')"

subsection \<open>RabbitMQ\<close>

record Delivery =
  d_Body :: string
  d_RoutingKey :: string
  d_MessageId :: string
  d_Redelivered :: bool
  d_DeliveryTag :: "64 word"

datatype Action = Ack | NackDiscard | NackRequeue

text \<open>
  The calls of the client: connect, make a consumer or a publisher, publish a body under keys, close
  one of them.
\<close>

record 'w rabbit_client =
  rc_NewConn :: "string \<Rightarrow> nat \<Rightarrow> int \<Rightarrow> 'w \<Rightarrow> nat res \<times> 'w"
  rc_NewConsumer :: "nat \<Rightarrow> (Delivery \<Rightarrow> 'w \<Rightarrow> Action \<times> 'w) \<Rightarrow> string \<Rightarrow> ConsumeOptions
    \<Rightarrow> BindingExchangeOptions \<Rightarrow> 'w \<Rightarrow> nat res \<times> 'w"
  rc_NewPublisher :: "nat \<Rightarrow> 'w \<Rightarrow> nat res \<times> 'w"
  rc_Publish :: "nat \<Rightarrow> string \<Rightarrow> string list \<Rightarrow> PublishOptions \<Rightarrow> 'w \<Rightarrow> go_error option \<times> 'w"
  rc_ClosePublisher :: "nat \<Rightarrow> 'w \<Rightarrow> 'w"
  rc_CloseConsumer :: "nat \<Rightarrow> 'w \<Rightarrow> 'w"
  rc_CloseConn :: "nat \<Rightarrow> 'w \<Rightarrow> go_error option \<times> 'w"

record RabbitMQ =
  Url :: string
  ReconnectInterval :: int
  rb_Config :: nat
  rb_consumers :: "string \<rightharpoonup> nat"
  rb_producers :: "string \<rightharpoonup> nat"
  rb_conn :: "nat option"

definition NewRabbitMQ :: "string \<Rightarrow> int \<Rightarrow> nat option \<Rightarrow> RabbitMQ" where
  "NewRabbitMQ dsn interval cfg = \<lparr>Url = dsn, ReconnectInterval = interval,
     rb_Config = (case cfg of Some c \<Rightarrow> c | None \<Rightarrow> 0), rb_consumers = Map.empty, rb_producers = Map.empty,
     rb_conn = None\<rparr>"

text \<open>A configuration is a number, \<open>0\<close> the zero value. The connection is made once.\<close>

definition rabbit_newConn :: "'w rabbit_client \<Rightarrow> RabbitMQ \<Rightarrow> 'w \<Rightarrow> nat res \<times> RabbitMQ \<times> 'w" where
  "rabbit_newConn c r w = (case rb_conn r of
     Some k \<Rightarrow> (Inr k, r, w)
   | None \<Rightarrow> (case rc_NewConn c (Url r) (rb_Config r) (i64 (ReconnectInterval r * 1000000000)) w of
       (Inl e, w') \<Rightarrow> (Inl e, r, w')
     | (Inr k, w') \<Rightarrow> (Inr k, r\<lparr>rb_conn := Some k\<rparr>, w')))"

definition rabbit_newConsumer :: "'w rabbit_client \<Rightarrow> string \<Rightarrow> (Delivery \<Rightarrow> 'w \<Rightarrow> Action \<times> 'w) \<Rightarrow> ConsumeOptions
    \<Rightarrow> BindingExchangeOptions \<Rightarrow> RabbitMQ \<Rightarrow> 'w \<Rightarrow> nat res \<times> RabbitMQ \<times> 'w" where
  "rabbit_newConsumer c queueName header o' ex r w = (case rabbit_newConn c r w of
     (Inl e, r', w') \<Rightarrow> (Inl e, r', w')
   | (Inr k, r', w') \<Rightarrow> (case rc_NewConsumer c k header queueName o' ex w' of (res, w'') \<Rightarrow> (res, r', w'')))"

definition rabbit_newProducer :: "'w rabbit_client \<Rightarrow> RabbitMQ \<Rightarrow> 'w \<Rightarrow> nat res \<times> RabbitMQ \<times> 'w" where
  "rabbit_newProducer c r w = (case rabbit_newConn c r w of
     (Inl e, r', w') \<Rightarrow> (Inl e, r', w')
   | (Inr k, r', w') \<Rightarrow> (case rc_NewPublisher c k w' of (res, w'') \<Rightarrow> (res, r', w'')))"

text \<open>Publishing: one publisher for each exchange, the values of the message as JSON.\<close>

definition rabbit_publish_options :: "string \<Rightarrow> (PublishOptions \<Rightarrow> PublishOptions) list \<Rightarrow> PublishOptions" where
  "rabbit_publish_options ctx_id fs = apply_options fs
     \<lparr>Exchange = [], ContentType = ''application/json'', ReplyTo = [], MessageID = ctx_id, UserID = [], AppID = [],
      po_GroupName = [], RetryTimes = 0\<rparr>"

definition rabbit_Publish :: "'w rabbit_client \<Rightarrow> ((string \<rightharpoonup> mvalue) option \<Rightarrow> string res) \<Rightarrow> string \<Rightarrow> QueueMessage
    \<Rightarrow> (PublishOptions \<Rightarrow> PublishOptions) list \<Rightarrow> RabbitMQ \<Rightarrow> 'w \<Rightarrow> go_error option \<times> RabbitMQ \<times> 'w" where
  "rabbit_Publish c marshal ctx_id msg fs r w = (case marshal (Values msg) of
     Inl e \<Rightarrow> (Some e, r, w)
   | Inr rb \<Rightarrow>
       let o' = rabbit_publish_options ctx_id fs;
           (p, r1, w1) = (case rb_producers r (Exchange o') of
             Some p \<Rightarrow> (Inr p, r, w)
           | None \<Rightarrow> (case rabbit_newProducer c r w of
               (Inl e, r', w') \<Rightarrow> (Inl e, r', w')
             | (Inr p, r', w') \<Rightarrow> (Inr p, r'\<lparr>rb_producers := (rb_producers r')(Exchange o' \<mapsto> p)\<rparr>, w')))
       in case p of
            Inl e \<Rightarrow> (Some e, r1, w1)
          | Inr p \<Rightarrow> (case rc_Publish c p rb [RoutingKey msg] o' w1 of (err, w2) \<Rightarrow> (err, r1, w2)))"

text \<open>
  What a consumer does with a delivery: the handler gets the body as the only value, and its error
  puts the message back.
\<close>

definition rabbit_message :: "Delivery \<Rightarrow> QueueMessage" where
  "rabbit_message d =
     (let m = SetId (d_MessageId d) (SetRoutingKey (d_RoutingKey d)
                (SetValues (Some [''body'' \<mapsto> MString (d_Body d)]) new_message))
      in if d_Redelivered d then SetErrorCount (d_DeliveryTag d) m else m)"

definition ack_of :: "go_error option \<Rightarrow> Action" where
  "ack_of err = (if err \<noteq> None then NackRequeue else Ack)"

definition rabbit_header :: "'w ConsumerFunc \<Rightarrow> Delivery \<Rightarrow> 'w \<Rightarrow> Action \<times> 'w" where
  "rabbit_header f d w = (case f (rabbit_message d) w of (err, w') \<Rightarrow> (ack_of err, w'))"

text \<open>A consumer is made for an exchange that has none; an error of the client is only logged.\<close>

definition rabbit_Consumer :: "'w rabbit_client \<Rightarrow> string \<Rightarrow> 'w ConsumerFunc \<Rightarrow> (ConsumeOptions \<Rightarrow> ConsumeOptions) list
    \<Rightarrow> RabbitMQ \<Rightarrow> 'w \<Rightarrow> (RabbitMQ \<times> 'w) option" where
  "rabbit_Consumer c queueName f fs r w =
     (let o' = apply_options fs GetDefaultConsumeOptions in case BindingExchange o' of
        None \<Rightarrow> None
      | Some ex \<Rightarrow> (case rb_consumers r (be_Name ex) of
          Some _ \<Rightarrow> Some (r, w)
        | None \<Rightarrow> (case rabbit_newConsumer c queueName (rabbit_header f) o' ex r w of
            (Inl e, r', w') \<Rightarrow> Some (r', w')
          | (Inr k, r', w') \<Rightarrow> Some (r'\<lparr>rb_consumers := (rb_consumers r')(be_Name ex \<mapsto> k)\<rparr>, w'))))"

text \<open>Shutting down closes everything, in the order \<open>ps\<close>, \<open>cs\<close> in which Go happens to visit the maps.\<close>

definition rabbit_Shutdown :: "'w rabbit_client \<Rightarrow> string list \<Rightarrow> string list \<Rightarrow> RabbitMQ \<Rightarrow> 'w \<Rightarrow> 'w" where
  "rabbit_Shutdown c ps cs r w =
     (let w1 = foldl (\<lambda>w k. case rb_producers r k of None \<Rightarrow> w | Some p \<Rightarrow> rc_ClosePublisher c p w) w ps;
          w2 = foldl (\<lambda>w k. case rb_consumers r k of None \<Rightarrow> w | Some p \<Rightarrow> rc_CloseConsumer c p w) w1 cs
      in case rb_conn r of None \<Rightarrow> w2 | Some k \<Rightarrow> snd (rc_CloseConn c k w2))"

text \<open>\<open>Start\<close> of the task service on this queue.\<close>

definition rabbit_calls :: "'w rabbit_client \<Rightarrow> 'w ConsumerFunc consumer_call list \<Rightarrow> RabbitMQ \<Rightarrow> 'w \<Rightarrow> (RabbitMQ \<times> 'w) option" where
  "rabbit_calls c calls r w = foldl (\<lambda>s (q, f, fs). case s of None \<Rightarrow> None
     | Some (r, w) \<Rightarrow> rabbit_Consumer c q f fs r w) (Some (r, w)) calls"

text \<open>
  Only the first call for an exchange has an effect: the other consumers of a task, and other tasks on
  the same exchange, are dropped, whatever queue they ask for.
\<close>

definition call_exchange :: "'h consumer_call \<Rightarrow> string" where
  "call_exchange call = (case BindingExchange (apply_options (snd (snd call)) GetDefaultConsumeOptions) of
     Some ex \<Rightarrow> be_Name ex | None \<Rightarrow> [])"

fun keep_first :: "('a \<Rightarrow> 'k) \<Rightarrow> 'k set \<Rightarrow> 'a list \<Rightarrow> 'a list" where
  "keep_first k seen [] = []"
| "keep_first k seen (x # xs) = (if k x \<in> seen then keep_first k seen xs else x # keep_first k (insert (k x) seen) xs)"

lemma keep_first_image: "k ` set (keep_first k seen xs) = k ` set xs - seen"
  by (induction k seen xs rule: keep_first.induct) auto

lemma keep_first_distinct: "distinct (map k (keep_first k seen xs))"
proof (induction k seen xs rule: keep_first.induct)
  case (2 k seen x xs)
  then show ?case using keep_first_image [of k "insert (k x) seen" xs] by auto
qed simp

lemma keep_first_nth: "x \<in> set (keep_first k seen xs) \<Longrightarrow> \<exists>ys zs. xs = ys @ x # zs \<and> k x \<notin> k ` set ys"
proof (induction k seen xs rule: keep_first.induct)
  case (2 k seen y xs)
  show ?case
  proof (cases "k y \<in> seen")
    case True
    then obtain ys zs where "xs = ys @ x # zs" "k x \<notin> k ` set ys" using 2 by auto
    moreover have "k x \<in> k ` set (keep_first k seen xs)" using True 2(3) by simp
    then have "k x \<noteq> k y" unfolding keep_first_image using True by auto
    ultimately have "y # xs = (y # ys) @ x # zs" "k x \<notin> k ` set (y # ys)" by auto
    then show ?thesis by blast
  next
    case False
    show ?thesis
    proof (cases "x = y")
      case True
      then have "y # xs = [] @ x # xs" "k x \<notin> k ` set []" by simp_all
      then show ?thesis by blast
    next
      case neq: False
      then have x: "x \<in> set (keep_first k (insert (k y) seen) xs)" using 2(3) False by simp
      then obtain ys zs where "xs = ys @ x # zs" "k x \<notin> k ` set ys" using 2(2) False by auto
      moreover have "k x \<in> k ` set (keep_first k (insert (k y) seen) xs)" using x by simp
      then have "k x \<noteq> k y" unfolding keep_first_image by simp
      ultimately have "y # xs = (y # ys) @ x # zs" "k x \<notin> k ` set (y # ys)" by auto
    then show ?thesis by blast
    qed
  qed
qed simp

text \<open>A client none of whose calls to connect or to make a consumer fails.\<close>

definition rabbit_up :: "'w rabbit_client \<Rightarrow> bool" where
  "rabbit_up c \<longleftrightarrow> (\<forall>url cfg i w. is_ok (fst (rc_NewConn c url cfg i w)))
     \<and> (\<forall>k h q o' ex w. is_ok (fst (rc_NewConsumer c k h q o' ex w)))"

lemma rabbit_newConsumer_up:
  assumes "rabbit_up c"
  shows "\<exists>k r' w'. rabbit_newConsumer c q h o' ex r w = (Inr k, r', w') \<and> rb_consumers r' = rb_consumers r"
proof -
  have conn: "\<exists>k r1 w1. rabbit_newConn c r w = (Inr k, r1, w1) \<and> rb_consumers r1 = rb_consumers r"
  proof (cases "rb_conn r")
    case None
    obtain res w1 where n: "rc_NewConn c (Url r) (rb_Config r) (i64 (ReconnectInterval r * 1000000000)) w = (res, w1)"
      by (metis surj_pair)
    then have "is_ok res" using assms unfolding rabbit_up_def by (metis fst_conv)
    then show ?thesis using n None by (auto simp: rabbit_newConn_def elim: is_okE)
  qed (simp add: rabbit_newConn_def)
  then obtain k r1 w1 where k: "rabbit_newConn c r w = (Inr k, r1, w1)" "rb_consumers r1 = rb_consumers r" by blast
  obtain res w2 where n: "rc_NewConsumer c k h q o' ex w1 = (res, w2)" by (metis surj_pair)
  then have "is_ok res" using assms unfolding rabbit_up_def by (metis fst_conv)
  then show ?thesis using n k by (auto simp: rabbit_newConsumer_def elim: is_okE)
qed

lemma rabbit_Consumer_known:
  assumes "BindingExchange (apply_options fs GetDefaultConsumeOptions) = Some ex" "be_Name ex \<in> dom (rb_consumers r)"
  shows "rabbit_Consumer c q f fs r w = Some (r, w)"
  using assms by (auto simp: rabbit_Consumer_def)

lemma rabbit_Consumer_new:
  assumes "rabbit_up c" "BindingExchange (apply_options fs GetDefaultConsumeOptions) = Some ex"
    "be_Name ex \<notin> dom (rb_consumers r)"
  shows "\<exists>r' w'. rabbit_Consumer c q f fs r w = Some (r', w')
    \<and> dom (rb_consumers r') = insert (be_Name ex) (dom (rb_consumers r))"
proof -
  obtain k r1 w1 where "rabbit_newConsumer c q (rabbit_header f) (apply_options fs GetDefaultConsumeOptions) ex r w = (Inr k, r1, w1)"
    "rb_consumers r1 = rb_consumers r" using rabbit_newConsumer_up [OF assms(1)] by blast
  then show ?thesis using assms(2,3) by (auto simp: rabbit_Consumer_def domIff)
qed

definition bound :: "'h consumer_call \<Rightarrow> bool" where
  "bound call \<longleftrightarrow> BindingExchange (apply_options (snd (snd call)) GetDefaultConsumeOptions) \<noteq> None"

lemma rabbit_calls_first:
  assumes "rabbit_up c" "\<forall>call \<in> set calls. bound call" "dom (rb_consumers r) = seen"
  shows "rabbit_calls c calls r w = rabbit_calls c (keep_first call_exchange seen calls) r w
     \<and> (\<exists>r' w'. rabbit_calls c calls r w = Some (r', w') \<and> dom (rb_consumers r') = seen \<union> call_exchange ` set calls)"
  using assms(2,3)
proof (induction calls arbitrary: r w seen)
  case Nil
  then show ?case by (simp add: rabbit_calls_def)
next
  case (Cons call calls)
  obtain q f fs where call: "call = (q, f, fs)" by (cases call)
  obtain ex where ex: "BindingExchange (apply_options fs GetDefaultConsumeOptions) = Some ex"
    using Cons.prems(1) call by (auto simp: bound_def)
  then have name: "call_exchange call = be_Name ex" by (simp add: call_exchange_def call)
  have step: "rabbit_calls c ((q, f, fs) # cs) r w = (case rabbit_Consumer c q f fs r w of
      None \<Rightarrow> foldl (\<lambda>s (q, f, fs). case s of None \<Rightarrow> None | Some (r, w) \<Rightarrow> rabbit_Consumer c q f fs r w) None cs
    | Some (r', w') \<Rightarrow> rabbit_calls c cs r' w')" for cs
    by (simp add: rabbit_calls_def split: option.split)
  show ?case
  proof (cases "be_Name ex \<in> seen")
    case True
    then have "rabbit_Consumer c q f fs r w = Some (r, w)" using Cons.prems(2)
      by (intro rabbit_Consumer_known [OF ex]) simp
    then have skip: "rabbit_calls c ((q, f, fs) # cs) r w = rabbit_calls c cs r w" for cs by (simp add: step)
    have eqs: "keep_first call_exchange seen (call # calls) = keep_first call_exchange seen calls"
      "seen \<union> call_exchange ` set (call # calls) = seen \<union> call_exchange ` set calls"
      "rabbit_calls c (call # calls) r w = rabbit_calls c calls r w" using True name skip call by auto
    show ?thesis unfolding eqs by (rule Cons.IH) (use Cons.prems in auto)
  next
    case False
    then obtain r' w' where r': "rabbit_Consumer c q f fs r w = Some (r', w')"
      "dom (rb_consumers r') = insert (be_Name ex) seen"
      using rabbit_Consumer_new [OF assms(1) ex] Cons.prems(2) by blast
    then have go: "rabbit_calls c (call # cs) r w = rabbit_calls c cs r' w'" for cs by (simp add: step call)
    have eqs: "keep_first call_exchange seen (call # calls)
        = call # keep_first call_exchange (insert (be_Name ex) seen) calls"
      "seen \<union> call_exchange ` set (call # calls) = insert (be_Name ex) seen \<union> call_exchange ` set calls"
      using False name by auto
    show ?thesis unfolding eqs go by (rule Cons.IH) (use Cons.prems r'(2) in auto)
  qed
qed

definition RabbitmqQueueName :: string where "RabbitmqQueueName = ''rabbitmq''"

definition rabbit_task_Start :: "'w rabbit_client \<Rightarrow> RabbitMQ registry \<Rightarrow> (RabbitMqSpec option \<times> 'w ConsumerFunc) list
    \<Rightarrow> 'w \<Rightarrow> (RabbitMQ \<times> 'w) option" where
  "rabbit_task_Start c reg routers w = (case registry_Get RabbitmqQueueName reg of
     None \<Rightarrow> None
   | Some r \<Rightarrow> (case rabbit_Start True routers of None \<Rightarrow> None | Some calls \<Rightarrow> rabbit_calls c calls r w))"

lemma rabbit_options_exchange:
  "BindingExchange (apply_options (rabbit_options r i) o') = Some \<lparr>be_Name = rs_Exchange r, be_Kind = rs_ExchangeType r\<rparr>"
  by (simp add: rabbit_options_def WithRabbitMqConsumeOptionsBindingRoutingKeys_def
    WithRabbitMqConsumeOptionsBindingExchangeName_def WithRabbitMqConsumeOptionsBindingExchangeType_def
    WithRabbitMqConsumeOptionsConcurrency_def WithRabbitMqConsumeOptionsConsumerName_def
    WithRabbitMqConsumeOptionsConsumerAutoAck_def WithRabbitMqConsumeOptionsQOSPrefetch_def
    getBindingExchangeOptionsOrSetDefault_def)

lemma rabbit_Start_calls:
  assumes "rabbit_Start True routers = Some calls"
  shows "\<forall>call \<in> set calls. bound call"
    and "call_exchange ` set calls = {rs_Exchange s |s h. (Some s, h) \<in> set routers \<and> 0 < rs_ConsumerNum s}"
proof -
  have calls: "calls = concat (map (\<lambda>(spec, h). case spec of None \<Rightarrow> []
        | Some r \<Rightarrow> map (\<lambda>i. (rs_QueueName r, h, rabbit_options r i)) [0..rs_ConsumerNum r - 1]) routers)"
    using assms by (simp add: rabbit_Start_def)
  show "\<forall>call \<in> set calls. bound call"
    by (auto simp: calls bound_def rabbit_options_exchange split: option.splits)
  show "call_exchange ` set calls = {rs_Exchange s |s h. (Some s, h) \<in> set routers \<and> 0 < rs_ConsumerNum s}"
    (is "?L = ?R")
  proof
    show "?L \<subseteq> ?R" by (force simp: calls call_exchange_def rabbit_options_exchange split: option.splits)
    show "?R \<subseteq> ?L"
    proof
      fix e assume "e \<in> ?R"
      then obtain s h where s: "e = rs_Exchange s" "(Some s, h) \<in> set routers" "0 < rs_ConsumerNum s" by blast
      have "(rs_QueueName s, h, rabbit_options s 0) \<in> set calls" unfolding calls using s(2,3) by force
      then have "call_exchange (rs_QueueName s, h, rabbit_options s 0) \<in> ?L" by (rule imageI)
      then show "e \<in> ?L" by (simp add: call_exchange_def rabbit_options_exchange s(1))
    qed
  qed
qed

text \<open>
  C39. The task service for RabbitMQ consumes with one consumer for each exchange: on a new queue, with a
  client whose calls succeed, starting it has exactly the effect of the first call of \<open>Consumer\<close> for
  every exchange of a task with at least one consumer. The other \<open>ConsumerNum\<close> - 1 consumers of the task
  and every later task on the same exchange, with its own queue, keys and handler, are dropped.
\<close>

theorem rabbit_one_per_exchange:
  assumes "rabbit_up c" "registry_Get RabbitmqQueueName reg = Some (NewRabbitMQ dsn interval cfg)"
    "rabbit_Start True routers = Some calls"
  shows "rabbit_task_Start c reg routers w
       = rabbit_calls c (keep_first call_exchange {} calls) (NewRabbitMQ dsn interval cfg) w
     \<and> (\<forall>call \<in> set (keep_first call_exchange {} calls).
         \<exists>before after. calls = before @ call # after \<and> call_exchange call \<notin> call_exchange ` set before)
     \<and> distinct (map call_exchange (keep_first call_exchange {} calls))
     \<and> (\<exists>r w'. rabbit_task_Start c reg routers w = Some (r, w')
         \<and> dom (rb_consumers r) = {rs_Exchange s |s h. (Some s, h) \<in> set routers \<and> 0 < rs_ConsumerNum s})"
proof -
  have "dom (rb_consumers (NewRabbitMQ dsn interval cfg)) = {}" by (simp add: NewRabbitMQ_def)
  note run = rabbit_calls_first [OF assms(1) rabbit_Start_calls(1) [OF assms(3)] this, of w]
  have start: "rabbit_task_Start c reg routers w = rabbit_calls c calls (NewRabbitMQ dsn interval cfg) w"
    by (simp add: rabbit_task_Start_def assms(2,3))
  have first: "\<exists>before after. calls = before @ call # after \<and> call_exchange call \<notin> call_exchange ` set before"
    if "call \<in> set (keep_first call_exchange {} calls)" for call by (rule keep_first_nth [OF that])
  show ?thesis unfolding start rabbit_Start_calls(2) [OF assms(3), symmetric]
    using run first keep_first_distinct [of call_exchange "{}" calls] by (metis Un_empty_left)
qed

text \<open>Two tasks with two consumers each on one exchange: one consumer is made, on the first task's queue.\<close>

definition demo_rabbit :: "string list rabbit_client" where
  "demo_rabbit = \<lparr>rc_NewConn = (\<lambda>url cfg i w. (Inr 1, w)),
     rc_NewConsumer = (\<lambda>k h q o' ex w. (Inr (length w), w @ [q])),
     rc_NewPublisher = (\<lambda>k w. (Inr 1, w)), rc_Publish = (\<lambda>p b ks o' w. (None, w)),
     rc_ClosePublisher = (\<lambda>p w. w), rc_CloseConsumer = (\<lambda>p w. w), rc_CloseConn = (\<lambda>k w. (None, w))\<rparr>"

definition demo_spec :: "string \<Rightarrow> RabbitMqSpec" where
  "demo_spec queue = \<lparr>rs_TaskName = ''task'', rs_RoutingKey = queue, rs_Exchange = ''shop'', rs_ExchangeType = ''topic'',
     rs_QueueName = queue, rs_SubTasks = [], rs_ConsumerNum = 2, rs_CoroutineNum = 1, rs_Prefetch = 1, rs_AutoAck = False\<rparr>"

definition demo_routers :: "(RabbitMqSpec option \<times> string list ConsumerFunc) list" where
  "demo_routers = [(Some (demo_spec ''orders''), \<lambda>m w. (None, w)), (Some (demo_spec ''bills''), \<lambda>m w. (None, w))]"

lemma demo_rabbit_up: "rabbit_up demo_rabbit"
  by (simp add: rabbit_up_def demo_rabbit_def)

theorem rabbit_one_per_exchange_witness:
  "\<exists>r. rabbit_task_Start demo_rabbit [RabbitmqQueueName \<mapsto> NewRabbitMQ [] 1 None] demo_routers [] = Some (r, [''orders''])
     \<and> dom (rb_consumers r) = {''shop''}"
proof -
  let ?reg = "[RabbitmqQueueName \<mapsto> NewRabbitMQ [] 1 None]"
  have reg: "registry_Get RabbitmqQueueName ?reg = Some (NewRabbitMQ [] 1 None)"
    by (simp add: registry_Get_def registry_name_def RabbitmqQueueName_def)
  obtain calls where calls: "rabbit_Start True demo_routers = Some calls" by (simp add: rabbit_Start_def)
  note run = rabbit_one_per_exchange [OF demo_rabbit_up reg calls, of "[]"]
  have exchanges: "{rs_Exchange s |s h. (Some s, h) \<in> set demo_routers \<and> 0 < rs_ConsumerNum s} = {''shop''}"
    (is "?L = ?R")
  proof
    show "?L \<subseteq> ?R" by (auto simp: demo_routers_def demo_spec_def)
    have e: "rs_Exchange (demo_spec ''orders'') = ''shop''" and n: "0 < rs_ConsumerNum (demo_spec ''orders'')"
      by (simp_all add: demo_spec_def)
    have "(Some (demo_spec ''orders''), \<lambda>m w. (None, w)) \<in> set demo_routers" by (simp add: demo_routers_def)
    with n have "rs_Exchange (demo_spec ''orders'') \<in> ?L" by blast
    then show "?R \<subseteq> ?L" unfolding e by (simp only: empty_subsetI insert_subset)
  qed
  have interval: "[0..1::int] = [0, 1]" by (simp add: upto.simps)
  have spec: "rs_QueueName (demo_spec q) = q" "rs_Exchange (demo_spec q) = ''shop''" "rs_ConsumerNum (demo_spec q) - 1 = 1" for q
    by (simp_all add: demo_spec_def)
  have "calls = [(''orders'', \<lambda>m w. (None, w), rabbit_options (demo_spec ''orders'') 0),
      (''orders'', \<lambda>m w. (None, w), rabbit_options (demo_spec ''orders'') 1),
      (''bills'', \<lambda>m w. (None, w), rabbit_options (demo_spec ''bills'') 0),
      (''bills'', \<lambda>m w. (None, w), rabbit_options (demo_spec ''bills'') 1)]"
    using calls by (simp add: rabbit_Start_def demo_routers_def spec interval)
  then have "keep_first call_exchange {} calls
      = [(''orders'', \<lambda>m w. (None, w), rabbit_options (demo_spec ''orders'') 0)]"
    by (simp add: call_exchange_def rabbit_options_exchange spec)
  then have "\<exists>r. rabbit_calls demo_rabbit (keep_first call_exchange {} calls) (NewRabbitMQ [] 1 None) [] = Some (r, [''orders''])"
    by (simp add: rabbit_calls_def rabbit_Consumer_def rabbit_options_exchange rabbit_newConsumer_def rabbit_newConn_def
      demo_rabbit_def NewRabbitMQ_def spec)
  with run show ?thesis unfolding exchanges by (metis option.inject prod.inject)
qed

subsection \<open>Concurrent deliveries\<close>

text \<open>
  The handlers a consumer runs at the same time (\<open>Concurrency\<close>) are calls of one closure, whose error
  variable belongs to the surrounding call of \<open>Consumer\<close>: each assigns its handler's answer to it and then
  looks at it. \<open>outcome i\<close> is what the handler of delivery \<open>i\<close> answers.
\<close>

datatype header_pc = Calling | Assigned | Answered Action

record header_state =
  shared_err :: "go_error option"
  deliveries :: "header_pc list"

inductive header_step :: "(nat \<Rightarrow> go_error option) \<Rightarrow> header_state \<Rightarrow> header_state \<Rightarrow> bool" for outcome where
  assign: "i < length (deliveries s) \<Longrightarrow> deliveries s ! i = Calling \<Longrightarrow>
    header_step outcome s (s\<lparr>shared_err := outcome i, deliveries := (deliveries s)[i := Assigned]\<rparr>)"
| answer: "i < length (deliveries s) \<Longrightarrow> deliveries s ! i = Assigned \<Longrightarrow>
    header_step outcome s (s\<lparr>deliveries := (deliveries s)[i := Answered (ack_of (shared_err s))]\<rparr>)"

definition header_start :: "nat \<Rightarrow> header_state" where
  "header_start n = \<lparr>shared_err = None, deliveries = replicate n Calling\<rparr>"

definition header_reach :: "(nat \<Rightarrow> go_error option) \<Rightarrow> nat \<Rightarrow> header_state \<Rightarrow> bool" where
  "header_reach outcome n s \<longleftrightarrow> (header_step outcome)\<^sup>*\<^sup>* (header_start n) s"

definition header_ok :: "(nat \<Rightarrow> go_error option) \<Rightarrow> nat \<Rightarrow> header_state \<Rightarrow> bool" where
  "header_ok outcome n s \<longleftrightarrow> length (deliveries s) = n
     \<and> ((\<exists>i < n. deliveries s ! i = Assigned) \<longrightarrow> shared_err s \<in> outcome ` {..<n})
     \<and> (\<forall>i < n. \<forall>a. deliveries s ! i = Answered a \<longrightarrow> a \<in> (ack_of \<circ> outcome) ` {..<n})"

lemma header_step_ok: "header_step outcome s t \<Longrightarrow> header_ok outcome n s \<Longrightarrow> header_ok outcome n t"
proof (induction rule: header_step.induct)
  case (assign i s)
  then show ?case by (auto simp: header_ok_def nth_list_update)
next
  case (answer i s)
  then have "shared_err s \<in> outcome ` {..<n}" by (auto simp: header_ok_def)
  with answer show ?case by (fastforce simp: header_ok_def nth_list_update)
qed

lemma header_reach_ok: "header_reach outcome n s \<Longrightarrow> header_ok outcome n s"
proof -
  assume "header_reach outcome n s"
  moreover have "header_ok outcome n (header_start n)" by (auto simp: header_ok_def header_start_def)
  ultimately show ?thesis unfolding header_reach_def
    by (induction rule: rtranclp_induct) (auto intro: header_step_ok)
qed

text \<open>The interleaving: \<open>i\<close> assigns, \<open>j\<close> assigns, \<open>i\<close> answers.\<close>

lemma header_race:
  assumes "i < n" "j < n" "i \<noteq> j"
  shows "\<exists>s. header_reach outcome n s \<and> deliveries s ! i = Answered (ack_of (outcome j))"
proof -
  let ?a = "(header_start n)\<lparr>shared_err := outcome i, deliveries := (deliveries (header_start n))[i := Assigned]\<rparr>"
  let ?b = "?a\<lparr>shared_err := outcome j, deliveries := (deliveries ?a)[j := Assigned]\<rparr>"
  let ?c = "?b\<lparr>deliveries := (deliveries ?b)[i := Answered (ack_of (shared_err ?b))]\<rparr>"
  have "header_step outcome (header_start n) ?a" by (rule assign) (use assms in \<open>simp_all add: header_start_def\<close>)
  moreover have "header_step outcome ?a ?b" by (rule assign) (use assms in \<open>simp_all add: header_start_def\<close>)
  moreover have "header_step outcome ?b ?c" by (rule answer) (use assms in \<open>simp_all add: header_start_def\<close>)
  ultimately have "header_reach outcome n ?c" unfolding header_reach_def by (meson rtranclp.intros)
  moreover have "deliveries ?c ! i = Answered (ack_of (outcome j))" using assms by (simp add: header_start_def)
  ultimately show ?thesis by blast
qed



text \<open>
  A delivery is acknowledged when the sub-task succeeds; with a callback the callback alone decides, so
  a failed sub-task is acknowledged when the callback takes its data.
\<close>

lemma WrapHandler_ack:
  "fst (rabbit_header (WrapHandler handler) d w) = Ack \<longleftrightarrow> snd (fst (handler (rabbit_message d) w)) = None"
  by (simp add: rabbit_header_def WrapHandler_def ack_of_def split: prod.split)

lemma callback_hides_failure:
  assumes "handler (rabbit_message d) w = ((data, Some err), w1)" "callback data w1 = (None, w2)"
  shows "rabbit_header (CallbackWrapHandler handler callback) d w = (Ack, w2)"
  using assms by (simp add: rabbit_header_def CallbackWrapHandler_def ack_of_def)

subsection \<open>RocketMQ\<close>

record RocketMessage =
  rm_Topic :: string
  rm_Body :: string

record MessageExt =
  me_Topic :: string
  me_Body :: string
  me_Tags :: string
  me_MsgId :: string
  me_ReconsumeTimes :: "32 word"

datatype ConsumeResult = ConsumeSuccess | Rollback

text \<open>A consumer's credentials and name servers are the queue's; the handler of a topic is given with it.\<close>

record 'w rocket_client =
  kc_NewPushConsumer :: "string list \<Rightarrow> (string \<times> string) option \<Rightarrow> string \<Rightarrow> int \<Rightarrow> bool \<Rightarrow> 'w \<Rightarrow> nat res \<times> 'w"
  kc_NewProducer :: "string list \<Rightarrow> (string \<times> string) option \<Rightarrow> int \<Rightarrow> 'w \<Rightarrow> nat res \<times> 'w"
  kc_Subscribe :: "nat \<Rightarrow> string \<Rightarrow> (MessageExt list \<Rightarrow> 'w \<Rightarrow> (ConsumeResult \<times> go_error option) \<times> 'w) \<Rightarrow> 'w
    \<Rightarrow> go_error option \<times> 'w"
  kc_SendSync :: "nat \<Rightarrow> RocketMessage \<Rightarrow> 'w \<Rightarrow> go_error option \<times> 'w"
  kc_Start :: "nat \<Rightarrow> 'w \<Rightarrow> go_error option \<times> 'w"
  kc_ShutdownProducer :: "nat \<Rightarrow> 'w \<Rightarrow> go_error option \<times> 'w"
  kc_ShutdownConsumer :: "nat \<Rightarrow> 'w \<Rightarrow> go_error option \<times> 'w"

record RocketMQ =
  rk_Urls :: "string list"
  rk_consumers :: "string \<rightharpoonup> nat"
  rk_producers :: "string \<rightharpoonup> nat"
  rk_Credentials :: "(string \<times> string) option"

definition NewRocketMQ :: "string list \<Rightarrow> (string \<times> string) option \<Rightarrow> RocketMQ" where
  "NewRocketMQ urls cred = \<lparr>rk_Urls = urls, rk_consumers = Map.empty, rk_producers = Map.empty, rk_Credentials = cred\<rparr>"

definition rocket_newConsumer :: "'w rocket_client \<Rightarrow> ConsumeOptions \<Rightarrow> RocketMQ \<Rightarrow> 'w \<Rightarrow> nat res \<times> 'w" where
  "rocket_newConsumer c o' r w =
     kc_NewPushConsumer c (rk_Urls r) (rk_Credentials r) (co_GroupName o') (MaxReconsumeTimes o') (AutoCommit o') w"

definition rocket_newProducer :: "'w rocket_client \<Rightarrow> PublishOptions \<Rightarrow> RocketMQ \<Rightarrow> 'w \<Rightarrow> nat res \<times> 'w" where
  "rocket_newProducer c o' r w = kc_NewProducer c (rk_Urls r) (rk_Credentials r) (RetryTimes o') w"

definition no_publish_options :: PublishOptions where
  "no_publish_options = \<lparr>Exchange = [], ContentType = [], ReplyTo = [], MessageID = [], UserID = [], AppID = [],
     po_GroupName = [], RetryTimes = 0\<rparr>"

text \<open>Publishing: one producer for each group; the routing key is the topic.\<close>

definition rocket_Publish :: "'w rocket_client \<Rightarrow> ((string \<rightharpoonup> mvalue) option \<Rightarrow> string res) \<Rightarrow> QueueMessage
    \<Rightarrow> (PublishOptions \<Rightarrow> PublishOptions) list \<Rightarrow> RocketMQ \<Rightarrow> 'w \<Rightarrow> go_error option \<times> RocketMQ \<times> 'w" where
  "rocket_Publish c marshal msg fs r w =
     (let o' = apply_options fs no_publish_options;
          (p, r1, w1) = (case rk_producers r (po_GroupName o') of
             Some p \<Rightarrow> (Inr p, r, w)
           | None \<Rightarrow> (case rocket_newProducer c o' r w of
               (Inl e, w') \<Rightarrow> (Inl e, r, w')
             | (Inr p, w') \<Rightarrow> (Inr p, r\<lparr>rk_producers := (rk_producers r)(po_GroupName o' \<mapsto> p)\<rparr>, w')))
      in case p of
           Inl e \<Rightarrow> (Some e, r1, w1)
         | Inr p \<Rightarrow> (case marshal (Values msg) of
             Inl e \<Rightarrow> (Some e, r1, w1)
           | Inr rb \<Rightarrow> (case kc_SendSync c p \<lparr>rm_Topic = RoutingKey msg, rm_Body = rb\<rparr> w1 of (err, w2) \<Rightarrow> (err, r1, w2))))"

text \<open>
  What the handler gets: \<open>to_map\<close> is the framework's conversion of the body, whose result is replaced
  at once; the routing key is the message's tags.
\<close>

definition rocket_message :: "(string \<Rightarrow> (string \<rightharpoonup> mvalue) option) \<Rightarrow> MessageExt \<Rightarrow> QueueMessage" where
  "rocket_message to_map m =
     SetErrorCount (scast (me_ReconsumeTimes m)) (SetId (me_MsgId m) (SetRoutingKey (me_Tags m)
       (SetValues (Some [''body'' \<mapsto> MString (me_Body m)]) (SetValues (to_map (me_Body m)) new_message))))"

fun rocket_batch :: "(string \<Rightarrow> (string \<rightharpoonup> mvalue) option) \<Rightarrow> 'w ConsumerFunc \<Rightarrow> MessageExt list \<Rightarrow> 'w
    \<Rightarrow> (ConsumeResult \<times> go_error option) \<times> 'w" where
  "rocket_batch to_map f [] w = ((ConsumeSuccess, None), w)"
| "rocket_batch to_map f (m # ms) w =
     (if me_Body m = [] then rocket_batch to_map f ms w
      else case f (rocket_message to_map m) w of
             (Some e, w') \<Rightarrow> ((Rollback, Some e), w')
           | (None, w') \<Rightarrow> rocket_batch to_map f ms w')"

definition rocket_Consumer :: "'w rocket_client \<Rightarrow> (string \<Rightarrow> (string \<rightharpoonup> mvalue) option) \<Rightarrow> string \<Rightarrow> 'w ConsumerFunc
    \<Rightarrow> (ConsumeOptions \<Rightarrow> ConsumeOptions) list \<Rightarrow> RocketMQ \<Rightarrow> 'w \<Rightarrow> RocketMQ \<times> 'w" where
  "rocket_Consumer c to_map topicName f fs r w =
     (let o' = apply_options fs GetDefaultConsumeOptions;
          (p, r1, w1) = (case rk_consumers r (co_GroupName o') of
             Some p \<Rightarrow> (Some p, r, w)
           | None \<Rightarrow> (case rocket_newConsumer c o' r w of
               (Inl e, w') \<Rightarrow> (None, r, w')
             | (Inr p, w') \<Rightarrow> (Some p, r\<lparr>rk_consumers := (rk_consumers r)(co_GroupName o' \<mapsto> p)\<rparr>, w')))
      in case p of None \<Rightarrow> (r1, w1)
         | Some p \<Rightarrow> (r1, snd (kc_Subscribe c p topicName (rocket_batch to_map f) w1)))"

text \<open>\<open>Run\<close> and \<open>Shutdown\<close> visit the maps in some order; errors are only logged.\<close>

definition rocket_Run :: "'w rocket_client \<Rightarrow> string list \<Rightarrow> RocketMQ \<Rightarrow> 'w \<Rightarrow> 'w" where
  "rocket_Run c cs r w = foldl (\<lambda>w k. case rk_consumers r k of None \<Rightarrow> w | Some p \<Rightarrow> snd (kc_Start c p w)) w cs"

definition rocket_Shutdown :: "'w rocket_client \<Rightarrow> string list \<Rightarrow> string list \<Rightarrow> RocketMQ \<Rightarrow> 'w \<Rightarrow> 'w" where
  "rocket_Shutdown c ps cs r w =
     (let w1 = foldl (\<lambda>w k. case rk_producers r k of None \<Rightarrow> w | Some p \<Rightarrow> snd (kc_ShutdownProducer c p w)) w ps
      in foldl (\<lambda>w k. case rk_consumers r k of None \<Rightarrow> w | Some p \<Rightarrow> snd (kc_ShutdownConsumer c p w)) w1 cs)"

text \<open>
  The handlers of a batch: messages without a body are passed over, the others go to the handler in
  order until one fails, and the batch succeeds when none does.
\<close>

fun run_handlers :: "'w ConsumerFunc \<Rightarrow> QueueMessage list \<Rightarrow> 'w \<Rightarrow> go_error option list \<times> 'w" where
  "run_handlers f [] w = ([], w)"
| "run_handlers f (m # ms) w = (case f m w of (err, w') \<Rightarrow>
     (case run_handlers f ms w' of (errs, w'') \<Rightarrow> (err # errs, w'')))"

definition batch_messages :: "(string \<Rightarrow> (string \<rightharpoonup> mvalue) option) \<Rightarrow> MessageExt list \<Rightarrow> QueueMessage list" where
  "batch_messages to_map ms = map (rocket_message to_map) (filter (\<lambda>m. me_Body m \<noteq> []) ms)"

lemma rocket_batch_success:
  "fst (rocket_batch to_map f ms w) = (ConsumeSuccess, None) \<longleftrightarrow>
     (\<forall>err \<in> set (fst (run_handlers f (batch_messages to_map ms) w)). err = None)"
proof (induction to_map f ms w rule: rocket_batch.induct)
  case (2 to_map f m ms w)
  then show ?case by (cases "f (rocket_message to_map m) w") (auto simp: batch_messages_def split: prod.split option.split)
qed (simp add: batch_messages_def)

lemma rocket_batch_result:
  "fst (rocket_batch to_map f ms w) = (ConsumeSuccess, None)
     \<or> (\<exists>e. fst (rocket_batch to_map f ms w) = (Rollback, Some e))"
  by (induction to_map f ms w rule: rocket_batch.induct) (auto split: prod.split option.split)

text \<open>
  A message is published under its key as topic and without tags, so it reaches the handler without
  a key: no sub-task with a key is found for it.
\<close>

definition delivered_ext :: "string \<Rightarrow> RocketMessage \<Rightarrow> MessageExt" where
  "delivered_ext i m = \<lparr>me_Topic = rm_Topic m, me_Body = rm_Body m, me_Tags = [], me_MsgId = i, me_ReconsumeTimes = 0\<rparr>"

lemma rocket_key_lost:
  assumes "[] \<notin> set (ro_SubTasks spec)"
  shows "rocket_Route spec (RoutingKey (rocket_message to_map (delivered_ext i m))) = None"
  using assms by (simp add: rocket_message_def delivered_ext_def rocket_Route_def SetErrorCount_def SetId_def
    SetRoutingKey_def SetValues_def route_from_None)

subsection \<open>NSQ\<close>

text \<open>The configuration is a number; the client makes a new one (\<open>nc_NewConfig\<close>) where it is nil.\<close>

record 'w nsq_client =
  nc_NewConfig :: nat
  nc_NewProducer :: "string \<Rightarrow> nat \<Rightarrow> 'w \<Rightarrow> nat res \<times> 'w"
  nc_NewConsumer :: "string \<Rightarrow> string \<Rightarrow> nat \<Rightarrow> 'w \<Rightarrow> nat res \<times> 'w"
  nc_AddHandler :: "nat \<Rightarrow> (string \<Rightarrow> 'w \<Rightarrow> go_error option \<times> 'w) \<Rightarrow> 'w \<Rightarrow> 'w"
  nc_Connect :: "nat \<Rightarrow> string list \<Rightarrow> 'w \<Rightarrow> go_error option \<times> 'w"
  nc_Publish :: "nat \<Rightarrow> string \<Rightarrow> string \<Rightarrow> 'w \<Rightarrow> go_error option \<times> 'w"
  nc_StopProducer :: "nat \<Rightarrow> 'w \<Rightarrow> 'w"
  nc_StopConsumer :: "nat \<Rightarrow> 'w \<Rightarrow> 'w"

record NSQ =
  addresses :: "string list"
  nq_cfg :: "nat option"
  nq_producer :: "nat option"
  nq_consumer :: "nat option"
  channelPrefix :: string

text \<open>\<open>newProducer\<close> takes the first address: without addresses it panics.\<close>

definition nsq_config :: "'w nsq_client \<Rightarrow> NSQ \<Rightarrow> nat \<times> NSQ" where
  "nsq_config c n = (case nq_cfg n of Some k \<Rightarrow> (k, n) | None \<Rightarrow> (nc_NewConfig c, n\<lparr>nq_cfg := Some (nc_NewConfig c)\<rparr>))"

definition nsq_newProducer :: "'w nsq_client \<Rightarrow> NSQ \<Rightarrow> 'w \<Rightarrow> (nat res \<times> NSQ \<times> 'w) option" where
  "nsq_newProducer c n w = (case nsq_config c n of (k, n') \<Rightarrow>
     (case addresses n' of [] \<Rightarrow> None
      | a # _ \<Rightarrow> (case nc_NewProducer c a k w of (res, w') \<Rightarrow> Some (res, n', w'))))"

definition NewNSQ :: "'w nsq_client \<Rightarrow> string list \<Rightarrow> nat option \<Rightarrow> string \<Rightarrow> 'w \<Rightarrow> ((NSQ \<times> go_error option) \<times> 'w) option" where
  "NewNSQ c addrs cfg prefix w =
     (let n = \<lparr>addresses = addrs, nq_cfg = cfg, nq_producer = None, nq_consumer = None, channelPrefix = prefix\<rparr>
      in case nsq_newProducer c n w of
           None \<Rightarrow> None
         | Some (Inl e, n', w') \<Rightarrow> Some ((n', Some e), w')
         | Some (Inr p, n', w') \<Rightarrow> Some ((n'\<lparr>nq_producer := Some p\<rparr>, None), w'))"

definition switchAddress :: "NSQ \<Rightarrow> NSQ" where
  "switchAddress n = (let a = addresses n in
     if length a > 1 then n\<lparr>addresses := (a[0 := a ! 1])[length a - 1 := a ! 0]\<rparr> else n)"

definition nsq_newConsumer :: "'w nsq_client \<Rightarrow> string \<Rightarrow> (string \<Rightarrow> 'w \<Rightarrow> go_error option \<times> 'w) \<Rightarrow> NSQ \<Rightarrow> 'w
    \<Rightarrow> go_error option \<times> NSQ \<times> 'w" where
  "nsq_newConsumer c topic h n w = (case nsq_config c n of (k, n1) \<Rightarrow>
     (let (p, n2, w2) = (case nq_consumer n1 of
            Some p \<Rightarrow> (Inr p, n1, w)
          | None \<Rightarrow> (case nc_NewConsumer c topic (channelPrefix n1 @ topic) k w of
              (Inl e, w') \<Rightarrow> (Inl e, n1, w')
            | (Inr p, w') \<Rightarrow> (Inr p, n1\<lparr>nq_consumer := Some p\<rparr>, w')))
      in case p of Inl e \<Rightarrow> (Some e, n2, w2)
         | Inr p \<Rightarrow> (case nc_Connect c p (addresses n2) (nc_AddHandler c p h w2) of (err, w3) \<Rightarrow> (err, n2, w3))))"

text \<open>\<open>Publish\<close> uses the producer without a look at it: a nil one panics.\<close>

definition nsq_Publish :: "'w nsq_client \<Rightarrow> ((string \<rightharpoonup> mvalue) option \<Rightarrow> string res) \<Rightarrow> QueueMessage \<Rightarrow> NSQ \<Rightarrow> 'w
    \<Rightarrow> (go_error option \<times> 'w) option" where
  "nsq_Publish c marshal msg n w = (case marshal (Values msg) of
     Inl e \<Rightarrow> Some (Some e, w)
   | Inr rb \<Rightarrow> (case nq_producer n of None \<Rightarrow> None | Some p \<Rightarrow> Some (nc_Publish c p (RoutingKey msg) rb w)))"

definition HandleMessage :: "(string \<Rightarrow> (string \<rightharpoonup> mvalue) res) \<Rightarrow> 'w ConsumerFunc \<Rightarrow> string \<Rightarrow> 'w \<Rightarrow> go_error option \<times> 'w" where
  "HandleMessage unmarshal f body w = (case unmarshal body of
     Inl e \<Rightarrow> (Some e, w)
   | Inr data \<Rightarrow> f (SetValues (Some data) new_message) w)"

definition nsq_Consumer :: "'w nsq_client \<Rightarrow> (string \<Rightarrow> (string \<rightharpoonup> mvalue) res) \<Rightarrow> string \<Rightarrow> 'w ConsumerFunc \<Rightarrow> NSQ \<Rightarrow> 'w
    \<Rightarrow> (NSQ \<times> 'w) option" where
  "nsq_Consumer c unmarshal name f n w = (case nsq_newConsumer c name (HandleMessage unmarshal f) n w of
     (Some e, n', w') \<Rightarrow> None | (None, n', w') \<Rightarrow> Some (n', w'))"

definition nsq_Shutdown :: "'w nsq_client \<Rightarrow> NSQ \<Rightarrow> 'w \<Rightarrow> 'w" where
  "nsq_Shutdown c n w =
     (let w1 = (case nq_producer n of None \<Rightarrow> w | Some p \<Rightarrow> nc_StopProducer c p w)
      in case nq_consumer n of None \<Rightarrow> w1 | Some p \<Rightarrow> nc_StopConsumer c p w1)"

text \<open>With three addresses or more, switching loses the last one and has the second one twice.\<close>

lemma switchAddress_two: "addresses n = [a, b] \<Longrightarrow> addresses (switchAddress n) = [b, a]"
  by (simp add: switchAddress_def)

lemma switchAddress_loses:
  assumes "addresses n = a # b # cs @ [d]"
  shows "addresses (switchAddress n) = b # b # cs @ [a]"
proof -
  have "length (a # b # cs @ [d]) - 1 = Suc (Suc (length cs))" by simp
  then show ?thesis by (simp add: switchAddress_def assms)
qed

text \<open>Only the values of a message arrive.\<close>

lemma nsq_delivers:
  assumes "marshal (Values m) = Inr rb" "unmarshal rb = Inr vs" "Values m = Some vs"
  shows "HandleMessage unmarshal f rb w = f (SetValues (Values m) new_message) w"
  using assms by (simp add: HandleMessage_def)

subsection \<open>Redis and the wrapper\<close>

record RedisMessage =
  rq_ID :: string
  rq_Stream :: string
  rq_Values :: "(string \<rightharpoonup> mvalue) option"

definition redis_outgoing :: "QueueMessage \<Rightarrow> RedisMessage" where
  "redis_outgoing m = \<lparr>rq_ID = Id m, rq_Stream = RoutingKey m, rq_Values = Values m\<rparr>"

definition redis_incoming :: "RedisMessage \<Rightarrow> QueueMessage" where
  "redis_incoming r = SetId (rq_ID r) (SetRoutingKey (rq_Stream r) (SetValues (rq_Values r) new_message))"

record 'w redis_client =
  qc_NewProducer :: "nat \<Rightarrow> 'w \<Rightarrow> nat res \<times> 'w"
  qc_NewConsumer :: "nat \<Rightarrow> 'w \<Rightarrow> nat res \<times> 'w"
  qc_Enqueue :: "nat \<Rightarrow> RedisMessage \<Rightarrow> 'w \<Rightarrow> go_error option \<times> 'w"
  qc_Register :: "nat \<Rightarrow> string \<Rightarrow> (RedisMessage \<Rightarrow> 'w \<Rightarrow> go_error option \<times> 'w) \<Rightarrow> 'w \<Rightarrow> 'w"
  qc_Run :: "nat \<Rightarrow> 'w \<Rightarrow> 'w"
  qc_Shutdown :: "nat \<Rightarrow> 'w \<Rightarrow> 'w"

record RedisQueue =
  rd_consumer :: nat
  rd_producer :: nat

text \<open>Options are numbers; nil ones are replaced by the zero value \<open>0\<close>.\<close>

definition redis_newProducer :: "'w redis_client \<Rightarrow> nat option \<Rightarrow> 'w \<Rightarrow> nat res \<times> 'w" where
  "redis_newProducer c o' w = qc_NewProducer c (case o' of None \<Rightarrow> 0 | Some x \<Rightarrow> x) w"

definition redis_newConsumer :: "'w redis_client \<Rightarrow> nat option \<Rightarrow> 'w \<Rightarrow> nat res \<times> 'w" where
  "redis_newConsumer c o' w = qc_NewConsumer c (case o' of None \<Rightarrow> 0 | Some x \<Rightarrow> x) w"

definition NewRedis :: "'w redis_client \<Rightarrow> nat option \<Rightarrow> nat option \<Rightarrow> 'w \<Rightarrow> RedisQueue res \<times> 'w" where
  "NewRedis c po co w = (case redis_newProducer c po w of
     (Inl e, w1) \<Rightarrow> (Inl e, w1)
   | (Inr p, w1) \<Rightarrow> (case redis_newConsumer c co w1 of
       (Inl e, w2) \<Rightarrow> (Inl e, w2)
     | (Inr k, w2) \<Rightarrow> (Inr \<lparr>rd_consumer = k, rd_producer = p\<rparr>, w2)))"

definition redis_Publish :: "'w redis_client \<Rightarrow> QueueMessage \<Rightarrow> RedisQueue \<Rightarrow> 'w \<Rightarrow> go_error option \<times> 'w" where
  "redis_Publish c msg r w = qc_Enqueue c (rd_producer r) (redis_outgoing msg) w"

definition redis_Consumer :: "'w redis_client \<Rightarrow> string \<Rightarrow> 'w ConsumerFunc \<Rightarrow> RedisQueue \<Rightarrow> 'w \<Rightarrow> 'w" where
  "redis_Consumer c name f r w = qc_Register c (rd_consumer r) name (\<lambda>msg. f (redis_incoming msg)) w"

definition redis_Run :: "'w redis_client \<Rightarrow> RedisQueue \<Rightarrow> 'w \<Rightarrow> 'w" where
  "redis_Run c r w = qc_Run c (rd_consumer r) w"

definition redis_Shutdown :: "'w redis_client \<Rightarrow> RedisQueue \<Rightarrow> 'w \<Rightarrow> 'w" where
  "redis_Shutdown c r w = qc_Shutdown c (rd_consumer r) w"

text \<open>The identifier, the key and the values of a message arrive; its group and error count do not.\<close>

lemma redis_delivers: "redis_incoming (redis_outgoing m) = m\<lparr>GroupId := [], ErrorCount := 0\<rparr>"
  by (cases m) (simp add: redis_incoming_def redis_outgoing_def SetId_def SetRoutingKey_def SetValues_def new_message_def)

text \<open>
  Any queue, as the application holds it, and the wrapper with a prefix, which keeps the prefix but
  does not use it.
\<close>

record ('q, 'w) IQueue =
  q_String :: string
  q_Publish :: "QueueMessage \<Rightarrow> (PublishOptions \<Rightarrow> PublishOptions) list \<Rightarrow> 'q \<Rightarrow> 'w \<Rightarrow> go_error option \<times> 'q \<times> 'w"
  q_Consumer :: "string \<Rightarrow> 'w ConsumerFunc \<Rightarrow> (ConsumeOptions \<Rightarrow> ConsumeOptions) list \<Rightarrow> 'q \<Rightarrow> 'w \<Rightarrow> 'q \<times> 'w"
  q_Run :: "'q \<Rightarrow> 'w \<Rightarrow> 'q \<times> 'w"
  q_Shutdown :: "'q \<Rightarrow> 'w \<Rightarrow> 'q \<times> 'w"

definition NewQueue :: "string \<Rightarrow> ('q, 'w) IQueue \<Rightarrow> ('q, 'w) IQueue" where
  "NewQueue prefix queue = \<lparr>q_String = q_String queue, q_Publish = (\<lambda>msg fs. q_Publish queue msg fs),
     q_Consumer = (\<lambda>name f fs. q_Consumer queue name f fs), q_Run = q_Run queue, q_Shutdown = q_Shutdown queue\<rparr>"

lemma NewQueue_ignores_prefix: "NewQueue prefix queue = NewQueue other queue"
  by (simp add: NewQueue_def)

subsection \<open>The list of task services\<close>

text \<open>\<open>AddServices\<close> replaces the services; they are started in order.\<close>

definition AddServices :: "'s list \<Rightarrow> 's list \<Rightarrow> 's list" where
  "AddServices services old = services"

definition services_Start :: "('s \<Rightarrow> 'w \<Rightarrow> 'w option) \<Rightarrow> 's list \<Rightarrow> 'w \<Rightarrow> 'w option" where
  "services_Start start services w = foldl (\<lambda>r s. case r of None \<Rightarrow> None | Some w \<Rightarrow> start s w) (Some w) services"

end
