(* ===== verification/Sdk_Cache.thy ===== *)
theory Sdk_Cache
  imports Prelude GoStr
begin

section \<open>Caches and captchas\<close>

text \<open>
  The memory cache (\<open>sdk/cache/memory\<close>) on the cache package of the framework, the wrapper that
  puts a prefix before every key (\<open>sdk/cache\<close>), and the store of captchas on a cache
  (\<open>pkg/captcha\<close>). The framework's cache is outside the repository: its operations on a state
  \<open>'s\<close> are parameters, with what their documentation says as the assumptions of a locale. Time
  does not pass between the operations of a statement.
\<close>

subsection \<open>The memory cache\<close>

text \<open>The operations of the framework's cache that the code calls; a duration is in nanoseconds.\<close>

record ('v, 's) gcache =
  g_Get :: "string \<Rightarrow> 's \<Rightarrow> 'v option res"
  g_Set :: "string \<Rightarrow> 'v \<Rightarrow> int \<Rightarrow> 's \<Rightarrow> go_error option \<times> 's"
  g_Remove :: "string \<Rightarrow> 's \<Rightarrow> go_error option \<times> 's"
  g_GetExpire :: "string \<Rightarrow> 's \<Rightarrow> int res"

definition Second :: int where "Second = 1000000000"

definition getItem :: "('v, 's) gcache \<Rightarrow> string \<Rightarrow> 's \<Rightarrow> 'v option res" where
  "getItem g key s = g_Get g key s"

definition setItem :: "('v, 's) gcache \<Rightarrow> string \<Rightarrow> 'v \<Rightarrow> int \<Rightarrow> 's \<Rightarrow> go_error option \<times> 's" where
  "setItem g key item expire s = g_Set g key item (i64 (expire * Second)) s"

definition del_key :: "('v, 's) gcache \<Rightarrow> string \<Rightarrow> 's \<Rightarrow> go_error option \<times> 's" where
  "del_key g key s = g_Remove g key s"

definition hash_key :: "string \<Rightarrow> string \<Rightarrow> string" where
  "hash_key hk key = hk @ CHR '':'' # key"

definition mem_HashGet :: "('v, 's) gcache \<Rightarrow> string \<Rightarrow> string \<Rightarrow> 's \<Rightarrow> 'v option res" where
  "mem_HashGet g hk key s = getItem g (hash_key hk key) s"

definition mem_HashDel :: "('v, 's) gcache \<Rightarrow> string \<Rightarrow> string \<Rightarrow> 's \<Rightarrow> go_error option \<times> 's" where
  "mem_HashDel g hk key s = del_key g (hash_key hk key) s"

definition not_exist :: "string \<Rightarrow> go_error" where
  "not_exist key = new_error (key @ '' not exist'')"

text \<open>
  Counting reads the value and its lifetime and then writes: other calls may come in between. The
  framework's conversions between values and integers are \<open>int_of\<close> and \<open>of_int\<close>.
\<close>

definition calc_read :: "('v \<Rightarrow> int) \<Rightarrow> ('v, 's) gcache \<Rightarrow> string \<Rightarrow> int \<Rightarrow> 's \<Rightarrow> (int \<times> int) res" where
  "calc_read int_of g key num s = (case getItem g key s of
     Inl e \<Rightarrow> Inl e
   | Inr None \<Rightarrow> Inl (not_exist key)
   | Inr (Some v) \<Rightarrow> (case g_GetExpire g key s of Inl e \<Rightarrow> Inl e | Inr d \<Rightarrow> Inr (i64 (int_of v + num), d)))"

definition calc_write :: "(int \<Rightarrow> 'v) \<Rightarrow> ('v, 's) gcache \<Rightarrow> string \<Rightarrow> (int \<times> int) res \<Rightarrow> 's \<Rightarrow> go_error option \<times> 's" where
  "calc_write val_of g key r s = (case r of Inl e \<Rightarrow> (Some e, s) | Inr (n, d) \<Rightarrow> g_Set g key (val_of n) d s)"

definition calculate :: "('v \<Rightarrow> int) \<Rightarrow> (int \<Rightarrow> 'v) \<Rightarrow> ('v, 's) gcache \<Rightarrow> string \<Rightarrow> int \<Rightarrow> 's \<Rightarrow> go_error option \<times> 's" where
  "calculate int_of val_of g key num s = calc_write val_of g key (calc_read int_of g key num s) s"

definition mem_Increase :: "('v \<Rightarrow> int) \<Rightarrow> (int \<Rightarrow> 'v) \<Rightarrow> ('v, 's) gcache \<Rightarrow> string \<Rightarrow> 's \<Rightarrow> go_error option \<times> 's" where
  "mem_Increase int_of val_of g key s = calculate int_of val_of g key 1 s"
definition mem_Decrease :: "('v \<Rightarrow> int) \<Rightarrow> (int \<Rightarrow> 'v) \<Rightarrow> ('v, 's) gcache \<Rightarrow> string \<Rightarrow> 's \<Rightarrow> go_error option \<times> 's" where
  "mem_Decrease int_of val_of g key s = calculate int_of val_of g key (- 1) s"

definition mem_Expire :: "('v, 's) gcache \<Rightarrow> string \<Rightarrow> int \<Rightarrow> 's \<Rightarrow> go_error option \<times> 's" where
  "mem_Expire g key dur s = (case getItem g key s of
     Inl e \<Rightarrow> (Some e, s)
   | Inr None \<Rightarrow> (Some (not_exist key), s)
   | Inr (Some v) \<Rightarrow> g_Set g key v dur s)"

subsection \<open>The wrapper with a prefix\<close>

text \<open>
  The operations of \<open>ICache\<close>; the lifetime of \<open>Set\<close> is in seconds, that of \<open>Expire\<close> a duration.
\<close>

record ('v, 's) ICache =
  c_Get :: "string \<Rightarrow> 's \<Rightarrow> 'v option res"
  c_Set :: "string \<Rightarrow> 'v \<Rightarrow> int \<Rightarrow> 's \<Rightarrow> go_error option \<times> 's"
  c_Del :: "string \<Rightarrow> 's \<Rightarrow> go_error option \<times> 's"
  c_HashGet :: "string \<Rightarrow> string \<Rightarrow> 's \<Rightarrow> 'v option res"
  c_HashDel :: "string \<Rightarrow> string \<Rightarrow> 's \<Rightarrow> go_error option \<times> 's"
  c_Increase :: "string \<Rightarrow> 's \<Rightarrow> go_error option \<times> 's"
  c_Decrease :: "string \<Rightarrow> 's \<Rightarrow> go_error option \<times> 's"
  c_Expire :: "string \<Rightarrow> int \<Rightarrow> 's \<Rightarrow> go_error option \<times> 's"

definition MemoryCache :: "('v \<Rightarrow> int) \<Rightarrow> (int \<Rightarrow> 'v) \<Rightarrow> ('v, 's) gcache \<Rightarrow> ('v, 's) ICache" where
  "MemoryCache int_of val_of g = \<lparr>c_Get = getItem g, c_Set = setItem g, c_Del = del_key g,
     c_HashGet = mem_HashGet g, c_HashDel = mem_HashDel g,
     c_Increase = mem_Increase int_of val_of g, c_Decrease = mem_Decrease int_of val_of g, c_Expire = mem_Expire g\<rparr>"

definition cache_prefix_key :: "string \<Rightarrow> string \<Rightarrow> string" where
  "cache_prefix_key prefix key = (if prefix \<noteq> [] then prefix @ CHR '':'' # key else key)"

definition NewCache :: "string \<Rightarrow> ('v, 's) ICache \<Rightarrow> ('v, 's) ICache" where
  "NewCache prefix store = \<lparr>c_Get = (\<lambda>key. c_Get store (cache_prefix_key prefix key)),
     c_Set = (\<lambda>key. c_Set store (cache_prefix_key prefix key)),
     c_Del = (\<lambda>key. c_Del store (cache_prefix_key prefix key)),
     c_HashGet = (\<lambda>hk key. c_HashGet store hk (cache_prefix_key prefix key)),
     c_HashDel = (\<lambda>hk key. c_HashDel store hk (cache_prefix_key prefix key)),
     c_Increase = (\<lambda>key. c_Increase store (cache_prefix_key prefix key)),
     c_Decrease = (\<lambda>key. c_Decrease store (cache_prefix_key prefix key)),
     c_Expire = (\<lambda>key. c_Expire store (cache_prefix_key prefix key))\<rparr>"

text \<open>
  The cache on Redis (\<open>sdk/cache/gredis\<close>): every operation is one command, a name and its arguments. Reading
  commands answer a value, writing ones change the state of the server.
\<close>

datatype 'v redis_arg = AKey string | AVal 'v | AEx | AInt int

record ('v, 's) redis_server =
  do_read :: "string \<Rightarrow> 'v redis_arg list \<Rightarrow> 's \<Rightarrow> 'v option res"
  do_write :: "string \<Rightarrow> 'v redis_arg list \<Rightarrow> 's \<Rightarrow> go_error option \<times> 's"

definition gredis_Get :: "('v, 's) redis_server \<Rightarrow> string \<Rightarrow> 's \<Rightarrow> 'v option res" where
  "gredis_Get r key s = do_read r ''GET'' [AKey key] s"

definition gredis_Set :: "('v, 's) redis_server \<Rightarrow> string \<Rightarrow> 'v \<Rightarrow> int \<Rightarrow> 's \<Rightarrow> go_error option \<times> 's" where
  "gredis_Set r key v expire s =
     (if expire \<noteq> 0 then do_write r ''SET'' [AKey key, AVal v, AEx, AInt expire] s
      else do_write r ''SET'' [AKey key, AVal v] s)"

definition gredis_Del :: "('v, 's) redis_server \<Rightarrow> string \<Rightarrow> 's \<Rightarrow> go_error option \<times> 's" where
  "gredis_Del r key s = do_write r ''DEL'' [AKey key] s"

definition gredis_HashGet :: "('v, 's) redis_server \<Rightarrow> string \<Rightarrow> string \<Rightarrow> 's \<Rightarrow> 'v option res" where
  "gredis_HashGet r hk key s = do_read r ''HGET'' [AKey hk, AKey key] s"

definition gredis_HashDel :: "('v, 's) redis_server \<Rightarrow> string \<Rightarrow> string \<Rightarrow> 's \<Rightarrow> go_error option \<times> 's" where
  "gredis_HashDel r hk key s = do_write r ''HDEL'' [AKey hk, AKey key] s"

definition gredis_Increase :: "('v, 's) redis_server \<Rightarrow> string \<Rightarrow> 's \<Rightarrow> go_error option \<times> 's" where
  "gredis_Increase r key s = do_write r ''INCR'' [AKey key] s"

definition gredis_Decrease :: "('v, 's) redis_server \<Rightarrow> string \<Rightarrow> 's \<Rightarrow> go_error option \<times> 's" where
  "gredis_Decrease r key s = do_write r ''DECR'' [AKey key] s"

text \<open>The duration, in nanoseconds, is the number that is sent.\<close>

definition gredis_Expire :: "('v, 's) redis_server \<Rightarrow> string \<Rightarrow> int \<Rightarrow> 's \<Rightarrow> go_error option \<times> 's" where
  "gredis_Expire r key dur s = do_write r ''EXPIRE'' [AKey key, AInt dur] s"

definition NewGredis :: "('v, 's) redis_server \<Rightarrow> ('v, 's) ICache" where
  "NewGredis r = \<lparr>c_Get = gredis_Get r, c_Set = gredis_Set r, c_Del = gredis_Del r, c_HashGet = gredis_HashGet r,
     c_HashDel = gredis_HashDel r, c_Increase = gredis_Increase r, c_Decrease = gredis_Decrease r,
     c_Expire = gredis_Expire r\<rparr>"

text \<open>The wrapper of the locker also puts a prefix before its keys, an empty one too.\<close>

definition locker_prefix_key :: "string \<Rightarrow> string \<Rightarrow> string" where
  "locker_prefix_key prefix key = prefix @ CHR '':'' # key"

definition NewLocker :: "string \<Rightarrow> (string \<Rightarrow> int \<Rightarrow> 'o list \<Rightarrow> 'm res) \<Rightarrow> string \<Rightarrow> int \<Rightarrow> 'o list \<Rightarrow> 'm res" where
  "NewLocker prefix lock key ttl options = lock (locker_prefix_key prefix key) ttl options"

text \<open>The locker on Redis appends the lifetime, as a duration, behind the caller's options.\<close>

definition redis_Lock :: "(string \<Rightarrow> 'o list \<Rightarrow> 'm) \<Rightarrow> (int \<Rightarrow> 'o) \<Rightarrow> string \<Rightarrow> int \<Rightarrow> 'o list \<Rightarrow> 'm res" where
  "redis_Lock NewMutex WithExpiry key ttl options = Inr (NewMutex key (options @ [WithExpiry (i64 (ttl * Second))]))"

lemma locker_prefix_key_inj [simp]: "locker_prefix_key p k = locker_prefix_key p k' \<longleftrightarrow> k = k'"
  by (simp add: locker_prefix_key_def)

lemma cache_prefix_key_inj [simp]: "cache_prefix_key p k = cache_prefix_key p k' \<longleftrightarrow> k = k'"
  by (simp add: cache_prefix_key_def)

subsection \<open>Captchas\<close>

text \<open>A missing value reads as the empty string.\<close>

definition captcha_key :: "string \<Rightarrow> string \<Rightarrow> string" where
  "captcha_key prefix i = prefix @ CHR '':'' # i"

definition captcha_Set :: "(string, 's) ICache \<Rightarrow> string \<Rightarrow> int \<Rightarrow> string \<Rightarrow> string \<Rightarrow> 's \<Rightarrow> go_error option \<times> 's" where
  "captcha_Set c prefix expiration i val s = c_Set c (captcha_key prefix i) val expiration s"

definition captcha_Get :: "(string, 's) ICache \<Rightarrow> string \<Rightarrow> string \<Rightarrow> bool \<Rightarrow> 's \<Rightarrow> string \<times> 's" where
  "captcha_Get c prefix i clear s = (case c_Get c (captcha_key prefix i) s of
     Inr v \<Rightarrow> (case v of Some w \<Rightarrow> w | None \<Rightarrow> [], if clear then snd (c_Del c (captcha_key prefix i) s) else s)
   | Inl _ \<Rightarrow> ([], s))"

definition captcha_Verify :: "(string, 's) ICache \<Rightarrow> string \<Rightarrow> string \<Rightarrow> string \<Rightarrow> bool \<Rightarrow> 's \<Rightarrow> bool \<times> 's" where
  "captcha_Verify c prefix i answer clear s = (case captcha_Get c prefix i clear s of (v, s') \<Rightarrow> (v = answer, s'))"

subsection \<open>What a cache promises\<close>

text \<open>
  A cache answers what was set last, forgets what was deleted, and keeps its keys apart. \<open>lives\<close>
  tells which lifetimes are not already over.
\<close>

locale cache =
  fixes get :: "string \<Rightarrow> 's \<Rightarrow> 'v option res"
    and put :: "string \<Rightarrow> 'v \<Rightarrow> int \<Rightarrow> 's \<Rightarrow> go_error option \<times> 's"
    and del :: "string \<Rightarrow> 's \<Rightarrow> go_error option \<times> 's"
    and lives :: "int \<Rightarrow> bool"
  assumes get_set: "put k v d s = (None, s') \<Longrightarrow> lives d \<Longrightarrow> get k s' = Inr (Some v)"
    and get_set_other: "put k v d s = (e, s') \<Longrightarrow> k' \<noteq> k \<Longrightarrow> get k' s' = get k' s"
    and get_del: "del k s = (None, s') \<Longrightarrow> get k s' = Inr None"
    and get_del_other: "del k s = (e, s') \<Longrightarrow> k' \<noteq> k \<Longrightarrow> get k' s' = get k' s"
    and del_ok: "get k s = Inr r \<Longrightarrow> fst (del k s) = None"

text \<open>The framework's cache: a lifetime of zero never ends, a negative one removes the key.\<close>

definition lives_ns :: "int \<Rightarrow> bool" where "lives_ns d \<longleftrightarrow> 0 \<le> d"

definition lives_s :: "int \<Rightarrow> bool" where "lives_s d \<longleftrightarrow> 0 \<le> d \<and> d * Second < 2 ^ 63"

definition gcache_ok :: "('v, 's) gcache \<Rightarrow> bool" where
  "gcache_ok g \<longleftrightarrow> cache (g_Get g) (g_Set g) (g_Remove g) lives_ns"

text \<open>The memory cache keeps the promise for lifetimes in seconds that do not overflow, and the prefix keeps it.\<close>

lemma memory_cache:
  assumes "gcache_ok g"
  shows "cache (c_Get (MemoryCache int_of val_of g)) (c_Set (MemoryCache int_of val_of g)) (c_Del (MemoryCache int_of val_of g)) lives_s"
proof -
  note g = assms [unfolded gcache_ok_def]
  have l: "lives_s d \<Longrightarrow> lives_ns (i64 (d * Second))" for d
    by (simp add: lives_s_def lives_ns_def Second_def in_i64_def)
  show ?thesis
    by (unfold_locales)
      (auto simp: MemoryCache_def getItem_def setItem_def del_key_def l
        dest: cache.get_set [OF g] cache.get_set_other [OF g] cache.get_del [OF g] cache.get_del_other [OF g] cache.del_ok [OF g])
qed

lemma prefixed_cache:
  assumes "cache (c_Get c) (c_Set c) (c_Del c) lv"
  shows "cache (c_Get (NewCache p c)) (c_Set (NewCache p c)) (c_Del (NewCache p c)) lv"
  by (unfold_locales)
    (auto simp: NewCache_def dest: cache.get_set [OF assms] cache.get_del [OF assms] cache.del_ok [OF assms]
      intro: cache.get_set_other [OF assms] cache.get_del_other [OF assms])

context cache
begin

text \<open>A key that is set and deleted again reads as nothing, and other keys as before.\<close>

lemma set_del:
  assumes "put k v d s = (None, s1)" "lives d"
  shows "get k (snd (del k s1)) = Inr None" "k' \<noteq> k \<Longrightarrow> get k' (snd (del k s1)) = get k' s"
proof -
  obtain e s2 where d: "del k s1 = (e, s2)" by (cases "del k s1")
  have "get k s1 = Inr (Some v)" by (rule get_set [OF assms])
  then have "e = None" using del_ok [of k s1] d by simp
  with d show "get k (snd (del k s1)) = Inr None" using get_del by simp
  assume "k' \<noteq> k"
  with d show "get k' (snd (del k s1)) = get k' s" using get_del_other get_set_other [OF assms(1)] by simp
qed

end

text \<open>A cache that is a finite table, to run the model on.\<close>

definition table_cache :: "(string, string \<rightharpoonup> string) gcache" where
  "table_cache = \<lparr>g_Get = (\<lambda>k s. Inr (s k)), g_Set = (\<lambda>k v d s. (None, if d < 0 then s(k := None) else s(k \<mapsto> v))),
     g_Remove = (\<lambda>k s. (None, s(k := None))), g_GetExpire = (\<lambda>k s. Inr 0)\<rparr>"

interpretation table: cache "g_Get table_cache" "g_Set table_cache" "g_Remove table_cache" lives_ns
  by unfold_locales (auto simp: table_cache_def lives_ns_def)

definition length_of :: "string \<Rightarrow> int" where "length_of v = int (length v)"
definition zeros :: "int \<Rightarrow> string" where "zeros n = replicate (nat n) (CHR ''0'')"

interpretation captcha_cache: cache "c_Get (NewCache p (MemoryCache length_of zeros table_cache))"
    "c_Set (NewCache p (MemoryCache length_of zeros table_cache))" "c_Del (NewCache p (MemoryCache length_of zeros table_cache))" lives_s for p
  by (rule prefixed_cache, rule memory_cache) (simp add: gcache_ok_def table.cache_axioms)

subsection \<open>A captcha is good once\<close>

lemma captcha_cache_once:
  assumes "cache (c_Get c) (c_Set c) (c_Del c) lives" "lives expiration"
    and "captcha_Set c prefix expiration i val s = (None, s1)" "captcha_Verify c prefix i answer True s1 = (ok, s2)"
  shows "ok = (val = answer) \<and> fst (captcha_Verify c prefix i again clear s2) = (again = [])
     \<and> (j \<noteq> i \<longrightarrow> fst (captcha_Get c prefix j clear s2) = fst (captcha_Get c prefix j clear s))"
proof -
  let ?k = "captcha_key prefix i"
  have set: "c_Set c ?k val expiration s = (None, s1)" using assms(3) by (simp add: captcha_Set_def)
  have g1: "c_Get c ?k s1 = Inr (Some val)" by (rule cache.get_set [OF assms(1) set assms(2)])
  then have s2: "s2 = snd (c_Del c ?k s1)" "ok = (val = answer)"
    using assms(4) by (simp_all add: captcha_Verify_def captcha_Get_def)
  have "c_Get c ?k s2 = Inr None" unfolding s2 by (rule cache.set_del(1) [OF assms(1) set assms(2)])
  moreover have "c_Get c (captcha_key prefix j) s2 = c_Get c (captcha_key prefix j) s" if "j \<noteq> i"
    unfolding s2 by (rule cache.set_del(2) [OF assms(1) set assms(2)]) (use that in \<open>simp add: captcha_key_def\<close>)
  ultimately show ?thesis using s2(2)
    by (auto simp: captcha_Verify_def captcha_Get_def split: sum.split)
qed

text \<open>
  C37. A captcha that has been set, in a prefixed memory cache, is solved by its value and by
  nothing else; once it has been checked with \<open>clear\<close> it is gone, whether the answer was right or
  not, and from then on only the empty answer passes, as it does for every captcha that never was.
  Other captchas are not touched.
\<close>

theorem captcha_once:
  assumes "gcache_ok g" "0 \<le> expiration" "expiration * Second < 2 ^ 63"
    and "captcha_Set (NewCache p (MemoryCache int_of val_of g)) prefix expiration i val s = (None, s1)"
    and "captcha_Verify (NewCache p (MemoryCache int_of val_of g)) prefix i answer True s1 = (ok, s2)"
  shows "ok = (val = answer)
     \<and> fst (captcha_Verify (NewCache p (MemoryCache int_of val_of g)) prefix i again clear s2) = (again = [])
     \<and> (j \<noteq> i \<longrightarrow> fst (captcha_Get (NewCache p (MemoryCache int_of val_of g)) prefix j clear s2)
           = fst (captcha_Get (NewCache p (MemoryCache int_of val_of g)) prefix j clear s))"
proof (rule captcha_cache_once [OF _ _ assms(4,5)])
  show "cache (c_Get (NewCache p (MemoryCache int_of val_of g))) (c_Set (NewCache p (MemoryCache int_of val_of g)))
    (c_Del (NewCache p (MemoryCache int_of val_of g))) lives_s" by (intro prefixed_cache memory_cache assms(1))
  show "lives_s expiration" using assms(2,3) by (simp add: lives_s_def)
qed

lemma captcha_once_witness:
  "fst (captcha_Verify (NewCache ''app'' (MemoryCache length_of zeros table_cache)) ''captcha'' ''7'' ''1234'' True
     [''app:captcha:7'' \<mapsto> ''1234'']) = True
   \<and> fst (captcha_Verify (NewCache ''app'' (MemoryCache length_of zeros table_cache)) ''captcha'' ''7'' [] False Map.empty) = True"
proof -
  let ?c = "NewCache ''app'' (MemoryCache length_of zeros table_cache)"
  have g: "gcache_ok table_cache" by (simp add: gcache_ok_def table.cache_axioms)
  have set: "captcha_Set ?c ''captcha'' 60 ''7'' ''1234'' Map.empty = (None, [''app:captcha:7'' \<mapsto> ''1234''])"
    by (simp add: captcha_Set_def NewCache_def MemoryCache_def setItem_def table_cache_def captcha_key_def
      cache_prefix_key_def Second_def in_i64_def)
  have ver: "captcha_Verify ?c ''captcha'' ''7'' ''1234'' True [''app:captcha:7'' \<mapsto> ''1234''] = (True, Map.empty)"
    by (simp add: captcha_Verify_def captcha_Get_def NewCache_def MemoryCache_def getItem_def del_key_def table_cache_def
      captcha_key_def cache_prefix_key_def)
  from captcha_once [OF g _ _ set ver, of "[]" False "[]"] ver show ?thesis by (simp add: Second_def)
qed

text \<open>Counting is not atomic: two increments that overlap count once.\<close>

lemma increase_lost:
  "let s = [''n'' \<mapsto> ''0'']; r1 = calc_read length_of table_cache ''n'' 1 s; r2 = calc_read length_of table_cache ''n'' 1 s;
       s' = snd (calc_write zeros table_cache ''n'' r2 (snd (calc_write zeros table_cache ''n'' r1 s)))
   in s' ''n'' = Some ''00''"
  by (simp add: calc_read_def calc_write_def table_cache_def getItem_def in_i64_def length_of_def zeros_def numeral_2_eq_2)

subsection \<open>The cache on Redis\<close>

text \<open>
  What the server documents of the commands the cache sends: \<open>redis_ok\<close> for any server, and a server that
  is a table of values with the seconds they live. Of the lifetimes only what the commands say of them is
  kept; a lifetime of zero or less is refused by \<open>SET\<close>.
\<close>

definition redis_ok :: "('v, 's) redis_server \<Rightarrow> bool" where
  "redis_ok r \<longleftrightarrow> cache (\<lambda>k. do_read r ''GET'' [AKey k])
     (\<lambda>k v d. do_write r ''SET'' (if d \<noteq> 0 then [AKey k, AVal v, AEx, AInt d] else [AKey k, AVal v]))
     (\<lambda>k. do_write r ''DEL'' [AKey k]) (\<lambda>d. 0 \<le> d)"

lemma gredis_cache:
  assumes "redis_ok r"
  shows "cache (c_Get (NewGredis r)) (c_Set (NewGredis r)) (c_Del (NewGredis r)) (\<lambda>d. 0 \<le> d)"
proof -
  have "c_Get (NewGredis r) = (\<lambda>k. do_read r ''GET'' [AKey k])"
    "c_Set (NewGredis r) = (\<lambda>k v d. do_write r ''SET'' (if d \<noteq> 0 then [AKey k, AVal v, AEx, AInt d] else [AKey k, AVal v]))"
    "c_Del (NewGredis r) = (\<lambda>k. do_write r ''DEL'' [AKey k])"
    by (auto simp: NewGredis_def gredis_Get_def gredis_Set_def gredis_Del_def fun_eq_iff)
  then show ?thesis using assms by (simp only: redis_ok_def)
qed

definition table_read :: "string \<Rightarrow> string redis_arg list \<Rightarrow> (string \<rightharpoonup> string \<times> int option) \<Rightarrow> string option res" where
  "table_read cmd args s = (case args of [AKey k] \<Rightarrow> Inr (map_option fst (s k)) | _ \<Rightarrow> Inr None)"

definition table_write :: "string \<Rightarrow> string redis_arg list \<Rightarrow> (string \<rightharpoonup> string \<times> int option)
    \<Rightarrow> go_error option \<times> (string \<rightharpoonup> string \<times> int option)" where
  "table_write cmd args s = (case args of
     [AKey k, AVal v] \<Rightarrow> (None, s(k \<mapsto> (v, None)))
   | [AKey k, AVal v, AEx, AInt d] \<Rightarrow> if 0 < d then (None, s(k \<mapsto> (v, Some d))) else (Some (new_error ''invalid expire''), s)
   | [AKey k, AInt d] \<Rightarrow> (None, s(k := map_option (\<lambda>(v, _). (v, Some d)) (s k)))
   | [AKey k] \<Rightarrow> (None, s(k := None))
   | _ \<Rightarrow> (None, s))"

definition table_server :: "(string, string \<rightharpoonup> string \<times> int option) redis_server" where
  "table_server = \<lparr>do_read = table_read, do_write = table_write\<rparr>"

lemma table_server_ok: "redis_ok table_server"
  unfolding redis_ok_def table_server_def
  by unfold_locales (auto simp: table_read_def table_write_def split: if_splits)

interpretation gredis: cache "c_Get (NewGredis table_server)" "c_Set (NewGredis table_server)" "c_Del (NewGredis table_server)"
    "\<lambda>d. 0 \<le> d"
  by (rule gredis_cache [OF table_server_ok])

text \<open>A captcha is good once on this cache as well.\<close>

lemma captcha_once_gredis:
  assumes "redis_ok r" "0 \<le> expiration"
    and "captcha_Set (NewCache p (NewGredis r)) prefix expiration i val s = (None, s1)"
    and "captcha_Verify (NewCache p (NewGredis r)) prefix i answer True s1 = (ok, s2)"
  shows "ok = (val = answer)" "fst (captcha_Verify (NewCache p (NewGredis r)) prefix i again clear s2) = (again = [])"
  using captcha_cache_once [OF prefixed_cache [OF gredis_cache [OF assms(1)]] assms(2-4)] by blast+

text \<open>
  \<open>Expire\<close> hands the duration to a command that counts seconds: a minute becomes sixty thousand million
  seconds. The memory cache takes the same argument for what it is.
\<close>

lemma gredis_Expire_seconds:
  "s k = Some (v, d) \<Longrightarrow> snd (gredis_Expire table_server k (60 * Second) s) k = Some (v, Some 60000000000)"
  by (simp add: gredis_Expire_def table_server_def table_write_def Second_def)

end
