(* ===== verification/Sdk_Config.thy ===== *)
theory Sdk_Config
  imports Sdk_Broker Sdk_Cache Tus_FileStore Tus_Lockers
begin

section \<open>Configuration\<close>

text \<open>
  The configuration of \<open>sdk/config\<close>: the settings, the options of the client libraries that are made
  from them, and the queues, the cache, the locker and the upload server that are set up with these.
  The framework's configuration (\<open>gcfg\<close>) and its conversions of values \<open>'v\<close> are parameters, and so
  are the client libraries.
\<close>

datatype cfg_default = DStr string | DInt int

record 'v gcfg =
  cf_Get :: "string \<Rightarrow> cfg_default \<Rightarrow> 'v res"
  v_String :: "'v \<Rightarrow> string"
  v_Int :: "'v \<Rightarrow> int"
  v_Uint :: "'v \<Rightarrow> nat"

text \<open>Reading a key and going on with its value; the first error ends the reading.\<close>

definition with_key :: "'v gcfg \<Rightarrow> string \<Rightarrow> cfg_default \<Rightarrow> ('v \<Rightarrow> 'a res) \<Rightarrow> 'a res" where
  "with_key cfg key d k = (case cf_Get cfg key d of Inl e \<Rightarrow> Inl e | Inr v \<Rightarrow> k v)"

lemma with_key_Inr: "with_key cfg key d k = Inr x \<longleftrightarrow> (\<exists>v. cf_Get cfg key d = Inr v \<and> k v = Inr x)"
  by (simp add: with_key_def split: sum.split)

subsection \<open>TLS\<close>

record Tls =
  tls_Cert :: string
  tls_Key :: string
  tls_Ca :: string

record 'c tls_lib =
  LoadX509KeyPair :: "string \<Rightarrow> string \<Rightarrow> 'c res"
  ReadFile :: "string \<Rightarrow> string res"
  AppendCertsFromPEM :: "string \<Rightarrow> bool"

text \<open>
  The configuration is the certificate with the authorities; \<open>None\<close> is a nil pointer. When the file of the
  authorities cannot be parsed the error returned is the last one, which is nil.
\<close>

type_synonym 'c tls_config = "('c \<times> string) option"

definition getTLS :: "'c tls_lib \<Rightarrow> Tls option \<Rightarrow> 'c tls_config res" where
  "getTLS lib c = (case c of
     None \<Rightarrow> Inr None
   | Some t \<Rightarrow> if tls_Cert t = [] then Inr None
       else (case LoadX509KeyPair lib (tls_Cert t) (tls_Key t) of
         Inl e \<Rightarrow> Inl e
       | Inr cert \<Rightarrow> (case ReadFile lib (tls_Ca t) of
           Inl e \<Rightarrow> Inl e
         | Inr ca \<Rightarrow> if AppendCertsFromPEM lib ca then Inr (Some (cert, ca)) else Inr None)))"

text \<open>TLS was asked for and the answer is a connection without it: exactly for unreadable authorities.\<close>

lemma getTLS_silent:
  assumes "tls_Cert t \<noteq> []"
  shows "getTLS lib (Some t) = Inr None \<longleftrightarrow> is_ok (LoadX509KeyPair lib (tls_Cert t) (tls_Key t))
     \<and> (\<exists>ca. ReadFile lib (tls_Ca t) = Inr ca \<and> \<not> AppendCertsFromPEM lib ca)"
  using assms by (auto simp: getTLS_def is_ok_def split: sum.splits)

subsection \<open>Redis clients\<close>

record 'c redis_Options =
  ro_Network :: string
  ro_Addr :: string
  ro_Username :: string
  ro_Password :: string
  ro_DB :: int
  ro_MaxRetries :: int
  ro_PoolSize :: int
  ro_TLSConfig :: "'c tls_config"

definition read_tls :: "'v gcfg \<Rightarrow> 'c tls_lib \<Rightarrow> ('c tls_config \<Rightarrow> 'a) \<Rightarrow> 'a res" where
  "read_tls cfg lib k =
     with_key cfg ''redis.default.cert'' (DStr []) (\<lambda>cert.
     with_key cfg ''redis.default.key'' (DStr []) (\<lambda>key.
     with_key cfg ''redis.default.ca'' (DStr []) (\<lambda>ca.
       case getTLS lib (Some \<lparr>tls_Cert = v_String cfg cert, tls_Key = v_String cfg key, tls_Ca = v_String cfg ca\<rparr>) of
         Inl e \<Rightarrow> Inl e | Inr t \<Rightarrow> Inr (k t))))"

definition GetRedisOptions :: "'v gcfg \<Rightarrow> 'c tls_lib \<Rightarrow> 'c redis_Options res" where
  "GetRedisOptions cfg lib =
     with_key cfg ''redis.default.address'' (DStr []) (\<lambda>address.
     with_key cfg ''redis.default.db'' (DStr ''0'') (\<lambda>db.
     with_key cfg ''redis.default.network'' (DStr ''tcp'') (\<lambda>network.
     with_key cfg ''redis.default.pass'' (DStr []) (\<lambda>pass.
     with_key cfg ''redis.default.username'' (DStr []) (\<lambda>username.
     with_key cfg ''redis.default.pool_size'' (DStr ''10'') (\<lambda>poolSize.
     with_key cfg ''redis.default.max_retries'' (DStr ''0'') (\<lambda>maxRetries.
     read_tls cfg lib (\<lambda>t. \<lparr>ro_Network = v_String cfg network, ro_Addr = v_String cfg address,
       ro_Username = v_String cfg username, ro_Password = v_String cfg pass, ro_DB = v_Int cfg db,
       ro_MaxRetries = v_Int cfg maxRetries, ro_PoolSize = v_Int cfg poolSize, ro_TLSConfig = t\<rparr>))))))))"

record 'c gredis_Config =
  gr_Address :: string
  gr_Pass :: string
  gr_Db :: int
  gr_TLSConfig :: "'c tls_config"

definition GetClientOptions :: "'v gcfg \<Rightarrow> 'c tls_lib \<Rightarrow> 'c gredis_Config res" where
  "GetClientOptions cfg lib =
     with_key cfg ''redis.default.address'' (DStr []) (\<lambda>address.
     with_key cfg ''redis.default.db'' (DStr ''0'') (\<lambda>db.
     with_key cfg ''redis.default.pass'' (DStr []) (\<lambda>pass.
     read_tls cfg lib (\<lambda>t. \<lparr>gr_Address = v_String cfg address, gr_Pass = v_String cfg pass,
       gr_Db = v_Int cfg db, gr_TLSConfig = t\<rparr>))))"

text \<open>
  The process keeps one client of each kind. \<open>SetClient\<close> closes the one it replaces; \<open>closed\<close> lists the
  clients that have been closed.
\<close>

record client_holder =
  Client :: "nat option"
  closed :: "nat list"

definition SetClient :: "nat option \<Rightarrow> client_holder \<Rightarrow> client_holder" where
  "SetClient r h = (let h' = (case Client h of Some c \<Rightarrow> if Some c \<noteq> r then h\<lparr>closed := closed h @ [c]\<rparr> else h | None \<Rightarrow> h)
     in h'\<lparr>Client := r\<rparr>)"

text \<open>The client of the framework's cache is kept and replaced in the same way.\<close>

definition gredis_SetClient :: "nat option \<Rightarrow> client_holder \<Rightarrow> client_holder" where
  "gredis_SetClient r h = SetClient r h"

definition set_clients :: "nat list \<Rightarrow> client_holder \<Rightarrow> client_holder" where
  "set_clients cs h = foldl (\<lambda>h c. SetClient (Some c) h) h cs"

text \<open>Of any distinct clients that are set in turn, all but the last are closed, once and in order.\<close>

lemma set_clients_closed:
  assumes "Client h = Some c" "distinct (c # cs)"
  shows "closed (set_clients cs h) = closed h @ butlast (c # cs) \<and> Client (set_clients cs h) = Some (last (c # cs))"
  using assms by (induction cs arbitrary: c h) (auto simp: set_clients_def SetClient_def)

subsection \<open>Options of the NSQ client\<close>

text \<open>
  A duration is an \<open>int\<close> of nanoseconds, the jitter a \<open>float64\<close> of type \<open>'f\<close> with \<open>pos\<close> for being greater
  than zero. The client's own configuration has the same fields.
\<close>

record 'f NSQOptions =
  DialTimeout :: int
  ReadTimeout :: int
  WriteTimeout :: int
  Addresses :: "string list"
  LookupdPollInterval :: int
  LookupdPollJitter :: 'f
  MaxRequeueDelay :: int
  DefaultRequeueDelay :: int
  MaxBackoffDuration :: int
  BackoffMultiplier :: int
  MaxAttempts :: "16 word"
  LowRdyIdleTimeout :: int
  LowRdyTimeout :: int
  RDYRedistributeInterval :: int
  ClientID :: string
  Hostname :: string
  UserAgent :: string
  HeartbeatInterval :: int
  SampleRate :: int
  nsq_Tls :: "Tls option"
  Deflate :: bool
  DeflateLevel :: int
  Snappy :: bool
  OutputBufferSize :: int
  OutputBufferTimeout :: int
  MaxInFlight :: int
  MsgTimeout :: int
  AuthSecret :: string

record ('f, 'c) nsq_Config =
  n_TlsConfig :: "'c tls_config"
  n_DialTimeout :: int
  n_ReadTimeout :: int
  n_WriteTimeout :: int
  n_LookupdPollInterval :: int
  n_LookupdPollJitter :: 'f
  n_MaxRequeueDelay :: int
  n_DefaultRequeueDelay :: int
  n_MaxBackoffDuration :: int
  n_BackoffMultiplier :: int
  n_MaxAttempts :: "16 word"
  n_LowRdyIdleTimeout :: int
  n_LowRdyTimeout :: int
  n_RDYRedistributeInterval :: int
  n_ClientID :: string
  n_Hostname :: string
  n_UserAgent :: string
  n_HeartbeatInterval :: int
  n_SampleRate :: int
  n_Deflate :: bool
  n_DeflateLevel :: int
  n_Snappy :: bool
  n_OutputBufferSize :: int
  n_OutputBufferTimeout :: int
  n_MaxInFlight :: int
  n_MsgTimeout :: int
  n_AuthSecret :: string

definition Millisecond :: int where "Millisecond = 1000000"

definition if_set :: "int \<Rightarrow> int \<Rightarrow> int \<Rightarrow> int" where
  "if_set v unit old = (if v > 0 then i64 (v * unit) else old)"

definition if_text :: "string \<Rightarrow> string \<Rightarrow> string" where
  "if_text v old = (if v \<noteq> [] then v else old)"

definition GetNsqOptions :: "('f \<Rightarrow> bool) \<Rightarrow> 'c tls_lib \<Rightarrow> ('f, 'c) nsq_Config \<Rightarrow> 'f NSQOptions \<Rightarrow> ('f, 'c) nsq_Config res" where
  "GetNsqOptions pos lib cfg e = (case getTLS lib (nsq_Tls e) of Inl err \<Rightarrow> Inl err | Inr t \<Rightarrow> Inr
     \<lparr>n_TlsConfig = t,
      n_DialTimeout = if_set (DialTimeout e) Second (n_DialTimeout cfg),
      n_ReadTimeout = if_set (ReadTimeout e) Second (n_ReadTimeout cfg),
      n_WriteTimeout = if_set (WriteTimeout e) Second (n_WriteTimeout cfg),
      n_LookupdPollInterval = if_set (LookupdPollInterval e) Second (n_LookupdPollInterval cfg),
      n_LookupdPollJitter = (if pos (LookupdPollJitter e) then LookupdPollJitter e else n_LookupdPollJitter cfg),
      n_MaxRequeueDelay = if_set (MaxRequeueDelay e) Second (n_MaxRequeueDelay cfg),
      n_DefaultRequeueDelay = if_set (DefaultRequeueDelay e) Second (n_DefaultRequeueDelay cfg),
      n_MaxBackoffDuration = if_set (MaxBackoffDuration e) Millisecond (n_MaxBackoffDuration cfg),
      n_BackoffMultiplier = if_set (BackoffMultiplier e) Second (n_BackoffMultiplier cfg),
      n_MaxAttempts = MaxAttempts e,
      n_LowRdyIdleTimeout = if_set (LowRdyIdleTimeout e) Second (n_LowRdyIdleTimeout cfg),
      n_LowRdyTimeout = if_set (LowRdyTimeout e) Second (n_LowRdyTimeout cfg),
      n_RDYRedistributeInterval = if_set (RDYRedistributeInterval e) Second (n_RDYRedistributeInterval cfg),
      n_ClientID = if_text (ClientID e) (n_ClientID cfg),
      n_Hostname = if_text (Hostname e) (n_Hostname cfg),
      n_UserAgent = if_text (UserAgent e) (n_UserAgent cfg),
      n_HeartbeatInterval = if_set (HeartbeatInterval e) Second (n_HeartbeatInterval cfg),
      n_SampleRate = (if SampleRate e > 0 then SampleRate e else n_SampleRate cfg),
      n_Deflate = Deflate e,
      n_DeflateLevel = (if DeflateLevel e \<ge> 6 \<and> DeflateLevel e \<le> 9 then DeflateLevel e else n_DeflateLevel cfg),
      n_Snappy = Snappy e,
      n_OutputBufferSize = (if OutputBufferSize e > 0 then OutputBufferSize e else n_OutputBufferSize cfg),
      n_OutputBufferTimeout = if_set (OutputBufferTimeout e) Second (n_OutputBufferTimeout cfg),
      n_MaxInFlight = (if MaxInFlight e > 0 then MaxInFlight e else n_MaxInFlight cfg),
      n_MsgTimeout = if_set (MsgTimeout e) Second (n_MsgTimeout cfg),
      n_AuthSecret = if_text (AuthSecret e) (n_AuthSecret cfg)\<rparr>)"

text \<open>
  Options that are not set leave the client's defaults, apart from the number of attempts, which
  becomes 0, and the two kinds of compression, which become off. A duration given as one is multiplied
  by a second again: ten seconds wrap around to a negative time.
\<close>

definition unset_options :: "'f NSQOptions \<Rightarrow> bool" where
  "unset_options e \<longleftrightarrow> (\<forall>d \<in> {DialTimeout e, ReadTimeout e, WriteTimeout e, LookupdPollInterval e, MaxRequeueDelay e,
     DefaultRequeueDelay e, MaxBackoffDuration e, BackoffMultiplier e, LowRdyIdleTimeout e, LowRdyTimeout e,
     RDYRedistributeInterval e, HeartbeatInterval e, SampleRate e, OutputBufferSize e, OutputBufferTimeout e,
     MaxInFlight e, MsgTimeout e, DeflateLevel e}. d = 0)
   \<and> ClientID e = [] \<and> Hostname e = [] \<and> UserAgent e = [] \<and> AuthSecret e = [] \<and> nsq_Tls e = None
   \<and> MaxAttempts e = 0 \<and> \<not> Deflate e \<and> \<not> Snappy e"

lemma nsq_unset:
  assumes "unset_options e" "\<not> pos (LookupdPollJitter e)"
  shows "GetNsqOptions pos lib cfg e =
    Inr (cfg\<lparr>n_TlsConfig := None, n_MaxAttempts := 0, n_Deflate := False, n_Snappy := False\<rparr>)"
  using assms by (cases cfg) (simp add: unset_options_def GetNsqOptions_def getTLS_def if_set_def if_text_def)

lemma nsq_duration_wraps:
  assumes "DialTimeout e = 10 * Second" "GetNsqOptions pos lib cfg e = Inr c"
  shows "n_DialTimeout c = - 8446744073709551616"
  using assms by (auto simp: GetNsqOptions_def if_set_def Second_def i64_def split: sum.splits)

lemma if_set_small: "0 < v \<Longrightarrow> v * unit \<le> MaxInt64 \<Longrightarrow> 0 \<le> unit \<Longrightarrow> if_set v unit old = v * unit"
  by (simp add: if_set_def in_i64_nonneg)

lemma nsq_deflate_level:
  assumes "GetNsqOptions pos lib cfg e = Inr c" "DeflateLevel e \<in> {1..5}"
  shows "n_DeflateLevel c = n_DeflateLevel cfg"
  using assms by (auto simp: GetNsqOptions_def split: sum.splits)

subsection \<open>Options of RabbitMQ and RocketMQ\<close>

record RabbitOptions =
  Dsn :: string
  rb_Addr :: string
  rb_Username :: string
  rb_Password :: string
  Vhost :: string
  rb_ReconnectInterval :: int
  rb_Tls :: "Tls option"
  rb_Cfg :: "nat option"
  rb_Log :: "string \<times> string \<times> string \<times> bool"

definition GetDsn :: "RabbitOptions \<Rightarrow> string \<times> RabbitOptions" where
  "GetDsn e = (if Dsn e \<noteq> [] then (Dsn e, e)
     else let d = ''amqp://'' @ rb_Username e @ '':'' @ rb_Password e @ ''@'' @ rb_Addr e @ ''/'' @ Vhost e
          in (d, e\<lparr>Dsn := d\<rparr>))"

record RocketOptions =
  Urls :: "string list"
  Credentials :: "(string \<times> string) option"
  rk_Log :: "string \<times> string \<times> string \<times> bool"

text \<open>
  What the configuration takes from outside: the framework's configuration, reading a value into a
  record, files of certificates, new clients. A client's configuration is a number.
\<close>

record ('v, 'f, 'c) cfg_env =
  e_cfg :: "'v gcfg"
  e_tls :: "'c tls_lib"
  e_pos :: "'f \<Rightarrow> bool"
  e_nsq_config :: "('f, 'c) nsq_Config"
  e_scan_rabbit :: "'v \<Rightarrow> RabbitOptions \<Rightarrow> RabbitOptions res"
  e_scan_rocket :: "'v \<Rightarrow> RocketOptions option \<Rightarrow> RocketOptions option res"
  e_zero_rabbit :: nat
  e_set_tls :: "'c tls_config \<Rightarrow> nat option \<Rightarrow> nat option"
  e_redis_client :: "'c redis_Options \<Rightarrow> nat"

definition GetRabbitOptions :: "('v, 'f, 'c) cfg_env \<Rightarrow> RabbitOptions \<Rightarrow> RabbitOptions res" where
  "GetRabbitOptions env e =
     with_key (e_cfg env) ''settings.queue.rabbitmq.default'' (DStr []) (\<lambda>conf.
       case e_scan_rabbit env conf (e\<lparr>rb_Cfg := Some (e_zero_rabbit env)\<rparr>) of
         Inl err \<Rightarrow> Inl err
       | Inr e \<Rightarrow> (case rb_Tls e of
           None \<Rightarrow> Inr (snd (GetDsn e))
         | Some t \<Rightarrow> (case getTLS (e_tls env) (Some t) of
             Inl err \<Rightarrow> Inl err
           | Inr tls \<Rightarrow> Inr (snd (GetDsn (e\<lparr>rb_Cfg := e_set_tls env tls (rb_Cfg e)\<rparr>))))))"

definition GetRocketOptions :: "('v, 'f, 'c) cfg_env \<Rightarrow> RocketOptions option \<Rightarrow> RocketOptions option res" where
  "GetRocketOptions env e =
     with_key (e_cfg env) ''settings.queue.rocketmq.default'' (DStr []) (\<lambda>opt. e_scan_rocket env opt e)"

subsection \<open>The queues\<close>

datatype queue_kind = QRabbit | QMemory | QRocket | QNsq | QRedis

text \<open>
  The settings of each queue are kept once in the process; the list refers to them and may name one more
  than once. \<open>None\<close> for the options of RabbitMQ and RocketMQ is a nil pointer.
\<close>

record ('f, 'c) queue_cfgs =
  CfgList :: "queue_kind list"
  qm_PoolSize :: nat
  qn_Cfg :: "('f, 'c) nsq_Config option"
  qn_Options :: "'f NSQOptions"
  qn_ChannelPrefix :: string
  qr_Options :: "RabbitOptions option"
  qk_Options :: "RocketOptions option"
  qd_ReclaimInterval :: int
  qd_BlockingTimeout :: int
  qd_VisibilityTimeout :: int
  qd_ProducerClient :: "nat option"
  qd_ConsumerClient :: "nat option"
  qd_holder :: client_holder

type_synonym ('f, 'c) cfg_step = "('f, 'c) queue_cfgs \<Rightarrow> (go_error option \<times> ('f, 'c) queue_cfgs) option"

definition memory_Init :: "('v, 'f, 'c) cfg_env \<Rightarrow> ('f, 'c) cfg_step" where
  "memory_Init env q = (case cf_Get (e_cfg env) ''settings.queue.memory.poolSize'' (DInt 10000) of
     Inl e \<Rightarrow> Some (Some e, q)
   | Inr v \<Rightarrow> Some (None, q\<lparr>qm_PoolSize := v_Uint (e_cfg env) v\<rparr>))"

definition nsq_Init :: "('v, 'f, 'c) cfg_env \<Rightarrow> ('f, 'c) cfg_step" where
  "nsq_Init env q = (case GetNsqOptions (e_pos env) (e_tls env) (e_nsq_config env) (qn_Options q) of
     Inl e \<Rightarrow> Some (Some e, q\<lparr>qn_Cfg := None\<rparr>)
   | Inr c \<Rightarrow> Some (None, q\<lparr>qn_Cfg := Some c\<rparr>))"

text \<open>An error leaves a nil pointer behind, which the next \<open>Init\<close> and \<open>GetQueue\<close> run into.\<close>

definition rabbit_Init :: "('v, 'f, 'c) cfg_env \<Rightarrow> ('f, 'c) cfg_step" where
  "rabbit_Init env q = (case qr_Options q of
     None \<Rightarrow> None
   | Some o' \<Rightarrow> (case GetRabbitOptions env o' of
       Inl e \<Rightarrow> Some (Some e, q\<lparr>qr_Options := None\<rparr>)
     | Inr o'' \<Rightarrow> Some (None, q\<lparr>qr_Options := Some o''\<rparr>)))"

definition rocket_Init :: "('v, 'f, 'c) cfg_env \<Rightarrow> ('f, 'c) cfg_step" where
  "rocket_Init env q = (case GetRocketOptions env (qk_Options q) of
     Inl e \<Rightarrow> Some (Some e, q\<lparr>qk_Options := None\<rparr>)
   | Inr None \<Rightarrow> None
   | Inr (Some o') \<Rightarrow> (case Credentials o' of
       None \<Rightarrow> None
     | Some (ak, sk) \<Rightarrow> Some (None, q\<lparr>qk_Options := Some
         (if ak \<noteq> [] \<and> sk \<noteq> [] then o'\<lparr>Credentials := Some (ak, sk)\<rparr> else o')\<rparr>)))"

definition redis_Init :: "('v, 'f, 'c) cfg_env \<Rightarrow> ('f, 'c) cfg_step" where
  "redis_Init env q =
     (let connected = (case Client (qd_holder q) of
            Some c \<Rightarrow> Inr (c, q)
          | None \<Rightarrow> (case GetRedisOptions (e_cfg env) (e_tls env) of
              Inl e \<Rightarrow> Inl e
            | Inr o' \<Rightarrow> (let c = e_redis_client env o' in Inr (c, q\<lparr>qd_holder := SetClient (Some c) (qd_holder q)\<rparr>))))
      in case connected of
           Inl e \<Rightarrow> Some (Some e, q)
         | Inr (c, q') \<Rightarrow> Some (None, q'\<lparr>qd_ProducerClient := Some c, qd_ConsumerClient := Some c,
             qd_ReclaimInterval := i64 (qd_ReclaimInterval q' * Second),
             qd_BlockingTimeout := i64 (qd_BlockingTimeout q' * Second),
             qd_VisibilityTimeout := i64 (qd_VisibilityTimeout q' * Second)\<rparr>))"

fun kind_Init :: "('v, 'f, 'c) cfg_env \<Rightarrow> queue_kind \<Rightarrow> ('f, 'c) cfg_step" where
  "kind_Init env QRabbit = rabbit_Init env"
| "kind_Init env QMemory = memory_Init env"
| "kind_Init env QRocket = rocket_Init env"
| "kind_Init env QNsq = nsq_Init env"
| "kind_Init env QRedis = redis_Init env"

definition queue_keys :: "(string \<times> queue_kind) list" where
  "queue_keys = [(''settings.queue.rabbitmq'', QRabbit), (''settings.queue.memory'', QMemory),
     (''settings.queue.rocketmq'', QRocket), (''settings.queue.nsq'', QNsq), (''redis.default'', QRedis)]"

text \<open>The queues whose settings are there are appended, up to the first key that cannot be read.\<close>

fun queue_detect :: "'v gcfg \<Rightarrow> (string \<times> queue_kind) list \<Rightarrow> queue_kind list \<Rightarrow> go_error option \<times> queue_kind list" where
  "queue_detect cfg [] l = (None, l)"
| "queue_detect cfg ((key, kind) # ks) l = (case cf_Get cfg key (DStr []) of
     Inl e \<Rightarrow> (Some e, l)
   | Inr v \<Rightarrow> queue_detect cfg ks (if v_String cfg v \<noteq> [] then l @ [kind] else l))"

fun init_kinds :: "('v, 'f, 'c) cfg_env \<Rightarrow> queue_kind list \<Rightarrow> ('f, 'c) cfg_step" where
  "init_kinds env [] q = Some (None, q)"
| "init_kinds env (k # ks) q = (case kind_Init env k q of
     None \<Rightarrow> None
   | Some (Some e, q') \<Rightarrow> Some (Some e, q')
   | Some (None, q') \<Rightarrow> init_kinds env ks q')"

definition queue_Init :: "('v, 'f, 'c) cfg_env \<Rightarrow> ('f, 'c) cfg_step" where
  "queue_Init env q = (case queue_detect (e_cfg env) queue_keys (CfgList q) of
     (Some e, l) \<Rightarrow> Some (Some e, q\<lparr>CfgList := l\<rparr>)
   | (None, l) \<Rightarrow> init_kinds env l (q\<lparr>CfgList := l\<rparr>))"

text \<open>The queues that are made from the settings; \<open>log_error\<close> is what the logger says to its settings.\<close>

definition memory_GetQueue :: "('f, 'c) queue_cfgs \<Rightarrow> Memory" where
  "memory_GetQueue q = NewMemory (qm_PoolSize q)"

definition nsq_GetQueue :: "'w nsq_client \<Rightarrow> (('f, 'c) nsq_Config \<Rightarrow> nat) \<Rightarrow> ('f, 'c) queue_cfgs \<Rightarrow> 'w
    \<Rightarrow> ((NSQ \<times> go_error option) \<times> 'w) option" where
  "nsq_GetQueue c num q w = NewNSQ c (Addresses (qn_Options q)) (map_option num (qn_Cfg q)) (qn_ChannelPrefix q) w"

definition rabbit_GetQueue :: "(string \<times> string \<times> string \<times> bool \<Rightarrow> go_error option) \<Rightarrow> ('f, 'c) queue_cfgs
    \<Rightarrow> RabbitMQ res option" where
  "rabbit_GetQueue log_error q = (case qr_Options q of
     None \<Rightarrow> None
   | Some o' \<Rightarrow> (case log_error (rb_Log o') of
       Some e \<Rightarrow> Some (Inl e)
     | None \<Rightarrow> Some (Inr (NewRabbitMQ (Dsn o') (rb_ReconnectInterval o') (rb_Cfg o')))))"

definition rocket_GetQueue :: "(string \<times> string \<times> string \<times> bool \<Rightarrow> go_error option) \<Rightarrow> ('f, 'c) queue_cfgs
    \<Rightarrow> RocketMQ res option" where
  "rocket_GetQueue log_error q = (case qk_Options q of
     None \<Rightarrow> None
   | Some o' \<Rightarrow> (case log_error (rk_Log o') of
       Some e \<Rightarrow> Some (Inl e)
     | None \<Rightarrow> Some (Inr (NewRocketMQ (Urls o') (Credentials o')))))"

definition redis_GetQueue :: "'w redis_client \<Rightarrow> (('f, 'c) queue_cfgs \<Rightarrow> nat) \<Rightarrow> (('f, 'c) queue_cfgs \<Rightarrow> nat)
    \<Rightarrow> ('f, 'c) queue_cfgs \<Rightarrow> 'w \<Rightarrow> RedisQueue res \<times> 'w" where
  "redis_GetQueue c producer consumer q w = NewRedis c (Some (producer q)) (Some (consumer q)) w"

subsection \<open>What setting the queues up does\<close>

definition present :: "'v gcfg \<Rightarrow> string \<Rightarrow> bool" where
  "present cfg key \<longleftrightarrow> (\<exists>v. cf_Get cfg key (DStr []) = Inr v \<and> v_String cfg v \<noteq> [])"

definition configured_kinds :: "'v gcfg \<Rightarrow> queue_kind list" where
  "configured_kinds cfg = map snd (filter (\<lambda>(key, kind). present cfg key) queue_keys)"

lemma queue_detect_ok:
  "queue_detect cfg ks l = (None, l') \<Longrightarrow> l' = l @ map snd (filter (\<lambda>(key, kind). present cfg key) ks)"
  by (induction cfg ks l rule: queue_detect.induct) (auto simp: present_def split: sum.splits if_splits)

text \<open>
  What initialising one kind leaves alone, and what it does to the intervals of Redis: every time it
  multiplies them by a second.
\<close>

definition redis_intervals :: "('f, 'c) queue_cfgs \<Rightarrow> int list" where
  "redis_intervals q = [qd_ReclaimInterval q, qd_BlockingTimeout q, qd_VisibilityTimeout q]"

definition to_seconds :: "int list \<Rightarrow> int list" where
  "to_seconds vs = map (\<lambda>v. i64 (v * Second)) vs"

lemma kind_Init_frame:
  assumes "kind_Init env k q = Some (e, q')"
  shows "CfgList q' = CfgList q" "qn_Options q' = qn_Options q"
  using assms by (cases k; auto simp: memory_Init_def nsq_Init_def rabbit_Init_def rocket_Init_def redis_Init_def Let_def
    split: sum.splits option.splits prod.splits)+

lemma kind_Init_intervals:
  assumes "kind_Init env k q = Some (None, q')"
  shows "redis_intervals q' = (if k = QRedis then to_seconds (redis_intervals q) else redis_intervals q)"
  using assms by (cases k; auto simp: memory_Init_def nsq_Init_def rabbit_Init_def rocket_Init_def redis_Init_def Let_def
    redis_intervals_def to_seconds_def split: sum.splits option.splits prod.splits)

lemma init_kinds_frame:
  "init_kinds env ks q = Some (e, q') \<Longrightarrow> CfgList q' = CfgList q \<and> qn_Options q' = qn_Options q"
proof (induction env ks q rule: init_kinds.induct)
  case (2 env k ks q)
  then show ?case using kind_Init_frame [of env k q]
    by (auto split: option.splits)
qed simp

lemma init_kinds_intervals:
  "init_kinds env ks q = Some (None, q') \<Longrightarrow>
     redis_intervals q' = (to_seconds ^^ count_list ks QRedis) (redis_intervals q)"
proof (induction env ks q rule: init_kinds.induct)
  case (2 env k ks q)
  then obtain q1 where q1: "kind_Init env k q = Some (None, q1)" "init_kinds env ks q1 = Some (None, q')"
    by (auto split: option.splits)
  then show ?case using 2 kind_Init_intervals [OF q1(1)] by (auto simp: funpow_swap1)
qed simp

lemma queue_Init_options: "queue_Init env q = Some (e, q') \<Longrightarrow> qn_Options q' = qn_Options q"
  by (auto simp: queue_Init_def split: prod.splits option.splits dest: init_kinds_frame)

text \<open>
  The settings of NSQ are looked at for being there and never read: without addresses that the
  program sets itself, the queue cannot be made.
\<close>

lemma nsq_addresses_unread:
  assumes "Addresses (qn_Options q) = []" "queue_Init env q = Some (e, q')"
  shows "nsq_GetQueue c num q' w = None"
proof -
  have "Addresses (qn_Options q') = []" using assms queue_Init_options [OF assms(2)] by simp
  then show ?thesis by (cases "qn_Cfg q'") (simp_all add: nsq_GetQueue_def NewNSQ_def nsq_newProducer_def nsq_config_def)
qed

lemma queue_Init_result:
  assumes "queue_Init env q = Some (None, q')"
  shows "CfgList q' = CfgList q @ configured_kinds (e_cfg env)
    \<and> redis_intervals q' = (to_seconds ^^ count_list (CfgList q') QRedis) (redis_intervals q)"
proof -
  obtain l where l: "queue_detect (e_cfg env) queue_keys (CfgList q) = (None, l)"
    "init_kinds env l (q\<lparr>CfgList := l\<rparr>) = Some (None, q')"
    using assms by (auto simp: queue_Init_def split: prod.splits option.splits)
  have "redis_intervals (q\<lparr>CfgList := l\<rparr>) = redis_intervals q" by (simp add: redis_intervals_def)
  then show ?thesis using init_kinds_frame [OF l(2)] init_kinds_intervals [OF l(2)] queue_detect_ok [OF l(1)]
    by (simp add: configured_kinds_def)
qed

lemma count_redis: "count_list (configured_kinds cfg) QRedis = of_bool (present cfg ''redis.default'')"
  by (simp add: configured_kinds_def queue_keys_def)

text \<open>
  Setting the queues up without an error lists the kinds whose settings are there, in the fixed
  order, and turns the intervals of the Redis consumer from seconds into durations. A second call lists
  the kinds again and initialises every entry, so that with Redis configured the intervals have then
  been multiplied by a second three times.
\<close>

theorem queue_setup:
  assumes "CfgList q = []" "queue_Init env q = Some (None, q1)" "queue_Init env q1 = Some (None, q2)"
  shows "CfgList q1 = configured_kinds (e_cfg env)
    \<and> CfgList q2 = configured_kinds (e_cfg env) @ configured_kinds (e_cfg env)
    \<and> (present (e_cfg env) ''redis.default'' \<longrightarrow> redis_intervals q1 = to_seconds (redis_intervals q)
        \<and> redis_intervals q2 = to_seconds (to_seconds (to_seconds (redis_intervals q))))
    \<and> (\<not> present (e_cfg env) ''redis.default'' \<longrightarrow> redis_intervals q2 = redis_intervals q)"
  using queue_Init_result [OF assms(2)] queue_Init_result [OF assms(3)] assms(1) count_redis [of "e_cfg env"]
  by (simp add: numeral_2_eq_2)

text \<open>With Redis only and an interval of one second, the second call makes it negative.\<close>

definition demo_gcfg :: "string gcfg" where
  "demo_gcfg = \<lparr>cf_Get = (\<lambda>key d. Inr (if key = ''redis.default'' then ''here'' else [])),
     v_String = (\<lambda>v. v), v_Int = (\<lambda>v. 0), v_Uint = (\<lambda>v. 0)\<rparr>"

definition demo_nsq_options :: "nat NSQOptions" where
  "demo_nsq_options = \<lparr>DialTimeout = 0, ReadTimeout = 0, WriteTimeout = 0, Addresses = [], LookupdPollInterval = 0,
     LookupdPollJitter = 0, MaxRequeueDelay = 0, DefaultRequeueDelay = 0, MaxBackoffDuration = 0, BackoffMultiplier = 0,
     MaxAttempts = 0, LowRdyIdleTimeout = 0, LowRdyTimeout = 0, RDYRedistributeInterval = 0, ClientID = [], Hostname = [],
     UserAgent = [], HeartbeatInterval = 0, SampleRate = 0, nsq_Tls = None, Deflate = False, DeflateLevel = 0,
     Snappy = False, OutputBufferSize = 0, OutputBufferTimeout = 0, MaxInFlight = 0, MsgTimeout = 0, AuthSecret = []\<rparr>"

definition demo_nsq_config :: "(nat, nat) nsq_Config" where
  "demo_nsq_config = \<lparr>n_TlsConfig = None, n_DialTimeout = 1, n_ReadTimeout = 1, n_WriteTimeout = 1,
     n_LookupdPollInterval = 1, n_LookupdPollJitter = 0, n_MaxRequeueDelay = 1, n_DefaultRequeueDelay = 1,
     n_MaxBackoffDuration = 1, n_BackoffMultiplier = 1, n_MaxAttempts = 5, n_LowRdyIdleTimeout = 1, n_LowRdyTimeout = 1,
     n_RDYRedistributeInterval = 1, n_ClientID = [], n_Hostname = [], n_UserAgent = [], n_HeartbeatInterval = 1,
     n_SampleRate = 0, n_Deflate = False, n_DeflateLevel = 6, n_Snappy = False, n_OutputBufferSize = 1,
     n_OutputBufferTimeout = 1, n_MaxInFlight = 1, n_MsgTimeout = 0, n_AuthSecret = []\<rparr>"

definition demo_env :: "(string, nat, nat) cfg_env" where
  "demo_env = \<lparr>e_cfg = demo_gcfg,
     e_tls = \<lparr>LoadX509KeyPair = (\<lambda>c k. Inl (new_error [])), ReadFile = (\<lambda>f. Inl (new_error [])), AppendCertsFromPEM = (\<lambda>p. False)\<rparr>,
     e_pos = (\<lambda>f. f > 0), e_nsq_config = demo_nsq_config, e_scan_rabbit = (\<lambda>v o'. Inr o'), e_scan_rocket = (\<lambda>v o'. Inr o'),
     e_zero_rabbit = 0, e_set_tls = (\<lambda>t c. c), e_redis_client = (\<lambda>o'. 7)\<rparr>"

definition demo_queues :: "(nat, nat) queue_cfgs" where
  "demo_queues = \<lparr>CfgList = [], qm_PoolSize = 0, qn_Cfg = None, qn_Options = demo_nsq_options, qn_ChannelPrefix = [],
     qr_Options = None, qk_Options = None, qd_ReclaimInterval = 1, qd_BlockingTimeout = 1, qd_VisibilityTimeout = 1,
     qd_ProducerClient = None, qd_ConsumerClient = None, qd_holder = \<lparr>Client = None, closed = []\<rparr>\<rparr>"

lemma demo_queue_Init:
  "CfgList q \<in> {[], [QRedis]} \<Longrightarrow> \<exists>q'. queue_Init demo_env q = Some (None, q')"
  by (auto simp: queue_Init_def queue_keys_def demo_env_def demo_gcfg_def redis_Init_def GetRedisOptions_def with_key_def
    read_tls_def getTLS_def Let_def split: option.split)

theorem queue_setup_witness:
  "\<exists>q1 q2. queue_Init demo_env demo_queues = Some (None, q1) \<and> queue_Init demo_env q1 = Some (None, q2)
     \<and> qd_ReclaimInterval q1 = 1000000000 \<and> qd_ReclaimInterval q2 < 0"
proof -
  have l: "CfgList demo_queues = []" by (simp add: demo_queues_def)
  obtain q1 where q1: "queue_Init demo_env demo_queues = Some (None, q1)" using demo_queue_Init l by auto
  have p: "present (e_cfg demo_env) ''redis.default''" "configured_kinds (e_cfg demo_env) = [QRedis]"
    by (simp_all add: demo_env_def demo_gcfg_def present_def configured_kinds_def queue_keys_def)
  have "CfgList q1 = [QRedis]" using queue_Init_result [OF q1] l p by simp
  then obtain q2 where q2: "queue_Init demo_env q1 = Some (None, q2)" using demo_queue_Init by auto
  have iv: "redis_intervals demo_queues = [1, 1, 1]" by (simp add: demo_queues_def redis_intervals_def)
  have "redis_intervals q1 = to_seconds [1, 1, 1]" "redis_intervals q2 = to_seconds (to_seconds (to_seconds [1, 1, 1]))"
    using queue_setup [OF l q1 q2] p iv by simp_all
  then have "qd_ReclaimInterval q1 = 1000000000" "qd_ReclaimInterval q2 < 0"
    by (simp_all add: redis_intervals_def to_seconds_def Second_def i64_def)
  then show ?thesis using q1 q2 by blast
qed

subsection \<open>Cache and locker\<close>

text \<open>
  A cache or a locker is made on the framework's client \<open>framework\<close> when there is one, else on a new
  client from the settings. A cache on Redis may fail to be made (\<open>new_gredis\<close>): for a client of its
  own the code then falls back to the memory.
\<close>

datatype 'k made_cache = RedisCache 'k | InMemory

definition cache_Setup :: "'v gcfg \<Rightarrow> 'c tls_lib \<Rightarrow> nat option \<Rightarrow> ('c gredis_Config \<Rightarrow> nat res) \<Rightarrow> (nat \<Rightarrow> 'k res)
    \<Rightarrow> client_holder \<Rightarrow> 'k made_cache res \<times> client_holder" where
  "cache_Setup cfg lib framework gredis_New new_gredis h = (case framework of
     Some r \<Rightarrow> (case new_gredis r of
       Inl e \<Rightarrow> (Inl e, h)
     | Inr k \<Rightarrow> (Inr (RedisCache k), SetClient (Some r) h))
   | None \<Rightarrow> (case GetClientOptions cfg lib of
       Inl e \<Rightarrow> (Inl e, h)
     | Inr o' \<Rightarrow> (case gredis_New o' of
         Inl e \<Rightarrow> (Inl e, h)
       | Inr r \<Rightarrow> (case new_gredis r of
           Inl e \<Rightarrow> (Inr InMemory, SetClient (Some r) h)
         | Inr k \<Rightarrow> (Inr (RedisCache k), SetClient (Some r) h)))))"

definition locker_Setup :: "'v gcfg \<Rightarrow> 'c tls_lib \<Rightarrow> nat option \<Rightarrow> ('c gredis_Config \<Rightarrow> nat res) \<Rightarrow> nat res" where
  "locker_Setup cfg lib framework gredis_New = (case framework of
     Some r \<Rightarrow> Inr r
   | None \<Rightarrow> (case GetClientOptions cfg lib of Inl e \<Rightarrow> Inl e | Inr o' \<Rightarrow> gredis_New o'))"

text \<open>
  The memory is the cache only for a client of its own that cannot serve as a cache; the framework's
  client fails instead. Whatever cache comes back, the client it was tried on is the one kept.
\<close>

lemma cache_Setup_cases:
  assumes "cache_Setup cfg lib framework gredis_New new_gredis h = (r, h')"
  shows "r = Inr InMemory \<longleftrightarrow> framework = None \<and> (\<exists>o' c e. GetClientOptions cfg lib = Inr o' \<and> gredis_New o' = Inr c
      \<and> new_gredis c = Inl e)"
    and "is_ok r \<Longrightarrow> Client h' \<noteq> None" "\<not> is_ok r \<Longrightarrow> h' = h"
    and "framework = Some c \<Longrightarrow> is_ok r \<Longrightarrow> Client h' = Some c"
  using assms by (auto simp: cache_Setup_def SetClient_def Let_def split: option.splits sum.splits)

subsection \<open>Settings\<close>

record ('j, 't) Settings =
  Jwt :: "(string \<rightharpoonup> 'j) option"
  Tus :: 't
  has_Ws :: bool
  callbacks :: nat

text \<open>
  Of the settings the ones the program changes: tokens by module (a nil map is \<open>None\<close>) and the upload
  server's. \<open>Bootstrap\<close> starts from new settings and runs the callbacks in order, logging their errors.
\<close>

definition runCallback :: "(('j, 't) Settings \<Rightarrow> go_error option \<times> ('j, 't) Settings) list \<Rightarrow> ('j, 't) Settings
    \<Rightarrow> go_error option list \<times> ('j, 't) Settings" where
  "runCallback fs s = foldl (\<lambda>(errs, s) f. case f s of (e, s') \<Rightarrow> (errs @ [e], s')) ([], s) fs"

definition Bootstrap :: "'t \<Rightarrow> (('j, 't) Settings \<Rightarrow> go_error option \<times> ('j, 't) Settings) list \<Rightarrow> ('j, 't) Settings
    \<Rightarrow> go_error option list \<times> ('j, 't) Settings" where
  "Bootstrap no_tus fs s = runCallback fs \<lparr>Jwt = Some Map.empty, Tus = no_tus, has_Ws = True, callbacks = length fs\<rparr>"

definition SetJwt :: "string \<Rightarrow> 'j \<Rightarrow> ('j, 't) Settings \<Rightarrow> ('j, 't) Settings option" where
  "SetJwt module jwt s = map_option (\<lambda>m. s\<lparr>Jwt := Some (m(module \<mapsto> jwt))\<rparr>) (Jwt s)"

definition GetJwt :: "string \<Rightarrow> ('j, 't) Settings \<Rightarrow> 'j option" where
  "GetJwt module s = (case Jwt s of None \<Rightarrow> None | Some m \<Rightarrow> m module)"

text \<open>Another configuration leaves the callbacks as they are.\<close>

definition SetConfig :: "('j, 't) Settings \<Rightarrow> ('j, 't) Settings \<Rightarrow> ('j, 't) Settings" where
  "SetConfig c s = c\<lparr>callbacks := callbacks s\<rparr>"

definition GetTus :: "('j, 't) Settings \<Rightarrow> 't" where
  "GetTus s = Tus s"

lemma GetJwt_SetJwt:
  assumes "SetJwt module jwt s = Some s'"
  shows "GetJwt module s' = Some jwt" "module' \<noteq> module \<Longrightarrow> GetJwt module' s' = GetJwt module' s"
  using assms by (auto simp: SetJwt_def GetJwt_def)

text \<open>Before \<open>Bootstrap\<close> the map is nil, and a token cannot be set.\<close>

lemma SetJwt_before_Bootstrap: "Jwt s = None \<Longrightarrow> SetJwt module jwt s = None \<and> GetJwt module s = None"
  by (simp add: SetJwt_def GetJwt_def)

text \<open>Every callback is run once, whatever the others answer.\<close>

lemma runCallback_all: "length (fst (runCallback fs s)) = length fs"
proof -
  have "length (fst (foldl (\<lambda>(errs, s) f. case f s of (e, s') \<Rightarrow> (errs @ [e], s')) (es, s) fs)) = length es + length fs" for es
    by (induction fs arbitrary: es s) (auto split: prod.split)
  then show ?thesis by (simp add: runCallback_def)
qed

subsection \<open>The upload server\<close>

text \<open>
  The settings are read into a configuration with the directory and the logger's settings; the
  composer gets the file store and nothing else.
\<close>

record tus_settings =
  ts_Config :: "(fs, fileUpload, string set, memoryLock) Config"
  ts_Path :: string
  ts_Log :: "string \<times> string \<times> string \<times> bool"

definition upload_Init :: "'v gcfg \<Rightarrow> ('v \<Rightarrow> tus_settings res) \<Rightarrow> (string \<times> string \<times> string \<times> bool \<Rightarrow> go_error option)
    \<Rightarrow> ('j, tus_settings) Settings \<Rightarrow> go_error option \<times> ('j, tus_settings) Settings" where
  "upload_Init cfg scan log_error s = (case cf_Get cfg ''settings.uploads.tus.default'' (DStr []) of
     Inl e \<Rightarrow> (Some e, s)
   | Inr v \<Rightarrow> (case scan v of
       Inl e \<Rightarrow> (Some e, s)
     | Inr cf \<Rightarrow>
         let composer = FileStore_UseIn (ts_Path cf) NewStoreComposer;
             cf = cf\<lparr>ts_Config := (ts_Config cf)\<lparr>CStoreComposer := Some composer\<rparr>\<rparr>
         in case log_error (ts_Log cf) of
              Some e \<Rightarrow> (Some e, s)
            | None \<Rightarrow> (None, s\<lparr>Tus := cf\<rparr>)))"

text \<open>
  A server set up from the settings has a core that accepts its configuration, finishes, concatenates,
  terminates and defers lengths, but has no locker: requests for one upload are not kept apart.
\<close>

lemma configured_uploads:
  assumes "upload_Init cfg scan log_error s = (None, s')"
  shows "\<exists>c. CStoreComposer (ts_Config (Tus s')) = Some c \<and> Core c = Some (FileStore (ts_Path (Tus s')))
    \<and> UsesTerminater c \<and> UsesConcater c \<and> UsesLengthDeferrer c \<and> \<not> UsesLocker c"
  using assms by (auto simp: upload_Init_def FileStore_UseIn_def composer_defs Let_def split: sum.splits option.splits)

end
