(* ===== verification/Sdk_Http.thy ===== *)
theory Sdk_Http
  imports Sdk_Service
begin

section \<open>Responses and languages of requests\<close>

text \<open>
  The JSON responses of \<open>pkg/response\<close>, the middleware of \<open>sdk/middleware\<close> that writes a handler's response or
  error and the one that chooses a language, and the two operations of the application that read the global
  configuration and translate. A JSON value is its text.
\<close>

subsection \<open>JSON responses\<close>

definition response_Json :: "string \<Rightarrow> int \<Rightarrow> string \<Rightarrow> string list \<Rightarrow> JsonRes" where
  "response_Json ctx_id code message data =
     \<lparr>jr_Code = code, jr_Message = message, jr_Data = (case data of d # _ \<Rightarrow> d | [] \<Rightarrow> ''{}''), jr_Redirect = [],
      jr_RequestId = ctx_id\<rparr>"

definition JsonRedirect :: "string \<Rightarrow> int \<Rightarrow> string \<Rightarrow> string \<Rightarrow> string list \<Rightarrow> JsonRes" where
  "JsonRedirect ctx_id code message redirect data =
     \<lparr>jr_Code = code, jr_Message = message, jr_Data = (case data of d # _ \<Rightarrow> d | [] \<Rightarrow> ''null''), jr_Redirect = redirect,
      jr_RequestId = ctx_id\<rparr>"

text \<open>
  What the handler left: the length of what it wrote itself, its error with the error's code (\<open>None\<close> for an
  error without one), the status, and its response. The framework's codes are parameters.
\<close>

record handled =
  h_buffer :: nat
  h_error :: "(string \<times> int option) option"
  h_status :: int
  h_response :: string

record gcodes =
  CodeOK :: int
  CodeInternalError :: int
  CodeNotFound :: int
  CodeNotAuthorized :: int
  CodeUnknown :: int

text \<open>Writing a response exits the middleware, so it is written once.\<close>

definition ResponseMiddleware :: "gcodes \<Rightarrow> (int \<Rightarrow> string) \<Rightarrow> string \<Rightarrow> handled \<Rightarrow> JsonRes option" where
  "ResponseMiddleware codes status_text ctx_id h =
     (if h_buffer h > 0 then None
      else case h_error h of
        Some (msg, code) \<Rightarrow>
          Some (response_Json ctx_id (case code of Some c \<Rightarrow> c | None \<Rightarrow> CodeInternalError codes) msg [])
      | None \<Rightarrow>
          if h_status h > 0 \<and> h_status h \<noteq> 200
          then Some (response_Json ctx_id
                 (if h_status h = 404 then CodeNotFound codes else if h_status h = 403 then CodeNotAuthorized codes
                  else CodeUnknown codes) (status_text (h_status h)) [h_response h])
          else Some (response_Json ctx_id (CodeOK codes) ''ok'' [h_response h]))"

text \<open>
  Success is announced exactly when the handler wrote nothing itself, had no error and left the status
  alone; an error never carries the handler's response.
\<close>

lemma ResponseMiddleware_ok:
  assumes "ResponseMiddleware codes status_text ctx_id h = Some r" "CodeOK codes \<notin> {CodeInternalError codes, CodeNotFound codes,
      CodeNotAuthorized codes, CodeUnknown codes}" "\<And>m c. h_error h = Some (m, Some c) \<Longrightarrow> c \<noteq> CodeOK codes"
  shows "jr_Code r = CodeOK codes \<longleftrightarrow> h_error h = None \<and> (h_status h \<le> 0 \<or> h_status h = 200)"
    and "h_error h \<noteq> None \<Longrightarrow> jr_Data r = ''{}''"
  using assms by (auto simp: ResponseMiddleware_def response_Json_def split: if_splits option.splits)

subsection \<open>Languages\<close>

text \<open>
  The tags of a list of languages (\<open>parse\<close>, \<open>None\<close> for a nil slice) and the base of the best match (\<open>best\<close>) are the
  language package's. The parameter decides when it is readable, else the header.
\<close>

definition request_lang :: "string \<Rightarrow> string \<Rightarrow> string" where
  "request_lang lang language = (if lang = [] then language else lang)"

definition WithLanguage :: "(string \<Rightarrow> 't list option \<times> go_error option) \<Rightarrow> ('t list \<Rightarrow> string) \<Rightarrow> string \<Rightarrow> string option \<Rightarrow> string" where
  "WithLanguage parse best lang header =
     (let preferred = (if lang \<noteq> [] then fst (parse lang) else None);
          preferred = (case (preferred, header) of (None, Some h) \<Rightarrow> fst (parse h) | _ \<Rightarrow> preferred)
      in best (case preferred of None \<Rightarrow> [] | Some ts \<Rightarrow> ts))"

definition Language :: "(string \<Rightarrow> 't list option \<times> go_error option) \<Rightarrow> ('t list \<Rightarrow> string) \<Rightarrow> string \<Rightarrow> string \<Rightarrow> string \<Rightarrow> string" where
  "Language parse best lang language header = WithLanguage parse best (request_lang lang language) (Some header)"

lemma Language_choice:
  "fst (parse (request_lang lang language)) = Some ts \<Longrightarrow> request_lang lang language \<noteq> []
     \<Longrightarrow> Language parse best lang language header = best ts"
  "request_lang lang language = [] \<or> fst (parse (request_lang lang language)) = None \<Longrightarrow> fst (parse header) = Some ts
     \<Longrightarrow> Language parse best lang language header = best ts"
  by (auto simp: Language_def WithLanguage_def)

subsection \<open>The application\<close>

text \<open>Without a registered configuration or language both panic (\<open>None\<close>); an error reads as nil (\<open>no_value\<close>).\<close>

definition app_Config :: "('o \<Rightarrow> string \<Rightarrow> 'v res) \<Rightarrow> 'v \<Rightarrow> 'o Application \<Rightarrow> string \<Rightarrow> 'v option" where
  "app_Config get no_value a key = (case registry_Get [] (configReg a) of
     None \<Rightarrow> None
   | Some c \<Rightarrow> Some (case get c key of Inl e \<Rightarrow> no_value | Inr v \<Rightarrow> v))"

definition app_Lang :: "('o \<Rightarrow> string \<Rightarrow> string) \<Rightarrow> 'o Application \<Rightarrow> string \<Rightarrow> string option" where
  "app_Lang translate a langKey = (case registry_Get [] (languageReg a) of
     None \<Rightarrow> None
   | Some l \<Rightarrow> Some (translate l (''{#'' @ langKey @ ''}'')))"

text \<open>A new application has nothing registered: both panic until the default is registered.\<close>

lemma app_ready:
  assumes "Register [] c (configReg NewConfig) = (e, r)"
  shows "app_Config get no_value NewConfig key = None"
    and "app_Config get no_value (NewConfig\<lparr>configReg := r\<rparr>) key = Some (case get c key of Inl e \<Rightarrow> no_value | Inr v \<Rightarrow> v)"
  using assms by (auto simp: app_Config_def NewConfig_def registry_Get_def Register_def)

end
