(* ===== verification/Sdk_Drain.thy ===== *)
theory Sdk_Drain
  imports Sdk_Queue
begin

section \<open>What the memory queue promises its users\<close>

text \<open>
  The abstract queue a user of \<open>sdk/queue/memory\<close> has in mind, a bag of messages that wait and a log of those
  accepted, which the queue with its channels and goroutines refines; and the end of every run in which
  nobody publishes and no handler fails.
\<close>

subsection \<open>The abstract queue\<close>

record bag =
  waiting :: "QueueMessage multiset"
  accepted :: "(string \<times> QueueMessage) list"

text \<open>A message is put in, or one that waits is accepted under its own key.\<close>

inductive bag_step :: "bag \<Rightarrow> bag \<Rightarrow> bool" where
  put: "bag_step b (b\<lparr>waiting := add_mset m (waiting b)\<rparr>)"
| take: "m \<in># waiting b \<Longrightarrow>
    bag_step b (b\<lparr>waiting := waiting b - {#m#}, accepted := accepted b @ [(RoutingKey m, m)]\<rparr>)"

definition bag_of :: "Memory \<Rightarrow> bag" where
  "bag_of q = \<lparr>waiting = in_flight q, accepted = handled q\<rparr>"

definition empty_bag :: bag where
  "empty_bag = \<lparr>waiting = {#}, accepted = []\<rparr>"

text \<open>
  What a step does to the messages that came in and went out decides what it does to those under way, as
  none is lost.
\<close>

lemma queue_log_step:
  assumes "queue_step q q'" "queue_ok q"
  shows "(\<exists>m. published q' = published q @ [m] \<and> handled q' = handled q)
    \<or> (\<exists>m. published q' = published q \<and> handled q' = handled q @ [(RoutingKey m, m)])
    \<or> published q' = published q \<and> handled q' = handled q"
  using assms
proof (cases rule: queue_step.cases)
  case (publish uid msg)
  obtain c q1 where s: "store_queue (RoutingKey msg) (load_queue (RoutingKey msg) q) q = (c, q1)" by (metis surj_pair)
  then show ?thesis using store_queue_cases [OF s] by (auto simp: publish(1) Publish_def publish_rest_def Let_def)
next
  case (consumer name)
  obtain c q1 where s: "store_queue name (load_queue name q) q = (c, q1)" by (metis surj_pair)
  then show ?thesis using store_queue_cases [OF s] by (auto simp: consumer(1) Consumer_def consumer_rest_def)
next
  case (accept j m)
  have h: "held (workers q ! j) = {#m#}" by (rule held_eq(2) [OF accept(3)])
  then have "RoutingKey m = w_name (workers q ! j)" using held_key [OF assms(2) accept(2)] by simp
  then show ?thesis by (auto simp: accept(1))
qed (auto simp: push_chan_def)

lemma bag_simulation:
  assumes "queue_step q q'" "queue_ok q"
  shows "bag_step\<^sup>=\<^sup>= (bag_of q) (bag_of q')"
proof -
  have c: "mset (published q) = in_flight q + mset (map snd (handled q))"
    "mset (published q') = in_flight q' + mset (map snd (handled q'))"
    using queue_okD(1) [OF assms(2)] queue_okD(1) [OF queue_step_ok [OF assms]] by (simp_all add: conserved_def)
  consider m where "published q' = published q @ [m]" "handled q' = handled q"
    | m where "published q' = published q" "handled q' = handled q @ [(RoutingKey m, m)]"
    | "published q' = published q" "handled q' = handled q"
    using queue_log_step [OF assms] by blast
  then show ?thesis
  proof cases
    case 1
    have "in_flight q' + mset (map snd (handled q)) = add_mset m (in_flight q) + mset (map snd (handled q))"
      using c 1 by simp
    then have "in_flight q' = add_mset m (in_flight q)" by (rule add_right_imp_eq)
    then have "bag_of q' = (bag_of q)\<lparr>waiting := add_mset m (waiting (bag_of q))\<rparr>" using 1 by (simp add: bag_of_def)
    then show ?thesis using put [of "bag_of q" m] by simp
  next
    case 2
    have "in_flight q + mset (map snd (handled q)) = add_mset m (in_flight q') + mset (map snd (handled q))"
      using c 2 by simp
    then have fl: "in_flight q = add_mset m (in_flight q')" by (rule add_right_imp_eq)
    then have "bag_of q' = (bag_of q)\<lparr>waiting := waiting (bag_of q) - {#m#},
        accepted := accepted (bag_of q) @ [(RoutingKey m, m)]\<rparr>" using 2 by (simp add: bag_of_def)
    then show ?thesis using take [of m "bag_of q"] fl by (simp add: bag_of_def)
  next
    case 3
    then have "in_flight q' + mset (map snd (handled q)) = in_flight q + mset (map snd (handled q))" using c by simp
    then have "in_flight q' = in_flight q" by (rule add_right_imp_eq)
    then show ?thesis using 3 by (simp add: bag_of_def)
  qed
qed



subsection \<open>Runs without failures end\<close>

text \<open>
  The steps in which nobody publishes or consumes anew and no handler fails: messages move on and are
  accepted. Each makes less work; the weights are what can still happen to a message at its place.
\<close>

inductive serve_step :: "Memory \<Rightarrow> Memory \<Rightarrow> bool" where
  send: "i < length (senders q) \<Longrightarrow> senders q ! i = (c, m) \<Longrightarrow> has_room c q \<Longrightarrow>
    serve_step q (push_chan c m (q\<lparr>senders := drop_nth i (senders q)\<rparr>))"
| send_direct: "i < length (senders q) \<Longrightarrow> senders q ! i = (c, m) \<Longrightarrow> PoolNum q = 0 \<Longrightarrow> waits_on j c q \<Longrightarrow>
    serve_step q (set_phase j (Handling m) (q\<lparr>senders := drop_nth i (senders q)\<rparr>))"
| receive: "waits_on j c q \<Longrightarrow> chans q ! c = m # ms \<Longrightarrow> serve_step q (set_phase j (Handling m) (set_chan c ms q))"
| accept: "j < length (workers q) \<Longrightarrow> w_phase (workers q ! j) = Handling m \<Longrightarrow>
    serve_step q (set_phase j Waiting (q\<lparr>handled := handled q @ [(w_name (workers q ! j), m)]\<rparr>))"
| requeue: "j < length (workers q) \<Longrightarrow> w_phase (workers q ! j) = Returning m \<Longrightarrow> w_chan (workers q ! j) = c \<Longrightarrow>
    has_room c q \<Longrightarrow> serve_step q (set_phase j Waiting (push_chan c m q))"
| requeue_direct: "j < length (workers q) \<Longrightarrow> w_phase (workers q ! j) = Returning m \<Longrightarrow> w_chan (workers q ! j) = c \<Longrightarrow>
    PoolNum q = 0 \<Longrightarrow> waits_on k c q \<Longrightarrow> serve_step q (set_phase j Waiting (set_phase k (Handling m) q))"

lemma serve_is_queue_step: "serve_step q q' \<Longrightarrow> queue_step q q'"
  by (induction rule: serve_step.induct) (auto intro: queue_step.intros)

lemma queue_step_serves:
  assumes "queue_step q q'"
  shows "serve_step q q' \<or> (\<exists>uid msg. q' = Publish uid msg q) \<or> (\<exists>name. q' = Consumer name q)
    \<or> (\<exists>j m. j < length (workers q) \<and> w_phase (workers q ! j) = Handling m \<and> q' = set_phase j (Returning m) q)"
  using assms by (cases rule: queue_step.cases) (blast intro: serve_step.intros)+

fun phase_work :: "worker_state \<Rightarrow> nat" where
  "phase_work Waiting = 0"
| "phase_work (Handling m) = 1"
| "phase_work (Returning m) = 3"

definition queue_work :: "Memory \<Rightarrow> nat" where
  "queue_work q = 3 * length (senders q) + 2 * (\<Sum>ms \<leftarrow> chans q. length ms) + (\<Sum>w \<leftarrow> workers q. phase_work (w_phase w))"

lemma sum_list_place:
  fixes f :: "'a \<Rightarrow> nat"
  assumes "i < length xs"
  shows "(\<Sum>x \<leftarrow> xs[i := y]. f x) + f (xs ! i) = (\<Sum>x \<leftarrow> xs. f x) + f y"
  using assms by (induction xs arbitrary: i) (auto split: nat.split)

lemma work_phase:
  assumes "j < length (workers q)"
  shows "queue_work (set_phase j p q) + phase_work (w_phase (workers q ! j)) = queue_work q + phase_work p"
  using sum_list_place [OF assms, of "\<lambda>w. phase_work (w_phase w)" "(workers q ! j)\<lparr>w_phase := p\<rparr>"]
  by (simp add: queue_work_def)

lemma work_chan:
  assumes "c < length (chans q)"
  shows "queue_work (set_chan c ms q) + 2 * length (chans q ! c) = queue_work q + 2 * length ms"
  using sum_list_place [OF assms, of length ms] by (simp add: queue_work_def)

lemma work_senders:
  assumes "i < length (senders q)"
  shows "queue_work (q\<lparr>senders := drop_nth i (senders q)\<rparr>) + 3 = queue_work q"
  using assms by (simp add: queue_work_def drop_nth_def)

lemma work_handled [simp]: "queue_work (q\<lparr>handled := hs\<rparr>) = queue_work q"
  by (simp add: queue_work_def)

lemma serve_step_less:
  assumes "serve_step q q'" "queue_ok q"
  shows "queue_work q' < queue_work q"
  using assms
proof (cases rule: serve_step.cases)
  case (send i c m)
  let ?q = "q\<lparr>senders := drop_nth i (senders q)\<rparr>"
  have "c < length (chans ?q)" using sender_chan [OF assms(2) send(2,3)] by simp
  then show ?thesis using work_chan [of c ?q "chans q ! c @ [m]"] work_senders [OF send(2)]
    by (simp add: send(1) push_chan_def)
next
  case (send_direct i c m j)
  let ?q = "q\<lparr>senders := drop_nth i (senders q)\<rparr>"
  show ?thesis using work_phase [of j ?q "Handling m"] work_senders [OF send_direct(2)] send_direct(5)
    by (simp add: send_direct(1) waits_on_def)
next
  case (receive j c m ms)
  then have "c < length (chans q)" using worker_chan [OF assms(2), of j] by (auto simp: waits_on_def)
  then show ?thesis using work_phase [of j "set_chan c ms q" "Handling m"] work_chan [of c q ms] receive(2,3)
    by (simp add: receive(1) waits_on_def)
next
  case (accept j m)
  then show ?thesis using work_phase [of j "q\<lparr>handled := handled q @ [(w_name (workers q ! j), m)]\<rparr>" Waiting]
    by (simp add: accept(1))
next
  case (requeue j m c)
  have "c < length (chans q)" using worker_chan [OF assms(2) requeue(2)] requeue(4) by simp
  then show ?thesis using work_phase [of j "push_chan c m q" Waiting] work_chan [of c q "chans q ! c @ [m]"] requeue(2,3)
    by (simp add: requeue(1) push_chan_def)
next
  case (requeue_direct j m c k)
  have k: "k < length (workers q)" "w_phase (workers q ! k) = Waiting" "j \<noteq> k"
    using requeue_direct(3,6) by (auto simp: waits_on_def)
  then show ?thesis using work_phase [of j "set_phase k (Handling m) q" Waiting] work_phase [OF k(1), of "Handling m"]
      requeue_direct(2,3) by (simp add: requeue_direct(1))
qed

lemma serve_steps_bound:
  assumes "(serve_step ^^ k) q q'" "queue_ok q"
  shows "queue_ok q' \<and> queue_work q' + k \<le> queue_work q"
  using assms(1)
proof (induction k arbitrary: q')
  case 0
  then show ?case using assms(2) by simp
next
  case (Suc k)
  then obtain r where r: "(serve_step ^^ k) q r" "serve_step r q'" by auto
  then have "queue_ok r" "queue_work r + k \<le> queue_work q" using Suc.IH by simp_all
  then show ?case using serve_step_less [OF r(2)] queue_step_ok [OF serve_is_queue_step [OF r(2)]] by simp
qed

subsection \<open>And then everything is handled\<close>

text \<open>No handler has failed so far, and every message under way has a consumer of its key.\<close>

definition none_returning :: "Memory \<Rightarrow> bool" where
  "none_returning q \<longleftrightarrow> (\<forall>w \<in> set (workers q). \<forall>m. w_phase w \<noteq> Returning m)"

definition all_consumed :: "Memory \<Rightarrow> bool" where
  "all_consumed q \<longleftrightarrow> (\<forall>m \<in># in_flight q. RoutingKey m \<in> set (map w_name (workers q)))"

definition at_rest :: "Memory \<Rightarrow> bool" where
  "at_rest q \<longleftrightarrow> \<not> (\<exists>r. serve_step q r)"

lemma names_phase [simp]: "map w_name ((workers q)[i := (workers q ! i)\<lparr>w_phase := p\<rparr>]) = map w_name (workers q)"
  by (rule nth_equalityI) simp_all

lemma returning_phase: "none_returning q \<Longrightarrow> (\<forall>m. p \<noteq> Returning m) \<Longrightarrow> none_returning (set_phase i p q)"
  by (auto simp: none_returning_def dest!: set_update_subset_insert [THEN subsetD])

lemma returning_same [simp]: "none_returning (set_chan c ms q) = none_returning q"
  "none_returning (q\<lparr>senders := ss\<rparr>) = none_returning q" "none_returning (q\<lparr>handled := hs\<rparr>) = none_returning q"
  by (simp_all add: none_returning_def)

lemma serve_step_returning: "serve_step q q' \<Longrightarrow> none_returning q \<Longrightarrow> none_returning q'"
  by (induction rule: serve_step.induct) (auto simp: push_chan_def intro!: returning_phase)

lemma serve_step_names: "serve_step q q' \<Longrightarrow> map w_name (workers q') = map w_name (workers q)"
proof (induction rule: serve_step.induct)
  case (requeue_direct j q m c k)
  show ?case using names_phase [of "set_phase k (Handling m) q" j Waiting] by simp
qed (simp_all add: push_chan_def)

lemma serve_step_logs: "serve_step q q' \<Longrightarrow> published q' = published q \<and> (\<exists>hs. handled q' = handled q @ hs)"
  by (induction rule: serve_step.induct) (simp_all add: push_chan_def)

lemma serve_step_flight:
  assumes "serve_step q q'" "queue_ok q"
  shows "in_flight q' \<subseteq># in_flight q"
proof -
  obtain hs where l: "published q' = published q" "handled q' = handled q @ hs" using serve_step_logs [OF assms(1)] by auto
  have "queue_ok q'" by (rule queue_step_ok [OF serve_is_queue_step [OF assms(1)] assms(2)])
  then have "(in_flight q' + mset (map snd hs)) + mset (map snd (handled q)) = in_flight q + mset (map snd (handled q))"
    using queue_okD(1) [OF assms(2)] queue_okD(1) [of q'] l by (simp add: conserved_def ac_simps)
  then have "in_flight q' + mset (map snd hs) = in_flight q" by (rule add_right_imp_eq)
  then show ?thesis by (metis mset_subset_eq_add_left)
qed

definition served_well :: "Memory \<Rightarrow> bool" where
  "served_well q \<longleftrightarrow> queue_ok q \<and> none_returning q \<and> all_consumed q"

lemma serve_step_well:
  assumes "serve_step q q'" "served_well q"
  shows "served_well q' \<and> published q' = published q"
  using assms serve_step_returning [OF assms(1)] serve_step_logs [OF assms(1)] serve_step_flight [OF assms(1)]
    queue_step_ok [OF serve_is_queue_step [OF assms(1)]] serve_step_names [OF assms(1)]
  unfolding served_well_def all_consumed_def by (metis mset_subset_eqD)

lemma serve_steps_well: "serve_step\<^sup>*\<^sup>* q q' \<Longrightarrow> served_well q \<Longrightarrow> served_well q' \<and> published q' = published q"
  by (induction rule: rtranclp_induct) (auto dest: serve_step_well)

lemma in_flight_mem:
  "(c, m) \<in> set (senders q) \<Longrightarrow> m \<in># in_flight q"
  "c < length (chans q) \<Longrightarrow> m \<in> set (chans q ! c) \<Longrightarrow> m \<in># in_flight q"
  by (force simp: in_flight_def)+

lemma in_flight_empty:
  assumes "senders q = []" "\<forall>c < length (chans q). chans q ! c = []" "\<forall>w \<in> set (workers q). w_phase w = Waiting"
  shows "in_flight q = {#}"
proof -
  have "\<forall>ms \<in> set (chans q). ms = []" using assms(2) by (metis in_set_conv_nth)
  then show ?thesis using assms(1,3) by (simp add: in_flight_def held_eq)
qed

text \<open>While a message is under way some step is possible: its consumer accepts, receives or is sent to.\<close>

lemma at_rest_waiting:
  assumes "served_well q" "at_rest q" "w \<in> set (workers q)"
  shows "w_phase w = Waiting"
proof (cases "w_phase w")
  case (Handling m)
  then obtain j where "j < length (workers q)" "w_phase (workers q ! j) = Handling m" using assms(3) by (metis in_set_conv_nth)
  then show ?thesis using serve_step.accept assms(2) unfolding at_rest_def by blast
next
  case (Returning m)
  then show ?thesis using assms by (auto simp: served_well_def none_returning_def)
qed

lemma at_rest_consumer:
  assumes "served_well q" "at_rest q" "m \<in># in_flight q" "routed q m c"
  obtains j where "waits_on j c q"
proof -
  obtain j where j: "j < length (workers q)" "w_name (workers q ! j) = RoutingKey m"
    using assms(1,3) unfolding served_well_def all_consumed_def set_map image_iff by (metis in_set_conv_nth)
  then have "w_phase (workers q ! j) = Waiting" using at_rest_waiting [OF assms(1,2)] by simp
  moreover have "w_chan (workers q ! j) = c"
    using routes_okD(3) [OF queue_okD(3) nth_mem [OF j(1)]] assms(1,4) j(2) by (simp add: served_well_def routed_def)
  ultimately show ?thesis using j(1) that by (simp add: waits_on_def)
qed

lemma at_rest_done:
  assumes "served_well q" "at_rest q"
  shows "in_flight q = {#}"
proof -
  have ok: "queue_ok q" using assms(1) by (simp add: served_well_def)
  have ch: "chans q ! c = []" if c: "c < length (chans q)" for c
  proof (cases "chans q ! c")
    case (Cons m ms)
    then have r: "routed q m c" "m \<in># in_flight q"
      using routes_okD(2) [OF queue_okD(3) [OF ok] c] in_flight_mem(2) [OF c] by simp_all
    obtain j where "waits_on j c q" by (rule at_rest_consumer [OF assms r(2,1)])
    then show ?thesis using serve_step.receive [OF _ Cons] assms(2) unfolding at_rest_def by blast
  qed simp
  have "senders q = []"
  proof (rule ccontr)
    assume "senders q \<noteq> []"
    then obtain c m where s: "0 < length (senders q)" "senders q ! 0 = (c, m)" by (metis length_greater_0_conv surj_pair)
    then have "(c, m) \<in> set (senders q)" by (metis nth_mem)
    then have r: "routed q m c" "m \<in># in_flight q" "c < length (chans q)"
      using routes_okD(1) [OF queue_okD(3) [OF ok]] in_flight_mem(1) sender_chan [OF ok s] by simp_all
    obtain j where j: "waits_on j c q" by (rule at_rest_consumer [OF assms r(2,1)])
    show False
    proof (cases "PoolNum q = 0")
      case True
      then show ?thesis using serve_step.send_direct [OF s _ j] assms(2) unfolding at_rest_def by blast
    next
      case False
      then have "has_room c q" using ch [OF r(3)] by (simp add: has_room_def)
      then show ?thesis using serve_step.send [OF s] assms(2) unfolding at_rest_def by blast
    qed
  qed
  then show ?thesis using ch at_rest_waiting [OF assms] by (intro in_flight_empty) simp_all
qed

lemma serve_rest_exists: "queue_ok q \<Longrightarrow> \<exists>q'. serve_step\<^sup>*\<^sup>* q q' \<and> at_rest q'"
proof (induction "queue_work q" arbitrary: q rule: less_induct)
  case less
  show ?case
  proof (cases "at_rest q")
    case False
    then obtain r where r: "serve_step q r" by (auto simp: at_rest_def)
    then obtain q' where "serve_step\<^sup>*\<^sup>* r q'" "at_rest q'"
      using less.hyps [OF serve_step_less [OF r less.prems]] queue_step_ok [OF serve_is_queue_step [OF r] less.prems] by blast
    then show ?thesis using r by (blast intro: converse_rtranclp_into_rtranclp)
  qed blast
qed


text \<open>A message for a consumer that waits.\<close>

definition demo_sent :: Memory where
  "demo_sent = Publish ''u'' demo_message (Consumer ''mail'' (NewMemory 1))"

lemma demo_sent_reachable: "queue_reachable 1 demo_sent"
  unfolding queue_reachable_def demo_sent_def
  using queue_step.consumer [of "NewMemory 1" "''mail''"] queue_step.publish [of "Consumer ''mail'' (NewMemory 1)" "''u''"]
  by (meson converse_rtranclp_into_rtranclp rtranclp.rtrancl_refl)


subsection \<open>Run and Shutdown\<close>

text \<open>
  \<open>Run\<close> adds one to a wait group and returns when it is zero again; \<open>Shutdown\<close> takes one from it, which panics
  (\<open>None\<close>) when there is none.
\<close>

definition queue_Run :: "nat \<Rightarrow> nat" where
  "queue_Run wait = wait + 1"

definition queue_Shutdown :: "nat \<Rightarrow> nat option" where
  "queue_Shutdown wait = (case wait of 0 \<Rightarrow> None | Suc n \<Rightarrow> Some n)"

fun shutdowns :: "nat \<Rightarrow> nat \<Rightarrow> nat option" where
  "shutdowns 0 wait = Some wait"
| "shutdowns (Suc k) wait = (case queue_Shutdown wait of None \<Rightarrow> None | Some n \<Rightarrow> shutdowns k n)"

lemma shutdowns_iff: "shutdowns k wait = (if k \<le> wait then Some (wait - k) else None)"
  by (induction k arbitrary: wait) (auto simp: queue_Shutdown_def split: nat.splits)

text \<open>
  After \<open>n\<close> runs it takes exactly \<open>n\<close> shutdowns to let them return, and one more panics; so does one that comes
  before its run, as the services start \<open>Run\<close> in a goroutine of its own.
\<close>

lemma shutdown_matches_run:
  "shutdowns k ((queue_Run ^^ n) 0) = Some 0 \<longleftrightarrow> k = n" "shutdowns k ((queue_Run ^^ n) 0) = None \<longleftrightarrow> n < k"
proof -
  have "(queue_Run ^^ n) 0 = n" by (induction n) (simp_all add: queue_Run_def)
  then show "shutdowns k ((queue_Run ^^ n) 0) = Some 0 \<longleftrightarrow> k = n" "shutdowns k ((queue_Run ^^ n) 0) = None \<longleftrightarrow> n < k"
    by (auto simp: shutdowns_iff)
qed

end
