(* ===== verification/Sdk_Clients.thy ===== *)
theory Sdk_Clients
  imports Sdk_Cache Sdk_Message Complex_Main
begin

section \<open>Drawing captchas, the older cache, and the logger of RocketMQ\<close>

text \<open>
  What is left of the code around client libraries: drawing captchas and the store they are kept in
  (\<open>pkg/captcha\<close>), the older cache on Redis (\<open>sdk/cache/redis\<close>), the logger that RocketMQ's client is given
  (\<open>sdk/queue/rocketmq/rocketmq_log.go\<close>), the accessors of the application (\<open>sdk/runtime\<close>) and rounding
  (\<open>pkg/int.go\<close>). The libraries themselves, and the arithmetic of floating point numbers, are parameters.
\<close>

subsection \<open>Captchas\<close>

text \<open>The store the library is handed, an interface; \<open>DefaultMemStore\<close> is a variable of the library.\<close>

record 's captcha_store =
  st_Set :: "string \<Rightarrow> string \<Rightarrow> 's \<Rightarrow> go_error option \<times> 's"
  st_Get :: "string \<Rightarrow> bool \<Rightarrow> 's \<Rightarrow> string \<times> 's"
  st_Verify :: "string \<Rightarrow> string \<Rightarrow> bool \<Rightarrow> 's \<Rightarrow> bool \<times> 's"

definition NewCacheStore :: "(string, 's) ICache \<Rightarrow> string \<Rightarrow> int \<Rightarrow> 's captcha_store" where
  "NewCacheStore c prefix expiration = \<lparr>st_Set = captcha_Set c prefix expiration,
     st_Get = captcha_Get c prefix, st_Verify = captcha_Verify c prefix\<rparr>"

definition SetStore :: "'s captcha_store \<Rightarrow> 's captcha_store \<Rightarrow> 's captcha_store" where
  "SetStore s DefaultMemStore = s"

text \<open>The constructors of the library's drivers that are called; a skew is its literal.\<close>

datatype drawing = NewDriverString (ds_height: int) (ds_width: int) (ds_noise: int) (ds_lines: int) (ds_length: int)
    (ds_source: string) (ds_rgba: "int \<times> int \<times> int \<times> int") (ds_fonts: "string list")
  | NewDriverDigit (dd_height: int) (dd_width: int) (dd_length: int) (dd_skew: string) (dd_dots: int)

record ('d, 's) captcha_lib =
  make_driver :: "drawing \<Rightarrow> 'd"
  ConvertFonts :: "'d \<Rightarrow> 'd"
  Generate :: "'d \<Rightarrow> 's captcha_store \<Rightarrow> 's \<Rightarrow> (string \<times> string) res \<times> 's"

definition DriverStringFunc :: "('d, 's) captcha_lib \<Rightarrow> 's captcha_store \<Rightarrow> 's \<Rightarrow> (string \<times> string) res \<times> 's" where
  "DriverStringFunc lib DefaultMemStore s =
     Generate lib (ConvertFonts lib (make_driver lib (NewDriverString 46 140 2 2 4 ''234567890abcdefghjkmnpqrstuvwxyz''
       (240, 240, 246, 246) [''wqy-microhei.ttc'']))) DefaultMemStore s"

definition DriverDigitFunc :: "('d, 's) captcha_lib \<Rightarrow> 's captcha_store \<Rightarrow> 's \<Rightarrow> (string \<times> string) res \<times> 's" where
  "DriverDigitFunc lib DefaultMemStore s =
     Generate lib (make_driver lib (NewDriverDigit 80 240 4 ''0.7'' 80)) DefaultMemStore s"

definition store_Verify :: "'s captcha_store \<Rightarrow> string \<Rightarrow> string \<Rightarrow> bool \<Rightarrow> 's \<Rightarrow> bool \<times> 's" where
  "store_Verify DefaultMemStore i code clear s = st_Verify DefaultMemStore i code clear s"

text \<open>
  The library promises that a captcha it has drawn has its answer in the store. Whatever captcha is drawn over a
  prefixed cache can then be solved, by one answer, and only the first time it is tried.
\<close>

definition keeps_answers :: "('d, 's) captcha_lib \<Rightarrow> bool" where
  "keeps_answers lib \<longleftrightarrow> (\<forall>d st s i b s'. Generate lib d st s = (Inr (i, b), s') \<longrightarrow> (\<exists>a. st_Set st i a s = (None, s')))"

lemma drawn_captcha_solved:
  assumes "keeps_answers lib" "cache (c_Get c) (c_Set c) (c_Del c) lives" "lives expiration"
    and "f = DriverStringFunc \<or> f = DriverDigitFunc"
    and "f lib (SetStore (NewCacheStore c prefix expiration) old) s = (Inr (i, b), s1)"
  shows "\<exists>a. \<forall>code ok s2. store_Verify (NewCacheStore c prefix expiration) i code True s1 = (ok, s2) \<longrightarrow>
    ok = (a = code) \<and> (\<forall>again clear. fst (store_Verify (NewCacheStore c prefix expiration) i again clear s2) = (again = []))"
proof -
  obtain d where "Generate lib d (NewCacheStore c prefix expiration) s = (Inr (i, b), s1)"
    using assms(4,5) by (auto simp: DriverStringFunc_def DriverDigitFunc_def SetStore_def)
  then obtain a where a: "captcha_Set c prefix expiration i a s = (None, s1)"
    using assms(1) by (fastforce simp: keeps_answers_def NewCacheStore_def)
  show ?thesis
  proof (intro exI allI impI)
    fix code ok s2 assume "store_Verify (NewCacheStore c prefix expiration) i code True s1 = (ok, s2)"
    then have "captcha_Verify c prefix i code True s1 = (ok, s2)" by (simp add: store_Verify_def NewCacheStore_def)
    from captcha_cache_once [OF assms(2,3) a this]
    show "ok = (a = code) \<and> (\<forall>again clear. fst (store_Verify (NewCacheStore c prefix expiration) i again clear s2) = (again = []))"
      by (simp add: store_Verify_def NewCacheStore_def)
  qed
qed

subsection \<open>The older cache on Redis\<close>

text \<open>Its operations are calls of a client whose commands have their arguments; a reply is a string.\<close>

datatype 'v redis_cmd = Ping | GetCmd string | SetCmd string 'v int | DelCmd string | HGet string string | HDel string string
  | Incr string | Decr string | ExpireCmd string int

type_synonym ('v, 's) redis7 = "'v redis_cmd \<Rightarrow> 's \<Rightarrow> string res \<times> 's"

definition reply_err :: "'a res \<times> 's \<Rightarrow> go_error option \<times> 's" where
  "reply_err p = (case fst p of Inl e \<Rightarrow> Some e | Inr _ \<Rightarrow> None, snd p)"

definition redis7_connect :: "('v, 's) redis7 \<Rightarrow> 's \<Rightarrow> go_error option \<times> 's" where
  "redis7_connect c s = reply_err (c Ping s)"

text \<open>A client that is not given is made from the options; one that does not answer is not used.\<close>

definition NewRedis7 :: "('o \<Rightarrow> ('v, 's) redis7) \<Rightarrow> ('v, 's) redis7 option \<Rightarrow> 'o \<Rightarrow> 's \<Rightarrow> ('v, 's) redis7 res \<times> 's" where
  "NewRedis7 NewClient client options s =
     (let r = (case client of None \<Rightarrow> NewClient options | Some c \<Rightarrow> c)
      in case redis7_connect r s of (Some e, s') \<Rightarrow> (Inl e, s') | (None, s') \<Rightarrow> (Inr r, s'))"

definition redis7_Get :: "('v, 's) redis7 \<Rightarrow> string \<Rightarrow> 's \<Rightarrow> string res \<times> 's" where
  "redis7_Get r key s = r (GetCmd key) s"

definition redis7_Set :: "('v, 's) redis7 \<Rightarrow> string \<Rightarrow> 'v \<Rightarrow> int \<Rightarrow> 's \<Rightarrow> go_error option \<times> 's" where
  "redis7_Set r key v expire s = reply_err (r (SetCmd key v (i64 (expire * Second))) s)"

definition redis7_Del :: "('v, 's) redis7 \<Rightarrow> string \<Rightarrow> 's \<Rightarrow> go_error option \<times> 's" where
  "redis7_Del r key s = reply_err (r (DelCmd key) s)"

definition redis7_HashGet :: "('v, 's) redis7 \<Rightarrow> string \<Rightarrow> string \<Rightarrow> 's \<Rightarrow> string res \<times> 's" where
  "redis7_HashGet r hk key s = r (HGet hk key) s"

definition redis7_HashDel :: "('v, 's) redis7 \<Rightarrow> string \<Rightarrow> string \<Rightarrow> 's \<Rightarrow> go_error option \<times> 's" where
  "redis7_HashDel r hk key s = reply_err (r (HDel hk key) s)"

definition redis7_Increase :: "('v, 's) redis7 \<Rightarrow> string \<Rightarrow> 's \<Rightarrow> go_error option \<times> 's" where
  "redis7_Increase r key s = reply_err (r (Incr key) s)"

definition redis7_Decrease :: "('v, 's) redis7 \<Rightarrow> string \<Rightarrow> 's \<Rightarrow> go_error option \<times> 's" where
  "redis7_Decrease r key s = reply_err (r (Decr key) s)"

definition redis7_Expire :: "('v, 's) redis7 \<Rightarrow> string \<Rightarrow> int \<Rightarrow> 's \<Rightarrow> go_error option \<times> 's" where
  "redis7_Expire r key dur s = reply_err (r (ExpireCmd key dur) s)"

text \<open>A cache that is made has answered; the client that is given is the one that is used.\<close>

lemma NewRedis7_answers:
  "NewRedis7 NewClient client options s = (Inr r, s') \<Longrightarrow> (\<exists>pong. r Ping s = (Inr pong, s'))
     \<and> r = (case client of None \<Rightarrow> NewClient options | Some c \<Rightarrow> c)"
  "NewRedis7 NewClient client options s = (Inl e, s') \<Longrightarrow>
     (case client of None \<Rightarrow> NewClient options | Some c \<Rightarrow> c) Ping s = (Inl e, s')"
  by (auto simp: NewRedis7_def redis7_connect_def reply_err_def Let_def prod_eq_iff split: sum.splits option.splits)

text \<open>A lifetime of 293 years wraps around to the past, as it does in the memory cache.\<close>

lemma redis7_Set_wraps: "redis7_Set r key v 9223372037 s = reply_err (r (SetCmd key v (- 9223372036709551616)) s)"
  by (simp add: redis7_Set_def Second_def i64_def)

subsection \<open>The logger of RocketMQ's client\<close>

text \<open>
  The client of RocketMQ logs through \<open>QLoger\<close>, which hands its entries to the framework's logger. An
  operation is the list of the calls it makes there; the logger's levels are the constants of the package.
\<close>

definition PanicLevel :: nat where "PanicLevel = 0"
definition FatalLevel :: nat where "FatalLevel = 1"
definition ErrorLevel :: nat where "ErrorLevel = 2"
definition WarnLevel :: nat where "WarnLevel = 3"
definition InfoLevel :: nat where "InfoLevel = 4"
definition DebugLevel :: nat where "DebugLevel = 5"
definition TraceLevel :: nat where "TraceLevel = 6"

lemmas level_defs = PanicLevel_def FatalLevel_def ErrorLevel_def WarnLevel_def InfoLevel_def DebugLevel_def TraceLevel_def

datatype 'v log_call = LPath string | LDebug string "(string \<times> 'v) list" | LInfo string "(string \<times> 'v) list"
  | LWarning string "(string \<times> 'v) list" | LError string "(string \<times> 'v) list" | LFatal string "(string \<times> 'v) list"
  | SetLevel nat

definition log_OutputPath :: "string \<Rightarrow> 'v log_call list" where
  "log_OutputPath path = (if path = [] then [] else [LPath path])"

definition log_Debug :: "string \<Rightarrow> (string \<times> 'v) list \<Rightarrow> 'v log_call list" where
  "log_Debug msg fs = [LDebug msg fs]"

definition log_Info :: "string \<Rightarrow> (string \<times> 'v) list \<Rightarrow> 'v log_call list" where
  "log_Info msg fs = (if msg = [] \<and> fs = [] then [] else [LInfo msg fs])"

definition log_Warning :: "string \<Rightarrow> (string \<times> 'v) list \<Rightarrow> 'v log_call list" where
  "log_Warning msg fs = (if msg = [] \<and> fs = [] then [] else [LWarning msg fs])"

definition log_Error :: "string \<Rightarrow> (string \<times> 'v) list \<Rightarrow> 'v log_call list" where
  "log_Error msg fs = [LError msg fs]"

definition log_Fatal :: "string \<Rightarrow> (string \<times> 'v) list \<Rightarrow> 'v log_call list" where
  "log_Fatal msg fs = [LFatal msg fs]"

text \<open>The names it is compared with have no letter that a letter outside ASCII becomes in lower case.\<close>

definition ascii_lower :: "char \<Rightarrow> char" where
  "ascii_lower c = (if 65 \<le> (of_char c :: nat) \<and> of_char c \<le> (90 :: nat) then char_of (of_char c + 32 :: nat) else c)"

definition log_Level :: "string \<Rightarrow> 'v log_call list" where
  "log_Level level =
     (let l = map ascii_lower level
      in [SetLevel (if l = ''debug'' then DebugLevel else if l = ''warn'' then WarnLevel
            else if l = ''error'' then ErrorLevel else if l = ''fatal'' then FatalLevel else InfoLevel)])"

lemma log_Level_names:
  "log_Level ''DEBUG'' = [SetLevel DebugLevel]" "log_Level ''Warn'' = [SetLevel WarnLevel]"
  "log_Level ''panic'' = [SetLevel InfoLevel]"
  by (simp_all add: log_Level_def ascii_lower_def char_of_def bit_Suc_0_iff Let_def)

text \<open>
  The framework's logger takes a set of levels, one bit each from the fifth on, and prints an entry whose bit is
  set. No level that is set here has any of these bits, so after a call of \<open>Level\<close> nothing is printed.
\<close>

lemma log_Level_silences:
  assumes "log_Level level = [SetLevel n]" "3 \<le> k"
  shows "\<not> bit n k"
proof -
  have "n < 2 ^ 3" using assms(1) by (auto simp: log_Level_def Let_def level_defs split: if_splits)
  also have "(2::nat) ^ 3 \<le> 2 ^ k" using assms(2) by (rule power_increasing) simp
  finally show ?thesis by (simp add: bit_iff_odd)
qed

subsection \<open>The accessors of the application\<close>

definition BotRegistry :: "'o Application \<Rightarrow> 'o registry" where "BotRegistry a = botReg a"
definition CacheRegistry :: "'o Application \<Rightarrow> 'o registry" where "CacheRegistry a = cacheReg a"
definition CasBinRegistry :: "'o Application \<Rightarrow> 'o registry" where "CasBinRegistry a = casBinReg a"
definition ConfigRegister :: "'o Application \<Rightarrow> 'o registry" where "ConfigRegister a = configReg a"
definition CronRegistry :: "'o Application \<Rightarrow> 'o registry" where "CronRegistry a = crontabReg a"
definition JwtRegister :: "'o Application \<Rightarrow> 'o registry" where "JwtRegister a = jwtReg a"
definition LanguageRegister :: "'o Application \<Rightarrow> 'o registry" where "LanguageRegister a = languageReg a"
definition LockerRegistry :: "'o Application \<Rightarrow> 'o registry" where "LockerRegistry a = lockerReg a"
definition MemoryTaskRegister :: "'o Application \<Rightarrow> 'o registry" where "MemoryTaskRegister a = memoryServiceReg a"
definition MetricsRegister :: "'o Application \<Rightarrow> 'o registry" where "MetricsRegister a = metricsReg a"
definition QueueRegistry :: "'o Application \<Rightarrow> 'o registry" where "QueueRegistry a = queueReg a"
definition RabbitTaskRegister :: "'o Application \<Rightarrow> 'o registry" where "RabbitTaskRegister a = rabbitMqServiceReg a"
definition RocketTaskRegister :: "'o Application \<Rightarrow> 'o registry" where "RocketTaskRegister a = rocketMqServiceReg a"
definition ServerRegistry :: "'o Application \<Rightarrow> 'o registry" where "ServerRegistry a = serverReg a"
definition TaskRegister :: "'o Application \<Rightarrow> 'o registry" where "TaskRegister a = taskServiceReg a"
definition TusUploaderRegister :: "'o Application \<Rightarrow> 'o registry" where "TusUploaderRegister a = tusReg a"
definition WebSocketRegister :: "'o Application \<Rightarrow> 'o registry" where "WebSocketRegister a = websocketReg a"

definition registries :: "'o Application \<Rightarrow> 'o registry list" where
  "registries a = [BotRegistry a, CacheRegistry a, CasBinRegistry a, ConfigRegister a, CronRegistry a, JwtRegister a,
     LanguageRegister a, LockerRegistry a, MemoryTaskRegister a, MetricsRegister a, QueueRegistry a, RabbitTaskRegister a,
     RocketTaskRegister a, ServerRegistry a, TaskRegister a, TusUploaderRegister a, WebSocketRegister a]"

lemmas accessor_defs = BotRegistry_def CacheRegistry_def CasBinRegistry_def ConfigRegister_def CronRegistry_def
  JwtRegister_def LanguageRegister_def LockerRegistry_def MemoryTaskRegister_def MetricsRegister_def QueueRegistry_def
  RabbitTaskRegister_def RocketTaskRegister_def ServerRegistry_def TaskRegister_def TusUploaderRegister_def
  WebSocketRegister_def

text \<open>The accessors reach every registry, each its own: together they determine the application.\<close>

lemma registries_determine: "registries a = registries b \<longleftrightarrow> a = b"
  by (cases a; cases b) (auto simp: registries_def accessor_defs)

lemma registries_NewConfig: "registries NewConfig = replicate 17 Map.empty"
  by (simp add: registries_def accessor_defs NewConfig_def numeral_eq_Suc)

subsection \<open>Rounding\<close>

text \<open>The arithmetic of \<open>float64\<close> and \<open>math\<close>.\<close>

record 'f float_ops =
  f_add :: "'f \<Rightarrow> 'f \<Rightarrow> 'f"
  f_mul :: "'f \<Rightarrow> 'f \<Rightarrow> 'f"
  f_div :: "'f \<Rightarrow> 'f \<Rightarrow> 'f"
  f_half :: 'f
  Pow10 :: "int \<Rightarrow> 'f"
  Trunc :: "'f \<Rightarrow> 'f"

definition Round :: "'f float_ops \<Rightarrow> 'f \<Rightarrow> int \<Rightarrow> 'f" where
  "Round F f n = (let pow10_n = Pow10 F n
     in f_div F (Trunc F (f_mul F (f_add F f (f_div F (f_half F) pow10_n)) pow10_n)) pow10_n)"

text \<open>Over exact numbers the result is the nearest for a number that is not negative, and too high below zero.\<close>

definition trunc_real :: "real \<Rightarrow> real" where
  "trunc_real x = (if 0 \<le> x then of_int \<lfloor>x\<rfloor> else of_int \<lceil>x\<rceil>)"

definition exact_ops :: "real float_ops" where
  "exact_ops = \<lparr>f_add = (+), f_mul = (*), f_div = (/), f_half = 1 / 2, Pow10 = (\<lambda>n. 10 powi n), Trunc = trunc_real\<rparr>"

lemma Round_exact: "Round exact_ops f n = trunc_real (f * 10 powi n + 1 / 2) / 10 powi n"
  by (simp add: Round_def exact_ops_def Let_def distrib_right)

lemma Round_near:
  assumes "0 \<le> f"
  shows "\<bar>Round exact_ops f n - f\<bar> \<le> (1 / 2) / 10 powi n"
proof -
  let ?p = "10 powi n :: real"
  have p: "0 < ?p" by simp
  have "0 \<le> f * ?p" using assms p by simp
  then have "trunc_real (f * ?p + 1 / 2) = of_int \<lfloor>f * ?p + 1 / 2\<rfloor>" by (simp add: trunc_real_def)
  then have "\<bar>trunc_real (f * ?p + 1 / 2) - f * ?p\<bar> \<le> 1 / 2"
    using floor_correct [of "f * ?p + 1 / 2"] by (simp only: abs_le_iff) linarith
  then have "\<bar>trunc_real (f * ?p + 1 / 2) - f * ?p\<bar> / ?p \<le> (1 / 2) / ?p" using p by (intro divide_right_mono) simp_all
  moreover have "Round exact_ops f n - f = (trunc_real (f * ?p + 1 / 2) - f * ?p) / ?p"
    using p by (simp add: Round_exact diff_divide_distrib)
  ultimately show ?thesis using p by simp
qed

lemma Round_negative: "Round exact_ops (- 1.26) 1 = - 1.2"
proof -
  have "\<lceil>- 12.1 :: real\<rceil> = - 12" by (simp add: ceiling_eq_iff)
  then show ?thesis by (simp add: Round_exact trunc_real_def)
qed

end
