(* ===== verification/Pkg_Util.thy ===== *)
theory Pkg_Util
  imports GoStr
begin

section \<open>Utilities: database links and files\<close>

text \<open>
  The database links of \<open>pkg/db.go\<close> and the checks on files of \<open>pkg/file.go\<close> that decide something;
  the operating system's answers and the standard library's \<open>DetectContentType\<close> are parameters.
\<close>

subsection \<open>Splitting at a string\<close>

text \<open>The first occurrence of \<open>sep\<close>: what comes before it and after it.\<close>

fun find_str :: "string \<Rightarrow> string \<Rightarrow> (string \<times> string) option" where
  "find_str sep [] = (if sep = [] then Some ([], []) else None)"
| "find_str sep (c # cs) = (if has_prefix sep (c # cs) then Some ([], drop (length sep) (c # cs))
     else map_option (\<lambda>(a, b). (c # a, b)) (find_str sep cs))"

lemma find_str_split: "find_str sep s = Some (a, b) \<Longrightarrow> s = a @ sep @ b"
proof (induction sep s arbitrary: a rule: find_str.induct)
  case (1 sep)
  then show ?case by (simp split: if_splits)
next
  case (2 sep c cs)
  then show ?case by (auto simp: has_prefix_iff split: if_splits)
qed

text \<open>\<open>strings.Split\<close> at a separator that is not empty.\<close>

function split_str :: "string \<Rightarrow> string \<Rightarrow> string list" where
  "split_str sep s = (if sep = [] then [s] else
     case find_str sep s of None \<Rightarrow> [s] | Some (a, b) \<Rightarrow> a # split_str sep b)"
  by pat_completeness auto
termination
  by (relation "measure (\<lambda>(sep, s). length s)") (auto dest!: find_str_split)

declare split_str.simps [simp del]

definition contains_str :: "string \<Rightarrow> string \<Rightarrow> bool" where
  "contains_str sub s \<longleftrightarrow> find_str sub s \<noteq> None"

lemma split_str_none: "find_str sep s = None \<Longrightarrow> split_str sep s = [s]"
  by (simp add: split_str.simps)

subsection \<open>Database links\<close>

record Mysql =
  Path :: string
  Config :: string
  Dbname :: string
  Username :: string
  Password :: string
  MaxIdleConnes :: int
  MaxOpenConnes :: int
  LogMode :: bool
  LogZap :: string

definition GetDBType :: "string \<Rightarrow> string" where
  "GetDBType link = hd (split_on CHR '':'' link)"

definition Dsn :: "Mysql \<Rightarrow> string" where
  "Dsn m = Username m @ '':'' @ Password m @ ''@tcp('' @ Path m @ '')/'' @ Dbname m @ ''?'' @ Config m"

definition no_mysql :: Mysql where
  "no_mysql = \<lparr>Path = [], Config = [], Dbname = [], Username = [], Password = [], MaxIdleConnes = 0,
     MaxOpenConnes = 0, LogMode = False, LogZap = []\<rparr>"

text \<open>
  An index out of range panics (\<open>None\<close>): the test asks for two parts in one of the two places only.
\<close>

definition GetByLink :: "string \<Rightarrow> Mysql option" where
  "GetByLink link = (case split_on CHR '':'' link of
     [a0, a1, a2, a3] \<Rightarrow>
       (let b = split_str ''@tcp('' a2; c = split_str '')/'' a3;
            r = no_mysql\<lparr>Username := a1, Config := ''charset=utf8mb4&parseTime=True&loc=Local'',
                  MaxIdleConnes := 10, MaxOpenConnes := 100\<rparr>
        in if length b = 2 \<or> length c = 2
           then if length b < 2 \<or> length c < 2 then None
                else Some (r\<lparr>Password := b ! 0, Path := b ! 1 @ '':'' @ c ! 0, Dbname := c ! 1\<rparr>)
           else Some r)
   | _ \<Rightarrow> Some no_mysql)"

lemma find_str_here: "sep \<noteq> [] \<Longrightarrow> find_str sep (sep @ s) = Some ([], s)"
  by (cases sep) simp_all

lemma find_str_first:
  assumes "hd sep \<notin> set a" "sep \<noteq> []"
  shows "find_str sep (a @ sep @ s) = Some (a, s)"
  using assms
proof (induction a)
  case Nil
  then show ?case using find_str_here by simp
next
  case (Cons x a)
  then have "\<not> has_prefix sep (x # a @ sep @ s)" by (cases sep) auto
  with Cons show ?case by simp
qed

lemma find_str_absent: "hd sep \<notin> set s \<Longrightarrow> sep \<noteq> [] \<Longrightarrow> find_str sep s = None"
proof (induction s)
  case Nil
  then show ?case by simp
next
  case (Cons x s)
  then have "\<not> has_prefix sep (x # s)" by (cases sep) auto
  with Cons show ?case by simp
qed

lemma split_str_two:
  assumes "hd sep \<notin> set a" "hd sep \<notin> set b" "sep \<noteq> []"
  shows "split_str sep (a @ sep @ b) = [a, b]"
  using assms by (simp add: split_str.simps [of sep "a @ sep @ b"] find_str_first split_str_none find_str_absent)

text \<open>
  A link made of a type and a DSN is taken apart into its user, password and address, but the
  database name keeps the DSN's parameters, and these are replaced by a fixed text.
\<close>

lemma link_of_dsn:
  assumes "\<forall>s \<in> {t, u, pw, host, port, db, cfg}. CHR '':'' \<notin> set s"
    and "\<forall>s \<in> {pw, host}. CHR ''@'' \<notin> set s" "\<forall>s \<in> {port, db, cfg}. CHR '')'' \<notin> set s"
  defines "m \<equiv> no_mysql\<lparr>Username := u, Password := pw, Path := host @ '':'' @ port, Dbname := db, Config := cfg\<rparr>"
  shows "GetDBType (t @ '':'' @ Dsn m) = t"
    and "GetByLink (t @ '':'' @ Dsn m) = Some (m\<lparr>Dbname := db @ ''?'' @ cfg,
      Config := ''charset=utf8mb4&parseTime=True&loc=Local'', MaxIdleConnes := 10, MaxOpenConnes := 100\<rparr>)"
proof -
  have d: "Dsn m = u @ CHR '':'' # (pw @ ''@tcp('' @ host) @ CHR '':'' # port @ '')/'' @ db @ ''?'' @ cfg"
    by (simp add: Dsn_def m_def)
  have s: "split_on CHR '':'' (t @ '':'' @ Dsn m) = [t, u, pw @ ''@tcp('' @ host, port @ '')/'' @ db @ ''?'' @ cfg]"
  proof -
    have c: "CHR '':'' \<notin> set (pw @ ''@tcp('' @ host)" "CHR '':'' \<notin> set (port @ '')/'' @ db @ ''?'' @ cfg)"
      using assms(1) by auto
    show ?thesis
      unfolding d using assms(1) split_on_append [OF c(1)] split_on_no_sep [OF c(2)] by simp
  qed
  show "GetDBType (t @ '':'' @ Dsn m) = t" unfolding GetDBType_def s by simp
  have b: "split_str ''@tcp('' (pw @ ''@tcp('' @ host) = [pw, host]"
    using assms(2) by (intro split_str_two) simp_all
  have c: "split_str '')/'' (port @ '')/'' @ db @ ''?'' @ cfg) = [port, db @ ''?'' @ cfg]"
    using assms(3) by (intro split_str_two) auto
  show "GetByLink (t @ '':'' @ Dsn m) = Some (m\<lparr>Dbname := db @ ''?'' @ cfg,
      Config := ''charset=utf8mb4&parseTime=True&loc=Local'', MaxIdleConnes := 10, MaxOpenConnes := 100\<rparr>)"
    unfolding GetByLink_def s list.case Let_def b c by (simp add: m_def no_mysql_def)
qed

text \<open>A link that is right in one place only panics.\<close>

lemma link_panics: "GetByLink ''mysql:root:secret:3306)/shop'' = None"
  by code_simp

subsection \<open>Files\<close>

text \<open>What \<open>os.Stat\<close> answers.\<close>

datatype stat = StatDir | StatFile int | StatNotExist | StatPermission | StatError

definition PathExist :: "(string \<Rightarrow> stat) \<Rightarrow> string \<Rightarrow> bool" where
  "PathExist st addr \<longleftrightarrow> st addr = StatDir"

definition CheckExist :: "(string \<Rightarrow> stat) \<Rightarrow> string \<Rightarrow> bool" where
  "CheckExist st src \<longleftrightarrow> st src = StatNotExist"

definition CheckPermission :: "(string \<Rightarrow> stat) \<Rightarrow> string \<Rightarrow> bool" where
  "CheckPermission st src \<longleftrightarrow> st src = StatPermission"

definition IsNotExistMkDir :: "(string \<Rightarrow> stat) \<Rightarrow> (string \<Rightarrow> go_error option) \<Rightarrow> string \<Rightarrow> go_error option" where
  "IsNotExistMkDir st mkdirAll src =
     (let exist = \<not> CheckExist st src in if exist = False then mkdirAll src else None)"

text \<open>\<open>CheckExist\<close> is true exactly for what is not there.\<close>

lemma CheckExist_inverted: "st src = StatFile n \<Longrightarrow> \<not> CheckExist st src" "st src = StatNotExist \<Longrightarrow> CheckExist st src"
  by (simp_all add: CheckExist_def)

definition image_exts :: "string list" where
  "image_exts = [''ase'', ''art'', ''bmp'', ''blp'', ''cd5'', ''cit'', ''cpt'', ''cr2'', ''cut'', ''dds'', ''dib'',
     ''djvu'', ''egt'', ''exif'', ''gif'', ''gpl'', ''grf'', ''icns'', ''ico'', ''iff'', ''jng'', ''jpeg'', ''jpg'',
     ''jfif'', ''jp2'', ''jps'', ''lbm'', ''max'', ''miff'', ''mng'', ''msp'', ''nitf'', ''ota'', ''pbm'', ''pc1'',
     ''pc2'', ''pc3'', ''pcf'', ''pcx'', ''pdn'', ''pgm'', ''PI1'', ''PI2'', ''PI3'', ''pict'', ''pct'', ''pnm'',
     ''pns'', ''ppm'', ''psb'', ''psd'', ''pdd'', ''psp'', ''px'', ''pxm'', ''pxr'', ''qfx'', ''raw'', ''rle'',
     ''sct'', ''sgi'', ''rgb'', ''int'', ''bw'', ''tga'', ''tiff'', ''tif'', ''vtf'', ''xbm'', ''xcf'', ''xpm'',
     ''3dv'', ''amf'', ''ai'', ''awg'', ''cgm'', ''cdr'', ''cmx'', ''dxf'', ''e2d'', ''egt'', ''eps'', ''fs'',
     ''gbr'', ''odg'', ''svg'', ''stl'', ''vrml'', ''x3d'', ''sxd'', ''v2d'', ''vnd'', ''wmf'', ''emf'', ''art'',
     ''xar'', ''png'', ''webp'', ''jxr'', ''hdp'', ''wdp'', ''cur'', ''ecw'', ''iff'', ''lbm'', ''liff'', ''nrrd'',
     ''pam'', ''pcx'', ''pgf'', ''sgi'', ''rgb'', ''rgba'', ''bw'', ''int'', ''inta'', ''sid'', ''ras'', ''sun'',
     ''tga'']"

text \<open>
  The part of the media type after its sixth byte is looked for in the extensions; a shorter type
  would panic (\<open>None\<close>).
\<close>

definition image_type :: "string \<Rightarrow> string res option" where
  "image_type filetype = (if length filetype < 6 then None
     else Some (if list_ex (contains_str (drop 6 filetype)) image_exts then Inr filetype
                else Inl (new_error ''invalid image type'')))"

text \<open>The first 512 bytes with zeros behind them; a file that cannot be opened or read ends the process.\<close>

definition head_bytes :: "string \<Rightarrow> string" where
  "head_bytes content = take 512 content @ replicate (512 - length content) (CHR 0x00)"

definition GetImgType :: "(string \<Rightarrow> string) \<Rightarrow> (string \<Rightarrow> string option) \<Rightarrow> string \<Rightarrow> string res option" where
  "GetImgType detect file p = (case file p of None \<Rightarrow> None
     | Some [] \<Rightarrow> None
     | Some content \<Rightarrow> image_type (detect (head_bytes content)))"

text \<open>The media types that \<open>DetectContentType\<close> can answer.\<close>

definition sniffed :: "string list" where
  "sniffed = [''text/html; charset=utf-8'', ''text/xml; charset=utf-8'', ''application/pdf'', ''application/postscript'',
     ''text/plain; charset=utf-16be'', ''text/plain; charset=utf-16le'', ''text/plain; charset=utf-8'', ''image/x-icon'',
     ''image/bmp'', ''image/gif'', ''image/webp'', ''image/png'', ''image/jpeg'', ''audio/aiff'', ''audio/mpeg'',
     ''application/ogg'', ''audio/midi'', ''video/avi'', ''audio/wave'', ''application/vnd.ms-fontobject'',
     ''font/ttf'', ''font/otf'', ''font/collection'', ''font/woff'', ''font/woff2'', ''application/x-gzip'',
     ''application/zip'', ''application/x-rar-compressed'', ''application/wasm'', ''video/mp4'', ''video/webm'',
     ''audio/basic'', ''application/octet-stream'']"

definition image_accepts :: "string \<Rightarrow> bool" where
  "image_accepts t = (image_type t = Some (Inr t))"

text \<open>
  Of these it accepts the common image types, but neither icons nor only images: two kinds of fonts
  pass, as the end of their names is part of an extension.
\<close>

lemma image_types_accepted:
  "filter image_accepts sniffed
     = [''image/bmp'', ''image/gif'', ''image/webp'', ''image/png'', ''image/jpeg'', ''font/ttf'', ''font/otf'']"
  by code_simp

end
