(* ===== verification/Pkg_File.thy ===== *)
theory Pkg_File
  imports Pkg_Util
begin

section \<open>Utilities: walking, following and saving files; addresses\<close>

text \<open>
  The rest of \<open>pkg/file.go\<close> on a file system that maps paths to contents, and \<open>pkg/ip.go\<close>. The operating
  system's answers, the order in which it lists a directory, and a remote service are parameters.
\<close>

type_synonym disk = "string \<rightharpoonup> string"

subsection \<open>Replacing a text in all files\<close>

text \<open>
  \<open>strings.Replace\<close> of every occurrence: the parts between the occurrences joined by the new text. An empty
  old text matches before every rune and at the end.
\<close>

fun join_str :: "string \<Rightarrow> string list \<Rightarrow> string" where
  "join_str sep [] = []"
| "join_str sep [p] = p"
| "join_str sep (p # ps) = p @ sep @ join_str sep ps"

function rune_parts :: "string \<Rightarrow> string list" where
  "rune_parts s = (case decode_rune s of None \<Rightarrow> [] | Some (r, w) \<Rightarrow> take w s # rune_parts (drop w s))"
  by pat_completeness auto
termination
  by (relation "measure length") (auto dest!: decode_rune_width)

declare rune_parts.simps [simp del]

definition ReplaceAll :: "string \<Rightarrow> string \<Rightarrow> string \<Rightarrow> string" where
  "ReplaceAll s old new = (if old = [] then new @ concat (map (\<lambda>r. r @ new) (rune_parts s))
     else join_str new (split_str old s))"

text \<open>
  An entry of a walk: its path, whether it is a directory or a file (\<open>None\<close> for a nil \<open>FileInfo\<close>), and
  the error of the walk at this path. Reading and writing may fail.
\<close>

record entry =
  en_path :: string
  en_info :: "(bool \<times> int) option"
  en_err :: "go_error option"

record ReplaceHelper =
  Root :: string
  OldText :: string
  NewText :: string

definition walkCallback :: "ReplaceHelper \<Rightarrow> (string \<Rightarrow> go_error option) \<Rightarrow> (string \<Rightarrow> go_error option) \<Rightarrow> entry \<Rightarrow> disk
    \<Rightarrow> go_error option \<times> disk" where
  "walkCallback h read_err write_err en d = (case en_err en of
     Some e \<Rightarrow> (Some e, d)
   | None \<Rightarrow> (case en_info en of
       None \<Rightarrow> (None, d)
     | Some (isDir, _) \<Rightarrow> if isDir then (None, d)
         else (case (read_err (en_path en), d (en_path en)) of
           (Some e, _) \<Rightarrow> (Some e, d)
         | (None, None) \<Rightarrow> (Some (new_error ''no such file''), d)
         | (None, Some content) \<Rightarrow> (case write_err (en_path en) of
             Some e \<Rightarrow> (Some e, d)
           | None \<Rightarrow> (None, d(en_path en \<mapsto> ReplaceAll content (OldText h) (NewText h)))))))"

text \<open>\<open>filepath.Walk\<close> visits the entries in order and ends at the first error.\<close>

fun walk_entries :: "(entry \<Rightarrow> disk \<Rightarrow> go_error option \<times> disk) \<Rightarrow> entry list \<Rightarrow> disk \<Rightarrow> go_error option \<times> disk" where
  "walk_entries f [] d = (None, d)"
| "walk_entries f (en # ens) d = (case f en d of (Some e, d') \<Rightarrow> (Some e, d') | (None, d') \<Rightarrow> walk_entries f ens d')"

definition DoWork :: "ReplaceHelper \<Rightarrow> (string \<Rightarrow> go_error option) \<Rightarrow> (string \<Rightarrow> go_error option) \<Rightarrow> (string \<Rightarrow> entry list)
    \<Rightarrow> disk \<Rightarrow> go_error option \<times> disk" where
  "DoWork h read_err write_err list d = walk_entries (walkCallback h read_err write_err) (list (Root h)) d"

definition file_paths :: "entry list \<Rightarrow> string list" where
  "file_paths ens = concat (map (\<lambda>en. case en_info en of Some (False, _) \<Rightarrow> [en_path en] | _ \<Rightarrow> []) ens)"

lemma walk_replaces:
  assumes "walk_entries (walkCallback h read_err write_err) ens d = (None, d')" "distinct (file_paths ens)"
  shows "d' = (\<lambda>p. if p \<in> set (file_paths ens) then map_option (\<lambda>s. ReplaceAll s (OldText h) (NewText h)) (d p) else d p)"
  using assms
proof (induction ens arbitrary: d)
  case Nil
  then show ?case by (simp add: file_paths_def)
next
  case (Cons en ens)
  obtain d1 where d1: "walkCallback h read_err write_err en d = (None, d1)"
    "walk_entries (walkCallback h read_err write_err) ens d1 = (None, d')"
    using Cons.prems(1) by (auto split: prod.splits option.splits)
  have ps: "file_paths (en # ens) = (case en_info en of Some (False, _) \<Rightarrow> [en_path en] | _ \<Rightarrow> []) @ file_paths ens"
    by (simp add: file_paths_def)
  then have "distinct (file_paths ens)" using Cons.prems(2) by simp
  note IH = Cons.IH [OF d1(2) this]
  show ?case
  proof (cases "\<exists>n. en_info en = Some (False, n)")
    case True
    then have p: "file_paths (en # ens) = en_path en # file_paths ens" by (auto simp: ps)
    then have "en_path en \<notin> set (file_paths ens)" using Cons.prems(2) by simp
    moreover have "\<exists>c. d (en_path en) = Some c \<and> d1 = d(en_path en \<mapsto> ReplaceAll c (OldText h) (NewText h))"
      using d1(1) True by (auto simp: walkCallback_def split: option.splits)
    ultimately show ?thesis unfolding p IH by (auto simp: fun_eq_iff)
  next
    case False
    then have same: "file_paths (en # ens) = file_paths ens" by (auto simp: ps split: option.splits bool.splits)
    have keep: "d1 = d" using d1(1) False by (auto simp: walkCallback_def split: option.splits prod.splits if_splits)
    show ?thesis by (simp only: IH same keep)
  qed
qed

text \<open>
  When \<open>DoWork\<close> answers no error, every file it was shown has every occurrence replaced, and no other
  file has changed.
\<close>

lemma DoWork_replaces:
  assumes "DoWork h read_err write_err list d = (None, d')" "distinct (file_paths (list (Root h)))"
  shows "p \<in> set (file_paths (list (Root h))) \<Longrightarrow> d' p = map_option (\<lambda>s. ReplaceAll s (OldText h) (NewText h)) (d p)"
    and "p \<notin> set (file_paths (list (Root h))) \<Longrightarrow> d' p = d p"
  using walk_replaces [OF assms(1) [unfolded DoWork_def] assms(2)] by simp_all

lemma ReplaceAll_absent: "old \<noteq> [] \<Longrightarrow> find_str old s = None \<Longrightarrow> ReplaceAll s old new = s"
  by (simp add: ReplaceAll_def split_str_none)

lemma ReplaceAll_first:
  assumes "old \<noteq> []" "find_str old s = Some (a, b)"
  shows "ReplaceAll s old new = a @ new @ ReplaceAll b old new"
proof -
  have s: "split_str old s = a # split_str old b" using assms by (simp add: split_str.simps)
  have "split_str old b \<noteq> []" by (subst split_str.simps) (simp split: option.split)
  then show ?thesis using assms(1) by (cases "split_str old b") (simp_all add: ReplaceAll_def s)
qed

text \<open>Replacing a text by itself changes nothing.\<close>

lemma ReplaceAll_same:
  assumes "old \<noteq> []"
  shows "ReplaceAll s old old = s"
proof (induction "length s" arbitrary: s rule: less_induct)
  case less
  show ?case
  proof (cases "find_str old s")
    case None
    then show ?thesis by (rule ReplaceAll_absent [OF assms])
  next
    case (Some ab)
    then obtain a b where ab: "find_str old s = Some (a, b)" by (cases ab) simp
    then have s: "s = a @ old @ b" by (rule find_str_split)
    then have "length b < length s" using assms by simp
    with less ReplaceAll_first [OF assms ab, of old] s show ?thesis by simp
  qed
qed

subsection \<open>Following a file\<close>

text \<open>
  \<open>FileMonitoringById\<close> reads on from the end of the file. \<open>unread\<close> is what has been appended and not read
  yet; other processes append while it runs. A read up to the next line end gives the line to the hook; at
  the end of the file it answers what there is together with \<open>io.EOF\<close>, and the loop goes round without
  it. The loop runs until its context ends; any other error of a read ends the process.
\<close>

datatype tail_event = Appended string | Polled

record monitor =
  unread :: string
  lines :: "string list"

definition monitor_poll :: "monitor \<Rightarrow> monitor" where
  "monitor_poll m = (if CHR 0x0A \<in> set (unread m)
     then m\<lparr>unread := tl (dropWhile (\<lambda>c. c \<noteq> CHR 0x0A) (unread m)),
            lines := lines m @ [takeWhile (\<lambda>c. c \<noteq> CHR 0x0A) (unread m) @ [CHR 0x0A]]\<rparr>
     else m\<lparr>unread := []\<rparr>)"

fun monitor_step :: "tail_event \<Rightarrow> monitor \<Rightarrow> monitor" where
  "monitor_step (Appended s) m = m\<lparr>unread := unread m @ s\<rparr>"
| "monitor_step Polled m = monitor_poll m"

definition FileMonitoringById :: "tail_event list \<Rightarrow> monitor" where
  "FileMonitoringById es = foldl (\<lambda>m e. monitor_step e m) \<lparr>unread = [], lines = []\<rparr> es"

definition appended :: "tail_event list \<Rightarrow> string" where
  "appended es = concat (map (\<lambda>e. case e of Appended s \<Rightarrow> s | Polled \<Rightarrow> []) es)"

definition whole_lines :: "string \<Rightarrow> bool" where
  "whole_lines s \<longleftrightarrow> s = [] \<or> last s = CHR 0x0A"

definition only_whole_lines :: "tail_event list \<Rightarrow> bool" where
  "only_whole_lines es \<longleftrightarrow> (\<forall>s. Appended s \<in> set es \<longrightarrow> whole_lines s)"

lemma whole_lines_append: "whole_lines s \<Longrightarrow> whole_lines t \<Longrightarrow> whole_lines (s @ t)"
  by (cases "t = []") (auto simp: whole_lines_def last_append)

lemma monitor_poll_whole:
  assumes "whole_lines (unread m)"
  shows "concat (lines (monitor_poll m)) @ unread (monitor_poll m) = concat (lines m) @ unread m"
    and "whole_lines (unread (monitor_poll m))"
proof -
  let ?nl = "\<lambda>c. c \<noteq> CHR 0x0A"
  have split: "unread m = takeWhile ?nl (unread m) @ CHR 0x0A # tl (dropWhile ?nl (unread m))" if "CHR 0x0A \<in> set (unread m)"
  proof -
    have "dropWhile ?nl (unread m) \<noteq> []" "\<not> ?nl (hd (dropWhile ?nl (unread m)))"
      using that hd_dropWhile [of ?nl "unread m"] by (auto simp: dropWhile_eq_Nil_conv)
    then show ?thesis by (metis (mono_tags, lifting) list.collapse takeWhile_dropWhile_id)
  qed
  have none: "unread m = []" if "CHR 0x0A \<notin> set (unread m)"
    using assms that by (metis last_in_set whole_lines_def)
  show "concat (lines (monitor_poll m)) @ unread (monitor_poll m) = concat (lines m) @ unread m"
    using split none by (auto simp: monitor_poll_def)
  show "whole_lines (unread (monitor_poll m))"
  proof (cases "CHR 0x0A \<in> set (unread m)")
    case True
    then have "whole_lines (takeWhile ?nl (unread m) @ CHR 0x0A # tl (dropWhile ?nl (unread m)))" using split assms by simp
    then show ?thesis using True by (cases "tl (dropWhile ?nl (unread m))") (auto simp: whole_lines_def monitor_poll_def)
  qed (simp add: monitor_poll_def whole_lines_def)
qed

text \<open>
  As long as only whole lines are appended, nothing is lost: the lines handed on followed by what is
  unread are all that was appended.
\<close>

lemma monitor_whole:
  assumes "only_whole_lines es"
  shows "concat (lines (FileMonitoringById es)) @ unread (FileMonitoringById es) = appended es
    \<and> whole_lines (unread (FileMonitoringById es))"
  using assms
proof (induction es rule: rev_induct)
  case Nil
  then show ?case by (simp add: FileMonitoringById_def appended_def whole_lines_def)
next
  case (snoc e es)
  have IH: "concat (lines (FileMonitoringById es)) @ unread (FileMonitoringById es) = appended es"
    "whole_lines (unread (FileMonitoringById es))" using snoc by (auto simp: only_whole_lines_def)
  have step: "FileMonitoringById (es @ [e]) = monitor_step e (FileMonitoringById es)"
    "appended (es @ [e]) = appended es @ (case e of Appended s \<Rightarrow> s | Polled \<Rightarrow> [])"
    by (simp_all add: FileMonitoringById_def appended_def)
  show ?case
  proof (cases e)
    case (Appended s)
    then have "whole_lines s" using snoc.prems by (simp add: only_whole_lines_def)
    then show ?thesis unfolding step using IH Appended by (simp add: whole_lines_append flip: append_assoc)
  next
    case Polled
    then show ?thesis unfolding step using IH monitor_poll_whole [OF IH(2)] by simp
  qed
qed

text \<open>A line that is appended in two parts with a poll in between loses its first part.\<close>

lemma monitor_loses:
  assumes "CHR 0x0A \<notin> set a" "CHR 0x0A \<notin> set b"
  shows "lines (FileMonitoringById [Appended a, Polled, Appended (b @ [CHR 0x0A]), Polled]) = [b @ [CHR 0x0A]]"
proof -
  have "takeWhile (\<lambda>c. c \<noteq> CHR 0x0A) (b @ [CHR 0x0A]) = b" using assms(2) by (induction b) auto
  then show ?thesis using assms by (simp add: FileMonitoringById_def monitor_poll_def)
qed

subsection \<open>Sizes, extensions and saving\<close>

text \<open>
  \<open>GetFileSize\<close> keeps the size of the last entry it walks to and ignores the error it is given: for a path
  that does not exist the entry has no information, and the call panics (\<open>None\<close>).
\<close>

fun size_walk :: "entry list \<Rightarrow> int \<Rightarrow> int option" where
  "size_walk [] result = Some result"
| "size_walk (en # ens) result = (case en_info en of None \<Rightarrow> None | Some (_, n) \<Rightarrow> size_walk ens n)"

definition GetFileSize :: "(string \<Rightarrow> entry list) \<Rightarrow> string \<Rightarrow> int option" where
  "GetFileSize list filename = size_walk (list filename) 0"

lemma GetFileSize_file: "list p = [\<lparr>en_path = p, en_info = Some (False, n), en_err = None\<rparr>] \<Longrightarrow> GetFileSize list p = Some n"
  by (simp add: GetFileSize_def)

lemma GetFileSize_missing: "list p = [\<lparr>en_path = p, en_info = None, en_err = Some e\<rparr>] \<Longrightarrow> GetFileSize list p = None"
  by (simp add: GetFileSize_def)

definition GetCurrentPath :: "string \<Rightarrow> string" where
  "GetCurrentPath dir = map (\<lambda>c. if c = CHR 0x5C then CHR ''/'' else c) dir"

definition GetSize :: "string \<times> go_error option \<Rightarrow> int \<times> go_error option" where
  "GetSize r = (int (length (fst r)), snd r)"

text \<open>\<open>path.Ext\<close>: from the last dot of the last segment.\<close>

fun ext_loop :: "string \<Rightarrow> string \<Rightarrow> string" where
  "ext_loop [] acc = []"
| "ext_loop (c # cs) acc = (if c = CHR ''/'' then [] else if c = CHR ''.'' then c # acc else ext_loop cs (c # acc))"

definition GetExt :: "string \<Rightarrow> string" where
  "GetExt fileName = ext_loop (rev fileName) []"

lemma ext_loop_plain: "CHR ''.'' \<notin> set s \<Longrightarrow> CHR ''/'' \<notin> set s \<Longrightarrow> ext_loop (rev s @ t) acc = ext_loop t (s @ acc)"
  by (induction s arbitrary: acc t rule: rev_induct) auto

lemma GetExt_of: "CHR ''.'' \<notin> set e \<Longrightarrow> CHR ''/'' \<notin> set e \<Longrightarrow> GetExt (base @ CHR ''.'' # e) = CHR ''.'' # e"
  using ext_loop_plain [of e "CHR ''.'' # rev base" "[]"] by (simp add: GetExt_def)

definition MkDir :: "(string \<Rightarrow> go_error option) \<Rightarrow> string \<Rightarrow> go_error option" where
  "MkDir mkdirAll src = mkdirAll src"

definition PathCreate :: "(string \<Rightarrow> go_error option) \<Rightarrow> string \<Rightarrow> go_error option" where
  "PathCreate mkdirAll dir = mkdirAll dir"

definition file_Open :: "(string \<Rightarrow> int \<Rightarrow> nat \<Rightarrow> 'f res) \<Rightarrow> string \<Rightarrow> int \<Rightarrow> nat \<Rightarrow> 'f res" where
  "file_Open openFile name flag perm = (case openFile name flag perm of Inl e \<Rightarrow> Inl e | Inr f \<Rightarrow> Inr f)"

definition FileCreate :: "(string \<Rightarrow> go_error option) \<Rightarrow> (string \<Rightarrow> nat option) \<Rightarrow> string \<Rightarrow> string \<Rightarrow> disk \<Rightarrow> disk" where
  "FileCreate create_err short content name d =
     (if create_err name \<noteq> None then d
      else d(name \<mapsto> (case short name of None \<Rightarrow> content | Some n \<Rightarrow> take n content)))"

text \<open>
  Saving a form file: \<open>open_err\<close> and \<open>create_err\<close> come before anything is written, \<open>copy_err\<close> is an error after
  so many bytes.
\<close>

definition SaveUploadedFile :: "string res \<Rightarrow> (string \<Rightarrow> go_error option) \<Rightarrow> (nat \<times> go_error) option \<Rightarrow> string \<Rightarrow> disk
    \<Rightarrow> go_error option \<times> disk" where
  "SaveUploadedFile src create_err copy_err dst d = (case src of
     Inl e \<Rightarrow> (Some e, d)
   | Inr content \<Rightarrow> (case create_err dst of
       Some e \<Rightarrow> (Some e, d)
     | None \<Rightarrow> (case copy_err of
         Some (n, e) \<Rightarrow> (Some e, d(dst \<mapsto> take n content))
       | None \<Rightarrow> (None, d(dst \<mapsto> content)))))"

lemma SaveUploadedFile_saves:
  assumes "SaveUploadedFile src create_err copy_err dst d = (None, d')"
  shows "\<exists>content. src = Inr content \<and> d' = d(dst \<mapsto> content)"
  using assms by (auto simp: SaveUploadedFile_def split: sum.splits option.splits)

text \<open>Like \<open>GetImgType\<close>, but a file that cannot be read is taken for one of zeros.\<close>

definition GetType :: "(string \<Rightarrow> string) \<Rightarrow> (string \<Rightarrow> string option) \<Rightarrow> string \<Rightarrow> string option" where
  "GetType detect file p = map_option (\<lambda>content. detect (head_bytes content)) (file p)"

subsection \<open>Addresses\<close>

text \<open>
  \<open>GetLocation\<close> answers a fixed text for the local machine (the bytes of its UTF-8 form), else what the
  remote service says: country, city, region and provider.
\<close>

definition local_ip :: string where
  "local_ip = map char_of [0xE5::nat, 0x86, 0x85, 0xE9, 0x83, 0xA8] @ ''IP''"

definition location_url :: "string \<Rightarrow> string" where
  "location_url ip = ''http://ip-api.com/json/'' @ ip @ ''?lang=zh-CN''"

definition GetLocation :: "(string \<Rightarrow> (string \<times> string \<times> string \<times> string) res) \<Rightarrow> string \<Rightarrow> string" where
  "GetLocation post ip =
     (if ip = ''127.0.0.1'' \<or> ip = ''localhost'' then local_ip
      else case post (location_url ip) of
        Inl e \<Rightarrow> []
      | Inr (country, city, regionName, isp) \<Rightarrow> country @ ''-'' @ city @ ''-'' @ regionName @ ''-'' @ isp)"

text \<open>An address of an interface: no IP network, or its text with whether it is loopback and IPv4.\<close>

record iface =
  is_up :: bool
  addrs :: "(string \<times> bool \<times> bool) option list"

fun pick_addr :: "(string \<times> bool \<times> bool) option list \<Rightarrow> string option" where
  "pick_addr [] = None"
| "pick_addr (None # as) = pick_addr as"
| "pick_addr (Some (ip, loopback, v4) # as) = (if \<not> loopback \<and> v4 then Some ip else pick_addr as)"

fun GetLocalHost :: "iface list \<Rightarrow> string" where
  "GetLocalHost [] = []"
| "GetLocalHost (i # is) = (if is_up i then (case pick_addr (addrs i) of Some ip \<Rightarrow> ip | None \<Rightarrow> GetLocalHost is)
     else GetLocalHost is)"

lemma pick_addr_Some: "pick_addr as = Some ip \<Longrightarrow> Some (ip, False, True) \<in> set as"
  by (induction as rule: pick_addr.induct) (auto split: if_splits)

text \<open>The answer is the address of an interface that is up, IPv4 and not loopback, or empty.\<close>

lemma GetLocalHost_is:
  "GetLocalHost is = [] \<or> (\<exists>i \<in> set is. is_up i \<and> Some (GetLocalHost is, False, True) \<in> set (addrs i))"
proof (induction "is" rule: GetLocalHost.induct)
  case (2 i "is")
  then show ?case by (auto split: option.split dest: pick_addr_Some)
qed simp

end
