(* ===== verification/Spec2Isabelle.thy ===== *)
theory Spec2Isabelle
  imports Tus_FileServer Ws_Props Ws_Merger Sec_AesProps Sec_Rc4 Sec_Rsa Sec_Password Otp Export_Exact Sdk_Config Sdk_Http Sdk_Drain Sdk_Clients Pkg_File
begin

text \<open>
  Verification library for plus-core, a Go toolkit for servers on the GoFrame framework. The
  repository has three modules: \<open>pkg\<close> (upload server, websocket hub, ciphers, one-time passwords,
  spreadsheet export and utilities), \<open>core\<close> (interfaces and option records) and \<open>sdk\<close>
  (implementations of queues, caches, registries, services, middleware and configuration).

  \<^bold>\<open>Conventions.\<close> A Go string or byte slice is a HOL \<open>string\<close>, a \<open>char\<close> being a byte. An \<open>int64\<close>
  or \<open>int\<close> is an \<open>int\<close> with \<open>i64\<close> (\<open>i32\<close> for \<open>int32\<close>) written out where it may overflow, an
  unsigned counter a \<open>word\<close>. An error is a value of \<open>go_error\<close> in a sum, a panic is \<open>None\<close>. State is
  passed explicitly; goroutines are step relations over a state in which every critical section
  is one step. A nil map, pointer or function is \<open>None\<close> where nil matters. Definitions have the
  names of the code, with a suffix or prefix where HOL or another part has the name already.
  Loops are structural recursions or have their termination proved; the only fuel is that of
  the JSON parser, two units for every byte and two more, which its recursion never exceeds, with
  Go's nesting limit of 10000.

  \<^bold>\<open>Foundations.\<close> \<open>Prelude\<close> (results, 64-bit integers, splitting of strings, headers), \<open>GoStr\<close>
  (\<open>strconv\<close>, \<open>strings.TrimSpace\<close>, UTF-8), \<open>Codec\<close> (base64, base32, hex and query escapes with their
  round trips), \<open>Json\<close> (encoder and parser), \<open>GoPath\<close> (\<open>filepath.Join\<close> and \<open>Clean\<close>), \<open>Hash\<close> (SHA-1, HMAC,
  SHA-512) are the parts of Go's standard library that the code uses.

  \<^bold>\<open>The upload server\<close> (\<open>pkg/tus\<close>). \<open>Tus_Base\<close>: errors, file information, hooks, metrics, body
  reader. \<open>Tus_Common\<close>: metadata, identifiers and paths, hosts, media types (\<open>common.go\<close>).
  \<open>Tus_Store\<close>: the store interfaces as records of operations (\<open>datastore.go\<close>), composer and
  configuration, and their contracts as the locales \<open>data_store\<close>, \<open>full_store\<close> and \<open>locker\<close> with an
  abstract view of each upload. \<open>Tus_Handlers\<close> and \<open>Tus_Api\<close>: \<open>tus.go\<close>, \<open>api.go\<close>, \<open>middleware.go\<close> and
  \<open>response.go\<close>, a handler being a function on the world of store, locks, response, metrics and
  announcements. \<open>Tus_FileStore\<close> (\<open>filestore\<close>, on a file system that is a map from paths) and
  \<open>Tus_Lockers\<close> (\<open>memorylocker\<close>, \<open>filelocker\<close>) provide the contracts and interpret the locales.
  \<open>Tus_Server\<close> proves the handlers correct once against the contracts, in the locale \<open>tus_server\<close>;
  \<open>Tus_FileServer\<close> states the properties of the server over the file store: what POST, PATCH, HEAD,
  GET and DELETE do on success and on refusal, that no upload outgrows its size, that locks are
  exclusive and released. Bodies of requests are lists of chunks with a possible read error.

  \<^bold>\<open>The websocket hub\<close> (\<open>pkg/ws\<close>). \<open>Ws_Base\<close> (queues, protocol, statistics), \<open>Ws_Connection\<close>,
  \<open>Ws_Bucket\<close> (buckets and rooms, with the locale \<open>room_registry\<close>), \<open>Ws_ConnMgr\<close> (manager and pushes),
  \<open>Ws_Router\<close> (the request loop), \<open>Ws_Hub\<close> (the step relation \<open>ws_step\<close> of the whole hub and its
  invariants), \<open>Ws_Dispatch\<close> (accounting of pushes), \<open>Ws_Props\<close> (the properties) and \<open>Ws_Merger\<close> (the
  batching of pushes with its timers, \<open>merge_step\<close>).

  \<^bold>\<open>Security\<close> (\<open>pkg/security\<close>, \<open>pkg/goauth\<close>, \<open>pkg/otp\<close>). \<open>Sec_Base\<close> has the interface \<open>Crypto\<close> as the
  locale \<open>crypto\<close>; \<open>Sec_Aes\<close> with \<open>Sec_AesProps\<close>, \<open>Sec_Rc4\<close> and \<open>Sec_Rsa\<close> model the ciphers and prove
  their round trips, AES rounds also against the field arithmetic of the standard and with schedules and states
  that are bytes throughout; \<open>Sec_Password\<close>
  the salted hashes. A text encrypted by AES has at most \<open>16 * (2 ^ 32 - 1)\<close> bytes after escaping
  (\<open>aes_fits\<close>), beyond which encryption and decryption use different counters. \<open>Goauth\<close> models the
  checks of one-time passwords (locale \<open>one_time\<close>: no step is accepted twice), \<open>Otp\<close> their generation
  and the agreement of the two packages.

  \<^bold>\<open>Export\<close> (\<open>pkg/export.go\<close>). \<open>Export_Reflect\<close> (tags and fields through \<open>reflect\<close>), \<open>Export_Base\<close> (options,
  and the workbook as the sequence of calls made on the spreadsheet package), \<open>Export_Run\<close> (all
  methods of \<open>Export\<close>), \<open>Export_Props\<close> (loops over rows, pages and sheets against a package that does
  not fail) and \<open>Export_Exact\<close> (which rows arrive, how sheets are filled, what is left after an
  error, and examples where the sheet size is not kept). Quotients of floats are taken as exact,
  as they are for totals below \<open>2 ^ 53\<close>.

  \<^bold>\<open>The kit\<close> (\<open>sdk\<close>, \<open>core\<close>). \<open>Sdk_Message\<close> (messages, registries, application), \<open>Sdk_Queue\<close> (the memory
  queue with its goroutines as \<open>queue_step\<close>; conservation of messages, and the worker that waits for
  itself), \<open>Sdk_Drain\<close> (the abstract queue it refines, a bag of messages and a log of those accepted; the
  measure by which every run without failures ends, and that all is handled then), \<open>Sdk_Cache\<close> (memory cache, cache on Redis, prefixes, lockers and captchas, with the locale
  \<open>cache\<close>), \<open>Core_Options\<close> (options of the queues), \<open>Sdk_Service\<close> (task services, cron jobs, encrypting
  middleware), \<open>Sdk_Broker\<close> (the queues on RabbitMQ, RocketMQ, NSQ and Redis over the calls of their
  clients, concurrent deliveries as \<open>header_step\<close>, wrapped handlers; what a service really consumes and
  what of a message arrives), \<open>Sdk_Config\<close> (\<open>sdk/config\<close>: options of the clients from the settings, and the
  set-up of queues, cache, locker and upload server), \<open>Sdk_Http\<close> (responses, languages, the application's
  configuration), \<open>Sdk_Clients\<close> (drawing captchas, the older cache on Redis, the logger of RocketMQ, the
  application's accessors, rounding), \<open>Pkg_Util\<close> and \<open>Pkg_File\<close> (database links, files, addresses). A client library's
  connections, consumers and configurations are numbers in these theories.

  \<^bold>\<open>Parameters.\<close> Outside the repository, and arguments of the definitions: the clock and random
  numbers, \<open>lockfile\<close>, the websocket library and the network, PEM and X.509 parsing, the QR encoder,
  the table of \<open>unicode.ToUpper\<close>, the spreadsheet package, \<open>gconv\<close>, the framework's cache and
  scheduler, its configuration and conversions, the clients of the brokers and of Redis, the captcha library, the
  language package, \<open>os.Stat\<close>, walks over directories and \<open>DetectContentType\<close>. Their documented behaviour appears as named
  hypotheses (\<open>quiet\<close>, \<open>gcache_ok\<close>, \<open>rsa_pair\<close> and the like), each met by a concrete instance.

  \<^bold>\<open>Not modelled.\<close> The text that is logged, apart from the calls of RocketMQ's logger. Declarations of interfaces
  (\<open>core\<close>), whose implementations are the records of operations above. The names that \<open>String\<close> methods answer,
  the variables that hold the one instance of a service and the methods that return it. Floating point
  arithmetic: rounding (\<open>pkg/int.go\<close>) is over a parameter, instantiated with the reals.
\<close>

section \<open>Properties across components\<close>


text \<open>A format of responses that carries their data only, for the example.\<close>

definition data_only :: "string \<Rightarrow> JsonRes option" where
  "data_only s = Some (no_res\<lparr>jr_Data := s\<rparr>)"


end
